(* ===== verification/Tpt_Prelude.thy ===== *)
theory Tpt_Prelude
  imports Main "HOL-Library.Word" "HOL-Library.Monad_Syntax"
begin

unbundle bit_operations_syntax

section \<open>Prelude: shared types, automation and generic lemmas\<close>

text \<open>
  The vocabulary every component theory uses: names for the machine integers and pointers of
  the C sources, the reachability relation of the step systems together with the locale that
  turns "it holds at the start and every step keeps it" into "it holds in every reachable
  state", and generic lemmas on lists, options and words.
\<close>

named_theorems tpt_simps \<open>unfolding rules of the C-level operations\<close>
named_theorems tpt_inv \<open>invariant preservation facts\<close>

subsection \<open>Machine integers and pointers\<close>

type_synonym u8 = "8 word"
type_synonym u32 = "32 word"
type_synonym u64 = "64 word"

text \<open>A C pointer into a heap of objects addressed by numbers; \<open>None\<close> is \<open>NULL\<close>.\<close>

type_synonym addr = nat
type_synonym cptr = "addr option"

abbreviation NULL :: "'a option" where
  "NULL \<equiv> None"

lemma word_less_nat: "(a :: 'a::len word) < b \<longleftrightarrow> unat a < unat b"
  by (rule word_less_nat_alt)

lemma unat_Suc_less:
  fixes a :: "'a::len word"
  assumes "a < b"
  shows "unat (a + 1) = Suc (unat a)"
proof -
  have "a + 1 \<noteq> 0"
  proof
    assume "a + 1 = 0"
    then have "a = - 1" by (simp add: eq_neg_iff_add_eq_0)
    with assms show False by simp
  qed
  then show ?thesis using unatSuc [of a] by (simp add: add.commute)
qed

subsection \<open>Option results\<close>

text \<open>
  An operation that can hit undefined behaviour (a null or dangling pointer, an access outside
  an object) or not return yields an option; these rules take such a result apart.
\<close>

lemma bind_eq_SomeI: "m = Some x \<Longrightarrow> f x = Some y \<Longrightarrow> Option.bind m f = Some y"
  by simp

lemma bind_SomeE:
  assumes "Option.bind m f = Some y"
  obtains x where "m = Some x" and "f x = Some y"
  using assms by (cases m) auto

lemma those_map_Some: "those (map Some bs) = Some bs"
  by (induction bs) auto

subsection \<open>Reachability and invariants of step systems\<close>

inductive reach :: "('s \<Rightarrow> bool) \<Rightarrow> ('s \<Rightarrow> 's \<Rightarrow> bool) \<Rightarrow> 's \<Rightarrow> bool"
  for init :: "'s \<Rightarrow> bool" and step :: "'s \<Rightarrow> 's \<Rightarrow> bool" where
  reach_init: "init s \<Longrightarrow> reach init step s"
| reach_step: "reach init step s \<Longrightarrow> step s t \<Longrightarrow> reach init step t"

locale inv_system =
  fixes init :: "'s \<Rightarrow> bool"
    and step :: "'s \<Rightarrow> 's \<Rightarrow> bool"
    and inv :: "'s \<Rightarrow> bool"
  assumes init_inv: "init s \<Longrightarrow> inv s"
    and step_inv: "inv s \<Longrightarrow> step s t \<Longrightarrow> inv t"
begin

lemma reach_inv: "reach init step s \<Longrightarrow> inv s"
  by (induction rule: reach.induct) (auto intro: init_inv step_inv)

lemma star_inv: "step\<^sup>*\<^sup>* s t \<Longrightarrow> inv s \<Longrightarrow> inv t"
  by (induction rule: rtranclp.induct) (auto intro: step_inv)

end

text \<open>
  A step system whose steps decrease a measure stops: every run from a state is at most as
  long as the measure there, and a state without successors is reached.
\<close>

locale terminating_system = inv_system +
  fixes size_of :: "'s \<Rightarrow> nat"
  assumes step_decreases: "inv s \<Longrightarrow> step s t \<Longrightarrow> size_of t < size_of s"
begin

lemma runs_to_end: "inv s \<Longrightarrow> \<exists>t. step\<^sup>*\<^sup>* s t \<and> (\<forall>u. \<not> step t u)"
proof (induction "size_of s" arbitrary: s rule: less_induct)
  case less
  show ?case
  proof (cases "\<exists>u. step s u")
    case True
    then obtain u where u: "step s u" by blast
    have "inv u" and "size_of u < size_of s"
      using less.prems u step_inv step_decreases by blast+
    then obtain t where "step\<^sup>*\<^sup>* u t" and "\<forall>v. \<not> step t v"
      using less.hyps by blast
    with u show ?thesis by (meson converse_rtranclp_into_rtranclp)
  next
    case False
    then show ?thesis by blast
  qed
qed

lemma steps_bounded: "(step ^^ n) s t \<Longrightarrow> inv s \<Longrightarrow> n + size_of t \<le> size_of s"
proof (induction n arbitrary: t)
  case (Suc n)
  then obtain u where u: "(step ^^ n) s u" "step u t" by auto
  have "inv u" using u(1) Suc.prems(2) star_inv relpowp_imp_rtranclp by metis
  then have "size_of t < size_of u" using u(2) step_decreases by blast
  with Suc.IH [OF u(1) Suc.prems(2)] show ?case by simp
qed simp

end

end
