(* ===== verification/Zigzag.thy ===== *)
theory Zigzag
  imports Tpt_Prelude
begin

unbundle bit_operations_syntax

section \<open>Zigzag encoding\<close>

text \<open>
  Models \<open>src/src/encoding/zigzag/zigzag.c\<close>. An \<open>int64_t\<close> is a 64-bit word read with
  \<open>sint\<close>, a \<open>uint64_t\<close> the same word read with \<open>uint\<close>; the two shifts of the encoder are
  \<open>push_bit\<close> and the arithmetic \<open>signed_drop_bit\<close>, the shift of the decoder the logical
  \<open>drop_bit\<close>. The lemmas show that the two functions are inverse to each other on all 64-bit
  values and what number the encoding of a number is.
\<close>

definition zigzag_encode_int64 :: "u64 \<Rightarrow> u64" where
  "zigzag_encode_int64 num = push_bit 1 num XOR signed_drop_bit 63 num"

definition zigzag_decode_uint64 :: "u64 \<Rightarrow> u64" where
  "zigzag_decode_uint64 num = drop_bit 1 num XOR (- (num AND 1))"

lemma bit_signed_drop_63: "bit (signed_drop_bit 63 (w :: u64)) i \<longleftrightarrow> i < 64 \<and> bit w 63"
  using bit_imp_le_length [of w "63 + i"] by (auto simp: bit_signed_drop_bit_iff not_le)

lemma minus_odd_bit: "- ((w :: u64) AND 1) = (if bit w 0 then - 1 else 0)"
  by (simp add: and_one_eq bit_0 odd_iff_mod_2_eq_one)

lemma bit_zigzag_encode:
  "bit (zigzag_encode_int64 w) i \<longleftrightarrow>
     i < 64 \<and> (if i = 0 then bit w 63 else bit w (i - 1) \<noteq> bit w 63)"
  using bit_imp_le_length [of w]
  by (auto simp: zigzag_encode_int64_def bit_xor_iff bit_signed_drop_63 bit_push_bit_iff
      simp del: push_bit_Suc push_bit_of_Suc_0 push_bit_numeral)

lemma bit_zigzag_decode:
  "bit (zigzag_decode_uint64 w) i \<longleftrightarrow> i < 64 \<and> (bit w (Suc i) \<noteq> bit w 0)"
  by (auto simp: zigzag_decode_uint64_def minus_odd_bit bit_xor_iff bit_drop_bit_eq
      dest: bit_imp_le_length)

lemma zigzag_encode_by_sign:
  "zigzag_encode_int64 w = (if bit w 63 then NOT (2 * w) else 2 * w)"
proof (rule bit_word_eqI)
  fix i
  assume "i < LENGTH(64)"
  then show "bit (zigzag_encode_int64 w) i =
      bit (if bit w 63 then NOT (2 * w) else 2 * w) i"
    by (cases i) (auto simp: bit_zigzag_encode bit_not_iff bit_double_iff)
qed

lemma take_bit_uint64: "take_bit 64 (uint (w :: u64)) = uint w"
  using unsigned_less [of w] by (intro take_bit_int_eq_self) simp_all

lemma sint_by_top_bit: "sint (w :: u64) = uint w - (if bit w 63 then 2 ^ 64 else 0)"
  by (simp add: sint_uint signed_take_bit_eq_take_bit_minus bit_uint_iff take_bit_uint64)

lemma double_mod:
  assumes "(2 :: int) ^ 63 \<le> x" and "x < 2 ^ 64"
  shows "2 * x mod 2 ^ 64 = 2 * x - 2 ^ 64"
proof -
  have "2 * x mod 2 ^ 64 = (2 * x - 2 ^ 64 + 2 ^ 64) mod 2 ^ 64" by simp
  also have "\<dots> = (2 * x - 2 ^ 64) mod 2 ^ 64" by (rule mod_add_self2)
  also have "\<dots> = 2 * x - 2 ^ 64" using assms by (intro mod_pos_pos_trivial) simp_all
  finally show ?thesis .
qed

lemma uint_double:
  "uint (2 * (w :: u64)) = (if uint w < 2 ^ 63 then 2 * uint w else 2 * uint w - 2 ^ 64)"
proof -
  have "uint (2 * w) = 2 * uint w mod 2 ^ 64"
    by (simp add: uint_word_ariths)
  moreover have "uint w < 2 ^ 64" using unsigned_less [of w] by simp
  ultimately show ?thesis
    using double_mod [of "uint w"] mod_pos_pos_trivial [of "2 * uint w" "2 ^ 64"] by auto
qed

lemma uint_NOT64: "uint (NOT (w :: u64)) = 2 ^ 64 - 1 - uint w"
  by (simp add: unsigned_not_eq take_bit_not_eq_mask_diff mask_eq_exp_minus_1 take_bit_uint64)

text \<open>
  C12: decoding what \<open>zigzag_encode_int64\<close> produced gives the number back, for every
  \<open>int64_t\<close>.
\<close>

theorem zigzag_decode_encode: "zigzag_decode_uint64 (zigzag_encode_int64 num) = num"
proof (rule bit_word_eqI)
  fix i
  assume "i < LENGTH(64)"
  then show "bit (zigzag_decode_uint64 (zigzag_encode_int64 num)) i = bit num i"
    by (cases "i = 63") (auto simp: bit_zigzag_encode bit_zigzag_decode)
qed

theorem zigzag_encode_decode: "zigzag_encode_int64 (zigzag_decode_uint64 z) = z"
proof (rule bit_word_eqI)
  fix i
  assume "i < LENGTH(64)"
  then show "bit (zigzag_encode_int64 (zigzag_decode_uint64 z)) i = bit z i"
    using bit_imp_le_length [of z 64]
    by (cases i) (auto simp: bit_zigzag_encode bit_zigzag_decode)
qed

text \<open>
  The encoding is the zigzag order: a non-negative \<open>n\<close> becomes \<open>2 * n\<close> and a negative
  one \<open>- 2 * n - 1\<close>, as unsigned numbers and without overflow for any \<open>int64_t\<close>.
\<close>

theorem zigzag_encode_value:
  "uint (zigzag_encode_int64 num) =
     (if 0 \<le> sint num then 2 * sint num else - 2 * sint num - 1)"
proof (cases "bit num 63")
  case True
  then have s: "sint num = uint num - 2 ^ 64" by (simp add: sint_by_top_bit)
  moreover have "uint num < 2 ^ 64" and "- (2 ^ 63) \<le> sint num"
    using unsigned_less [of num] sint_greater_eq [of num] by simp_all
  ultimately have bounds: "2 ^ 63 \<le> uint num" "sint num < 0" by simp_all
  have "uint (2 * num) = 2 * uint num - 2 ^ 64"
    using uint_double [of num] bounds(1) \<open>uint num < 2 ^ 64\<close> by auto
  then show ?thesis
    using True s bounds(2) by (simp add: zigzag_encode_by_sign uint_NOT64)
next
  case False
  then have s: "sint num = uint num" by (simp add: sint_by_top_bit)
  have "uint num < 2 ^ 63" using sint_less [of num] s by simp
  then have "uint (2 * num) = 2 * uint num" using uint_double [of num] by simp
  then show ?thesis using False s by (simp add: zigzag_encode_by_sign)
qed

end
