(* ===== verification/Conn_Queue.thy ===== *)
theory Conn_Queue
  imports Tpt_Prelude
begin

section \<open>The connection manager's queue\<close>

text \<open>
  Models \<open>src/src/networking/conn_mgr/conn_mgr_queue.c\<close>: a singly linked queue of \<open>void *\<close>
  items with head and tail pointers. The heap of queue items is a map from addresses to items;
  a queue argument is \<open>None\<close> when the caller passes \<open>NULL\<close>. The result of \<open>malloc\<close> is an
  argument (\<open>None\<close> when it fails). An operation that would follow a null or dangling pointer
  has the result \<open>None\<close>, and so has a loop that does not end.

  The lemmas relate the pointer structure to the list of its data (\<open>queue_rel\<close>): every
  operation keeps the representation, never follows a bad pointer and acts on the list as
  a double-ended queue should. The locale \<open>data_queue\<close> states that contract for the pool.
\<close>

record conn_mgr_queue_item_t =
  item_data :: addr
  item_next :: cptr

record conn_mgr_queue_t =
  q_head :: cptr
  q_tail :: cptr

type_synonym item_heap = "addr \<rightharpoonup> conn_mgr_queue_item_t"
type_synonym qmem = "conn_mgr_queue_t option \<times> item_heap"

subsection \<open>The operations\<close>

definition conn_mgr_queue_init :: "conn_mgr_queue_t option \<Rightarrow> conn_mgr_queue_t option" where
  "conn_mgr_queue_init queue =
     (case queue of NULL \<Rightarrow> NULL | Some q \<Rightarrow> Some \<lparr>q_head = NULL, q_tail = NULL\<rparr>)"

definition conn_mgr_queue_push_head :: "cptr \<Rightarrow> cptr \<Rightarrow> qmem \<Rightarrow> qmem" where
  "conn_mgr_queue_push_head malloc_item data m =
     (case m of (queue, h) \<Rightarrow>
       (case queue of NULL \<Rightarrow> m | Some q \<Rightarrow>
         (case data of NULL \<Rightarrow> m | Some d \<Rightarrow>
           (case malloc_item of NULL \<Rightarrow> m | Some item \<Rightarrow>
             (let h' = h(item \<mapsto> \<lparr>item_data = d, item_next = q_head q\<rparr>);
                  q' = q\<lparr>q_head := Some item\<rparr>;
                  q'' = (if q_tail q' = NULL then q'\<lparr>q_tail := Some item\<rparr> else q')
              in (Some q'', h'))))))"

definition conn_mgr_queue_push_tail :: "cptr \<Rightarrow> cptr \<Rightarrow> qmem \<Rightarrow> qmem option" where
  "conn_mgr_queue_push_tail malloc_item data m =
     (case m of (queue, h) \<Rightarrow>
       (case queue of NULL \<Rightarrow> Some m | Some q \<Rightarrow>
         (case data of NULL \<Rightarrow> Some m | Some d \<Rightarrow>
           (case malloc_item of NULL \<Rightarrow> Some m | Some item \<Rightarrow>
             (let h' = h(item \<mapsto> \<lparr>item_data = d, item_next = NULL\<rparr>)
              in case q_tail q of
                   Some t \<Rightarrow>
                     (case h' t of NULL \<Rightarrow> None
                      | Some it \<Rightarrow> Some (Some (q\<lparr>q_tail := Some item\<rparr>),
                                          h'(t \<mapsto> it\<lparr>item_next := Some item\<rparr>)))
                 | NULL \<Rightarrow> Some (Some (q\<lparr>q_head := Some item, q_tail := Some item\<rparr>), h'))))))"

definition conn_mgr_queue_pop_head :: "qmem \<Rightarrow> (cptr \<times> qmem) option" where
  "conn_mgr_queue_pop_head m =
     (case m of (queue, h) \<Rightarrow>
       (case queue of NULL \<Rightarrow> Some (NULL, m) | Some q \<Rightarrow>
         (case q_head q of NULL \<Rightarrow> Some (NULL, m) | Some item \<Rightarrow>
           (case h item of NULL \<Rightarrow> None
            | Some it \<Rightarrow>
               (let q' = (if item_next it = NULL then q\<lparr>q_tail := NULL\<rparr> else q)
                in Some (Some (item_data it),
                         (Some (q'\<lparr>q_head := item_next it\<rparr>), h(item := None))))))))"

partial_function (option) length_loop :: "item_heap \<Rightarrow> cptr \<Rightarrow> u32 \<Rightarrow> u32 option" where
  "length_loop h item count =
     (case item of NULL \<Rightarrow> Some count
      | Some a \<Rightarrow>
         (case h a of NULL \<Rightarrow> None | Some it \<Rightarrow> length_loop h (item_next it) (count + 1)))"

definition conn_mgr_queue_get_length :: "qmem \<Rightarrow> u32 option" where
  "conn_mgr_queue_get_length m =
     (case fst m of NULL \<Rightarrow> None | Some q \<Rightarrow> length_loop (snd m) (q_head q) 0)"

partial_function (option) print_loop :: "item_heap \<Rightarrow> cptr \<Rightarrow> addr list option" where
  "print_loop h item =
     (case item of NULL \<Rightarrow> Some []
      | Some a \<Rightarrow>
         (case h a of NULL \<Rightarrow> None
          | Some it \<Rightarrow> Option.bind (print_loop h (item_next it)) (\<lambda>ds. Some (item_data it # ds))))"

text \<open>
  The result is the list of arguments the callback is called with, in order; \<open>has_callback\<close> is
  whether the caller passed one.
\<close>

definition conn_mgr_queue_print :: "bool \<Rightarrow> qmem \<Rightarrow> addr list option" where
  "conn_mgr_queue_print has_callback m =
     (if \<not> has_callback then Some []
      else case fst m of NULL \<Rightarrow> None | Some q \<Rightarrow> print_loop (snd m) (q_head q))"

declare length_loop.simps [code] print_loop.simps [code]

subsection \<open>The list a queue represents\<close>

primrec chain :: "item_heap \<Rightarrow> cptr \<Rightarrow> addr list \<Rightarrow> bool" where
  "chain h p [] \<longleftrightarrow> p = NULL"
| "chain h p (a # as) \<longleftrightarrow>
     p = Some a \<and> (case h a of NULL \<Rightarrow> False | Some it \<Rightarrow> chain h (item_next it) as)"

definition queue_wf :: "qmem \<Rightarrow> addr list \<Rightarrow> bool" where
  "queue_wf m as \<longleftrightarrow>
     (case m of (NULL, h) \<Rightarrow> False
      | (Some q, h) \<Rightarrow> chain h (q_head q) as \<and> distinct as \<and>
          q_tail q = (if as = [] then NULL else Some (last as)))"

definition cell_data :: "item_heap \<Rightarrow> addr \<Rightarrow> addr" where
  "cell_data h a = (case h a of NULL \<Rightarrow> 0 | Some it \<Rightarrow> item_data it)"

text \<open>
  \<open>queue_rel m h0 xs\<close>: the queue represents the list \<open>xs\<close> and the heap is \<open>h0\<close> plus exactly
  the cells of the queue, so that a cell that is lost, or freed while in use, breaks it.
\<close>

definition queue_rel :: "qmem \<Rightarrow> item_heap \<Rightarrow> addr list \<Rightarrow> bool" where
  "queue_rel m h0 xs \<longleftrightarrow>
     (\<exists>as. queue_wf m as \<and> xs = map (cell_data (snd m)) as \<and> snd m |` (- set as) = h0)"

lemma chain_upd [simp]: "a \<notin> set as \<Longrightarrow> chain (h(a := v)) p as = chain h p as"
  by (induction as arbitrary: p) (auto split: option.splits)

lemma chain_dom: "chain h p as \<Longrightarrow> set as \<subseteq> dom h"
  by (induction as arbitrary: p) (auto split: option.splits)

lemma chain_fresh: "chain h p as \<Longrightarrow> h a = None \<Longrightarrow> a \<notin> set as"
  using chain_dom by fastforce

lemma cell_data_upd [simp]:
  "cell_data (h(a \<mapsto> it)) b = (if b = a then item_data it else cell_data h b)"
  by (simp add: cell_data_def)

lemma map_cell_data_upd [simp]:
  "a \<notin> set as \<Longrightarrow> map (cell_data (h(a := v))) as = map (cell_data h) as"
  by (auto simp: cell_data_def)

lemma chain_snoc:
  "chain h p as \<Longrightarrow> distinct as \<Longrightarrow> as \<noteq> [] \<Longrightarrow> h item = None \<Longrightarrow>
   \<exists>it. h (last as) = Some it \<and>
     chain (h(item \<mapsto> \<lparr>item_data = d, item_next = NULL\<rparr>,
              last as \<mapsto> it\<lparr>item_next := Some item\<rparr>)) p (as @ [item])"
proof (induction as arbitrary: p)
  case (Cons a as)
  from Cons.prems obtain it where it: "h a = Some it" "chain h (item_next it) as" "p = Some a"
    by (auto split: option.splits)
  from Cons.prems(4) it(1) have ne: "a \<noteq> item" by auto
  show ?case
  proof (cases "as = []")
    case True
    then show ?thesis using it ne by simp
  next
    case False
    have "distinct as" using Cons.prems(2) by simp
    from Cons.IH [OF it(2) this False Cons.prems(4)] obtain it' where
      "h (last as) = Some it'" and
      "chain (h(item \<mapsto> \<lparr>item_data = d, item_next = NULL\<rparr>,
              last as \<mapsto> it'\<lparr>item_next := Some item\<rparr>)) (item_next it) (as @ [item])"
      by blast
    moreover have "last as \<noteq> a" using False Cons.prems(2) by (metis distinct.simps(2) last_in_set)
    ultimately show ?thesis using False it ne by (auto simp del: fun_upd_apply simp: fun_upd_other)
  qed
qed simp

lemma length_loop_simps [simp]:
  "length_loop h NULL count = Some count"
  "length_loop h (Some a) count =
     (case h a of NULL \<Rightarrow> None | Some it \<Rightarrow> length_loop h (item_next it) (count + 1))"
  by (subst length_loop.simps, simp)+

lemma print_loop_simps [simp]:
  "print_loop h NULL = Some []"
  "print_loop h (Some a) =
     (case h a of NULL \<Rightarrow> None
      | Some it \<Rightarrow> Option.bind (print_loop h (item_next it)) (\<lambda>ds. Some (item_data it # ds)))"
  by (subst print_loop.simps, simp)+

lemma chain_length_loop:
  "chain h p as \<Longrightarrow> length_loop h p count = Some (count + of_nat (length as))"
  by (induction as arbitrary: p count)
    (auto simp: algebra_simps split: option.splits)

lemma chain_print_loop:
  "chain h p as \<Longrightarrow> print_loop h p = Some (map (cell_data h) as)"
  by (induction as arbitrary: p)
    (auto simp: cell_data_def split: option.splits)

lemma queue_relE:
  assumes "queue_rel m h0 xs"
  obtains q h as where "m = (Some q, h)" and "chain h (q_head q) as" and "distinct as"
    and "q_tail q = (if as = [] then NULL else Some (last as))" and "xs = map (cell_data h) as"
    and "h |` (- set as) = h0"
proof (cases m)
  case (Pair p h)
  with assms that show thesis
    by (cases p) (auto simp: queue_rel_def queue_wf_def)
qed

lemma queue_relI:
  assumes "chain h (q_head q) as" and "distinct as"
    and "q_tail q = (if as = [] then NULL else Some (last as))" and "xs = map (cell_data h) as"
    and "h |` (- set as) = h0"
  shows "queue_rel (Some q, h) h0 xs"
  using assms by (auto simp: queue_rel_def queue_wf_def)

lemma chain_unique: "chain h p as \<Longrightarrow> chain h p bs \<Longrightarrow> as = bs"
proof (induction as arbitrary: p bs)
  case Nil
  then show ?case by (cases bs) auto
next
  case (Cons a as)
  then show ?case by (cases bs) (auto split: option.splits)
qed

lemma queue_rel_unique: "queue_rel m h0 xs \<Longrightarrow> queue_rel m h1 ys \<Longrightarrow> xs = ys"
  by (auto elim!: queue_relE dest: chain_unique)

lemma restrict_new_cell: "h a = None \<Longrightarrow> (h(a := v)) |` (- insert a A) = h |` (- A)"
  by (auto simp: restrict_map_def fun_eq_iff)

lemma restrict_upd_cell: "a \<in> A \<Longrightarrow> (h(a := v)) |` (- A) = h |` (- A)"
  by (auto simp: restrict_map_def fun_eq_iff)

lemma restrict_free_cell: "a \<notin> A \<Longrightarrow> (h(a := None)) |` (- A) = h |` (- insert a A)"
  by (auto simp: restrict_map_def fun_eq_iff)

lemma restrict_UNIV [simp]: "h |` UNIV = h"
  by (auto simp: restrict_map_def)

subsection \<open>What the operations do to the list\<close>

lemma queue_init_rel: "queue_rel (conn_mgr_queue_init (Some q), h) h []"
  by (auto simp: conn_mgr_queue_init_def intro: queue_relI [of _ _ "[]"])

lemma push_head_rel:
  assumes "queue_rel m h0 xs" and "snd m item = None"
  shows "queue_rel (conn_mgr_queue_push_head (Some item) (Some d) m) h0 (d # xs)"
proof -
  obtain q h as where m: "m = (Some q, h)" "chain h (q_head q) as" "distinct as"
    "q_tail q = (if as = [] then NULL else Some (last as))" "xs = map (cell_data h) as"
    "h |` (- set as) = h0"
    using assms(1) by (rule queue_relE)
  have fr: "item \<notin> set as" "h item = None" using m(1,2) assms(2) by (auto dest: chain_fresh)
  have "(h(item \<mapsto> it)) |` (- set (item # as)) = h0" for it
    using restrict_new_cell [of h item _ "set as"] fr(2) m(6) by simp
  then have "queue_rel (Some q', h(item \<mapsto> \<lparr>item_data = d, item_next = q_head q\<rparr>)) h0 (d # xs)"
    if "q_head q' = Some item" and "q_tail q' = Some (last (item # as))" for q'
    using that m fr by (intro queue_relI [of _ _ "item # as"]) auto
  then show ?thesis
    using m(4) unfolding m(1) conn_mgr_queue_push_head_def
    by (cases "as = []") (auto simp: Let_def)
qed

lemma push_tail_rel:
  assumes "queue_rel m h0 xs" and "snd m item = None"
  shows "\<exists>m'. conn_mgr_queue_push_tail (Some item) (Some d) m = Some m' \<and>
    queue_rel m' h0 (xs @ [d]) \<and> dom (snd m') = insert item (dom (snd m))"
proof -
  obtain q h as where m: "m = (Some q, h)" "chain h (q_head q) as" "distinct as"
    "q_tail q = (if as = [] then NULL else Some (last as))" "xs = map (cell_data h) as"
    "h |` (- set as) = h0"
    using assms(1) by (rule queue_relE)
  have fr: "item \<notin> set as" "h item = None" using m(1,2) assms(2) by (auto dest: chain_fresh)
  show ?thesis
  proof (cases "as = []")
    case True
    have "(h(item \<mapsto> \<lparr>item_data = d, item_next = NULL\<rparr>)) |` (- set [item]) = h0"
      using restrict_new_cell [of h item _ "set as"] fr(2) m(6) True by simp
    then show ?thesis
      unfolding m(1) conn_mgr_queue_push_tail_def using m(4,5) True
      by (auto simp: Let_def intro!: queue_relI [of _ _ "[item]"])
  next
    case False
    obtain it where it: "h (last as) = Some it" and
      ch: "chain (h(item \<mapsto> \<lparr>item_data = d, item_next = NULL\<rparr>,
              last as \<mapsto> it\<lparr>item_next := Some item\<rparr>)) (q_head q) (as @ [item])"
      using chain_snoc [OF m(2,3) False fr(2), of d] by auto
    let ?h = "h(item \<mapsto> \<lparr>item_data = d, item_next = NULL\<rparr>,
                last as \<mapsto> it\<lparr>item_next := Some item\<rparr>)"
    have ne: "last as \<noteq> item" using fr False by auto
    have "cell_data ?h a = cell_data h a" if "a \<in> set as" for a
      using that fr it by (auto simp: cell_data_def)
    moreover have "?h |` (- set (as @ [item])) = h0"
      using restrict_new_cell [of h item _ "set as"] fr(2) m(6) False
      by (simp add: restrict_upd_cell)
    ultimately have "queue_rel (Some (q\<lparr>q_tail := Some item\<rparr>), ?h) h0 (xs @ [d])"
      using ch m(3,5) fr ne
      by (intro queue_relI [of _ _ "as @ [item]"]) (auto simp: cell_data_def)
    then show ?thesis
      unfolding m(1) conn_mgr_queue_push_tail_def using m(4) False it ne by auto
  qed
qed

lemma pop_head_empty:
  "queue_rel m h0 [] \<Longrightarrow> conn_mgr_queue_pop_head m = Some (NULL, m)"
  by (erule queue_relE) (simp add: conn_mgr_queue_pop_head_def)

lemma pop_head_cons:
  assumes "queue_rel m h0 (x # xs)"
  shows "\<exists>m'. conn_mgr_queue_pop_head m = Some (Some x, m') \<and> queue_rel m' h0 xs"
proof -
  obtain q h as where m: "m = (Some q, h)" "chain h (q_head q) as" "distinct as"
    "q_tail q = (if as = [] then NULL else Some (last as))" "x # xs = map (cell_data h) as"
    "h |` (- set as) = h0"
    using assms by (rule queue_relE)
  then obtain a bs where as: "as = a # bs" "x = cell_data h a" "xs = map (cell_data h) bs"
    by auto
  obtain it where it: "h a = Some it" "chain h (item_next it) bs" "q_head q = Some a"
    using m(2) as(1) by (auto split: option.splits)
  have nil: "item_next it = NULL \<longleftrightarrow> bs = []" using it(2) by (cases bs) auto
  let ?q = "(if item_next it = NULL then q\<lparr>q_tail := NULL\<rparr> else q)\<lparr>q_head := item_next it\<rparr>"
  have "(h(a := None)) |` (- set bs) = h0"
    using restrict_free_cell [of a "set bs" h] m(3,6) as(1) by (auto simp del: fun_upd_None_restrict)
  then have "queue_rel (Some ?q, h(a := None)) h0 xs"
    using m(3,4) as it nil by (intro queue_relI [of _ _ bs]) auto
  then show ?thesis
    using it as(2) unfolding m(1) conn_mgr_queue_pop_head_def
    by (auto simp: Let_def cell_data_def)
qed

lemma get_length_rel:
  "queue_rel m h0 xs \<Longrightarrow> conn_mgr_queue_get_length m = Some (of_nat (length xs))"
  by (erule queue_relE) (simp add: conn_mgr_queue_get_length_def chain_length_loop)

lemma print_rel: "queue_rel m h0 xs \<Longrightarrow> conn_mgr_queue_print True m = Some xs"
  by (erule queue_relE) (simp add: conn_mgr_queue_print_def chain_print_loop)

lemma empty_heap: "queue_rel m h0 [] \<Longrightarrow> snd m = h0"
  by (erule queue_relE) simp

subsection \<open>The contract the pool relies on\<close>

partial_function (option) drain ::
    "('s \<Rightarrow> ('d option \<times> 's) option) \<Rightarrow> 's \<Rightarrow> ('d list \<times> 's) option" where
  "drain pop s = do {
     (x, s') \<leftarrow> pop s;
     case x of NULL \<Rightarrow> Some ([], s')
     | Some d \<Rightarrow> do { (ds, s'') \<leftarrow> drain pop s'; Some (d # ds, s'') } }"

declare drain.simps [code]

locale data_queue =
  fixes rel :: "'s \<Rightarrow> 'h \<Rightarrow> 'd list \<Rightarrow> bool"
    and push :: "'a \<Rightarrow> 'd \<Rightarrow> 's \<Rightarrow> 's"
    and pop :: "'s \<Rightarrow> ('d option \<times> 's) option"
    and is_fresh :: "'s \<Rightarrow> 'a \<Rightarrow> bool"
  assumes push_law: "rel s h xs \<Longrightarrow> is_fresh s a \<Longrightarrow> rel (push a d s) h (d # xs)"
    and pop_nil: "rel s h [] \<Longrightarrow> pop s = Some (None, s)"
    and pop_cons: "rel s h (x # xs) \<Longrightarrow> \<exists>s'. pop s = Some (Some x, s') \<and> rel s' h xs"
begin

lemma drain_all: "rel s h xs \<Longrightarrow> \<exists>s'. drain pop s = Some (xs, s') \<and> rel s' h []"
proof (induction xs arbitrary: s)
  case Nil
  then show ?case by (subst drain.simps) (simp add: pop_nil)
next
  case (Cons x xs)
  then obtain s' where "pop s = Some (Some x, s')" and "rel s' h xs"
    using pop_cons by blast
  moreover obtain s'' where "drain pop s' = Some (xs, s'')" and "rel s'' h []"
    using Cons.IH [OF \<open>rel s' h xs\<close>] by blast
  ultimately show ?case by (subst drain.simps) simp
qed

lemma push_then_pop:
  assumes "rel s h xs" and "is_fresh s a"
  shows "\<exists>s'. pop (push a d s) = Some (Some d, s') \<and> rel s' h xs"
  using pop_cons [OF push_law [OF assms]] .

end

interpretation connq: data_queue queue_rel
    "\<lambda>a d. conn_mgr_queue_push_head (Some a) (Some d)" conn_mgr_queue_pop_head
    "\<lambda>m a. snd m a = None"
  by unfold_locales (fact push_head_rel pop_head_empty pop_head_cons)+

subsection \<open>Filling and emptying a queue\<close>

fun push_tails :: "(addr \<times> addr) list \<Rightarrow> qmem \<Rightarrow> qmem option" where
  "push_tails [] m = Some m"
| "push_tails ((item, d) # ps) m =
     Option.bind (conn_mgr_queue_push_tail (Some item) (Some d) m) (push_tails ps)"

lemma push_tails_rel:
  "queue_rel m h0 xs \<Longrightarrow> distinct (map fst ps) \<Longrightarrow> set (map fst ps) \<inter> dom (snd m) = {} \<Longrightarrow>
   \<exists>m'. push_tails ps m = Some m' \<and> queue_rel m' h0 (xs @ map snd ps)"
proof (induction ps arbitrary: m xs)
  case (Cons p ps)
  obtain item d where p: "p = (item, d)" by (cases p)
  obtain m1 where m1: "conn_mgr_queue_push_tail (Some item) (Some d) m = Some m1"
    "queue_rel m1 h0 (xs @ [d])" "dom (snd m1) = insert item (dom (snd m))"
    using push_tail_rel [OF Cons.prems(1), of item d] Cons.prems(3) p by (force simp: domIff)
  have "set (map fst ps) \<inter> dom (snd m1) = {}"
    using Cons.prems(2,3) m1(3) p by auto
  then show ?case
    using Cons.IH [OF m1(2)] Cons.prems(2) m1(1) p by simp
qed simp

text \<open>
  C10: first in, first out, with nothing lost and nothing leaked. Data pushed at the tail of
  a freshly initialised queue, each push with a cell \<open>malloc\<close> had not handed out before, come
  back from \<open>conn_mgr_queue_pop_head\<close> in the order they were pushed, \<open>conn_mgr_queue_get_length\<close>
  reports their number (modulo the width of its counter), no pointer of the queue is ever null
  or dangling when it is followed, and at the end the heap is the one before the first push.
\<close>

theorem conn_queue_fifo:
  assumes "distinct (map fst ps)" and "set (map fst ps) \<inter> dom h = {}"
  shows "\<exists>m m'. push_tails ps (conn_mgr_queue_init (Some q), h) = Some m \<and>
    conn_mgr_queue_get_length m = Some (of_nat (length ps)) \<and>
    drain conn_mgr_queue_pop_head m = Some (map snd ps, m') \<and> snd m' = h"
proof -
  obtain m where m: "push_tails ps (conn_mgr_queue_init (Some q), h) = Some m"
    "queue_rel m h (map snd ps)"
    using push_tails_rel [OF queue_init_rel assms(1), of q h] assms(2) by auto
  then obtain m' where "drain conn_mgr_queue_pop_head m = Some (map snd ps, m')" "queue_rel m' h []"
    using connq.drain_all by blast
  then show ?thesis using m get_length_rel [OF m(2)] empty_heap by fastforce
qed

theorem conn_queue_fifo_witness:
  "\<exists>m m'. push_tails [(1, 10), (2, 20)]
      (conn_mgr_queue_init (Some \<lparr>q_head = Some 7, q_tail = NULL\<rparr>), Map.empty) = Some m \<and>
    conn_mgr_queue_get_length m = Some 2 \<and>
    drain conn_mgr_queue_pop_head m = Some ([10, 20], m') \<and> snd m' = Map.empty"
  using conn_queue_fifo [of "[(1, 10), (2, 20)]" Map.empty "\<lparr>q_head = Some 7, q_tail = NULL\<rparr>"]
  by simp

end
