(* ===== verification/Posix.thy ===== *)
theory Posix
  imports Tpt_Prelude
begin

unbundle bit_operations_syntax

section \<open>The operating system as seen by the programs\<close>

text \<open>
  The programs are processes that make system calls. A system call is answered by the kernel,
  and the programs must be right for every sequence of answers, so the state \<open>os\<close> carries the
  answers still to come (\<open>replies\<close>); a call takes the first one. No answer left means that the
  call blocks, and an answer of a shape the call cannot have is no execution: both give
  \<open>None\<close>. What the documented behaviour of a call guarantees is part of its definition here
  (a new descriptor is not open yet, \<open>recv\<close> delivers at most the bytes asked for, \<open>send\<close> takes a
  prefix of the buffer). Beside the replies the state records what the process did: the open
  descriptors and their status flags, the bytes received and sent on each descriptor, the
  descriptors closed in order. A component adds the part of the process state it works on
  by extending the record.
\<close>

datatype errno = EINTR | EAGAIN | EINPROGRESS | EEXIST | ECHILD | ENOMEM | EOTHER nat

datatype pollflag = POLLIN | POLLPRI | POLLOUT | POLLERR | POLLHUP

datatype reply =
    Fail errno                     \<comment> \<open>the call fails and sets \<open>errno\<close>\<close>
  | Ok nat                         \<comment> \<open>a non-negative result: a count, a descriptor, an address\<close>
  | Data "u8 list"                 \<comment> \<open>bytes delivered by \<open>recv\<close> or \<open>read\<close>\<close>
  | Polled "pollflag list list"    \<comment> \<open>\<open>revents\<close> of each polled descriptor\<close>

record os =
  replies :: "reply list"
  os_errno :: errno
  fds :: "int set"
  fdflags :: "int \<Rightarrow> u32"
  sent :: "int \<Rightarrow> u8 list"
  rcvd :: "int \<Rightarrow> u8 list"
  closed :: "int list"

abbreviation fuel :: "'a os_scheme \<Rightarrow> nat" where
  "fuel s \<equiv> length (replies s)"

definition boot :: "reply list \<Rightarrow> os" where
  "boot rs = \<lparr>replies = rs, os_errno = EOTHER 0, fds = {}, fdflags = (\<lambda>_. 2), sent = (\<lambda>_. []),
     rcvd = (\<lambda>_. []), closed = []\<rparr>"

definition sys_next :: "'a os_scheme \<Rightarrow> (reply \<times> 'a os_scheme) option" where
  "sys_next s = (case replies s of [] \<Rightarrow> None | r # rs \<Rightarrow> Some (r, s\<lparr>replies := rs\<rparr>))"

text \<open>Calls whose only result is success or failure: \<open>connect\<close>, \<open>bind\<close>, \<open>listen\<close>, \<open>setsockopt\<close>.\<close>

definition sys_zero :: "'a os_scheme \<Rightarrow> (int \<times> 'a os_scheme) option" where
  "sys_zero s = do {
     (r, s) \<leftarrow> sys_next s;
     case r of Fail e \<Rightarrow> Some (- 1, s\<lparr>os_errno := e\<rparr>)
     | Ok _ \<Rightarrow> Some (0, s)
     | _ \<Rightarrow> None }"

text \<open>Calls that return a new descriptor: \<open>socket\<close>, \<open>accept\<close>, \<open>epoll_create1\<close>.\<close>

definition sys_newfd :: "'a os_scheme \<Rightarrow> (int \<times> 'a os_scheme) option" where
  "sys_newfd s = do {
     (r, s) \<leftarrow> sys_next s;
     case r of Fail e \<Rightarrow> Some (- 1, s\<lparr>os_errno := e\<rparr>)
     | Ok n \<Rightarrow> if int n \<in> fds s then None else Some (int n, s\<lparr>fds := insert (int n) (fds s)\<rparr>)
     | _ \<Rightarrow> None }"

text \<open>A call on a descriptor: it fails with \<open>EBADF\<close> (9) when the descriptor is negative.\<close>

definition sys_fdcall :: "int \<Rightarrow> 'a os_scheme \<Rightarrow> (int \<times> 'a os_scheme) option" where
  "sys_fdcall fd s = (if fd < 0 then Some (- 1, s\<lparr>os_errno := EOTHER 9\<rparr>) else sys_zero s)"

text \<open>\<open>inet_aton\<close>: whether the string is an address is an answer too; 0 says that it is not.\<close>

definition sys_aton :: "'a os_scheme \<Rightarrow> (int \<times> 'a os_scheme) option" where
  "sys_aton s = do {
     (r, s) \<leftarrow> sys_next s;
     case r of Ok n \<Rightarrow> Some (int n, s) | _ \<Rightarrow> None }"

text \<open>\<open>pipe\<close>: the result, the reading end and the writing end.\<close>

definition sys_pipe :: "'a os_scheme \<Rightarrow> (int \<times> int \<times> int \<times> 'a os_scheme) option" where
  "sys_pipe s = do {
     (r, s) \<leftarrow> sys_newfd s;
     if r < 0 then Some (- 1, 0, 0, s)
     else do {
       (w, s) \<leftarrow> sys_newfd s;
       if w < 0 then None else Some (0, r, w, s) } }"

definition sys_close :: "int \<Rightarrow> 'a os_scheme \<Rightarrow> 'a os_scheme" where
  "sys_close fd s = s\<lparr>fds := fds s - {fd}, closed := closed s @ [fd]\<rparr>"

text \<open>\<open>malloc\<close> and its kin: \<open>NULL\<close> on failure, else the address of a new object.\<close>

definition sys_malloc :: "'a os_scheme \<Rightarrow> (cptr \<times> 'a os_scheme) option" where
  "sys_malloc s = do {
     (r, s) \<leftarrow> sys_next s;
     case r of Fail e \<Rightarrow> Some (NULL, s\<lparr>os_errno := e\<rparr>)
     | Ok a \<Rightarrow> Some (Some a, s)
     | _ \<Rightarrow> None }"

definition O_NONBLOCK :: u32 where
  "O_NONBLOCK = 2048"

text \<open>\<open>fcntl (fd, F_GETFL, 0)\<close> and \<open>fcntl (fd, F_SETFL, flags)\<close>.\<close>

definition sys_getfl :: "int \<Rightarrow> 'a os_scheme \<Rightarrow> (int \<times> 'a os_scheme) option" where
  "sys_getfl fd s = do {
     (r, s) \<leftarrow> sys_next s;
     case r of Fail e \<Rightarrow> Some (- 1, s\<lparr>os_errno := e\<rparr>)
     | Ok _ \<Rightarrow> Some (sint (fdflags s fd), s)
     | _ \<Rightarrow> None }"

definition sys_setfl :: "int \<Rightarrow> u32 \<Rightarrow> 'a os_scheme \<Rightarrow> (int \<times> 'a os_scheme) option" where
  "sys_setfl fd fl s = do {
     (r, s) \<leftarrow> sys_next s;
     case r of Fail e \<Rightarrow> Some (- 1, s\<lparr>os_errno := e\<rparr>)
     | Ok _ \<Rightarrow> Some (0, s\<lparr>fdflags := (fdflags s)(fd := fl)\<rparr>)
     | _ \<Rightarrow> None }"

text \<open>
  \<open>poll\<close> on \<open>n\<close> descriptors: the result counts the entries with a non-empty \<open>revents\<close>, so
  \<open>0\<close> is a timeout.
\<close>

definition sys_poll :: "nat \<Rightarrow> 'a os_scheme \<Rightarrow> (int \<times> pollflag list list \<times> 'a os_scheme) option" where
  "sys_poll n s = do {
     (r, s) \<leftarrow> sys_next s;
     case r of Fail e \<Rightarrow> Some (- 1, replicate n [], s\<lparr>os_errno := e\<rparr>)
     | Polled revs \<Rightarrow>
         if length revs = n then Some (int (length (filter (\<lambda>x. x \<noteq> []) revs)), revs, s) else None
     | _ \<Rightarrow> None }"

text \<open>\<open>recv\<close> into a buffer of \<open>len\<close> bytes: at most \<open>len\<close> bytes, none at the end of the stream.\<close>

definition sys_recv :: "int \<Rightarrow> nat \<Rightarrow> 'a os_scheme \<Rightarrow> (int \<times> u8 list \<times> 'a os_scheme) option" where
  "sys_recv fd len s = do {
     (r, s) \<leftarrow> sys_next s;
     case r of Fail e \<Rightarrow> Some (- 1, [], s\<lparr>os_errno := e\<rparr>)
     | Data bs \<Rightarrow>
         if length bs \<le> len
         then Some (int (length bs), bs, s\<lparr>rcvd := (rcvd s)(fd := rcvd s fd @ bs)\<rparr>) else None
     | _ \<Rightarrow> None }"

text \<open>\<open>send\<close> of the bytes \<open>bs\<close>: the kernel takes a prefix of them and returns its length.\<close>

definition sys_send :: "int \<Rightarrow> u8 list \<Rightarrow> 'a os_scheme \<Rightarrow> (int \<times> 'a os_scheme) option" where
  "sys_send fd bs s = do {
     (r, s) \<leftarrow> sys_next s;
     case r of Fail e \<Rightarrow> Some (- 1, s\<lparr>os_errno := e\<rparr>)
     | Ok n \<Rightarrow>
         if n \<le> length bs
         then Some (int n, s\<lparr>sent := (sent s)(fd := sent s fd @ take n bs)\<rparr>) else None
     | _ \<Rightarrow> None }"

subsection \<open>Each call consumes one reply\<close>

lemma sys_next_fuel: "sys_next s = Some (r, s') \<Longrightarrow> fuel s = Suc (fuel s')"
  by (auto simp: sys_next_def split: list.splits)

lemmas sys_defs = sys_zero_def sys_newfd_def sys_malloc_def sys_getfl_def sys_setfl_def
  sys_poll_def sys_recv_def sys_send_def

lemma sys_fuel [tpt_simps]:
  "sys_zero s = Some (i, s') \<Longrightarrow> fuel s' < fuel s"
  "sys_newfd s = Some (i, s') \<Longrightarrow> fuel s' < fuel s"
  "sys_malloc s = Some (p, s') \<Longrightarrow> fuel s' < fuel s"
  "sys_getfl fd s = Some (i, s') \<Longrightarrow> fuel s' < fuel s"
  "sys_setfl fd fl s = Some (i, s') \<Longrightarrow> fuel s' < fuel s"
  "sys_poll n s = Some (i, revs, s') \<Longrightarrow> fuel s' < fuel s"
  "sys_recv fd len s = Some (i, bs, s') \<Longrightarrow> fuel s' < fuel s"
  "sys_send fd out s = Some (i, s') \<Longrightarrow> fuel s' < fuel s"
  by (auto simp: sys_defs sys_next_def split: list.splits reply.splits if_splits)

subsection \<open>What each call changes\<close>

text \<open>
  Inversion rules: the state after a call is the state before it with the named fields
  updated, so that every other field, those of an extended record too, is known to be kept.
\<close>

lemma sys_zeroE:
  assumes "sys_zero s = Some (i, s')"
  obtains (fail) rs e where "replies s = Fail e # rs" "i = - 1" "s' = s\<lparr>replies := rs, os_errno := e\<rparr>"
  | (ok) rs n where "replies s = Ok n # rs" "i = 0" "s' = s\<lparr>replies := rs\<rparr>"
  using assms by (auto simp: sys_zero_def sys_next_def split: list.splits reply.splits)

lemma sys_newfdE:
  assumes "sys_newfd s = Some (i, s')"
  obtains (fail) rs e where "replies s = Fail e # rs" "i = - 1" "s' = s\<lparr>replies := rs, os_errno := e\<rparr>"
  | (ok) rs n where "replies s = Ok n # rs" "i = int n" "i \<notin> fds s"
      "s' = s\<lparr>replies := rs, fds := insert i (fds s)\<rparr>"
  using assms by (auto simp: sys_newfd_def sys_next_def split: list.splits reply.splits if_splits)

lemma sys_mallocE:
  assumes "sys_malloc s = Some (p, s')"
  obtains (fail) rs e where "replies s = Fail e # rs" "p = None" "s' = s\<lparr>replies := rs, os_errno := e\<rparr>"
  | (ok) rs n where "replies s = Ok n # rs" "p = Some n" "s' = s\<lparr>replies := rs\<rparr>"
  using assms by (auto simp: sys_malloc_def sys_next_def split: list.splits reply.splits)

lemma sys_getflE:
  assumes "sys_getfl fd s = Some (i, s')"
  obtains (fail) rs e where "replies s = Fail e # rs" "i = - 1" "s' = s\<lparr>replies := rs, os_errno := e\<rparr>"
  | (ok) rs n where "replies s = Ok n # rs" "i = sint (fdflags s fd)" "s' = s\<lparr>replies := rs\<rparr>"
  using assms by (auto simp: sys_getfl_def sys_next_def split: list.splits reply.splits)

lemma sys_setflE:
  assumes "sys_setfl fd fl s = Some (i, s')"
  obtains (fail) rs e where "replies s = Fail e # rs" "i = - 1" "s' = s\<lparr>replies := rs, os_errno := e\<rparr>"
  | (ok) rs n where "replies s = Ok n # rs" "i = 0"
      "s' = s\<lparr>replies := rs, fdflags := (fdflags s)(fd := fl)\<rparr>"
  using assms by (auto simp: sys_setfl_def sys_next_def split: list.splits reply.splits)

lemma sys_pollE:
  assumes "sys_poll n s = Some (i, revs, s')"
  obtains (fail) rs e where "replies s = Fail e # rs" "i = - 1" "revs = replicate n []"
      "s' = s\<lparr>replies := rs, os_errno := e\<rparr>"
  | (ok) rs where "replies s = Polled revs # rs" "length revs = n"
      "i = int (length (filter (\<lambda>x. x \<noteq> []) revs))" "s' = s\<lparr>replies := rs\<rparr>"
  using assms by (auto simp: sys_poll_def sys_next_def split: list.splits reply.splits if_splits)

lemma sys_recvE:
  assumes "sys_recv fd len s = Some (i, bs, s')"
  obtains (fail) rs e where "replies s = Fail e # rs" "i = - 1" "bs = []"
      "s' = s\<lparr>replies := rs, os_errno := e\<rparr>"
  | (ok) rs where "replies s = Data bs # rs" "i = int (length bs)" "length bs \<le> len"
      "s' = s\<lparr>replies := rs, rcvd := (rcvd s)(fd := rcvd s fd @ bs)\<rparr>"
  using assms by (auto simp: sys_recv_def sys_next_def split: list.splits reply.splits if_splits)

lemma sys_sendE:
  assumes "sys_send fd out s = Some (i, s')"
  obtains (fail) rs e where "replies s = Fail e # rs" "i = - 1" "s' = s\<lparr>replies := rs, os_errno := e\<rparr>"
  | (ok) rs n where "replies s = Ok n # rs" "i = int n" "n \<le> length out"
      "s' = s\<lparr>replies := rs, sent := (sent s)(fd := sent s fd @ take n out)\<rparr>"
  using assms by (auto simp: sys_send_def sys_next_def split: list.splits reply.splits if_splits)

lemma sys_fdcallE:
  assumes "sys_fdcall fd s = Some (i, s')"
  obtains (bad) "fd < 0" "i = - 1" "s' = s\<lparr>os_errno := EOTHER 9\<rparr>"
  | (fail) rs e where "0 \<le> fd" "replies s = Fail e # rs" "i = - 1" "s' = s\<lparr>replies := rs, os_errno := e\<rparr>"
  | (ok) rs n where "0 \<le> fd" "replies s = Ok n # rs" "i = 0" "s' = s\<lparr>replies := rs\<rparr>"
  using assms by (auto simp: sys_fdcall_def elim!: sys_zeroE split: if_splits)

lemma sys_atonE:
  assumes "sys_aton s = Some (i, s')"
  obtains rs n where "replies s = Ok n # rs" "i = int n" "s' = s\<lparr>replies := rs\<rparr>"
  using assms by (auto simp: sys_aton_def sys_next_def split: list.splits reply.splits)

lemma sys_pipeE:
  assumes "sys_pipe s = Some (i, r, w, s')"
  obtains (fail) rs e where "replies s = Fail e # rs" "i = - 1" "s' = s\<lparr>replies := rs, os_errno := e\<rparr>"
  | (ok) rs where "i = 0" "r \<notin> fds s" "w \<notin> fds s" "r \<noteq> w"
      "s' = s\<lparr>replies := rs, fds := insert w (insert r (fds s))\<rparr>"
  using assms by (auto simp: sys_pipe_def elim!: sys_newfdE bind_SomeE split: if_splits)

lemmas sysE = sys_fdcallE sys_atonE sys_pipeE sys_zeroE sys_newfdE sys_mallocE sys_getflE sys_setflE sys_pollE sys_recvE sys_sendE

lemma sys_close_simps [simp]:
  "replies (sys_close fd s) = replies s" "os_errno (sys_close fd s) = os_errno s"
  "fds (sys_close fd s) = fds s - {fd}" "fdflags (sys_close fd s) = fdflags s"
  "sent (sys_close fd s) = sent s" "rcvd (sys_close fd s) = rcvd s"
  "closed (sys_close fd s) = closed s @ [fd]" "os.more (sys_close fd s) = os.more s"
  by (simp_all add: sys_close_def)

text \<open>
  \<open>keeps_io s s'\<close>: between the two states no descriptor was opened or closed and no data was
  transferred.
\<close>

definition keeps_io :: "'a os_scheme \<Rightarrow> 'b os_scheme \<Rightarrow> bool" where
  "keeps_io s s' \<longleftrightarrow> fds s' = fds s \<and> sent s' = sent s \<and> rcvd s' = rcvd s \<and> closed s' = closed s"

lemma keeps_io_refl [simp]: "keeps_io s s"
  by (simp add: keeps_io_def)

lemma keeps_io_trans [trans]: "keeps_io s t \<Longrightarrow> keeps_io t u \<Longrightarrow> keeps_io s u"
  by (simp add: keeps_io_def)

lemma keeps_io_sys:
  "sys_zero s = Some (i, s') \<Longrightarrow> keeps_io s s' \<and> os.more s' = os.more s"
  "sys_malloc s = Some (p, s') \<Longrightarrow> keeps_io s s' \<and> os.more s' = os.more s"
  "sys_getfl fd s = Some (i, s') \<Longrightarrow> keeps_io s s' \<and> os.more s' = os.more s"
  "sys_setfl fd fl s = Some (i, s') \<Longrightarrow> keeps_io s s' \<and> os.more s' = os.more s"
  "sys_poll n s = Some (i, revs, s') \<Longrightarrow> keeps_io s s' \<and> os.more s' = os.more s"
  by (auto elim!: sysE simp: keeps_io_def)

end
