(* ===== verification/Conn_Conn.thy ===== *)
theory Conn_Conn
  imports Posix
begin

unbundle bit_operations_syntax

section \<open>Connections of the connection manager\<close>

text \<open>
  Models \<open>src/src/networking/conn_mgr/conn_mgr_conn.c\<close> and \<open>conn_mgr_core.c\<close>: opening a TCP
  connection with a timeout, destroying it, reading its descriptor, and the error codes. The
  process state is the operating system state extended with the library's error variable and
  the heap of connection objects. The peer address only selects what the kernel answers to
  \<open>connect\<close>, so it does not appear beside the answers.
\<close>

datatype conn_mgr_err =
    CONN_MGR_SUCCESS
  | CONN_MGR_ERR_NULL_PARAMS
  | CONN_MGR_ERR_MEM_ALLOC
  | CONN_MGR_CONN_ERR_SOCKET
  | CONN_MGR_CONN_ERR_SETNONBLOCKING
  | CONN_MGR_CONN_ERR_SETBLOCKING
  | CONN_MGR_CONN_ERR_CONNECT
  | CONN_MGR_CONN_ERR_TIMEDOUT
  | CONN_MGR_CONN_ERR_POLL
  | CONN_MGR_CONN_ERR_CONNECTING

fun conn_mgr_err_code :: "conn_mgr_err \<Rightarrow> int" where
  "conn_mgr_err_code CONN_MGR_SUCCESS = 0"
| "conn_mgr_err_code CONN_MGR_ERR_NULL_PARAMS = - 2100"
| "conn_mgr_err_code CONN_MGR_ERR_MEM_ALLOC = - 2099"
| "conn_mgr_err_code CONN_MGR_CONN_ERR_SOCKET = - 2098"
| "conn_mgr_err_code CONN_MGR_CONN_ERR_SETNONBLOCKING = - 2097"
| "conn_mgr_err_code CONN_MGR_CONN_ERR_SETBLOCKING = - 2096"
| "conn_mgr_err_code CONN_MGR_CONN_ERR_CONNECT = - 2095"
| "conn_mgr_err_code CONN_MGR_CONN_ERR_TIMEDOUT = - 2094"
| "conn_mgr_err_code CONN_MGR_CONN_ERR_POLL = - 2093"
| "conn_mgr_err_code CONN_MGR_CONN_ERR_CONNECTING = - 2092"

definition conn_mgr_err_msg :: "int \<Rightarrow> string option" where
  "conn_mgr_err_msg code =
     (if code = conn_mgr_err_code CONN_MGR_SUCCESS then Some ''CONN_MGR_SUCCESS''
      else if code = conn_mgr_err_code CONN_MGR_ERR_NULL_PARAMS then Some ''CONN_MGR_ERR_NULL_PARAMS''
      else if code = conn_mgr_err_code CONN_MGR_ERR_MEM_ALLOC then Some ''CONN_MGR_ERR_MEM_ALLOC''
      else if code = conn_mgr_err_code CONN_MGR_CONN_ERR_SOCKET then Some ''CONN_MGR_CONN_ERR_SOCKET''
      else if code = conn_mgr_err_code CONN_MGR_CONN_ERR_SETNONBLOCKING
        then Some ''CONN_MGR_CONN_ERR_SETNONBLOCKING''
      else if code = conn_mgr_err_code CONN_MGR_CONN_ERR_SETBLOCKING
        then Some ''CONN_MGR_CONN_ERR_SETBLOCKING''
      else if code = conn_mgr_err_code CONN_MGR_CONN_ERR_CONNECT then Some ''CONN_MGR_CONN_ERR_CONNECT''
      else if code = conn_mgr_err_code CONN_MGR_CONN_ERR_TIMEDOUT
        then Some ''CONN_MGR_CONN_ERR_TIMEDOUT''
      else if code = conn_mgr_err_code CONN_MGR_CONN_ERR_POLL then Some ''CONN_MGR_CONN_ERR_POLL''
      else if code = conn_mgr_err_code CONN_MGR_CONN_ERR_CONNECTING
        then Some ''CONN_MGR_CONN_ERR_CONNECTING''
      else None)"

record conn_mgr_conn_t =
  conn_fd :: int

record conn_os = os +
  conn_mgr_conn_errno :: conn_mgr_err
  conns :: "addr \<rightharpoonup> conn_mgr_conn_t"

subsection \<open>Socket flags\<close>

definition set_socket_non_blocking :: "int \<Rightarrow> 'a os_scheme \<Rightarrow> (int \<times> 'a os_scheme) option" where
  "set_socket_non_blocking fd s = do {
     (flags, s) \<leftarrow> sys_getfl fd s;
     if flags < 0 then Some (- 1, s)
     else do {
       (ret, s) \<leftarrow> sys_setfl fd (word_of_int flags OR O_NONBLOCK) s;
       if ret < 0 then Some (- 1, s) else Some (ret, s) } }"

definition set_socket_blocking :: "int \<Rightarrow> 'a os_scheme \<Rightarrow> (int \<times> 'a os_scheme) option" where
  "set_socket_blocking fd s = do {
     (flags, s) \<leftarrow> sys_getfl fd s;
     if flags < 0 then Some (- 1, s)
     else do {
       (ret, s) \<leftarrow> sys_setfl fd (word_of_int flags AND NOT O_NONBLOCK) s;
       if ret < 0 then Some (- 1, s) else Some (ret, s) } }"

subsection \<open>Connecting with a timeout\<close>

text \<open>
  The loop repeats only when \<open>poll\<close> was interrupted. \<open>getsockopt\<close> on the failure path reads the
  socket error into a variable nobody looks at, so it leaves no trace here.
\<close>

function poll_for_connect :: "int \<Rightarrow> 'a conn_os_scheme \<Rightarrow> (int \<times> 'a conn_os_scheme) option" where
  "poll_for_connect fd s = do {
     (ret, revents, s') \<leftarrow> sys_poll 1 s;
     if ret < 0 then
       (if os_errno s' = EINTR then poll_for_connect fd s'
        else Some (ret, s'\<lparr>conn_mgr_conn_errno := CONN_MGR_CONN_ERR_POLL\<rparr>))
     else if ret = 0 then Some (- 1, s'\<lparr>conn_mgr_conn_errno := CONN_MGR_CONN_ERR_TIMEDOUT\<rparr>)
     else if POLLOUT \<in> set (concat revents) then Some (ret, s')
     else Some (- 1, s'\<lparr>conn_mgr_conn_errno := CONN_MGR_CONN_ERR_CONNECTING\<rparr>) }"
  by pat_completeness auto
termination
  by (relation "measure (\<lambda>(fd, s). fuel s)") (auto dest: sys_fuel)

declare poll_for_connect.simps [simp del]

definition tcp_connect_with_timeout ::
    "int \<Rightarrow> 'a conn_os_scheme \<Rightarrow> (int \<times> 'a conn_os_scheme) option" where
  "tcp_connect_with_timeout fd s = do {
     (r, s) \<leftarrow> set_socket_non_blocking fd s;
     if r < 0 then Some (- 1, s\<lparr>conn_mgr_conn_errno := CONN_MGR_CONN_ERR_SETNONBLOCKING\<rparr>)
     else do {
       (c, s) \<leftarrow> sys_zero s;
       if c < 0 \<and> os_errno s \<noteq> EINPROGRESS
       then Some (0, s\<lparr>conn_mgr_conn_errno := CONN_MGR_CONN_ERR_CONNECT\<rparr>)
       else do {
         (ret, s) \<leftarrow> (if c < 0 then poll_for_connect fd s else Some (0, s));
         (b, s) \<leftarrow> set_socket_blocking fd s;
         if b < 0 then Some (- 1, s\<lparr>conn_mgr_conn_errno := CONN_MGR_CONN_ERR_SETBLOCKING\<rparr>)
         else Some (ret, s) } } }"

subsection \<open>Connection objects\<close>

definition conn_mgr_conn_new ::
    "string option \<Rightarrow> 'a conn_os_scheme \<Rightarrow> (cptr \<times> 'a conn_os_scheme) option" where
  "conn_mgr_conn_new ip s =
     (case ip of NULL \<Rightarrow> Some (NULL, s)
      | Some _ \<Rightarrow> do {
          (fd, s) \<leftarrow> sys_newfd s;
          if fd < 0 then Some (NULL, s\<lparr>conn_mgr_conn_errno := CONN_MGR_CONN_ERR_SOCKET\<rparr>)
          else do {
            (r, s) \<leftarrow> tcp_connect_with_timeout fd s;
            if r < 0 then Some (NULL, sys_close fd s)
            else do {
              (p, s) \<leftarrow> sys_malloc s;
              case p of
                NULL \<Rightarrow> Some (NULL, sys_close fd (s\<lparr>conn_mgr_conn_errno := CONN_MGR_ERR_MEM_ALLOC\<rparr>))
              | Some a \<Rightarrow>
                  if a \<in> dom (conns s) then None
                  else Some (Some a, s\<lparr>conn_mgr_conn_errno := CONN_MGR_SUCCESS,
                                       conns := (conns s)(a \<mapsto> \<lparr>conn_fd = fd\<rparr>)\<rparr>) } } })"

definition conn_mgr_conn_destroy :: "cptr \<Rightarrow> 'a conn_os_scheme \<Rightarrow> 'a conn_os_scheme option" where
  "conn_mgr_conn_destroy conn s =
     (case conn of NULL \<Rightarrow> Some s
      | Some a \<Rightarrow>
         (case conns s a of NULL \<Rightarrow> None
          | Some c \<Rightarrow> Some ((sys_close (conn_fd c) s)
              \<lparr>conns := (conns s)(a := None), conn_mgr_conn_errno := CONN_MGR_SUCCESS\<rparr>)))"

definition conn_mgr_conn_get_fd :: "cptr \<Rightarrow> 'a conn_os_scheme \<Rightarrow> (int \<times> 'a conn_os_scheme) option" where
  "conn_mgr_conn_get_fd conn s =
     (case conn of
        NULL \<Rightarrow> Some (- 1, s\<lparr>conn_mgr_conn_errno := CONN_MGR_ERR_NULL_PARAMS\<rparr>)
      | Some a \<Rightarrow>
         (case conns s a of NULL \<Rightarrow> None
          | Some c \<Rightarrow> Some (conn_fd c, s\<lparr>conn_mgr_conn_errno := CONN_MGR_SUCCESS\<rparr>)))"

subsection \<open>Error codes\<close>

lemma conn_mgr_err_code_inj: "conn_mgr_err_code e = conn_mgr_err_code f \<Longrightarrow> e = f"
  by (cases e; cases f; simp)

lemma conn_mgr_err_msg_code: "conn_mgr_err_msg (conn_mgr_err_code e) \<noteq> None"
  by (cases e) (simp_all add: conn_mgr_err_msg_def)

lemma conn_mgr_err_msg_unknown:
  "code \<notin> range conn_mgr_err_code \<Longrightarrow> conn_mgr_err_msg code = None"
  by (auto simp: conn_mgr_err_msg_def simp del: conn_mgr_err_code.simps)

subsection \<open>Flags\<close>

lemma more_conns:
  "os.more s' = os.more s \<Longrightarrow> conns s' = conns s \<and> conn_os.more s' = conn_os.more s"
  by (cases s; cases s') simp

lemma sys_close_conns [simp]:
  "conns (sys_close fd s) = conns s" "conn_os.more (sys_close fd s) = conn_os.more s"
  by (simp_all add: sys_close_def)

lemma non_blocking_keeps:
  "set_socket_non_blocking fd s = Some (r, s') \<Longrightarrow> keeps_io s s' \<and> os.more s' = os.more s"
  unfolding set_socket_non_blocking_def
  by (auto elim!: bind_SomeE sys_getflE sys_setflE split: if_splits prod.splits simp: keeps_io_def)

lemma blocking_keeps:
  "set_socket_blocking fd s = Some (r, s') \<Longrightarrow> keeps_io s s' \<and> os.more s' = os.more s"
  unfolding set_socket_blocking_def
  by (auto elim!: bind_SomeE sys_getflE sys_setflE split: if_splits prod.splits simp: keeps_io_def)

text \<open>
  Switching a socket to non-blocking mode and back restores every status flag the socket
  had, with \<open>O_NONBLOCK\<close> cleared, and leaves the flags of all other descriptors alone.
\<close>

theorem blocking_round_trip:
  assumes "set_socket_non_blocking fd s = Some (0, s')" and "set_socket_blocking fd s' = Some (0, s'')"
  shows "fdflags s'' = (fdflags s)(fd := fdflags s fd AND NOT O_NONBLOCK) \<and>
    fdflags s' fd AND O_NONBLOCK = O_NONBLOCK"
proof -
  have "fdflags s' = (fdflags s)(fd := fdflags s fd OR O_NONBLOCK)"
    using assms(1) unfolding set_socket_non_blocking_def
    by (auto elim!: bind_SomeE sys_getflE sys_setflE split: if_splits prod.splits)
  moreover have "fdflags s'' = (fdflags s')(fd := fdflags s' fd AND NOT O_NONBLOCK)"
    using assms(2) unfolding set_socket_blocking_def
    by (auto elim!: bind_SomeE sys_getflE sys_setflE split: if_splits prod.splits)
  ultimately show ?thesis
    by (auto simp: fun_eq_iff bit_eq_iff bit_simps)
qed

text \<open>\<open>conn_quiet\<close>: no I/O and no change to the connection objects or the caller's state.\<close>

definition conn_quiet :: "'a conn_os_scheme \<Rightarrow> 'a conn_os_scheme \<Rightarrow> bool" where
  "conn_quiet s s' \<longleftrightarrow> keeps_io s s' \<and> conns s' = conns s \<and> conn_os.more s' = conn_os.more s"

lemma conn_quietI: "keeps_io s s' \<and> os.more s' = os.more s \<Longrightarrow> conn_quiet s s'"
  unfolding conn_quiet_def using more_conns by blast

lemma conn_quiet_refl [simp]: "conn_quiet s s"
  by (simp add: conn_quiet_def)

lemma conn_quiet_trans [trans]: "conn_quiet s t \<Longrightarrow> conn_quiet t u \<Longrightarrow> conn_quiet s u"
  unfolding conn_quiet_def by (auto intro: keeps_io_trans)

lemma conn_quiet_errno [simp]: "conn_quiet s (t\<lparr>conn_mgr_conn_errno := e\<rparr>) = conn_quiet s t"
  by (simp add: conn_quiet_def keeps_io_def)

lemma poll_for_connect_quiet: "poll_for_connect fd s = Some (r, s') \<Longrightarrow> conn_quiet s s'"
proof (induction fd s arbitrary: r s' rule: poll_for_connect.induct)
  case (1 fd s)
  from "1.prems" obtain ret revs t where t: "sys_poll 1 s = Some (ret, revs, t)"
    by (subst (asm) poll_for_connect.simps) (auto elim!: bind_SomeE)
  then have q: "conn_quiet s t" by (blast intro: conn_quietI dest: keeps_io_sys)
  note step = "1.prems" [unfolded poll_for_connect.simps [of fd s]]
  show ?case
  proof (cases "ret < 0 \<and> os_errno t = EINTR")
    case True
    then have "poll_for_connect fd t = Some (r, s')" using step t by simp
    then have "conn_quiet t s'" using "1.IH" t True by blast
    with q show ?thesis by (rule conn_quiet_trans)
  next
    case False
    then show ?thesis using step t q by (auto split: if_splits)
  qed
qed

lemma tcp_connect_quiet:
  assumes "tcp_connect_with_timeout fd s = Some (r, s')"
  shows "conn_quiet s s'"
proof -
  obtain r1 t where t: "set_socket_non_blocking fd s = Some (r1, t)"
    using assms by (auto simp: tcp_connect_with_timeout_def elim!: bind_SomeE)
  have st: "conn_quiet s t" using non_blocking_keeps [OF t] by (rule conn_quietI)
  show ?thesis
  proof (cases "r1 < 0")
    case True
    then show ?thesis using assms t st by (auto simp: tcp_connect_with_timeout_def)
  next
    case False
    then obtain c u where u: "sys_zero t = Some (c, u)"
      using assms t by (auto simp: tcp_connect_with_timeout_def elim!: bind_SomeE)
    have su: "conn_quiet s u"
      using st conn_quietI [OF keeps_io_sys(1) [OF u]] by (rule conn_quiet_trans)
    show ?thesis
    proof (cases "c < 0 \<and> os_errno u \<noteq> EINPROGRESS")
      case True
      then show ?thesis using assms t u su False by (auto simp: tcp_connect_with_timeout_def)
    next
      case c: False
      then obtain ret v b w where v: "(if c < 0 then poll_for_connect fd u else Some (0, u)) = Some (ret, v)"
        and w: "set_socket_blocking fd v = Some (b, w)"
        and s': "s' = (if b < 0 then w\<lparr>conn_mgr_conn_errno := CONN_MGR_CONN_ERR_SETBLOCKING\<rparr> else w)"
        using assms t u False
        by (auto simp: tcp_connect_with_timeout_def elim!: bind_SomeE split: if_splits)
      have "conn_quiet u v" using v poll_for_connect_quiet by (auto split: if_splits)
      moreover have "conn_quiet v w" using blocking_keeps [OF w] by (rule conn_quietI)
      ultimately have "conn_quiet s w" using su conn_quiet_trans by blast
      then show ?thesis by (simp add: s')
    qed
  qed
qed

lemma conn_new_effect:
  assumes "conn_mgr_conn_new ip s = Some (p, s')"
  shows "conn_os.more s' = conn_os.more s \<and> (case p of NULL \<Rightarrow> fds s' = fds s \<and> conns s' = conns s
    | Some a \<Rightarrow> \<exists>fd. fd \<notin> fds s \<and> 0 \<le> fd \<and> fds s' = insert fd (fds s) \<and> a \<notin> dom (conns s) \<and>
        conns s' = (conns s)(a \<mapsto> \<lparr>conn_fd = fd\<rparr>) \<and> conn_mgr_conn_errno s' = CONN_MGR_SUCCESS)"
proof (cases ip)
  case None
  then show ?thesis using assms by (simp add: conn_mgr_conn_new_def)
next
  case (Some i)
  then obtain fd t where t: "sys_newfd s = Some (fd, t)"
    using assms by (cases "sys_newfd s") (auto simp: conn_mgr_conn_new_def)
  show ?thesis
  proof (cases "fd < 0")
    case True
    then show ?thesis using assms t Some
      by (auto simp: conn_mgr_conn_new_def elim!: sys_newfdE)
  next
    case False
    then have fd: "fd \<notin> fds s" "fds t = insert fd (fds s)" "conns t = conns s"
      "conn_os.more t = conn_os.more s"
      using t by (auto elim!: sys_newfdE)
    obtain r u where u: "tcp_connect_with_timeout fd t = Some (r, u)"
      using assms t Some False
      by (cases "tcp_connect_with_timeout fd t") (auto simp: conn_mgr_conn_new_def)
    have fu: "fds u = insert fd (fds s)" "conns u = conns s" "conn_os.more u = conn_os.more s"
      using tcp_connect_quiet [OF u] fd by (auto simp: conn_quiet_def keeps_io_def)
    show ?thesis
    proof (cases "r < 0")
      case True
      then have "p = NULL" and "s' = sys_close fd u"
        using assms t u Some False by (simp_all add: conn_mgr_conn_new_def)
      then show ?thesis using fd(1) fu by simp
    next
      case r: False
      obtain q w where w: "sys_malloc u = Some (q, w)"
        using assms t u Some False r
        by (cases "sys_malloc u") (auto simp: conn_mgr_conn_new_def)
      have fw: "fds w = insert fd (fds s)" "conns w = conns s" "conn_os.more w = conn_os.more s"
        using keeps_io_sys(2) [OF w] more_conns [of w u] fu by (auto simp: keeps_io_def)
      show ?thesis
      proof (cases q)
        case None
        then have "p = NULL"
          and "s' = sys_close fd (w\<lparr>conn_mgr_conn_errno := CONN_MGR_ERR_MEM_ALLOC\<rparr>)"
          using assms t u w Some False r by (simp_all add: conn_mgr_conn_new_def)
        then show ?thesis using fd(1) fw by simp
      next
        case (Some a)
        then have "a \<notin> dom (conns s)" and "p = Some a"
          and "s' = w\<lparr>conn_mgr_conn_errno := CONN_MGR_SUCCESS,
                      conns := (conns s)(a \<mapsto> \<lparr>conn_fd = fd\<rparr>)\<rparr>"
          using assms t u w \<open>ip = Some i\<close> False r fw(2)
          by (simp_all add: conn_mgr_conn_new_def split: if_splits)
        then show ?thesis using fd(1) fw False by (auto intro!: exI [of _ fd])
      qed
    qed
  qed
qed

text \<open>
  C11: \<open>conn_mgr_conn_new\<close> neither leaks nor invents descriptors and objects, on every path. When
  it returns \<open>NULL\<close> the set of open descriptors and the connection objects are what they were;
  when it returns a connection, exactly one new descriptor is open, a new object holds it, the
  error variable says success, and nothing else changed.
\<close>

theorem conn_new_resources:
  assumes "conn_mgr_conn_new ip s = Some (p, s')"
  shows "case p of NULL \<Rightarrow> fds s' = fds s \<and> conns s' = conns s
    | Some a \<Rightarrow> \<exists>fd. fd \<notin> fds s \<and> 0 \<le> fd \<and> fds s' = insert fd (fds s) \<and> a \<notin> dom (conns s) \<and>
        conns s' = (conns s)(a \<mapsto> \<lparr>conn_fd = fd\<rparr>) \<and> conn_mgr_conn_errno s' = CONN_MGR_SUCCESS"
  using conn_new_effect [OF assms] by blast

definition conn_boot :: "reply list \<Rightarrow> conn_os" where
  "conn_boot rs = \<lparr>replies = rs, os_errno = EOTHER 0, fds = {0, 1, 2}, fdflags = (\<lambda>_. 2),
     sent = (\<lambda>_. []), rcvd = (\<lambda>_. []), closed = [], conn_mgr_conn_errno = CONN_MGR_SUCCESS,
     conns = Map.empty\<rparr>"

lemmas conn_eval = conn_mgr_conn_new_def tcp_connect_with_timeout_def set_socket_non_blocking_def
  set_socket_blocking_def poll_for_connect.simps sys_defs sys_next_def sys_close_def

theorem conn_new_resources_witness:
  "\<exists>s'. conn_mgr_conn_new (Some ''10.0.0.1'')
      (conn_boot [Ok 3, Ok 0, Ok 0, Fail EINPROGRESS, Fail EINTR, Polled [[POLLOUT]], Ok 0, Ok 0, Ok 64])
      = Some (Some 64, s') \<and>
    (\<exists>fd. fd \<notin> {0, 1, 2} \<and> 0 \<le> fd \<and> fds s' = insert fd {0, 1, 2} \<and>
      conns s' = [64 \<mapsto> \<lparr>conn_fd = fd\<rparr>] \<and> conn_mgr_conn_errno s' = CONN_MGR_SUCCESS)"
proof -
  let ?s = "conn_boot [Ok 3, Ok 0, Ok 0, Fail EINPROGRESS, Fail EINTR, Polled [[POLLOUT]], Ok 0, Ok 0, Ok 64]"
  obtain s' where "conn_mgr_conn_new (Some ''10.0.0.1'') ?s = Some (Some 64, s')"
    by (simp add: conn_eval conn_boot_def O_NONBLOCK_def)
  with conn_new_resources [OF this] show ?thesis by (auto simp: conn_boot_def)
qed

theorem blocking_round_trip_witness:
  "fdflags (conn_boot []) 3 = 2 \<and>
   (\<exists>s' s''. set_socket_non_blocking 3 (conn_boot [Ok 0, Ok 0, Ok 0, Ok 0]) = Some (0, s') \<and>
     set_socket_blocking 3 s' = Some (0, s'') \<and>
     fdflags s'' = (fdflags (conn_boot []))(3 := 2) \<and> fdflags s' 3 AND O_NONBLOCK = O_NONBLOCK)"
proof -
  obtain s' s'' where "set_socket_non_blocking 3 (conn_boot [Ok 0, Ok 0, Ok 0, Ok 0]) = Some (0, s')"
    and "set_socket_blocking 3 s' = Some (0, s'')"
    by (simp add: conn_eval conn_boot_def O_NONBLOCK_def)
  with blocking_round_trip [OF this] show ?thesis
    by (auto simp: conn_boot_def O_NONBLOCK_def)
qed

text \<open>
  What the code does when \<open>connect\<close> fails at once (a refused or unreachable peer, any error
  but \<open>EINPROGRESS\<close>): \<open>tcp_connect_with_timeout\<close> leaves its result at \<open>0\<close>, so \<open>conn_mgr_conn_new\<close>
  goes on and returns a connection object whose socket is not connected and still
  non-blocking, with the error variable set to success.
\<close>

theorem conn_new_ignores_connect_error:
  assumes "e \<noteq> EINPROGRESS" and "replies s = [Ok n, Ok i, Ok j, Fail e, Ok a]"
    and "int n \<notin> fds s" and "0 \<le> sint (fdflags s (int n))" and "a \<notin> dom (conns s)"
  shows "\<exists>s'. conn_mgr_conn_new (Some ip) s = Some (Some a, s') \<and>
    conn_mgr_conn_errno s' = CONN_MGR_SUCCESS \<and> os_errno s' = e \<and>
    fdflags s' (int n) AND O_NONBLOCK = O_NONBLOCK"
  using assms by (auto simp: conn_eval bit_eq_iff bit_simps domIff)

theorem conn_new_ignores_connect_error_witness:
  "\<exists>s'. conn_mgr_conn_new (Some ''10.0.0.1'') (conn_boot [Ok 3, Ok 0, Ok 0, Fail (EOTHER 111), Ok 64])
      = Some (Some 64, s') \<and>
    conn_mgr_conn_errno s' = CONN_MGR_SUCCESS \<and> os_errno s' = EOTHER 111 \<and>
    fdflags s' 3 AND O_NONBLOCK = O_NONBLOCK"
  using conn_new_ignores_connect_error
    [of "EOTHER 111" "conn_boot [Ok 3, Ok 0, Ok 0, Fail (EOTHER 111), Ok 64]" 3 0 0 64 "''10.0.0.1''"]
  by (simp add: conn_boot_def)

end
