(* ===== verification/Conn_Pool.thy ===== *)
theory Conn_Pool
  imports Conn_Queue Conn_Conn
begin

section \<open>The connection pool\<close>

text \<open>
  Models \<open>src/src/networking/conn_mgr/conn_mgr_pool.c\<close>. The pool record is the C structure less
  its mutex and condition variable; these are the step relation \<open>pool_step\<close> below: a function
  body between \<open>pthread_mutex_lock\<close> and \<open>pthread_mutex_unlock\<close> is one step of one thread, and
  a thread that reaches \<open>pthread_cond_wait\<close> (result \<open>CondWait\<close>) sleeps until it is signalled,
  or for no reason at all, and then evaluates the loop condition again.

  The lemmas show that a connection is never in two hands, that no more than \<open>max_pool_size\<close>
  connections exist, that no wakeup is lost, and what \<open>conn_mgr_pool_destroy\<close> and
  \<open>conn_mgr_pool_try_pop\<close> do.
\<close>

record conn_mgr_pool_t =
  pool_ip :: string
  pool_port :: "16 word"
  max_pool_size :: u32
  pool_size :: u32
  connect_timeout :: u32
  pool_queue :: conn_mgr_queue_t

record pool_os = conn_os +
  items :: item_heap

datatype pop_result = Return cptr | CondWait

subsection \<open>The operations\<close>

text \<open>\<open>strncpy\<close> fills the array with at most \<open>n\<close> characters and pads it with zero bytes.\<close>

definition strncpy :: "nat \<Rightarrow> string \<Rightarrow> string" where
  "strncpy n src = take n (src @ replicate n (CHR 0x00))"

definition conn_mgr_pool_new ::
    "string option \<Rightarrow> 16 word \<Rightarrow> u32 \<Rightarrow> u32 \<Rightarrow> 'a pool_os_scheme \<Rightarrow>
     (conn_mgr_pool_t option \<times> 'a pool_os_scheme) option" where
  "conn_mgr_pool_new ip port max_size timeout s =
     (case ip of NULL \<Rightarrow> Some (NULL, s)
      | Some i \<Rightarrow> do {
          (p, s) \<leftarrow> sys_malloc s;
          case p of NULL \<Rightarrow> Some (NULL, s)
          | Some _ \<Rightarrow>
              (case conn_mgr_queue_init (Some \<lparr>q_head = NULL, q_tail = NULL\<rparr>) of
                 NULL \<Rightarrow> None
               | Some q \<Rightarrow> Some (Some \<lparr>pool_ip = strncpy 16 i, pool_port = port,
                   max_pool_size = max_size, pool_size = 0, connect_timeout = timeout,
                   pool_queue = q\<rparr>, s)) })"

text \<open>\<open>conn_mgr_queue_pop_head (&pool->queue)\<close>.\<close>

definition pool_pop_head ::
    "conn_mgr_pool_t \<Rightarrow> 'a pool_os_scheme \<Rightarrow> (cptr \<times> conn_mgr_pool_t \<times> 'a pool_os_scheme) option" where
  "pool_pop_head p s = do {
     (conn, queue, h) \<leftarrow> conn_mgr_queue_pop_head (Some (pool_queue p), items s);
     case queue of NULL \<Rightarrow> None
     | Some q \<Rightarrow> Some (conn, p\<lparr>pool_queue := q\<rparr>, s\<lparr>items := h\<rparr>) }"



text \<open>
  One turn of the loop of \<open>conn_mgr_pool_pop\<close> under the mutex: it ends with a result, or in
  \<open>pthread_cond_wait\<close>.
\<close>

definition conn_mgr_pool_pop ::
    "conn_mgr_pool_t option \<Rightarrow> 'a pool_os_scheme \<Rightarrow>
     (pop_result \<times> conn_mgr_pool_t option \<times> 'a pool_os_scheme) option" where
  "conn_mgr_pool_pop pool s =
     (case pool of NULL \<Rightarrow> Some (Return NULL, NULL, s)
      | Some p \<Rightarrow> do {
          (conn, p, s) \<leftarrow> pool_pop_head p s;
          if conn \<noteq> NULL then Some (Return conn, Some p, s)
          else if pool_size p < max_pool_size p then do {
            (conn, s) \<leftarrow> conn_mgr_conn_new (Some (pool_ip p)) s;
            Some (Return conn,
              Some (if conn \<noteq> NULL then p\<lparr>pool_size := pool_size p + 1\<rparr> else p), s) }
          else Some (CondWait, Some p, s) })"

text \<open>
  One turn of the loop of \<open>conn_mgr_pool_try_pop\<close>: \<open>Inl\<close> goes on, \<open>Inr\<close> leaves the loop with a connection.
\<close>

definition try_pop_turn ::
    "conn_mgr_pool_t \<times> 'a pool_os_scheme \<Rightarrow>
     (conn_mgr_pool_t \<times> 'a pool_os_scheme + cptr \<times> conn_mgr_pool_t \<times> 'a pool_os_scheme) option" where
  "try_pop_turn = (\<lambda>(p, s). do {
     (conn, p, s) \<leftarrow> pool_pop_head p s;
     if conn \<noteq> NULL then Some (Inr (conn, p, s))
     else if pool_size p < max_pool_size p then do {
       (conn, s) \<leftarrow> conn_mgr_conn_new (Some (pool_ip p)) s;
       Some (Inl (p\<lparr>pool_size := pool_size p + 1\<rparr>, s)) }
     else Some (Inl (p, s)) })"

partial_function (option) try_pop_loop ::
    "conn_mgr_pool_t \<times> 'a pool_os_scheme \<Rightarrow> (cptr \<times> conn_mgr_pool_t \<times> 'a pool_os_scheme) option" where
  "try_pop_loop c = do {
     r \<leftarrow> try_pop_turn c;
     case r of Inl c \<Rightarrow> try_pop_loop c | Inr res \<Rightarrow> Some res }"

definition conn_mgr_pool_try_pop ::
    "conn_mgr_pool_t option \<Rightarrow> 'a pool_os_scheme \<Rightarrow>
     (cptr \<times> conn_mgr_pool_t option \<times> 'a pool_os_scheme) option" where
  "conn_mgr_pool_try_pop pool s =
     (case pool of NULL \<Rightarrow> Some (NULL, NULL, s)
      | Some p \<Rightarrow> do { (conn, p, s) \<leftarrow> try_pop_loop (p, s); Some (conn, Some p, s) })"

definition conn_mgr_pool_push ::
    "conn_mgr_pool_t option \<Rightarrow> cptr \<Rightarrow> 'a pool_os_scheme \<Rightarrow>
     (conn_mgr_pool_t option \<times> 'a pool_os_scheme) option" where
  "conn_mgr_pool_push pool conn s =
     (case pool of NULL \<Rightarrow> Some (NULL, s)
      | Some p \<Rightarrow> do {
          (item, s) \<leftarrow> (if conn = NULL then Some (NULL, s) else sys_malloc s);
          if item \<in> Some ` dom (items s) then None
          else case conn_mgr_queue_push_head item conn (Some (pool_queue p), items s) of
            (NULL, h) \<Rightarrow> None
          | (Some q, h) \<Rightarrow> Some (Some (p\<lparr>pool_queue := q\<rparr>), s\<lparr>items := h\<rparr>) })"


subsection \<open>Popping from the embedded queue\<close>

definition pool_rel :: "conn_mgr_pool_t \<Rightarrow> 'a pool_os_scheme \<Rightarrow> item_heap \<Rightarrow> addr list \<Rightarrow> bool" where
  "pool_rel p s h0 idle \<longleftrightarrow> queue_rel (Some (pool_queue p), items s) h0 idle"

lemma pool_pop_head_nil:
  "pool_rel p s h0 [] \<Longrightarrow> pool_pop_head p s = Some (NULL, p, s)"
  using connq.pop_nil by (simp add: pool_pop_head_def pool_rel_def)

lemma pool_pop_head_cons:
  assumes "pool_rel p s h0 (a # idle)"
  shows "\<exists>q h. pool_pop_head p s = Some (Some a, p\<lparr>pool_queue := q\<rparr>, s\<lparr>items := h\<rparr>) \<and>
    pool_rel (p\<lparr>pool_queue := q\<rparr>) (s\<lparr>items := h\<rparr>) h0 idle"
proof -
  obtain m' where m': "conn_mgr_queue_pop_head (Some (pool_queue p), items s) = Some (Some a, m')"
    "queue_rel m' h0 idle"
    using connq.pop_cons assms unfolding pool_rel_def by blast
  obtain q h where "m' = (Some q, h)" using m'(2) by (rule queue_relE)
  then show ?thesis using m' by (auto simp: pool_pop_head_def pool_rel_def)
qed

lemma pool_rel_more: "items s' = items s \<Longrightarrow> pool_queue p' = pool_queue p \<Longrightarrow>
  pool_rel p' s' h0 idle = pool_rel p s h0 idle"
  by (simp add: pool_rel_def)

lemma more_items: "conn_os.more s' = conn_os.more s \<Longrightarrow> items s' = items s"
  by (cases s; cases s') simp

subsection \<open>Destroying a pool\<close>



subsection \<open>Trying to pop from a pool without idle connections\<close>

text \<open>\<open>try_pop_next c c'\<close>: the loop goes on from \<open>c\<close> to \<open>c'\<close>.\<close>

definition try_pop_next ::
    "conn_mgr_pool_t \<times> 'a pool_os_scheme \<Rightarrow> conn_mgr_pool_t \<times> 'a pool_os_scheme \<Rightarrow> bool" where
  "try_pop_next c c' \<longleftrightarrow> try_pop_turn c = Some (Inl c')"

lemma try_pop_turn_empty:
  assumes "pool_rel p s h0 []"
  shows "try_pop_turn (p, s) =
    (if pool_size p < max_pool_size p
     then map_option (\<lambda>(conn, s'). Inl (p\<lparr>pool_size := pool_size p + 1\<rparr>, s')) (conn_mgr_conn_new (Some (pool_ip p)) s)
     else Some (Inl (p, s)))"
  using assms by (cases "conn_mgr_conn_new (Some (pool_ip p)) s") (auto simp: try_pop_turn_def pool_pop_head_nil)

lemma try_pop_next_empty:
  assumes "pool_rel p s h0 []" and "try_pop_next (p, s) (p', s')"
  shows "pool_rel p' s' h0 [] \<and> (pool_size p < max_pool_size p \<longrightarrow> pool_size p' = pool_size p + 1) \<and> max_pool_size p' = max_pool_size p"
proof (cases "pool_size p < max_pool_size p")
  case True
  then obtain c where new: "conn_mgr_conn_new (Some (pool_ip p)) s = Some (c, s')" "p' = p\<lparr>pool_size := pool_size p + 1\<rparr>"
    using assms by (auto simp: try_pop_next_def try_pop_turn_empty)
  have "items s' = items s" using conn_new_effect [OF new(1)] more_items by blast
  then show ?thesis using assms(1) new(2) by (simp add: pool_rel_def)
next
  case False
  then show ?thesis using assms by (auto simp: try_pop_next_def try_pop_turn_empty)
qed

lemma try_pop_run_empty:
  assumes "try_pop_next\<^sup>*\<^sup>* c c'" and "pool_rel (fst c) (snd c) h0 []"
  shows "pool_rel (fst c') (snd c') h0 []"
  using assms
proof (induction rule: rtranclp_induct)
  case (step d e)
  then show ?case using try_pop_next_empty [of "fst d" "snd d" h0 "fst e" "snd e"] by simp
qed simp

lemma try_pop_loop_empty:
  assumes "try_pop_loop c = Some r"
  shows "\<not> pool_rel (fst c) (snd c) h0 []"
proof (rule try_pop_loop.raw_induct [where P = "\<lambda>c r. \<not> pool_rel (fst c) (snd c) h0 []", OF _ assms])
  fix f :: "conn_mgr_pool_t \<times> 'a pool_os_scheme \<Rightarrow> (cptr \<times> conn_mgr_pool_t \<times> 'a pool_os_scheme) option" and c r
  assume IH: "\<And>c r. f c = Some r \<Longrightarrow> \<not> pool_rel (fst c) (snd c) h0 []"
    and eq: "do { r \<leftarrow> try_pop_turn c; case r of Inl c \<Rightarrow> f c | Inr res \<Rightarrow> Some res } = Some r"
  show "\<not> pool_rel (fst c) (snd c) h0 []"
  proof
    assume empty: "pool_rel (fst c) (snd c) h0 []"
    obtain c' where c': "try_pop_turn c = Some (Inl c')" "f c' = Some r"
      using eq try_pop_turn_empty [OF empty] by (auto elim!: bind_SomeE split: if_splits)
    then show False using try_pop_next_empty [OF empty, of "fst c'" "snd c'"] IH by (simp add: try_pop_next_def)
  qed
qed

text \<open>
  C9: with an idle connection \<open>conn_mgr_pool_try_pop\<close> returns the first one and leaves the others. Without one it loops for
  ever, with the mutex held: in every state the loop reaches no connection is idle, and the turn from there goes on. While
  the pool is not full the turn opens a connection, whatever the outcome counts it and drops it; once the pool is full the
  turn leaves the state as it is, so that no further turn can end the loop. (A turn has no result only where the
  kernel never answers \<open>conn_mgr_conn_new\<close>.)
\<close>

theorem try_pop_returns_iff_idle:
  assumes "queue_rel (Some (pool_queue p), items s) h0 idle"
  shows "(idle \<noteq> [] \<longrightarrow> (\<exists>p' s'. conn_mgr_pool_try_pop (Some p) s = Some (Some (hd idle), Some p', s') \<and>
      queue_rel (Some (pool_queue p'), items s') h0 (tl idle))) \<and>
    (idle = [] \<longrightarrow> conn_mgr_pool_try_pop (Some p) s = None \<and>
      (\<forall>p' s'. try_pop_next\<^sup>*\<^sup>* (p, s) (p', s') \<longrightarrow> queue_rel (Some (pool_queue p'), items s') h0 [] \<and>
        (if pool_size p' < max_pool_size p'
         then \<forall>conn s''. conn_mgr_conn_new (Some (pool_ip p')) s' = Some (conn, s'') \<longrightarrow>
                try_pop_turn (p', s') = Some (Inl (p'\<lparr>pool_size := pool_size p' + 1\<rparr>, s''))
         else try_pop_turn (p', s') = Some (Inl (p', s')))))"
proof (cases idle)
  case Nil
  then have empty: "pool_rel p s h0 []" using assms by (simp add: pool_rel_def)
  have "try_pop_loop (p, s) = None"
    using try_pop_loop_empty [of "(p, s)" _ h0] empty by (cases "try_pop_loop (p, s)") auto
  moreover have "queue_rel (Some (pool_queue p'), items s') h0 [] \<and> try_pop_turn (p', s') =
      (if pool_size p' < max_pool_size p'
       then map_option (\<lambda>(conn, s''). Inl (p'\<lparr>pool_size := pool_size p' + 1\<rparr>, s'')) (conn_mgr_conn_new (Some (pool_ip p')) s')
       else Some (Inl (p', s')))" if "try_pop_next\<^sup>*\<^sup>* (p, s) (p', s')" for p' s'
    using try_pop_run_empty [OF that, of h0] empty try_pop_turn_empty [of p' s' h0] by (simp add: pool_rel_def)
  ultimately show ?thesis using Nil by (simp add: conn_mgr_pool_try_pop_def)
next
  case (Cons a xs)
  then have "pool_rel p s h0 (a # xs)" using assms by (simp add: pool_rel_def)
  then show ?thesis
    using pool_pop_head_cons [of p s h0 a xs] Cons
    by (subst conn_mgr_pool_try_pop_def, subst try_pop_loop.simps) (auto simp: try_pop_turn_def pool_rel_def)
qed

subsection \<open>Threads sharing a pool\<close>

record csys =
  pool :: conn_mgr_pool_t
  world :: pool_os
  sleeping :: "nat set"
  woken :: "nat set"
  held :: "nat \<Rightarrow> addr set"

definition take_conn :: "nat \<Rightarrow> cptr \<Rightarrow> (nat \<Rightarrow> addr set) \<Rightarrow> nat \<Rightarrow> addr set" where
  "take_conn t r H = (case r of NULL \<Rightarrow> H | Some a \<Rightarrow> H(t := insert a (H t)))"

text \<open>
  \<open>kernel\<close> lets the environment choose any answers for the calls to come. A thread pops when
  it runs (it is new in \<open>conn_mgr_pool_pop\<close>, or woken inside it), and pushes a connection it
  holds; the signal wakes one sleeper if there is one.
\<close>

inductive pool_step :: "csys \<Rightarrow> csys \<Rightarrow> bool" where
  kernel: "pool_step c (c\<lparr>world := (world c)\<lparr>replies := rs\<rparr>\<rparr>)"
| pop_done: "t \<notin> sleeping c \<Longrightarrow>
     conn_mgr_pool_pop (Some (pool c)) (world c) = Some (Return r, Some p', s') \<Longrightarrow>
     pool_step c (c\<lparr>pool := p', world := s', woken := woken c - {t}, held := take_conn t r (held c)\<rparr>)"
| pop_wait: "t \<notin> sleeping c \<Longrightarrow>
     conn_mgr_pool_pop (Some (pool c)) (world c) = Some (CondWait, Some p', s') \<Longrightarrow>
     pool_step c (c\<lparr>pool := p', world := s', woken := woken c - {t},
                   sleeping := insert t (sleeping c)\<rparr>)"
| push_quiet: "t \<notin> sleeping c \<union> woken c \<Longrightarrow> a \<in> held c t \<Longrightarrow> sleeping c = {} \<Longrightarrow>
     conn_mgr_pool_push (Some (pool c)) (Some a) (world c) = Some (Some p', s') \<Longrightarrow>
     pool_step c (c\<lparr>pool := p', world := s', held := (held c)(t := held c t - {a})\<rparr>)"
| push_signal: "t \<notin> sleeping c \<union> woken c \<Longrightarrow> a \<in> held c t \<Longrightarrow> u \<in> sleeping c \<Longrightarrow>
     conn_mgr_pool_push (Some (pool c)) (Some a) (world c) = Some (Some p', s') \<Longrightarrow>
     pool_step c (c\<lparr>pool := p', world := s', held := (held c)(t := held c t - {a}),
                   sleeping := sleeping c - {u}, woken := insert u (woken c)\<rparr>)"
| spurious: "u \<in> sleeping c \<Longrightarrow>
     pool_step c (c\<lparr>sleeping := sleeping c - {u}, woken := insert u (woken c)\<rparr>)"

definition pool_start :: "csys \<Rightarrow> bool" where
  "pool_start c \<longleftrightarrow>
     (\<exists>ip port n timeout s p s'. conn_mgr_pool_new ip port n timeout s = Some (Some p, s') \<and>
        pool c = p \<and> world c = s' \<and> sleeping c = {} \<and> woken c = {} \<and> held c = (\<lambda>_. {}))"

text \<open>The connections in the hands of threads.\<close>

definition in_use :: "(nat \<Rightarrow> addr set) \<Rightarrow> addr set" where
  "in_use H = (\<Union>t. H t)"

text \<open>
  What the pool and its users own: the idle list and the hands of the threads are disjoint
  sets of live connection objects, the size counter covers them and stays within the limit.
\<close>

definition owns :: "conn_mgr_pool_t \<Rightarrow> pool_os \<Rightarrow> (nat \<Rightarrow> addr set) \<Rightarrow> addr list \<Rightarrow> bool" where
  "owns p s H idle \<longleftrightarrow>
     (\<exists>h0. pool_rel p s h0 idle) \<and> distinct idle \<and> finite (in_use H) \<and>
     (\<forall>t u. t \<noteq> u \<longrightarrow> H t \<inter> H u = {}) \<and> set idle \<inter> in_use H = {} \<and>
     set idle \<union> in_use H \<subseteq> dom (conns s) \<and>
     length idle + card (in_use H) \<le> unat (pool_size p) \<and> pool_size p \<le> max_pool_size p"

definition pool_inv :: "csys \<Rightarrow> bool" where
  "pool_inv c \<longleftrightarrow>
     (\<exists>idle. owns (pool c) (world c) (held c) idle \<and>
        (sleeping c \<noteq> {} \<longrightarrow> length idle \<le> card (woken c))) \<and>
     finite (woken c) \<and> sleeping c \<inter> woken c = {}"

lemma in_use_take: "in_use (take_conn t (Some a) H) = insert a (in_use H)"
  by (auto simp: in_use_def take_conn_def split: if_splits)

lemma in_use_give:
  "a \<in> H t \<Longrightarrow> (\<forall>u v. u \<noteq> v \<longrightarrow> H u \<inter> H v = {}) \<Longrightarrow> in_use (H(t := H t - {a})) = in_use H - {a}"
  by (auto simp: in_use_def split: if_splits)

lemma disjoint_take:
  "a \<notin> in_use H \<Longrightarrow> (\<forall>u v. u \<noteq> v \<longrightarrow> H u \<inter> H v = {}) \<Longrightarrow>
   (\<forall>u v. u \<noteq> v \<longrightarrow> take_conn t (Some a) H u \<inter> take_conn t (Some a) H v = {})"
  by (auto simp: in_use_def take_conn_def)

lemma owns_take_idle:
  assumes "owns p s H (a # idle)" and "pool_rel p' s' h0 idle"
    and "conns s' = conns s" and "pool_size p' = pool_size p" and "max_pool_size p' = max_pool_size p"
  shows "owns p' s' (take_conn t (Some a) H) idle"
proof -
  have a: "a \<notin> in_use H" and fin: "finite (in_use H)"
    and dis: "\<forall>u v. u \<noteq> v \<longrightarrow> H u \<inter> H v = {}"
    using assms(1) by (auto simp: owns_def)
  have "card (insert a (in_use H)) = Suc (card (in_use H))" using a fin by simp
  then show ?thesis
    using assms disjoint_take [OF a dis] unfolding owns_def by (auto simp: in_use_take)
qed

lemma owns_take_new:
  assumes "owns p s H []" and "pool_rel p s' h0 []" and "pool_size p < max_pool_size p"
    and "a \<notin> dom (conns s)" and "conns s' = (conns s)(a \<mapsto> c)"
  shows "owns (p\<lparr>pool_size := pool_size p + 1\<rparr>) s' (take_conn t (Some a) H) []"
proof -
  have a: "a \<notin> in_use H" and fin: "finite (in_use H)"
    and dis: "\<forall>u v. u \<noteq> v \<longrightarrow> H u \<inter> H v = {}"
    using assms(1,4) by (auto simp: owns_def)
  have size: "unat (pool_size p + 1) = Suc (unat (pool_size p))"
    using assms(3) by (rule unat_Suc_less)
  then have "pool_size p + 1 \<le> max_pool_size p"
    using assms(3) by (simp add: word_le_nat_alt word_less_nat_alt)
  moreover have "card (insert a (in_use H)) = Suc (card (in_use H))" using a fin by simp
  moreover have "pool_rel (p\<lparr>pool_size := pool_size p + 1\<rparr>) s' h0 []"
    using assms(2) by (simp add: pool_rel_def)
  ultimately show ?thesis
    using assms(1,5) disjoint_take [OF a dis] size unfolding owns_def by (auto simp: in_use_take)
qed

lemma pop_owns:
  assumes own: "owns p s H idle"
    and pop: "conn_mgr_pool_pop (Some p) s = Some (r, p', s')"
  shows "\<exists>p1. p' = Some p1 \<and>
    (case r of
       Return (Some a) \<Rightarrow> owns p1 s' (take_conn t (Some a) H) (tl idle)
     | Return NULL \<Rightarrow> owns p1 s' H idle \<and> idle = []
     | CondWait \<Rightarrow> owns p1 s' H idle \<and> idle = [])"
proof (cases idle)
  case Nil
  obtain h0 where rel: "pool_rel p s h0 []" using own Nil by (auto simp: owns_def)
  show ?thesis
  proof (cases "pool_size p < max_pool_size p")
    case True
    then obtain c where new: "conn_mgr_conn_new (Some (pool_ip p)) s = Some (c, s')"
      and r: "r = Return c" "p' = Some (if c \<noteq> NULL then p\<lparr>pool_size := pool_size p + 1\<rparr> else p)"
      using pop by (auto simp: conn_mgr_pool_pop_def pool_pop_head_nil [OF rel] elim!: bind_SomeE)
    note eff = conn_new_effect [OF new]
    have rel': "pool_rel p s' h0 []"
      using rel more_items [of s' s] eff by (simp add: pool_rel_def)
    show ?thesis
    proof (cases c)
      case None
      then have "conns s' = conns s" using eff by simp
      then have "owns p s' H []" using own rel' Nil unfolding owns_def by auto
      then show ?thesis using r None Nil by simp
    next
      case (Some a)
      then obtain fd where "a \<notin> dom (conns s)" "conns s' = (conns s)(a \<mapsto> \<lparr>conn_fd = fd\<rparr>)"
        using eff by auto
      then show ?thesis using owns_take_new [of p s H s' h0 a] own rel' True r Some Nil by simp
    qed
  next
    case False
    then show ?thesis using pop own Nil
      by (auto simp: conn_mgr_pool_pop_def pool_pop_head_nil [OF rel])
  qed
next
  case (Cons a xs)
  obtain h0 where "pool_rel p s h0 (a # xs)" using own Cons by (auto simp: owns_def)
  then obtain q h where ph: "pool_pop_head p s = Some (Some a, p\<lparr>pool_queue := q\<rparr>, s\<lparr>items := h\<rparr>)"
    and rel: "pool_rel (p\<lparr>pool_queue := q\<rparr>) (s\<lparr>items := h\<rparr>) h0 xs"
    using pool_pop_head_cons by blast
  then have "r = Return (Some a)" "p' = Some (p\<lparr>pool_queue := q\<rparr>)" "s' = s\<lparr>items := h\<rparr>"
    using pop by (auto simp: conn_mgr_pool_pop_def)
  then show ?thesis using owns_take_idle [OF own [unfolded Cons] rel] Cons by simp
qed

lemma owns_give:
  assumes own: "owns p s H idle" and a: "a \<in> H t"
    and rel: "pool_rel p1 s1 h0 idle'" and "idle' = idle \<or> idle' = a # idle"
    and same: "conns s1 = conns s" "pool_size p1 = pool_size p" "max_pool_size p1 = max_pool_size p"
  shows "owns p1 s1 (H(t := H t - {a})) idle'"
proof -
  have use: "in_use (H(t := H t - {a})) = in_use H - {a}" "a \<in> in_use H"
    using own a in_use_give [of a H t] by (auto simp: owns_def in_use_def)
  have card: "card (in_use H) = Suc (card (in_use H - {a}))"
    using own use(2) card_Suc_Diff1 [of "in_use H" a] by (auto simp: owns_def)
  have disj: "\<forall>u v. u \<noteq> v \<longrightarrow> (H(t := H t - {a})) u \<inter> (H(t := H t - {a})) v = {}"
    using own by (auto simp: owns_def)
  have o: "distinct idle" "finite (in_use H)" "set idle \<inter> in_use H = {}" "set idle \<subseteq> dom (conns s)"
    "in_use H \<subseteq> dom (conns s)" "length idle + card (in_use H) \<le> unat (pool_size p)"
    "pool_size p \<le> max_pool_size p"
    using own unfolding owns_def by simp_all
  have "a \<notin> set idle" "a \<in> dom (conns s)" using o(3,5) use(2) by blast+
  then have idle: "distinct idle'" "set idle' \<inter> (in_use H - {a}) = {}" "set idle' \<subseteq> dom (conns s)"
    using o(1,3,4) assms(4) by auto
  have "length idle' + card (in_use H - {a}) \<le> unat (pool_size p)"
    using o(6) card assms(4) by auto
  moreover have "set idle' \<union> (in_use H - {a}) \<subseteq> dom (conns s)" "finite (in_use H - {a})"
    using idle(3) o(2,5) by auto
  ultimately show ?thesis
    unfolding owns_def use(1) same using rel disj idle o(7) by blast
qed

lemma push_owns:
  assumes own: "owns p s H idle" and a: "a \<in> H t"
    and push: "conn_mgr_pool_push (Some p) (Some a) s = Some (p', s')"
  shows "\<exists>p1 idle'. p' = Some p1 \<and> owns p1 s' (H(t := H t - {a})) idle' \<and> length idle' \<le> Suc (length idle)"
proof -
  obtain h0 where rel: "pool_rel p s h0 idle" using own by (auto simp: owns_def)
  obtain item u where u: "sys_malloc s = Some (item, u)"
    using push by (auto simp: conn_mgr_pool_push_def elim!: bind_SomeE)
  have k: "conns u = conns s" "items u = items s"
    using keeps_io_sys(2) [OF u] more_conns [of u s] more_items [of u s] by auto
  show ?thesis
  proof (cases item)
    case None
    then have "p' = Some p" "s' = u"
      using push u by (auto simp: conn_mgr_pool_push_def conn_mgr_queue_push_head_def)
    moreover have "pool_rel p u h0 idle" using rel k by (simp add: pool_rel_def)
    ultimately show ?thesis
      using owns_give [OF own a, of p u h0 idle] k by (intro exI [of _ p] exI [of _ idle]) simp
  next
    case (Some i)
    then have i: "items u i = None"
      using push u by (auto simp: conn_mgr_pool_push_def domIff split: if_splits)
    have "queue_rel (conn_mgr_queue_push_head (Some i) (Some a) (Some (pool_queue p), items u)) h0 (a # idle)"
      using connq.push_law [of _ h0 idle i a] rel i k by (simp add: pool_rel_def)
    moreover from this obtain q h where
      "conn_mgr_queue_push_head (Some i) (Some a) (Some (pool_queue p), items u) = (Some q, h)"
      by (rule queue_relE)
    ultimately have res: "p' = Some (p\<lparr>pool_queue := q\<rparr>)" "s' = u\<lparr>items := h\<rparr>"
      and "pool_rel (p\<lparr>pool_queue := q\<rparr>) (u\<lparr>items := h\<rparr>) h0 (a # idle)"
      using push u Some by (auto simp: conn_mgr_pool_push_def pool_rel_def split: if_splits)
    then have "owns (p\<lparr>pool_queue := q\<rparr>) s' (H(t := H t - {a})) (a # idle)"
      using owns_give [OF own a, of "p\<lparr>pool_queue := q\<rparr>" s' h0 "a # idle"] k by simp
    then show ?thesis
      unfolding res(1) by (intro exI [of _ "p\<lparr>pool_queue := q\<rparr>"] exI [of _ "a # idle"]) simp
  qed
qed

lemma pool_step_inv [tpt_inv]: "pool_step c c' \<Longrightarrow> pool_inv c \<Longrightarrow> pool_inv c'"
proof (induction rule: pool_step.induct)
  case (kernel c rs)
  have "owns (pool c) ((world c)\<lparr>replies := rs\<rparr>) (held c) idle = owns (pool c) (world c) (held c) idle"
    for idle
    by (simp add: owns_def pool_rel_def)
  then show ?case using kernel by (simp add: pool_inv_def)
next
  case (pop_done t c r p' s')
  obtain idle where idle: "owns (pool c) (world c) (held c) idle"
    "sleeping c \<noteq> {} \<longrightarrow> length idle \<le> card (woken c)"
    using pop_done.prems by (auto simp: pool_inv_def)
  have w: "finite (woken c)" using pop_done.prems by (simp add: pool_inv_def)
  then have "length (tl idle) \<le> card (woken c - {t})" if "sleeping c \<noteq> {}"
    using idle(2) that card_Diff_singleton_if [of "woken c" t] by (cases idle) auto
  moreover have "\<exists>idle'. owns p' s' (take_conn t r (held c)) idle' \<and> idle' = tl idle"
    using pop_owns [OF idle(1) pop_done.hyps(2), of t] by (cases r) (auto simp: take_conn_def)
  ultimately have "\<exists>idle'. owns p' s' (take_conn t r (held c)) idle' \<and>
      (sleeping c \<noteq> {} \<longrightarrow> length idle' \<le> card (woken c - {t}))"
    by blast
  then show ?case using pop_done.prems w by (auto simp: pool_inv_def)
next
  case (pop_wait t c p' s')
  obtain idle where idle: "owns (pool c) (world c) (held c) idle"
    using pop_wait.prems by (auto simp: pool_inv_def)
  then have "owns p' s' (held c) []"
    using pop_owns [OF idle pop_wait.hyps(2)] by auto
  then show ?case using pop_wait by (auto simp: pool_inv_def intro!: exI [of _ "[]"])
next
  case (push_quiet t c a p' s')
  obtain idle where idle: "owns (pool c) (world c) (held c) idle"
    using push_quiet.prems by (auto simp: pool_inv_def)
  obtain idle' where "owns p' s' ((held c)(t := held c t - {a})) idle'"
    using push_owns [OF idle push_quiet.hyps(2,4)] by auto
  then show ?case using push_quiet by (auto simp: pool_inv_def)
next
  case (push_signal t c a u p' s')
  obtain idle where idle: "owns (pool c) (world c) (held c) idle" "length idle \<le> card (woken c)"
    using push_signal by (auto simp: pool_inv_def)
  obtain idle' where idle': "owns p' s' ((held c)(t := held c t - {a})) idle'"
    "length idle' \<le> Suc (length idle)"
    using push_owns [OF idle(1) push_signal.hyps(2,4)] by auto
  have "u \<notin> woken c" "finite (woken c)"
    using push_signal.prems push_signal.hyps(3) unfolding pool_inv_def by blast+
  then have "card (insert u (woken c)) = Suc (card (woken c))" by simp
  then have "length idle' \<le> card (insert u (woken c))" using idle(2) idle'(2) by simp
  then show ?case using idle'(1) push_signal.prems by (auto simp: pool_inv_def)
next
  case (spurious u c)
  have "card (woken c) \<le> card (insert u (woken c))"
    using spurious.prems by (auto simp: pool_inv_def intro!: card_mono)
  then show ?case using spurious unfolding pool_inv_def by fastforce
qed

lemma pool_new_fields:
  assumes "conn_mgr_pool_new ip port n timeout s = Some (Some p, s')"
  shows "pool_size p = 0 \<and> pool_queue p = \<lparr>q_head = NULL, q_tail = NULL\<rparr> \<and> max_pool_size p = n"
  using assms
  by (auto simp: conn_mgr_pool_new_def conn_mgr_queue_init_def elim!: bind_SomeE split: option.splits)

lemma pool_start_inv: "pool_start c \<Longrightarrow> pool_inv c"
proof -
  assume start: "pool_start c"
  then have c: "sleeping c = {}" "woken c = {}" "held c = (\<lambda>_. {})"
    and p: "pool_size (pool c) = 0" "pool_queue (pool c) = \<lparr>q_head = NULL, q_tail = NULL\<rparr>"
    by (auto simp: pool_start_def dest: pool_new_fields)
  have "pool_rel (pool c) (world c) (items (world c)) []"
    using queue_init_rel [of "\<lparr>q_head = NULL, q_tail = NULL\<rparr>"] p(2)
    by (simp add: pool_rel_def conn_mgr_queue_init_def)
  then have "owns (pool c) (world c) (held c) []"
    using c(3) p(1) by (auto simp: owns_def in_use_def)
  then show ?thesis using c by (auto simp: pool_inv_def)
qed

interpretation pool_sys: inv_system pool_start pool_step pool_inv
  by unfold_locales (auto intro: pool_start_inv pool_step_inv)

text \<open>
  C6: however many threads pop and push concurrently, whatever the kernel answers, a connection
  is held by at most one thread, a held connection is not idle in the queue, and idle and held
  connections together are never more than \<open>max_pool_size\<close>.
\<close>

theorem pool_exclusive:
  assumes "reach pool_start pool_step c"
  shows "\<exists>h0 idle. queue_rel (Some (pool_queue (pool c)), items (world c)) h0 idle \<and>
    (\<forall>t u. t \<noteq> u \<longrightarrow> held c t \<inter> held c u = {}) \<and> (\<forall>t. set idle \<inter> held c t = {}) \<and>
    length idle + card (\<Union>t. held c t) \<le> unat (max_pool_size (pool c))"
proof -
  obtain idle where own: "owns (pool c) (world c) (held c) idle"
    using pool_sys.reach_inv [OF assms] by (auto simp: pool_inv_def)
  then obtain h0 where "queue_rel (Some (pool_queue (pool c)), items (world c)) h0 idle"
    by (auto simp: owns_def pool_rel_def)
  moreover have "length idle + card (\<Union>t. held c t) \<le> unat (max_pool_size (pool c))"
    using own by (auto simp: owns_def in_use_def word_le_nat_alt)
  moreover have "\<forall>t u. t \<noteq> u \<longrightarrow> held c t \<inter> held c u = {}"
    using own unfolding owns_def by blast
  moreover have "\<forall>t. set idle \<inter> held c t = {}"
    using own unfolding owns_def in_use_def by blast
  ultimately show ?thesis by blast
qed

text \<open>
  C7: no wakeup is lost: while a connection is idle in the queue and a thread sleeps in
  \<open>pthread_cond_wait\<close>, some thread has been woken and has yet to look at the queue.
\<close>

theorem pool_no_lost_wakeup:
  assumes "reach pool_start pool_step c"
    and "queue_rel (Some (pool_queue (pool c)), items (world c)) h0 idle" and "idle \<noteq> []"
    and "sleeping c \<noteq> {}"
  shows "woken c \<noteq> {}"
proof -
  obtain idle' where own: "owns (pool c) (world c) (held c) idle'" "length idle' \<le> card (woken c)"
    using pool_sys.reach_inv [OF assms(1)] assms(4) by (auto simp: pool_inv_def)
  then have "idle' = idle"
    using assms(2) queue_rel_unique unfolding owns_def pool_rel_def by blast
  then show ?thesis using own(2) assms(3) by auto
qed

subsection \<open>A run with a connection, two sleepers and a signal\<close>

definition pool_boot :: "reply list \<Rightarrow> pool_os" where
  "pool_boot rs = \<lparr>replies = rs, os_errno = EOTHER 0, fds = {0, 1, 2}, fdflags = (\<lambda>_. 2),
     sent = (\<lambda>_. []), rcvd = (\<lambda>_. []), closed = [], conn_mgr_conn_errno = CONN_MGR_SUCCESS,
     conns = Map.empty, items = Map.empty\<rparr>"

definition demo_pool :: "conn_mgr_queue_t \<Rightarrow> u32 \<Rightarrow> conn_mgr_pool_t" where
  "demo_pool q n = \<lparr>pool_ip = strncpy 16 ''10.0.0.1'', pool_port = 80, max_pool_size = 1,
     pool_size = n, connect_timeout = 100, pool_queue = q\<rparr>"

definition demo_world :: "reply list \<Rightarrow> item_heap \<Rightarrow> pool_os" where
  "demo_world rs h = \<lparr>replies = rs, os_errno = EOTHER 0, fds = {3, 0, 1, 2},
     fdflags = (\<lambda>_. 2), sent = (\<lambda>_. []), rcvd = (\<lambda>_. []), closed = [],
     conn_mgr_conn_errno = CONN_MGR_SUCCESS, conns = [64 \<mapsto> \<lparr>conn_fd = 3\<rparr>], items = h\<rparr>"

abbreviation (input) empty_q :: conn_mgr_queue_t where
  "empty_q \<equiv> \<lparr>q_head = NULL, q_tail = NULL\<rparr>"

abbreviation (input) one_q :: conn_mgr_queue_t where
  "one_q \<equiv> \<lparr>q_head = Some 8, q_tail = Some 8\<rparr>"

definition demo_0 :: csys where
  "demo_0 = \<lparr>pool = demo_pool empty_q 0,
     world = pool_boot [Ok 3, Ok 0, Ok 0, Ok 0, Ok 0, Ok 0, Ok 64, Ok 8],
     sleeping = {}, woken = {}, held = (\<lambda>_. {})\<rparr>"

definition demo_1 :: csys where
  "demo_1 = \<lparr>pool = demo_pool empty_q 1, world = demo_world [Ok 8] Map.empty,
     sleeping = {}, woken = {}, held = (\<lambda>_. {})(0 := {64})\<rparr>"

definition demo_2 :: csys where
  "demo_2 = \<lparr>pool = demo_pool one_q 1,
     world = demo_world [] [8 \<mapsto> \<lparr>item_data = 64, item_next = NULL\<rparr>],
     sleeping = {2}, woken = {1}, held = (\<lambda>_. {})\<rparr>"

lemmas pool_eval = conn_mgr_pool_pop_def conn_mgr_pool_push_def pool_pop_head_def
  conn_mgr_queue_pop_head_def conn_mgr_queue_push_head_def demo_pool_def pool_boot_def demo_world_def

lemma demo_start: "pool_start demo_0"
  unfolding pool_start_def demo_0_def
  by (rule exI [of _ "Some ''10.0.0.1''"], rule exI [of _ 80], rule exI [of _ 1],
      rule exI [of _ 100],
      rule exI [of _ "pool_boot [Ok 5, Ok 3, Ok 0, Ok 0, Ok 0, Ok 0, Ok 0, Ok 64, Ok 8]"])
    (simp add: conn_mgr_pool_new_def pool_boot_def demo_pool_def sys_defs sys_next_def
      conn_mgr_queue_init_def)

lemma demo_pop_0:
  "conn_mgr_pool_pop (Some (demo_pool empty_q 0))
     (pool_boot [Ok 3, Ok 0, Ok 0, Ok 0, Ok 0, Ok 0, Ok 64, Ok 8])
   = Some (Return (Some 64), Some (demo_pool empty_q 1), demo_world [Ok 8] Map.empty)"
  by (simp add: pool_eval conn_eval O_NONBLOCK_def fun_eq_iff)

lemma demo_reach_1: "reach pool_start pool_step demo_1"
proof -
  have "pool_step demo_0 demo_1"
    using pool_step.pop_done [of 0 demo_0 "Some 64"] demo_pop_0
    by (simp add: demo_0_def demo_1_def take_conn_def)
  then show ?thesis using reach_init [of pool_start, OF demo_start] by (rule reach_step [rotated])
qed

lemma demo_pop_1:
  "conn_mgr_pool_pop (Some (demo_pool empty_q 1)) (demo_world [Ok 8] Map.empty)
   = Some (CondWait, Some (demo_pool empty_q 1), demo_world [Ok 8] Map.empty)"
  by (simp add: pool_eval)

lemma demo_push:
  "conn_mgr_pool_push (Some (demo_pool empty_q 1)) (Some 64) (demo_world [Ok 8] Map.empty)
   = Some (Some (demo_pool one_q 1), demo_world [] [8 \<mapsto> \<lparr>item_data = 64, item_next = NULL\<rparr>])"
  by (simp add: pool_eval sys_defs sys_next_def)

lemma demo_reach_2: "reach pool_start pool_step demo_2"
proof -
  have "pool_step demo_1 (demo_1\<lparr>sleeping := {1}\<rparr>)"
    using pool_step.pop_wait [of 1 demo_1] demo_pop_1 by (simp add: demo_1_def)
  moreover have "pool_step (demo_1\<lparr>sleeping := {1}\<rparr>) (demo_1\<lparr>sleeping := {2, 1}\<rparr>)"
    using pool_step.pop_wait [of 2 "demo_1\<lparr>sleeping := {1}\<rparr>"] demo_pop_1 by (simp add: demo_1_def)
  moreover have "pool_step (demo_1\<lparr>sleeping := {2, 1}\<rparr>) demo_2"
    using pool_step.push_signal [of 0 "demo_1\<lparr>sleeping := {2, 1}\<rparr>" 64 1] demo_push
    by (simp add: demo_1_def demo_2_def insert_Diff_if fun_upd_idem)
  ultimately show ?thesis using demo_reach_1 by (metis reach_step)
qed

lemma demo_2_queue:
  "queue_rel (Some (pool_queue (pool demo_2)), items (world demo_2)) Map.empty [64]"
  by (rule queue_relI [of _ _ "[8]"])
    (auto simp: demo_2_def demo_pool_def demo_world_def cell_data_def restrict_map_def)

theorem pool_exclusive_witness:
  "\<exists>h0 idle. queue_rel (Some (pool_queue (pool demo_2)), items (world demo_2)) h0 idle \<and>
    (\<forall>t u. t \<noteq> u \<longrightarrow> held demo_2 t \<inter> held demo_2 u = {}) \<and> (\<forall>t. set idle \<inter> held demo_2 t = {}) \<and>
    length idle + card (\<Union>t. held demo_2 t) \<le> unat (max_pool_size (pool demo_2))"
  by (rule pool_exclusive [OF demo_reach_2])

theorem pool_no_lost_wakeup_witness: "sleeping demo_2 = {2} \<and> woken demo_2 \<noteq> {}"
  using pool_no_lost_wakeup [OF demo_reach_2 demo_2_queue] by (simp add: demo_2_def)


theorem try_pop_returns_iff_idle_witness:
  "(\<exists>p' s'. conn_mgr_pool_try_pop (Some (pool demo_2)) (world demo_2) = Some (Some 64, Some p', s')) \<and>
   conn_mgr_pool_try_pop (Some (demo_pool empty_q 1)) (demo_world [] Map.empty) = None \<and>
   try_pop_turn (demo_pool empty_q 1, demo_world [] Map.empty) = Some (Inl (demo_pool empty_q 1, demo_world [] Map.empty)) \<and>
   (\<exists>s'. try_pop_turn (demo_pool empty_q 0, pool_boot [Fail ENOMEM]) = Some (Inl (demo_pool empty_q 1, s')))"
proof -
  have full: "queue_rel (Some (pool_queue (demo_pool empty_q 1)), items (demo_world [] Map.empty)) Map.empty []"
    and room: "queue_rel (Some (pool_queue (demo_pool empty_q 0)), items (pool_boot [Fail ENOMEM])) Map.empty []"
    by (rule queue_relI [of _ _ "[]"]; auto simp: demo_pool_def demo_world_def pool_boot_def)+
  have size: "pool_size (demo_pool empty_q n) = n" "max_pool_size (demo_pool empty_q n) = 1"
    "(demo_pool empty_q 0)\<lparr>pool_size := 1\<rparr> = demo_pool empty_q 1" for n
    by (simp_all add: demo_pool_def)
  obtain s' where "conn_mgr_conn_new (Some (pool_ip (demo_pool empty_q 0))) (pool_boot [Fail ENOMEM]) = Some (NULL, s')"
    by (simp add: conn_mgr_conn_new_def pool_boot_def sys_newfd_def sys_next_def)
  then have "try_pop_turn (demo_pool empty_q 0, pool_boot [Fail ENOMEM]) = Some (Inl (demo_pool empty_q 1, s'))"
    using try_pop_returns_iff_idle [OF room] by (auto simp: size)
  moreover have "try_pop_turn (demo_pool empty_q 1, demo_world [] Map.empty) = Some (Inl (demo_pool empty_q 1, demo_world [] Map.empty))"
    "conn_mgr_pool_try_pop (Some (demo_pool empty_q 1)) (demo_world [] Map.empty) = None"
    using try_pop_returns_iff_idle [OF full] by (auto simp: size)
  ultimately show ?thesis using try_pop_returns_iff_idle [OF demo_2_queue] by auto
qed

end
