(* ===== verification/Mem_Pool.thy ===== *)
theory Mem_Pool
  imports Tpt_Prelude
begin

unbundle bit_operations_syntax

section \<open>The slab memory pool\<close>

text \<open>
  Models \<open>src/src/system/mem_pool/argo_mem_pool.c\<close>. Memory is a set of live allocations (base
  address and size in bytes) and the 64-bit words they hold. A metadata access goes through
  \<open>load\<close> and \<open>store\<close>, which give \<open>None\<close> (undefined behaviour) unless the eight bytes are aligned
  and inside one live allocation. \<open>ARGO_ALLOC\<close> and \<open>ARGO_FREE\<close> come from a header that is not in
  the repository: they are the fields of an \<open>allocator\<close>, and what the pool relies on is
  \<open>alloc_ok\<close>. The sizes and counts are \<open>uint32_t\<close> and wrap, the metadata is \<open>uint64_t\<close>.

  The lemmas show that the free list threaded through the objects refines a stack of
  (slab, object) pairs, that pointers handed out are aligned, inside a slab and disjoint,
  whatever the clients write into their objects, that every allocation is given back by
  \<open>argo_mem_pool_destroy\<close>, and for which arguments \<open>argo_mem_pool_create\<close> corrupts memory.
\<close>

subsection \<open>Memory\<close>

record heap =
  blocks :: "(addr \<times> nat) list"
  heap_words :: "addr \<Rightarrow> u64"

definition in_block :: "heap \<Rightarrow> addr \<Rightarrow> bool" where
  "in_block h a \<longleftrightarrow> (\<exists>(b, n) \<in> set (blocks h). b \<le> a \<and> a + 8 \<le> b + n)"

definition load :: "addr \<Rightarrow> heap \<Rightarrow> u64 option" where
  "load a h = (if 8 dvd a \<and> in_block h a then Some (heap_words h a) else None)"

definition store :: "addr \<Rightarrow> u64 \<Rightarrow> heap \<Rightarrow> heap option" where
  "store a w h = (if 8 dvd a \<and> in_block h a
     then Some (h\<lparr>heap_words := (heap_words h)(a := w)\<rparr>) else None)"

definition heap_wf :: "heap \<Rightarrow> bool" where
  "heap_wf h \<longleftrightarrow> (\<forall>(b, n) \<in> set (blocks h). \<forall>(b', n') \<in> set (blocks h).
     (b = b' \<longrightarrow> n = n') \<and> (b \<noteq> b' \<longrightarrow> b + n \<le> b' \<or> b' + n' \<le> b))"

record allocator =
  argo_alloc :: "nat \<Rightarrow> heap \<Rightarrow> cptr \<times> heap"
  argo_free :: "addr \<Rightarrow> heap \<Rightarrow> heap option"

definition alloc_ok :: "allocator \<Rightarrow> bool" where
  "alloc_ok A \<longleftrightarrow>
     (\<forall>n h h'. heap_wf h \<longrightarrow> argo_alloc A n h = (NULL, h') \<longrightarrow> h' = h) \<and>
     (\<forall>n h a h'. heap_wf h \<longrightarrow> argo_alloc A n h = (Some a, h') \<longrightarrow>
        8 dvd a \<and> (\<forall>(b, k) \<in> set (blocks h). a \<noteq> b \<and> (a + n \<le> b \<or> b + k \<le> a)) \<and>
        set (blocks h') = insert (a, n) (set (blocks h)) \<and>
        (\<forall>x. in_block h x \<longrightarrow> heap_words h' x = heap_words h x)) \<and>
     (\<forall>a n h. heap_wf h \<longrightarrow> (a, n) \<in> set (blocks h) \<longrightarrow>
        (\<exists>h'. argo_free A a h = Some h' \<and> set (blocks h') = set (blocks h) - {(a, n)} \<and>
          (\<forall>x. in_block h' x \<longrightarrow> heap_words h' x = heap_words h x)))"

subsection \<open>The operations\<close>

definition MP_METADATA_SZ :: nat where
  "MP_METADATA_SZ = 8"

definition MP_OFFSET_BITS :: nat where
  "MP_OFFSET_BITS = 28"

definition MP_OFFSET_MASK :: u64 where
  "MP_OFFSET_MASK = push_bit MP_OFFSET_BITS 1 - 1"

definition MP_OFFSET_INVALID :: u64 where
  "MP_OFFSET_INVALID = MP_OFFSET_MASK"

definition MP_SLAB_SIZE :: u32 where
  "MP_SLAB_SIZE = push_bit MP_OFFSET_BITS 1"

definition MP_SLABS_MAX :: nat where
  "MP_SLABS_MAX = 4096"

text \<open>\<open>sizeof (struct argo_mem_pool)\<close>: 4096 pointers, two 64-bit and two 32-bit fields.\<close>

definition sizeof_argo_mem_pool :: nat where
  "sizeof_argo_mem_pool = 8 * MP_SLABS_MAX + 24"

record argo_mem_pool =
  slabs :: "nat \<Rightarrow> cptr"
  mp_free_next :: u64
  mp_slab_cnt :: u64
  mp_obj_sz :: u32
  mp_obj_cnt :: u32

function mp_free_list_loop ::
    "addr \<Rightarrow> u64 \<Rightarrow> u32 \<Rightarrow> u32 \<Rightarrow> u32 \<Rightarrow> u64 \<Rightarrow> heap \<Rightarrow> (addr \<times> heap) option" where
  "mp_free_list_loop a next_free i obj_sz obj_cnt slab h =
     (if i < obj_cnt - 1 then do {
        h \<leftarrow> store a (slab OR (next_free + ucast obj_sz)) h;
        mp_free_list_loop (a + unat obj_sz) (next_free + ucast obj_sz) (i + 1) obj_sz obj_cnt slab h }
      else Some (a, h))"
  by pat_completeness auto
termination
  by (relation "measure (\<lambda>(a, nf, i, sz, cnt, slab, h). unat (cnt - 1) - unat i)")
    (auto simp: unat_Suc_less word_less_nat)

declare mp_free_list_loop.simps [simp del]

definition mp_free_list_init :: "addr \<Rightarrow> u32 \<Rightarrow> u32 \<Rightarrow> u64 \<Rightarrow> heap \<Rightarrow> heap option" where
  "mp_free_list_init a obj_sz obj_cnt slab_inx h = do {
     let slab = push_bit MP_OFFSET_BITS slab_inx;
     (a, h) \<leftarrow> mp_free_list_loop a 0 0 obj_sz obj_cnt slab h;
     store a (slab OR MP_OFFSET_INVALID) h }"

definition mp_adjust_size_and_count :: "u32 \<Rightarrow> u32 \<Rightarrow> u32 \<times> u32" where
  "mp_adjust_size_and_count sz cnt = (
     let sz = sz + of_nat MP_METADATA_SZ;
         sz = (sz + 7) AND (- 8)
     in (sz, if sz * cnt > MP_SLAB_SIZE then MP_SLAB_SIZE div sz else cnt))"

text \<open>
  The index of the new slab is outside \<open>slabs\<close> (undefined behaviour) when all are in use; the
  callers exclude it.
\<close>

definition mp_create_new_slab ::
    "allocator \<Rightarrow> argo_mem_pool \<Rightarrow> heap \<Rightarrow> (int \<times> argo_mem_pool \<times> heap) option" where
  "mp_create_new_slab A mp h =
     (let slab_cnt = mp_slab_cnt mp; obj_sz = mp_obj_sz mp; obj_cnt = mp_obj_cnt mp in
      if unat slab_cnt \<ge> MP_SLABS_MAX then None
      else (let (p, h) = argo_alloc A (unat (obj_sz * obj_cnt)) h;
                mp = mp\<lparr>slabs := (slabs mp)(unat slab_cnt := p)\<rparr>
        in case p of NULL \<Rightarrow> Some (1, mp, h)
        | Some a \<Rightarrow> do {
            h \<leftarrow> mp_free_list_init a obj_sz obj_cnt slab_cnt h;
            Some (0, mp\<lparr>mp_free_next := push_bit MP_OFFSET_BITS slab_cnt,
                        mp_slab_cnt := slab_cnt + 1\<rparr>, h) }))"

definition argo_mem_pool_create ::
    "allocator \<Rightarrow> u32 \<Rightarrow> u32 \<Rightarrow> heap \<Rightarrow> ((addr \<times> argo_mem_pool) option \<times> heap) option" where
  "argo_mem_pool_create A obj_sz obj_cnt h =
     (let (obj_sz, obj_cnt) = mp_adjust_size_and_count obj_sz obj_cnt;
          (p, h) = argo_alloc A sizeof_argo_mem_pool h
      in case p of NULL \<Rightarrow> Some (NULL, h)
      | Some self \<Rightarrow> do {
          (ret, mp, h) \<leftarrow> mp_create_new_slab A \<lparr>slabs = (\<lambda>_. NULL), mp_free_next = 0,
             mp_slab_cnt = 0, mp_obj_sz = obj_sz, mp_obj_cnt = obj_cnt\<rparr> h;
          if ret \<noteq> 0 then do { h \<leftarrow> argo_free A self h; Some (NULL, h) }
          else Some (Some (self, mp), h) })"

function mp_destroy_loop :: "allocator \<Rightarrow> argo_mem_pool \<Rightarrow> nat \<Rightarrow> heap \<Rightarrow> heap option" where
  "mp_destroy_loop A mp i h =
     (if i < MP_SLABS_MAX then
        (case slabs mp i of NULL \<Rightarrow> mp_destroy_loop A mp (i + 1) h
         | Some a \<Rightarrow> do { h \<leftarrow> argo_free A a h; mp_destroy_loop A mp (i + 1) h })
      else Some h)"
  by pat_completeness auto
termination
  by (relation "measure (\<lambda>(A, mp, i, h). MP_SLABS_MAX - i)") auto

declare mp_destroy_loop.simps [simp del]

definition argo_mem_pool_destroy :: "allocator \<Rightarrow> addr \<Rightarrow> argo_mem_pool \<Rightarrow> heap \<Rightarrow> heap option" where
  "argo_mem_pool_destroy A self mp h = do {
     h \<leftarrow> mp_destroy_loop A mp 0 h;
     argo_free A self h }"

definition argo_mem_pool_expand ::
    "allocator \<Rightarrow> argo_mem_pool \<Rightarrow> heap \<Rightarrow> (int \<times> argo_mem_pool \<times> heap) option" where
  "argo_mem_pool_expand A mp h =
     (if mp_slab_cnt mp = of_nat MP_SLABS_MAX then Some (1, mp, h)
      else do {
        (r, mp, h) \<leftarrow> mp_create_new_slab A mp h;
        Some (if r \<noteq> 0 then 2 else 0, mp, h) })"

definition mp_metadata_to_inx_and_offset :: "u64 \<Rightarrow> u64 \<times> u32" where
  "mp_metadata_to_inx_and_offset metadata =
     (drop_bit MP_OFFSET_BITS metadata, ucast (metadata AND MP_OFFSET_MASK))"

definition mp_inx_and_offset_to_addr :: "argo_mem_pool \<Rightarrow> u64 \<Rightarrow> u32 \<Rightarrow> addr option" where
  "mp_inx_and_offset_to_addr mp inx offset =
     (if unat inx < MP_SLABS_MAX
      then map_option (\<lambda>b. b + unat offset) (slabs mp (unat inx)) else None)"

definition argo_mem_pool_get ::
    "allocator \<Rightarrow> argo_mem_pool \<Rightarrow> heap \<Rightarrow> (cptr \<times> argo_mem_pool \<times> heap) option" where
  "argo_mem_pool_get A mp h = do {
     let (inx, offset) = mp_metadata_to_inx_and_offset (mp_free_next mp);
     (r, mp, h) \<leftarrow> (if ucast offset = MP_OFFSET_INVALID then argo_mem_pool_expand A mp h
                    else Some (0, mp, h));
     if r \<noteq> 0 then Some (NULL, mp, h)
     else do {
       let (inx, offset) = mp_metadata_to_inx_and_offset (mp_free_next mp);
       a \<leftarrow> mp_inx_and_offset_to_addr mp inx offset;
       md \<leftarrow> load a h;
       h \<leftarrow> store a (push_bit MP_OFFSET_BITS inx OR ucast offset) h;
       Some (Some (a + MP_METADATA_SZ), mp\<lparr>mp_free_next := md\<rparr>, h) } }"

definition argo_mem_pool_put ::
    "argo_mem_pool \<Rightarrow> addr \<Rightarrow> heap \<Rightarrow> (argo_mem_pool \<times> heap) option" where
  "argo_mem_pool_put mp a h =
     (if a < MP_METADATA_SZ then None
      else do {
        let metadata = a - MP_METADATA_SZ;
        new_free \<leftarrow> load metadata h;
        h \<leftarrow> store metadata (mp_free_next mp) h;
        Some (mp\<lparr>mp_free_next := new_free\<rparr>, h) })"

lemmas mp_consts = MP_METADATA_SZ_def MP_OFFSET_BITS_def MP_OFFSET_MASK_def MP_OFFSET_INVALID_def
  MP_SLAB_SIZE_def MP_SLABS_MAX_def

subsection \<open>Metadata words\<close>

text \<open>Object \<open>(i, j)\<close>: object number \<open>j\<close> of slab \<open>i\<close>. Its metadata word names slab and offset.\<close>

type_synonym obj = "nat \<times> nat"

definition metadata :: "nat \<Rightarrow> nat \<Rightarrow> u64" where
  "metadata i off = push_bit MP_OFFSET_BITS (of_nat i) OR of_nat off"

lemma mask_eq: "MP_OFFSET_MASK = mask 28"
  by (simp add: mp_consts mask_eq_exp_minus_1)

lemma bit_small: "bit off n \<Longrightarrow> (off::nat) < 2 ^ k \<Longrightarrow> n < k"
  using take_bit_nat_eq_self [of off k] by (metis bit_take_bit_iff)

lemma metadata_index [simp]:
  assumes "i < 2 ^ 36" and "off < 2 ^ 28"
  shows "drop_bit MP_OFFSET_BITS (metadata i off) = of_nat i"
proof (rule bit_eqI)
  fix n assume "possible_bit TYPE(u64) n"
  then show "bit (drop_bit MP_OFFSET_BITS (metadata i off)) n = bit (of_nat i :: u64) n"
    using bit_small [of i n, OF _ assms(1)] bit_small [of off "28 + n", OF _ assms(2)]
    by (auto simp: metadata_def MP_OFFSET_BITS_def bit_drop_bit_eq bit_or_iff bit_push_bit_iff)
      (auto simp: bit_simps)
qed
lemma metadata_offset [simp]:
  assumes "off < 2 ^ 28"
  shows "metadata i off AND MP_OFFSET_MASK = of_nat off"
proof (rule bit_eqI)
  fix n assume "possible_bit TYPE(u64) n"
  then show "bit (metadata i off AND MP_OFFSET_MASK) n = bit (of_nat off :: u64) n"
    using bit_small [of off n, OF _ assms]
    by (auto simp: metadata_def mask_eq MP_OFFSET_BITS_def bit_simps)
qed

lemma offset_invalid: "MP_OFFSET_INVALID = of_nat (2 ^ 28 - 1)"
  by (simp add: mp_consts)

lemma metadata_decode:
  assumes "i < 2 ^ 36" and "off < 2 ^ 28"
  shows "mp_metadata_to_inx_and_offset (metadata i off) = (of_nat i, of_nat off)"
  using assms by (simp add: mp_metadata_to_inx_and_offset_def unsigned_of_nat take_bit_nat_eq_self)

lemma offset_valid_iff: 
  assumes "off < 2 ^ 28"
  shows "(ucast (of_nat off :: u32) = MP_OFFSET_INVALID) \<longleftrightarrow> off = 2 ^ 28 - 1"
proof -
  have "ucast (of_nat off :: u32) = (of_nat off :: u64)"
    using assms by (simp add: unsigned_of_nat take_bit_nat_eq_self)
  moreover have "unat (of_nat off :: u64) = off"
    using assms by (simp add: unsigned_of_nat take_bit_nat_eq_self)
  ultimately have "unat (ucast (of_nat off :: u32) :: u64) = off" by simp
  moreover have "unat MP_OFFSET_INVALID = 2 ^ 28 - 1" by (simp add: mp_consts)
  ultimately show ?thesis by (metis unsigned_word_eqI)
qed

subsection \<open>The geometry of a slab\<close>

definition geom_ok :: "u32 \<Rightarrow> u32 \<Rightarrow> bool" where
  "geom_ok sz cnt \<longleftrightarrow> 8 dvd unat sz \<and> 8 \<le> unat sz \<and> 0 < unat cnt \<and> unat sz * unat cnt \<le> 2 ^ 28"

lemma geom_offset:
  assumes "geom_ok sz cnt" and "j < unat cnt"
  shows "j * unat sz + unat sz \<le> unat sz * unat cnt" "j * unat sz < 2 ^ 28 - 1"
proof -
  have "Suc j * unat sz \<le> unat cnt * unat sz" using assms(2) by (intro mult_right_mono) auto
  then show "j * unat sz + unat sz \<le> unat sz * unat cnt" by (simp add: mult.commute)
  then show "j * unat sz < 2 ^ 28 - 1" using assms(1) unfolding geom_ok_def by linarith
qed

lemma geom_apart:
  fixes j j' sz :: nat
  assumes "j \<noteq> j'" shows "j * sz + sz \<le> j' * sz \<or> j' * sz + sz \<le> j * sz"
proof -
  have "Suc j \<le> j' \<or> Suc j' \<le> j" using assms by auto
  then have "Suc j * sz \<le> j' * sz \<or> Suc j' * sz \<le> j * sz" using mult_le_mono1 by blast
  then show ?thesis by auto
qed

lemma geom_in_block:
  assumes "geom_ok sz cnt" and "j < unat cnt" and "(a, unat sz * unat cnt) \<in> set (blocks h)" and "8 dvd a"
  shows "8 dvd a + j * unat sz" "in_block h (a + j * unat sz)"
proof -
  show "8 dvd a + j * unat sz" using assms(1,4) by (auto simp: geom_ok_def)
  have "a + j * unat sz + 8 \<le> a + unat sz * unat cnt"
    using geom_offset(1) [OF assms(1,2)] assms(1) by (auto simp: geom_ok_def)
  then show "in_block h (a + j * unat sz)"
    unfolding in_block_def using assms(3) by (intro bexI [of _ "(a, unat sz * unat cnt)"]) auto
qed

lemma geom_product: "geom_ok sz cnt \<Longrightarrow> unat (sz * cnt) = unat sz * unat cnt"
  by (simp add: geom_ok_def unat_word_ariths)

lemma free_list_loop_effect:
  assumes geom: "geom_ok sz cnt" and blk: "(a, unat sz * unat cnt) \<in> set (blocks h)" and al: "8 dvd a"
    and "i \<le> unat cnt - 1"
  shows "\<exists>h'. mp_free_list_loop (a + i * unat sz) (of_nat (i * unat sz)) (of_nat i) sz cnt slab h =
      Some (a + (unat cnt - 1) * unat sz, h') \<and> blocks h' = blocks h \<and>
    (\<forall>j. i \<le> j \<longrightarrow> j < unat cnt - 1 \<longrightarrow>
       heap_words h' (a + j * unat sz) = slab OR of_nat (Suc j * unat sz)) \<and>
    (\<forall>x. (\<forall>j. i \<le> j \<longrightarrow> j < unat cnt - 1 \<longrightarrow> x \<noteq> a + j * unat sz) \<longrightarrow>
       heap_words h' x = heap_words h x)"
  using assms(4) blk
proof (induction "unat cnt - 1 - i" arbitrary: i h)
  case 0
  have i: "i = unat cnt - 1" using 0 by linarith
  have "unat (cnt - 1) = unat cnt - 1"
    using geom by (metis geom_ok_def less_irrefl unat_0 unat_minus_one)
  then have "of_nat i = cnt - 1" using i by (metis of_nat_unat ucast_id)
  then have "mp_free_list_loop (a + i * unat sz) (of_nat (i * unat sz)) (of_nat i) sz cnt slab h =
      Some (a + i * unat sz, h)"
    by (subst mp_free_list_loop.simps) simp
  then show ?case using i by simp
next
  case (Suc k)
  have lt: "i < unat cnt - 1" using Suc.hyps(2) by linarith
  have "unat (cnt - 1) = unat cnt - 1"
    using geom by (metis geom_ok_def less_irrefl unat_0 unat_minus_one)
  moreover have "unat cnt < 2 ^ 32" using unsigned_less [of cnt] by simp
  ultimately have less: "of_nat i < cnt - 1"
    using lt by (simp add: word_less_nat unat_of_nat)
  let ?w = "slab OR (of_nat (i * unat sz) + ucast sz)"
  let ?h = "h\<lparr>heap_words := (heap_words h)(a + i * unat sz := ?w)\<rparr>"
  have st: "store (a + i * unat sz) ?w h = Some ?h"
    using geom_in_block [OF geom, of i a h] lt Suc.prems(2) al by (simp add: store_def)
  have nf: "of_nat (i * unat sz) + ucast sz = (of_nat (Suc i * unat sz) :: u64)"
    by simp
  have k: "k = unat cnt - 1 - Suc i" "Suc i \<le> unat cnt - 1" "(a, unat sz * unat cnt) \<in> set (blocks ?h)"
    using Suc.hyps(2) lt Suc.prems(2) by simp_all
  obtain h' where h': "mp_free_list_loop (a + Suc i * unat sz) (of_nat (Suc i * unat sz)) (of_nat (Suc i))
       sz cnt slab ?h = Some (a + (unat cnt - 1) * unat sz, h')" "blocks h' = blocks ?h"
    "\<forall>j. Suc i \<le> j \<longrightarrow> j < unat cnt - 1 \<longrightarrow>
       heap_words h' (a + j * unat sz) = slab OR of_nat (Suc j * unat sz)"
    "\<forall>x. (\<forall>j. Suc i \<le> j \<longrightarrow> j < unat cnt - 1 \<longrightarrow> x \<noteq> a + j * unat sz) \<longrightarrow>
       heap_words h' x = heap_words ?h x"
    using Suc.hyps(1) [OF k] by blast
  have "mp_free_list_loop (a + i * unat sz) (of_nat (i * unat sz)) (of_nat i) sz cnt slab h =
      Some (a + (unat cnt - 1) * unat sz, h')"
    using h'(1) less st nf by (subst mp_free_list_loop.simps) (simp add: ac_simps)
  moreover have "heap_words h' (a + i * unat sz) = slab OR of_nat (Suc i * unat sz)"
  proof -
    have "0 < unat sz" using geom by (auto simp: geom_ok_def)
    then have "\<forall>j. Suc i \<le> j \<longrightarrow> a + i * unat sz \<noteq> a + j * unat sz" by auto
    then have "heap_words h' (a + i * unat sz) = heap_words ?h (a + i * unat sz)" using h'(4) by blast
    then show ?thesis by (simp add: add.commute)
  qed
  moreover have "heap_words h' x = heap_words h x"
    if "\<forall>j. i \<le> j \<longrightarrow> j < unat cnt - 1 \<longrightarrow> x \<noteq> a + j * unat sz" for x
    using that h'(4) lt by simp
  moreover have "blocks h' = blocks h" using h'(2) by simp
  ultimately show ?case using h'(3) by (metis Suc_leI le_neq_implies_less)
qed

lemma slab_or_invalid: "push_bit MP_OFFSET_BITS (of_nat i) OR MP_OFFSET_INVALID = metadata i (2 ^ 28 - 1)"
  by (simp add: metadata_def offset_invalid)

text \<open>The words \<open>mp_free_list_init\<close> writes into a new slab, object by object.\<close>

definition next_md :: "u32 \<Rightarrow> u32 \<Rightarrow> nat \<Rightarrow> nat \<Rightarrow> u64" where
  "next_md sz cnt i j = metadata i (if j < unat cnt - 1 then Suc j * unat sz else 2 ^ 28 - 1)"

lemma free_list_init_effect:
  assumes geom: "geom_ok sz cnt" and blk: "(a, unat sz * unat cnt) \<in> set (blocks h)" and al: "8 dvd a"
  shows "\<exists>h'. mp_free_list_init a sz cnt (of_nat i) h = Some h' \<and> blocks h' = blocks h \<and>
    (\<forall>j<unat cnt. heap_words h' (a + j * unat sz) = next_md sz cnt i j) \<and>
    (\<forall>x. (\<forall>j<unat cnt. x \<noteq> a + j * unat sz) \<longrightarrow> heap_words h' x = heap_words h x)"
proof -
  let ?last = "unat cnt - 1" and ?slab = "push_bit MP_OFFSET_BITS (of_nat i :: u64)"
  obtain h1 where h1: "mp_free_list_loop a 0 0 sz cnt ?slab h = Some (a + ?last * unat sz, h1)"
    "blocks h1 = blocks h"
    "\<And>j. j < ?last \<Longrightarrow> heap_words h1 (a + j * unat sz) = ?slab OR of_nat (Suc j * unat sz)"
    "\<And>x. (\<And>j. j < ?last \<Longrightarrow> x \<noteq> a + j * unat sz) \<Longrightarrow> heap_words h1 x = heap_words h x"
    using free_list_loop_effect [OF geom blk al, of 0 ?slab] by (simp only: mult_0 semiring_1_class.of_nat_0 le0 add_0_right simp_thms True_implies_equals) blast
  have cnt: "0 < unat cnt" and sz: "0 < unat sz" using geom by (auto simp: geom_ok_def)
  let ?h = "h1\<lparr>heap_words := (heap_words h1)(a + ?last * unat sz := metadata i (2 ^ 28 - 1))\<rparr>"
  have "store (a + ?last * unat sz) (metadata i (2 ^ 28 - 1)) h1 = Some ?h"
    using geom_in_block [OF geom, of ?last a h1] h1(2) blk al cnt by (simp add: store_def)
  then have "mp_free_list_init a sz cnt (of_nat i) h = Some ?h"
    using h1(1) slab_or_invalid [of i] by (simp add: mp_free_list_init_def Let_def)
  moreover have "heap_words ?h (a + j * unat sz) = next_md sz cnt i j" if "j < unat cnt" for j
  proof (cases "j < ?last")
    case True
    then show ?thesis using h1(3) [OF True] sz by (simp add: next_md_def metadata_def)
  next
    case False
    then show ?thesis using that by (simp add: next_md_def less_antisym) 
  qed
  moreover have "heap_words ?h x = heap_words h x" if "\<forall>j<unat cnt. x \<noteq> a + j * unat sz" for x
    using that h1(4) cnt by simp
  ultimately show ?thesis using h1(2) by (intro exI [of _ ?h]) auto
qed

subsection \<open>The invariant\<close>

definition obj_addr :: "argo_mem_pool \<Rightarrow> obj \<Rightarrow> addr" where
  "obj_addr mp x = the (slabs mp (fst x)) + snd x * unat (mp_obj_sz mp)"

definition obj_md :: "argo_mem_pool \<Rightarrow> obj \<Rightarrow> u64" where
  "obj_md mp x = metadata (fst x) (snd x * unat (mp_obj_sz mp))"

definition objects :: "argo_mem_pool \<Rightarrow> obj set" where
  "objects mp = {..<unat (mp_slab_cnt mp)} \<times> {..<unat (mp_obj_cnt mp)}"

primrec free_chain :: "argo_mem_pool \<Rightarrow> heap \<Rightarrow> u64 \<Rightarrow> obj list \<Rightarrow> bool" where
  "free_chain mp h md [] \<longleftrightarrow> md AND MP_OFFSET_MASK = MP_OFFSET_INVALID"
| "free_chain mp h md (x # xs) \<longleftrightarrow> md = obj_md mp x \<and> free_chain mp h (heap_words h (obj_addr mp x)) xs"

definition slab_size :: "argo_mem_pool \<Rightarrow> nat" where
  "slab_size mp = unat (mp_obj_sz mp) * unat (mp_obj_cnt mp)"

text \<open>The slabs are distinct live aligned blocks of the right size, and the rest of the table is empty.\<close>

definition slabs_ok :: "argo_mem_pool \<Rightarrow> heap \<Rightarrow> bool" where
  "slabs_ok mp h \<longleftrightarrow> heap_wf h \<and> geom_ok (mp_obj_sz mp) (mp_obj_cnt mp) \<and>
     unat (mp_slab_cnt mp) \<le> MP_SLABS_MAX \<and>
     (\<forall>i<unat (mp_slab_cnt mp). \<exists>b. slabs mp i = Some b \<and> 8 dvd b \<and> (b, slab_size mp) \<in> set (blocks h)) \<and>
     inj_on (slabs mp) {..<unat (mp_slab_cnt mp)} \<and>
     (\<forall>i\<ge>unat (mp_slab_cnt mp). slabs mp i = NULL)"

definition pool_ok :: "argo_mem_pool \<Rightarrow> heap \<Rightarrow> obj list \<Rightarrow> bool" where
  "pool_ok mp h fs \<longleftrightarrow> slabs_ok mp h \<and> distinct fs \<and> set fs \<subseteq> objects mp \<and>
     free_chain mp h (mp_free_next mp) fs \<and>
     (\<forall>x \<in> objects mp - set fs. heap_words h (obj_addr mp x) = obj_md mp x)"

lemma slabs_ok_slab:
  assumes "slabs_ok mp h" and "i < unat (mp_slab_cnt mp)"
  obtains b where "slabs mp i = Some b" "8 dvd b" "(b, slab_size mp) \<in> set (blocks h)"
  using assms unfolding slabs_ok_def by blast

text \<open>Two objects of a pool do not overlap, and every object lies inside a live slab.\<close>

lemma objects_apart:
  assumes ok: "slabs_ok mp h" and x: "x \<in> objects mp" and y: "y \<in> objects mp" and ne: "x \<noteq> y"
  shows "obj_addr mp x + unat (mp_obj_sz mp) \<le> obj_addr mp y \<or>
    obj_addr mp y + unat (mp_obj_sz mp) \<le> obj_addr mp x"
proof (cases "fst x = fst y")
  case True
  then have "snd x \<noteq> snd y" using ne by (simp add: prod_eq_iff)
  then show ?thesis using geom_apart [of "snd x" "snd y" "unat (mp_obj_sz mp)"] True
    by (auto simp: obj_addr_def)
next
  case False
  obtain i j i' j' where xy: "x = (i, j)" "y = (i', j')" by (metis prod.exhaust)
  then have ij: "i < unat (mp_slab_cnt mp)" "i' < unat (mp_slab_cnt mp)"
    "j < unat (mp_obj_cnt mp)" "j' < unat (mp_obj_cnt mp)" "i \<noteq> i'"
    using x y False by (auto simp: objects_def)
  obtain b where b: "slabs mp i = Some b" "(b, slab_size mp) \<in> set (blocks h)"
    using slabs_ok_slab [OF ok ij(1)] .
  obtain b' where b': "slabs mp i' = Some b'" "(b', slab_size mp) \<in> set (blocks h)"
    using slabs_ok_slab [OF ok ij(2)] .
  have "inj_on (slabs mp) {..<unat (mp_slab_cnt mp)}" using ok by (simp add: slabs_ok_def)
  then have "b \<noteq> b'" using b(1) b'(1) ij by (metis inj_onD lessThan_iff)
  moreover have "heap_wf h" using ok by (simp add: slabs_ok_def)
  ultimately have "b + slab_size mp \<le> b' \<or> b' + slab_size mp \<le> b"
    unfolding heap_wf_def using b(2) b'(2) by fast
  moreover have geom: "geom_ok (mp_obj_sz mp) (mp_obj_cnt mp)" using ok by (simp add: slabs_ok_def)
  ultimately show ?thesis
    using geom_offset(1) [OF geom ij(3)] geom_offset(1) [OF geom ij(4)] xy b(1) b'(1)
    by (auto simp: obj_addr_def slab_size_def)
qed

lemma objects_in_block:
  assumes ok: "slabs_ok mp h" and x: "x \<in> objects mp"
  shows "8 dvd obj_addr mp x" "in_block h (obj_addr mp x)"
    "\<exists>(b, n) \<in> set (blocks h). b \<le> obj_addr mp x \<and> obj_addr mp x + unat (mp_obj_sz mp) \<le> b + n"
proof -
  obtain i j where xy: "x = (i, j)" by (metis prod.exhaust)
  then have ij: "i < unat (mp_slab_cnt mp)" "j < unat (mp_obj_cnt mp)"
    using x by (auto simp: objects_def)
  obtain b where b: "slabs mp i = Some b" "8 dvd b" "(b, slab_size mp) \<in> set (blocks h)"
    using slabs_ok_slab [OF ok ij(1)] .
  have geom: "geom_ok (mp_obj_sz mp) (mp_obj_cnt mp)" using ok by (simp add: slabs_ok_def)
  show "8 dvd obj_addr mp x" "in_block h (obj_addr mp x)"
    using geom_in_block [OF geom ij(2)] b xy by (auto simp: obj_addr_def slab_size_def)
  show "\<exists>(b, n) \<in> set (blocks h). b \<le> obj_addr mp x \<and> obj_addr mp x + unat (mp_obj_sz mp) \<le> b + n"
    using geom_offset(1) [OF geom ij(2)] b xy
    by (intro bexI [of _ "(b, slab_size mp)"]) (auto simp: obj_addr_def slab_size_def)
qed

lemma obj_addr_inj:
  assumes "slabs_ok mp h" "x \<in> objects mp" "y \<in> objects mp"
  shows "obj_addr mp x = obj_addr mp y \<longleftrightarrow> x = y"
proof -
  have "0 < unat (mp_obj_sz mp)" using assms(1) by (auto simp: slabs_ok_def geom_ok_def)
  then show ?thesis using objects_apart [OF assms] by force
qed

lemma obj_decode:
  assumes ok: "slabs_ok mp h" and x: "x \<in> objects mp"
  shows "mp_metadata_to_inx_and_offset (obj_md mp x) = (of_nat (fst x), of_nat (snd x * unat (mp_obj_sz mp)))"
    "ucast (of_nat (snd x * unat (mp_obj_sz mp)) :: u32) \<noteq> MP_OFFSET_INVALID"
    "mp_inx_and_offset_to_addr mp (of_nat (fst x)) (of_nat (snd x * unat (mp_obj_sz mp))) = Some (obj_addr mp x)"
proof -
  obtain i j where xy: "x = (i, j)" by (metis prod.exhaust)
  then have ij: "i < unat (mp_slab_cnt mp)" "j < unat (mp_obj_cnt mp)"
    using x by (auto simp: objects_def)
  have geom: "geom_ok (mp_obj_sz mp) (mp_obj_cnt mp)" and max: "i < MP_SLABS_MAX"
    using ok ij by (auto simp: slabs_ok_def)
  let ?off = "j * unat (mp_obj_sz mp)"
  have off: "?off < 2 ^ 28" "?off \<noteq> 2 ^ 28 - 1" using geom_offset(2) [OF geom ij(2)] by linarith+
  obtain b where b: "slabs mp i = Some b" using slabs_ok_slab [OF ok ij(1)] .
  show "mp_metadata_to_inx_and_offset (obj_md mp x) = (of_nat (fst x), of_nat (snd x * unat (mp_obj_sz mp)))"
    using metadata_decode [of i ?off] max off(1) xy by (simp add: obj_md_def MP_SLABS_MAX_def)
  show "ucast (of_nat (snd x * unat (mp_obj_sz mp)) :: u32) \<noteq> MP_OFFSET_INVALID"
    using offset_valid_iff [OF off(1)] off(2) xy by simp
  have "unat (of_nat ?off :: u32) = ?off" "unat (of_nat i :: u64) = i"
    using off(1) max by (simp_all add: unsigned_of_nat take_bit_nat_eq_self MP_SLABS_MAX_def del: of_nat_mult)
  then show "mp_inx_and_offset_to_addr mp (of_nat (fst x)) (of_nat (snd x * unat (mp_obj_sz mp))) = Some (obj_addr mp x)"
    using max b xy by (simp add: mp_inx_and_offset_to_addr_def obj_addr_def del: of_nat_mult)
qed

subsection \<open>What the allocator promises\<close>

lemma alloc_fail: "alloc_ok A \<Longrightarrow> heap_wf h \<Longrightarrow> argo_alloc A n h = (NULL, h') \<Longrightarrow> h' = h"
  by (simp add: alloc_ok_def)

lemma alloc_some:
  assumes "alloc_ok A" "heap_wf h" "argo_alloc A n h = (Some a, h')"
  shows "8 dvd a" "\<And>b k. (b, k) \<in> set (blocks h) \<Longrightarrow> a \<noteq> b \<and> (a + n \<le> b \<or> b + k \<le> a)"
    "set (blocks h') = insert (a, n) (set (blocks h))"
    "\<And>x. in_block h x \<Longrightarrow> heap_words h' x = heap_words h x" "heap_wf h'"
proof -
  have *: "8 dvd a \<and> (\<forall>(b, k) \<in> set (blocks h). a \<noteq> b \<and> (a + n \<le> b \<or> b + k \<le> a)) \<and>
      set (blocks h') = insert (a, n) (set (blocks h)) \<and>
      (\<forall>x. in_block h x \<longrightarrow> heap_words h' x = heap_words h x)"
    using assms(1) [unfolded alloc_ok_def, THEN conjunct2, THEN conjunct1, rule_format, OF assms(2,3)] .
  then show "8 dvd a" "\<And>b k. (b, k) \<in> set (blocks h) \<Longrightarrow> a \<noteq> b \<and> (a + n \<le> b \<or> b + k \<le> a)"
    "set (blocks h') = insert (a, n) (set (blocks h))"
    "\<And>x. in_block h x \<Longrightarrow> heap_words h' x = heap_words h x" by blast+
  then show "heap_wf h'" using assms(2) unfolding heap_wf_def by auto
qed

lemma heap_wf_mono: "heap_wf h \<Longrightarrow> set (blocks h') \<subseteq> set (blocks h) \<Longrightarrow> heap_wf h'"
proof -
  have split: "heap_wf k \<longleftrightarrow> (\<forall>b n b' n'. (b, n) \<in> set (blocks k) \<longrightarrow> (b', n') \<in> set (blocks k) \<longrightarrow>
      (b = b' \<longrightarrow> n = n') \<and> (b \<noteq> b' \<longrightarrow> b + n \<le> b' \<or> b' + n' \<le> b))" for k
    by (simp add: heap_wf_def Ball_def)
  show "heap_wf h \<Longrightarrow> set (blocks h') \<subseteq> set (blocks h) \<Longrightarrow> heap_wf h'"
    unfolding split by (elim all_forward imp_forward; blast)
qed

lemma free_some:
  assumes "alloc_ok A" "heap_wf h" "(a, n) \<in> set (blocks h)"
  obtains h' where "argo_free A a h = Some h'" "set (blocks h') = set (blocks h) - {(a, n)}"
    "\<And>x. in_block h' x \<Longrightarrow> heap_words h' x = heap_words h x" "heap_wf h'"
proof -
  have "\<exists>h'. argo_free A a h = Some h' \<and> set (blocks h') = set (blocks h) - {(a, n)} \<and>
      (\<forall>x. in_block h' x \<longrightarrow> heap_words h' x = heap_words h x)"
    using assms(1) [unfolded alloc_ok_def, THEN conjunct2, THEN conjunct2, rule_format, OF assms(2,3)] .
  then obtain h' where h': "argo_free A a h = Some h'" "set (blocks h') = set (blocks h) - {(a, n)}"
      "\<And>x. in_block h' x \<Longrightarrow> heap_words h' x = heap_words h x" by blast
  moreover from this have "heap_wf h'" using heap_wf_mono [OF assms(2)] by auto
  ultimately show ?thesis using that by blast
qed

lemma in_block_mono: "set (blocks h) \<subseteq> set (blocks h') \<Longrightarrow> in_block h x \<Longrightarrow> in_block h' x"
  unfolding in_block_def by blast

lemma in_block_apart:
  assumes "in_block h x" and "\<And>b k. (b, k) \<in> set (blocks h) \<Longrightarrow> a \<noteq> b \<and> (a + n \<le> b \<or> b + k \<le> a)"
  shows "x + 8 \<le> a \<or> a + n \<le> x"
  using assms unfolding in_block_def by fastforce

lemma free_chain_cong:
  assumes "\<And>x. x \<in> set xs \<Longrightarrow> heap_words h' (obj_addr mp' x) = heap_words h (obj_addr mp x)"
    and "mp_obj_sz mp' = mp_obj_sz mp"
  shows "free_chain mp' h' md xs = free_chain mp h md xs"
  using assms by (induction xs arbitrary: md) (auto simp: obj_md_def)

lemma obj_simps [simp]:
  "obj_addr (mp\<lparr>mp_free_next := md\<rparr>) = obj_addr mp" "obj_md (mp\<lparr>mp_free_next := md\<rparr>) = obj_md mp"
  "objects (mp\<lparr>mp_free_next := md\<rparr>) = objects mp" "slab_size (mp\<lparr>mp_free_next := md\<rparr>) = slab_size mp"
  by (auto simp: obj_addr_def obj_md_def objects_def slab_size_def fun_eq_iff)

lemma slabs_ok_simps [simp]:
  "slabs_ok (mp\<lparr>mp_free_next := md\<rparr>) h = slabs_ok mp h"
  "slabs_ok mp (h\<lparr>heap_words := w\<rparr>) = slabs_ok mp h"
  by (simp_all add: slabs_ok_def heap_wf_def)

subsection \<open>Taking an object from the free list and giving it back\<close>

lemma pool_ok_slabs: "pool_ok mp h fs \<Longrightarrow> slabs_ok mp h"
  by (simp add: pool_ok_def)

lemma get_from_list:
  assumes ok: "pool_ok mp h (x # fs)"
  defines "mp' \<equiv> mp\<lparr>mp_free_next := heap_words h (obj_addr mp x)\<rparr>"
    and "h' \<equiv> h\<lparr>heap_words := (heap_words h)(obj_addr mp x := obj_md mp x)\<rparr>"
  shows "argo_mem_pool_get A mp h = Some (Some (obj_addr mp x + 8), mp', h')" "pool_ok mp' h' fs"
proof -
  have sl: "slabs_ok mp h" and x: "x \<in> objects mp" and md: "mp_free_next mp = obj_md mp x"
    and ch: "free_chain mp h (heap_words h (obj_addr mp x)) fs"
    and fs: "distinct fs" "x \<notin> set fs" "set fs \<subseteq> objects mp"
    and live: "\<forall>y \<in> objects mp - set (x # fs). heap_words h (obj_addr mp y) = obj_md mp y"
    using ok by (auto simp: pool_ok_def)
  note dec = obj_decode [OF sl x] and blk = objects_in_block [OF sl x]
  have "push_bit MP_OFFSET_BITS (of_nat (fst x)) OR ucast (of_nat (snd x * unat (mp_obj_sz mp)) :: u32) =
      obj_md mp x"
  proof -
    have "snd x * unat (mp_obj_sz mp) < 2 ^ 28 - 1"
      using geom_offset(2) [of "mp_obj_sz mp" "mp_obj_cnt mp" "snd x"] sl x
      by (auto simp: slabs_ok_def objects_def)
    then have "ucast (of_nat (snd x * unat (mp_obj_sz mp)) :: u32) = (of_nat (snd x * unat (mp_obj_sz mp)) :: u64)"
      by (simp add: unsigned_of_nat take_bit_nat_eq_self del: of_nat_mult)
    then show ?thesis by (simp add: obj_md_def metadata_def)
  qed
  then show "argo_mem_pool_get A mp h = Some (Some (obj_addr mp x + 8), mp', h')"
    using dec blk md
    by (simp add: argo_mem_pool_get_def Let_def load_def store_def MP_METADATA_SZ_def mp'_def h'_def
        del: of_nat_mult)
  have "heap_words h' (obj_addr mp y) = heap_words h (obj_addr mp y)" if "y \<in> objects mp" "y \<noteq> x" for y
    using obj_addr_inj [OF sl that(1) x] that(2) by (simp add: h'_def)
  moreover from this have "free_chain mp' h' md fs = free_chain mp h md fs" for md
    using fs by (intro free_chain_cong) (auto simp: mp'_def)
  then have "free_chain mp' h' (mp_free_next mp') fs" using ch by (simp add: mp'_def)
  moreover have "heap_words h' (obj_addr mp' y) = obj_md mp' y" if "y \<in> objects mp' - set fs" for y
    using that live obj_addr_inj [OF sl _ x, of y] by (auto simp: h'_def mp'_def)
  ultimately show "pool_ok mp' h' fs"
    using sl fs by (auto simp: pool_ok_def mp'_def h'_def)
qed

lemma put_to_list:
  assumes ok: "pool_ok mp h fs" and x: "x \<in> objects mp" "x \<notin> set fs"
  defines "mp' \<equiv> mp\<lparr>mp_free_next := obj_md mp x\<rparr>"
    and "h' \<equiv> h\<lparr>heap_words := (heap_words h)(obj_addr mp x := mp_free_next mp)\<rparr>"
  shows "argo_mem_pool_put mp (obj_addr mp x + 8) h = Some (mp', h')" "pool_ok mp' h' (x # fs)"
proof -
  have sl: "slabs_ok mp h" using ok by (simp add: pool_ok_def)
  have md: "heap_words h (obj_addr mp x) = obj_md mp x" using ok x by (auto simp: pool_ok_def)
  note blk = objects_in_block [OF sl x(1)]
  show "argo_mem_pool_put mp (obj_addr mp x + 8) h = Some (mp', h')"
    using blk md
    by (simp add: argo_mem_pool_put_def Let_def load_def store_def MP_METADATA_SZ_def mp'_def h'_def)
  have "heap_words h' (obj_addr mp y) = heap_words h (obj_addr mp y)" if "y \<in> objects mp" "y \<noteq> x" for y
    using obj_addr_inj [OF sl that(1) x(1)] that(2) by (simp add: h'_def)
  moreover from this have "free_chain mp' h' md fs = free_chain mp h md fs" for md
    using ok x by (intro free_chain_cong) (auto simp: mp'_def pool_ok_def)
  ultimately show "pool_ok mp' h' (x # fs)"
    using ok x by (auto simp: pool_ok_def mp'_def h'_def)
qed

subsection \<open>Adding a slab\<close>

lemma slab_cnt_Suc:
  assumes "unat (n :: u64) < MP_SLABS_MAX"
  shows "unat (n + 1) = Suc (unat n)"
proof -
  have "n < of_nat MP_SLABS_MAX" using assms by (simp add: word_less_nat MP_SLABS_MAX_def)
  then show ?thesis by (rule unat_Suc_less)
qed

definition slab_objs :: "argo_mem_pool \<Rightarrow> obj list" where
  "slab_objs mp = map (Pair (unat (mp_slab_cnt mp))) [0..<unat (mp_obj_cnt mp)]"

lemma chain_of_slab:
  assumes "\<And>k. k < unat (mp_obj_cnt mp) \<Longrightarrow>
      heap_words h (obj_addr mp (i, k)) = next_md (mp_obj_sz mp) (mp_obj_cnt mp) i k"
    and "j < unat (mp_obj_cnt mp)"
  shows "free_chain mp h (obj_md mp (i, j)) (map (Pair i) [j..<unat (mp_obj_cnt mp)])"
  using assms(2)
proof (induction "unat (mp_obj_cnt mp) - Suc j" arbitrary: j)
  case 0
  then have "[j..<unat (mp_obj_cnt mp)] = [j]" by (simp add: upt_conv_Cons)
  moreover have "\<not> j < unat (mp_obj_cnt mp) - 1" using 0 by linarith
  moreover have "metadata i (2 ^ 28 - 1) AND MP_OFFSET_MASK = MP_OFFSET_INVALID"
    unfolding offset_invalid by (rule metadata_offset) simp
  ultimately show ?case using assms(1) [of j] 0 by (simp add: next_md_def)
next
  case (Suc n)
  then have j: "Suc j < unat (mp_obj_cnt mp)" and n: "n = unat (mp_obj_cnt mp) - Suc (Suc j)" by linarith+
  have "j < unat (mp_obj_cnt mp) - 1" using j by linarith
  then have "heap_words h (obj_addr mp (i, j)) = obj_md mp (i, Suc j)"
    using assms(1) [of j] j by (simp add: next_md_def obj_md_def)
  moreover have "map (Pair i) [j..<unat (mp_obj_cnt mp)] = (i, j) # map (Pair i) [Suc j..<unat (mp_obj_cnt mp)]"
    using j by (simp add: upt_conv_Cons)
  ultimately show ?case using Suc.hyps(1) [OF n j] by simp
qed

lemma new_slab_fail:
  assumes "alloc_ok A" "slabs_ok mp h" "unat (mp_slab_cnt mp) < MP_SLABS_MAX"
    and "fst (argo_alloc A (slab_size mp) h) = NULL"
  shows "mp_create_new_slab A mp h = Some (1, mp, h)"
proof -
  have geom: "geom_ok (mp_obj_sz mp) (mp_obj_cnt mp)" and wf: "heap_wf h"
    using assms(2) by (auto simp: slabs_ok_def)
  have "(slabs mp)(unat (mp_slab_cnt mp) := NULL) = slabs mp"
    using assms(2) by (auto simp: slabs_ok_def fun_eq_iff)
  moreover obtain h' where "argo_alloc A (slab_size mp) h = (NULL, h')"
    using assms(4) by (metis prod.collapse)
  moreover from this have "h' = h" using alloc_fail assms(1) wf by blast
  ultimately show ?thesis
    using assms(3) by (simp add: mp_create_new_slab_def Let_def geom_product [OF geom] slab_size_def)
qed

lemma new_slab_slabs_ok:
  assumes al: "alloc_ok A" and ok: "slabs_ok mp h" and max: "unat (mp_slab_cnt mp) < MP_SLABS_MAX"
    and a: "argo_alloc A (slab_size mp) h = (Some a, h1)"
  shows "slabs_ok (mp\<lparr>slabs := (slabs mp)(unat (mp_slab_cnt mp) \<mapsto> a), mp_slab_cnt := mp_slab_cnt mp + 1\<rparr>) h1"
proof -
  have wf: "heap_wf h" using ok by (simp add: slabs_ok_def)
  note p = alloc_some [OF al wf a]
  have "a \<noteq> b" if "slabs mp i = Some b" for i b
  proof -
    have "i < unat (mp_slab_cnt mp)" using ok that by (auto simp: slabs_ok_def not_less [symmetric])
    then obtain b' where "slabs mp i = Some b'" "(b', slab_size mp) \<in> set (blocks h)"
      using slabs_ok_slab [OF ok] by metis
    then show ?thesis using that p(2) by auto
  qed
  then have "inj_on ((slabs mp)(unat (mp_slab_cnt mp) \<mapsto> a)) {..<Suc (unat (mp_slab_cnt mp))}"
    using ok by (auto simp: slabs_ok_def inj_on_def less_Suc_eq)
  then show ?thesis
    using ok p(1,3,5) max slab_cnt_Suc [OF max]
    by (auto simp: slabs_ok_def slab_size_def less_Suc_eq)
qed

lemma new_slab_some:
  assumes al: "alloc_ok A" and ok: "slabs_ok mp h" and max: "unat (mp_slab_cnt mp) < MP_SLABS_MAX"
    and live: "\<forall>x \<in> objects mp. heap_words h (obj_addr mp x) = obj_md mp x"
    and a: "argo_alloc A (slab_size mp) h = (Some a, h1)"
  shows "\<exists>mp' h'. mp_create_new_slab A mp h = Some (0, mp', h') \<and> pool_ok mp' h' (slab_objs mp) \<and>
    slabs mp' = (slabs mp)(unat (mp_slab_cnt mp) \<mapsto> a) \<and> mp_slab_cnt mp' = mp_slab_cnt mp + 1 \<and>
    mp_obj_sz mp' = mp_obj_sz mp \<and> mp_obj_cnt mp' = mp_obj_cnt mp \<and>
    set (blocks h') = insert (a, slab_size mp) (set (blocks h)) \<and>
    (\<forall>x. in_block h x \<longrightarrow> heap_words h' x = heap_words h x)"
proof -
  let ?n = "unat (mp_slab_cnt mp)" and ?sz = "mp_obj_sz mp" and ?cnt = "mp_obj_cnt mp"
  have wf: "heap_wf h" and geom: "geom_ok ?sz ?cnt" using ok by (auto simp: slabs_ok_def)
  note p = alloc_some [OF al wf a]
  have blk: "(a, unat ?sz * unat ?cnt) \<in> set (blocks h1)" using p(3) by (simp add: slab_size_def)
  obtain h' where h': "mp_free_list_init a ?sz ?cnt (of_nat ?n) h1 = Some h'" "blocks h' = blocks h1"
    "\<forall>j<unat ?cnt. heap_words h' (a + j * unat ?sz) = next_md ?sz ?cnt ?n j"
    "\<forall>x. (\<forall>j<unat ?cnt. x \<noteq> a + j * unat ?sz) \<longrightarrow> heap_words h' x = heap_words h1 x"
    using free_list_init_effect [OF geom blk p(1)] by blast
  let ?mp = "mp\<lparr>slabs := (slabs mp)(?n \<mapsto> a), mp_slab_cnt := mp_slab_cnt mp + 1,
    mp_free_next := push_bit MP_OFFSET_BITS (mp_slab_cnt mp)\<rparr>"
  have run: "mp_create_new_slab A mp h = Some (0, ?mp, h')"
    using h'(1) a max by (simp add: mp_create_new_slab_def Let_def geom_product [OF geom] slab_size_def)
  have frame: "heap_words h' x = heap_words h x" if x: "in_block h x" for x
  proof -
    have "x + 8 \<le> a \<or> a + slab_size mp \<le> x" using in_block_apart [OF x p(2)] by blast
    moreover have "a + j * unat ?sz < a + slab_size mp" if "j < unat ?cnt" for j
      using geom_offset(1) [OF geom that] geom unfolding slab_size_def geom_ok_def by linarith
    ultimately have "\<forall>j<unat ?cnt. x \<noteq> a + j * unat ?sz" by fastforce
    then show ?thesis using h'(4) p(4) [OF x] by simp
  qed
  have sl: "slabs_ok ?mp h'"
    using new_slab_slabs_ok [OF al ok max a] h'(2) by (simp add: slabs_ok_def heap_wf_def slab_size_def)
  have old: "obj_addr ?mp x = obj_addr mp x" "obj_md ?mp x = obj_md mp x" if "x \<in> objects mp" for x
    using that by (auto simp: objects_def obj_addr_def obj_md_def)
  have "free_chain ?mp h' (obj_md ?mp (?n, 0)) (map (Pair ?n) [0..<unat (mp_obj_cnt ?mp)])"
    using h'(3) geom by (intro chain_of_slab) (auto simp: obj_addr_def geom_ok_def)
  moreover have "obj_md ?mp (?n, 0) = mp_free_next ?mp" by (simp add: obj_md_def metadata_def)
  moreover have "heap_words h' (obj_addr ?mp x) = obj_md ?mp x" if "x \<in> objects ?mp - set (slab_objs mp)" for x
  proof -
    have x: "x \<in> objects mp" using that slab_cnt_Suc [OF max] by (auto simp: objects_def slab_objs_def)
    then show ?thesis using old frame objects_in_block(2) [OF ok x] live by simp
  qed
  ultimately have "pool_ok ?mp h' (slab_objs mp)"
    using sl slab_cnt_Suc [OF max]
    by (auto simp: pool_ok_def slab_objs_def distinct_map inj_on_def objects_def)
  then show ?thesis using run p(3) h'(2) frame by auto
qed

lemma invalid_expands:
  assumes "md AND MP_OFFSET_MASK = MP_OFFSET_INVALID"
  shows "ucast (snd (mp_metadata_to_inx_and_offset md)) = MP_OFFSET_INVALID"
proof -
  have "ucast (ucast MP_OFFSET_INVALID :: u32) = MP_OFFSET_INVALID" by (simp add: mp_consts)
  then show ?thesis using assms by (simp add: mp_metadata_to_inx_and_offset_def)
qed

lemma get_null:
  assumes ok: "pool_ok mp h []"
    and full: "unat (mp_slab_cnt mp) = MP_SLABS_MAX \<or>
      alloc_ok A \<and> fst (argo_alloc A (slab_size mp) h) = NULL"
  shows "argo_mem_pool_get A mp h = Some (NULL, mp, h)"
proof -
  have inv: "ucast (snd (mp_metadata_to_inx_and_offset (mp_free_next mp))) = MP_OFFSET_INVALID"
    using ok by (intro invalid_expands) (simp add: pool_ok_def)
  have sl: "slabs_ok mp h" using ok by (simp add: pool_ok_def)
  have "argo_mem_pool_expand A mp h = Some (1, mp, h) \<or> argo_mem_pool_expand A mp h = Some (2, mp, h)"
  proof (cases "unat (mp_slab_cnt mp) = MP_SLABS_MAX")
    case True
    then have "mp_slab_cnt mp = of_nat MP_SLABS_MAX" by (metis of_nat_unat ucast_id)
    then show ?thesis by (simp add: argo_mem_pool_expand_def)
  next
    case False
    then have "unat (mp_slab_cnt mp) < MP_SLABS_MAX" using sl by (simp add: slabs_ok_def)
    moreover have "mp_slab_cnt mp \<noteq> of_nat MP_SLABS_MAX" using False by (auto simp: MP_SLABS_MAX_def)
    ultimately show ?thesis using new_slab_fail [of A mp h] full sl False
      by (simp add: argo_mem_pool_expand_def)
  qed
  then show ?thesis using inv
    by (auto simp: argo_mem_pool_get_def Let_def split: prod.splits)
qed

lemma get_new_slab:
  assumes al: "alloc_ok A" and ok: "pool_ok mp h []" and max: "unat (mp_slab_cnt mp) < MP_SLABS_MAX"
    and a: "argo_alloc A (slab_size mp) h = (Some a, h1)"
  shows "\<exists>mp' h'. argo_mem_pool_get A mp h = Some (Some (a + 8), mp', h') \<and>
    pool_ok mp' h' (tl (slab_objs mp)) \<and>
    slabs mp' = (slabs mp)(unat (mp_slab_cnt mp) \<mapsto> a) \<and> mp_slab_cnt mp' = mp_slab_cnt mp + 1 \<and>
    mp_obj_sz mp' = mp_obj_sz mp \<and> mp_obj_cnt mp' = mp_obj_cnt mp \<and>
    set (blocks h') = insert (a, slab_size mp) (set (blocks h)) \<and>
    (\<forall>x. in_block h x \<longrightarrow> heap_words h' x = heap_words h x)"
proof -
  have inv: "ucast (snd (mp_metadata_to_inx_and_offset (mp_free_next mp))) = MP_OFFSET_INVALID"
    using ok by (intro invalid_expands) (simp add: pool_ok_def)
  have sl: "slabs_ok mp h" and live: "\<forall>x \<in> objects mp. heap_words h (obj_addr mp x) = obj_md mp x"
    using ok by (auto simp: pool_ok_def)
  obtain mp1 h2 where n: "mp_create_new_slab A mp h = Some (0, mp1, h2)" "pool_ok mp1 h2 (slab_objs mp)"
    "slabs mp1 = (slabs mp)(unat (mp_slab_cnt mp) \<mapsto> a)" "mp_slab_cnt mp1 = mp_slab_cnt mp + 1"
    "mp_obj_sz mp1 = mp_obj_sz mp" "mp_obj_cnt mp1 = mp_obj_cnt mp"
    "set (blocks h2) = insert (a, slab_size mp) (set (blocks h))"
    "\<forall>x. in_block h x \<longrightarrow> heap_words h2 x = heap_words h x"
    using new_slab_some [OF al sl max live a] by blast
  let ?x = "(unat (mp_slab_cnt mp), 0)"
  have cnt: "0 < unat (mp_obj_cnt mp)" using sl by (auto simp: slabs_ok_def geom_ok_def)
  then have objs: "slab_objs mp = ?x # tl (slab_objs mp)" by (simp add: slab_objs_def upt_conv_Cons)
  let ?mp = "mp1\<lparr>mp_free_next := heap_words h2 (obj_addr mp1 ?x)\<rparr>"
    and ?h = "h2\<lparr>heap_words := (heap_words h2)(obj_addr mp1 ?x := obj_md mp1 ?x)\<rparr>"
  have ok2: "pool_ok mp1 h2 (?x # tl (slab_objs mp))" using n(2) objs by simp
  note g = get_from_list [OF ok2]
  have addr: "obj_addr mp1 ?x = a" using n(3) by (simp add: obj_addr_def)
  have "mp_slab_cnt mp \<noteq> of_nat MP_SLABS_MAX" using max by (auto simp: MP_SLABS_MAX_def)
  then have "argo_mem_pool_expand A mp h = Some (0, mp1, h2)"
    using n(1) by (simp add: argo_mem_pool_expand_def)
  moreover have "ucast (snd (mp_metadata_to_inx_and_offset (mp_free_next mp1))) \<noteq> MP_OFFSET_INVALID"
    using ok2 obj_decode [of mp1 h2 ?x] by (auto simp: pool_ok_def)
  ultimately have "argo_mem_pool_get A mp h = argo_mem_pool_get A mp1 h2"
    using inv by (auto simp: argo_mem_pool_get_def Let_def split: prod.splits)
  moreover have "heap_words ?h x = heap_words h x" if "in_block h x" for x
  proof -
    have "x + 8 \<le> a \<or> a + slab_size mp \<le> x"
      using in_block_apart [OF that] alloc_some(2) [OF al _ a] sl by (simp add: slabs_ok_def)
    moreover have "0 < slab_size mp" using cnt sl by (auto simp: slab_size_def slabs_ok_def geom_ok_def)
    ultimately show ?thesis using n(8) that addr by auto
  qed
  ultimately show ?thesis using g n(3-7) addr by (intro exI [of _ ?mp] exI [of _ ?h]) auto
qed

subsection \<open>Creating a pool\<close>

lemma and_minus_8: "unat ((w :: u32) AND - 8) = unat w div 8 * 8"
proof -
  have "(- 8 :: u32) = NOT (mask 3)" by (simp add: mask_eq_exp_minus_1)
  moreover have "w AND NOT (mask 3) = push_bit 3 (drop_bit 3 w)"
    by (rule bit_eqI) (auto simp: bit_simps)
  ultimately have "w AND - 8 = push_bit 3 (drop_bit 3 w)" by metis
  moreover have "unat w div 8 * 8 < 2 ^ 32"
    using unsigned_less [of w, where ?'a = nat] div_mult2_eq by (simp add: le_less_trans [OF div_times_less_eq_dividend])
  ultimately show ?thesis
    by (simp add: unat_word_ariths unat_drop_bit_eq drop_bit_eq_div push_bit_eq_mult mult.commute)
qed

text \<open>The object size the pool works with: header and payload, rounded up to eight bytes.\<close>

definition full_sz :: "u32 \<Rightarrow> nat" where
  "full_sz sz = (unat sz + 15) div 8 * 8"

definition create_args_ok :: "u32 \<Rightarrow> u32 \<Rightarrow> bool" where
  "create_args_ok sz cnt \<longleftrightarrow> 0 < unat cnt \<and> full_sz sz \<le> 2 ^ 28 \<and> full_sz sz * unat cnt < 2 ^ 32"

lemma adjust_sz:
  assumes "full_sz sz \<le> 2 ^ 28"
  shows "unat (fst (mp_adjust_size_and_count sz cnt)) = full_sz sz"
proof -
  have "unat sz + 15 < 2 ^ 32" using assms unfolding full_sz_def by simp
  then have "unat (sz + of_nat MP_METADATA_SZ + 7) = unat sz + 15"
    by (simp add: MP_METADATA_SZ_def unat_word_ariths)
  then show ?thesis by (simp add: mp_adjust_size_and_count_def Let_def and_minus_8 full_sz_def)
qed

lemma adjust_geom:
  assumes "create_args_ok sz cnt" and "mp_adjust_size_and_count sz cnt = (sz', cnt')"
  shows "geom_ok sz' cnt'" "unat sz' = full_sz sz"
    "unat cnt' = (if full_sz sz * unat cnt \<le> 2 ^ 28 then unat cnt else 2 ^ 28 div full_sz sz)"
proof -
  have sz: "unat sz' = full_sz sz" using adjust_sz [of sz cnt] assms by (simp add: create_args_ok_def)
  have full: "8 dvd full_sz sz" "8 \<le> full_sz sz" "full_sz sz \<le> 2 ^ 28" "full_sz sz * unat cnt < 2 ^ 32" "0 < unat cnt"
    using assms(1) by (auto simp: full_sz_def create_args_ok_def)
  then have prod: "unat (sz' * cnt) = full_sz sz * unat cnt" by (simp add: unat_word_ariths sz)
  have slab: "unat MP_SLAB_SIZE = 2 ^ 28" by (simp add: mp_consts)
  have cnt': "cnt' = (if sz' * cnt > MP_SLAB_SIZE then MP_SLAB_SIZE div sz' else cnt)"
    using assms(2) by (auto simp: mp_adjust_size_and_count_def Let_def)
  then show c: "unat cnt' = (if full_sz sz * unat cnt \<le> 2 ^ 28 then unat cnt else 2 ^ 28 div full_sz sz)"
    using prod slab sz by (auto simp: word_less_nat unat_div_distrib)
  show "unat sz' = full_sz sz" by (rule sz)
  have "0 < 2 ^ 28 div full_sz sz" using full by (simp add: div_greater_zero_iff)
  moreover have "full_sz sz * (2 ^ 28 div full_sz sz) \<le> 2 ^ 28" by (simp add: mult.commute)
  ultimately show "geom_ok sz' cnt'" using sz c full by (auto simp: geom_ok_def)
qed

lemma create_cases:
  assumes al: "alloc_ok A" and wf: "heap_wf h" and args: "create_args_ok sz cnt"
  shows "(\<exists>h'. argo_mem_pool_create A sz cnt h = Some (NULL, h') \<and> set (blocks h') = set (blocks h) \<and>
      (\<forall>x. in_block h x \<longrightarrow> heap_words h' x = heap_words h x)) \<or>
    (\<exists>self a mp h'. argo_mem_pool_create A sz cnt h = Some (Some (self, mp), h') \<and>
      pool_ok mp h' (map (Pair 0) [0..<unat (mp_obj_cnt mp)]) \<and> mp_slab_cnt mp = 1 \<and>
      slabs mp = [0 \<mapsto> a] \<and> unat (mp_obj_sz mp) = full_sz sz \<and>
      unat (mp_obj_cnt mp) = (if full_sz sz * unat cnt \<le> 2 ^ 28 then unat cnt else 2 ^ 28 div full_sz sz) \<and>
      self \<noteq> a \<and> (self, sizeof_argo_mem_pool) \<notin> set (blocks h) \<and> (a, slab_size mp) \<notin> set (blocks h) \<and>
      set (blocks h') = {(self, sizeof_argo_mem_pool), (a, slab_size mp)} \<union> set (blocks h) \<and>
      (\<forall>x. in_block h x \<longrightarrow> heap_words h' x = heap_words h x))"
proof -
  obtain sz' cnt' where adj: "mp_adjust_size_and_count sz cnt = (sz', cnt')" by fastforce
  note g = adjust_geom [OF args adj]
  obtain p h1 where p: "argo_alloc A sizeof_argo_mem_pool h = (p, h1)" by fastforce
  show ?thesis
  proof (cases p)
    case None
    then have "h1 = h" using p al wf alloc_fail by blast
    then show ?thesis using p adj None by (intro disjI1 exI [of _ h] conjI) (simp_all add: argo_mem_pool_create_def)
  next
    case (Some self)
    note q = alloc_some [OF al wf p [unfolded Some]]
    let ?mp = "\<lparr>slabs = (\<lambda>_. NULL), mp_free_next = 0, mp_slab_cnt = 0, mp_obj_sz = sz', mp_obj_cnt = cnt'\<rparr>"
    have ok: "slabs_ok ?mp h1" using g(1) q(5) by (simp add: slabs_ok_def del: One_nat_def)
    have max: "unat (mp_slab_cnt ?mp) < MP_SLABS_MAX" by (simp add: MP_SLABS_MAX_def)
    obtain r h2 where r: "argo_alloc A (slab_size ?mp) h1 = (r, h2)" by fastforce
    have mono: "in_block h x \<Longrightarrow> in_block h1 x" for x using q(3) in_block_mono [of h h1] by auto
    show ?thesis
    proof (cases r)
      case None
      have run: "mp_create_new_slab A ?mp h1 = Some (1, ?mp, h1)"
        using new_slab_fail [OF al ok max] r None by simp
      obtain h3 where f: "argo_free A self h1 = Some h3" "set (blocks h3) = set (blocks h1) - {(self, sizeof_argo_mem_pool)}"
        "\<And>x. in_block h3 x \<Longrightarrow> heap_words h3 x = heap_words h1 x"
        using free_some [OF al q(5), of self sizeof_argo_mem_pool] q(3) by (metis insertI1)
      have b: "set (blocks h3) = set (blocks h)" using f(2) q(2,3) by auto
      moreover have "argo_mem_pool_create A sz cnt h = Some (NULL, h3)"
        using p Some adj run f(1) by (simp add: argo_mem_pool_create_def)
      moreover have "heap_words h3 x = heap_words h x" if "in_block h x" for x
        using that f(3) q(4) b in_block_mono [of h h3] by simp
      ultimately show ?thesis by (intro disjI1 exI [of _ h3] conjI allI impI)
    next
      case (Some a)
      note s = alloc_some [OF al q(5) r [unfolded Some]]
      have "\<exists>mp' h'. mp_create_new_slab A ?mp h1 = Some (0, mp', h') \<and> pool_ok mp' h' (slab_objs ?mp) \<and>
        slabs mp' = (slabs ?mp)(unat (mp_slab_cnt ?mp) \<mapsto> a) \<and> mp_slab_cnt mp' = mp_slab_cnt ?mp + 1 \<and>
        mp_obj_sz mp' = mp_obj_sz ?mp \<and> mp_obj_cnt mp' = mp_obj_cnt ?mp \<and>
        set (blocks h') = insert (a, slab_size ?mp) (set (blocks h1)) \<and>
        (\<forall>x. in_block h1 x \<longrightarrow> heap_words h' x = heap_words h1 x)"
        using r Some by (intro new_slab_some [OF al ok max]) (auto simp: objects_def)
      then obtain mp' h' where n: "mp_create_new_slab A ?mp h1 = Some (0, mp', h')" "pool_ok mp' h' (slab_objs ?mp)"
        "slabs mp' = [0 \<mapsto> a]" "mp_slab_cnt mp' = 1" "mp_obj_sz mp' = sz'" "mp_obj_cnt mp' = cnt'"
        "set (blocks h') = insert (a, slab_size ?mp) (set (blocks h1))"
        "\<forall>x. in_block h1 x \<longrightarrow> heap_words h' x = heap_words h1 x" by auto
      have ss: "slab_size mp' = slab_size ?mp" using n(5,6) by (simp add: slab_size_def)
      have "argo_mem_pool_create A sz cnt h = Some (Some (self, mp'), h')"
        using p \<open>p = Some self\<close> adj n(1) by (simp add: argo_mem_pool_create_def)
      moreover have "pool_ok mp' h' (map (Pair 0) [0..<unat (mp_obj_cnt mp')])"
        using n(2,6) by (simp add: slab_objs_def)
      moreover have "heap_words h' x = heap_words h x" if "in_block h x" for x
        using that n(8) q(4) mono by simp
      moreover have "set (blocks h') = {(self, sizeof_argo_mem_pool), (a, slab_size mp')} \<union> set (blocks h)"
        using n(7) q(3) ss by auto
      moreover have "self \<noteq> a" "(self, sizeof_argo_mem_pool) \<notin> set (blocks h)"
        "(a, slab_size mp') \<notin> set (blocks h)"
        using s(2) q(2,3) by auto
      moreover have "unat (mp_obj_sz mp') = full_sz sz" "unat (mp_obj_cnt mp') =
          (if full_sz sz * unat cnt \<le> 2 ^ 28 then unat cnt else 2 ^ 28 div full_sz sz)"
        using n(5,6) g(2,3) by simp_all
      ultimately show ?thesis using n(3,4)
        by (intro disjI2 exI [of _ self] exI [of _ a] exI [of _ mp'] exI [of _ h'] conjI allI impI)
    qed
  qed
qed

subsection \<open>Destroying a pool\<close>

lemma destroy_loop_effect:
  assumes al: "alloc_ok A" and "heap_wf h" and "i \<le> MP_SLABS_MAX"
    and "\<And>k b. i \<le> k \<Longrightarrow> slabs mp k = Some b \<Longrightarrow> (b, n) \<in> set (blocks h)"
    and "inj_on (slabs mp) {k. i \<le> k \<and> slabs mp k \<noteq> NULL}" and "\<And>k. MP_SLABS_MAX \<le> k \<Longrightarrow> slabs mp k = NULL"
  shows "\<exists>h'. mp_destroy_loop A mp i h = Some h' \<and>
    set (blocks h') = set (blocks h) - {(b, n) |b k. i \<le> k \<and> slabs mp k = Some b} \<and> heap_wf h'"
  using assms(2-5)
proof (induction "MP_SLABS_MAX - i" arbitrary: i h)
  case 0
  then have run: "mp_destroy_loop A mp i h = Some h" by (subst mp_destroy_loop.simps) simp
  have none: "{(b, n) |b k. i \<le> k \<and> slabs mp k = Some b} = {}"
    using assms(6) 0 by auto
  show ?case unfolding run none using 0 by simp
next
  case (Suc m)
  have lt: "i < MP_SLABS_MAX" and m: "m = MP_SLABS_MAX - Suc i" using Suc.hyps(2) by linarith+
  have inj: "inj_on (slabs mp) {k. Suc i \<le> k \<and> slabs mp k \<noteq> NULL}"
    using Suc.prems(4) by (rule inj_on_subset) auto
  have mem: "(b, n) \<in> set (blocks h)" if "Suc i \<le> k" "slabs mp k = Some b" for k b
    by (rule Suc.prems(3) [OF Suc_leD [OF that(1)] that(2)])
  show ?case
  proof (cases "slabs mp i")
    case None
    have "(i \<le> k \<and> slabs mp k = Some b) \<longleftrightarrow> (Suc i \<le> k \<and> slabs mp k = Some b)" for k b
      using None by (cases "i = k") auto
    then have "{(b, n) |b k. i \<le> k \<and> slabs mp k = Some b} = {(b, n) |b k. Suc i \<le> k \<and> slabs mp k = Some b}"
      by (simp only:)
    then show ?thesis using Suc.hyps(1) [OF m Suc.prems(1) _ _ inj] mem lt None
      by (subst mp_destroy_loop.simps) simp
  next
    case (Some a)
    obtain h1 where f: "argo_free A a h = Some h1" "set (blocks h1) = set (blocks h) - {(a, n)}" "heap_wf h1"
      using free_some [OF al Suc.prems(1) Suc.prems(3) [OF order.refl Some]] .
    have ne: "b \<noteq> a" if "Suc i \<le> k" "slabs mp k = Some b" for k b
      using Suc.prems(4) that Some by (auto dest!: inj_onD [of _ _ i k])
    have "\<exists>h'. mp_destroy_loop A mp (Suc i) h1 = Some h' \<and>
      set (blocks h') = set (blocks h1) - {(b, n) |b k. Suc i \<le> k \<and> slabs mp k = Some b} \<and> heap_wf h'"
      using mem ne lt f(2) by (intro Suc.hyps(1) [OF m f(3) _ _ inj]) auto
    moreover have "{(b, n) |b k. i \<le> k \<and> slabs mp k = Some b} =
      insert (a, n) {(b, n) |b k. Suc i \<le> k \<and> slabs mp k = Some b}"
    proof -
      have "(i \<le> k \<and> slabs mp k = Some b) \<longleftrightarrow> (i = k \<and> b = a \<or> Suc i \<le> k \<and> slabs mp k = Some b)" for k b
        using Some by (cases "i = k") auto
      then show ?thesis by auto
    qed
    ultimately show ?thesis using f(1,2) Some lt by (subst mp_destroy_loop.simps) auto
  qed
qed

lemma destroy_effect:
  assumes al: "alloc_ok A" and ok: "slabs_ok mp h" and self: "(self, n) \<in> set (blocks h)"
    "\<And>i. slabs mp i \<noteq> Some self"
  shows "\<exists>h'. argo_mem_pool_destroy A self mp h = Some h' \<and>
    set (blocks h') = set (blocks h) - insert (self, n) {(b, slab_size mp) |b k. slabs mp k = Some b}"
proof -
  have lt: "k < unat (mp_slab_cnt mp)" if "slabs mp k = Some b" for k b
    using that ok by (auto simp: slabs_ok_def not_less [symmetric])
  have "inj_on (slabs mp) {k. 0 \<le> k \<and> slabs mp k \<noteq> NULL}"
    using ok lt by (auto simp: slabs_ok_def intro: inj_on_subset)
  moreover have "(b, slab_size mp) \<in> set (blocks h)" if "slabs mp k = Some b" for k b
    using that slabs_ok_slab [OF ok lt [OF that]] by auto
  moreover have "slabs mp k = NULL" if "MP_SLABS_MAX \<le> k" for k
    using that ok by (auto simp: slabs_ok_def)
  ultimately obtain h1 where h1: "mp_destroy_loop A mp 0 h = Some h1"
    "set (blocks h1) = set (blocks h) - {(b, slab_size mp) |b k. 0 \<le> k \<and> slabs mp k = Some b}" "heap_wf h1"
    using destroy_loop_effect [OF al, of h 0 mp "slab_size mp"] ok by (auto simp: slabs_ok_def)
  then have "(self, n) \<in> set (blocks h1)" using self by auto
  then obtain h2 where "argo_free A self h1 = Some h2" "set (blocks h2) = set (blocks h1) - {(self, n)}"
    using free_some [OF al h1(3)] by metis
  then show ?thesis using h1 by (auto simp: argo_mem_pool_destroy_def)
qed

subsection \<open>A pool as a stack of free objects\<close>

text \<open>
  The contract of a last-in first-out pool of objects: \<open>rel s free out\<close> says that in state \<open>s\<close>
  the objects \<open>free\<close> will be handed out next, in this order, and \<open>out\<close> are in use.
\<close>

locale lifo_pool =
  fixes take_obj :: "'s \<Rightarrow> (cptr \<times> 's) option"
    and give_obj :: "addr \<Rightarrow> 's \<Rightarrow> 's option"
    and rel :: "'s \<Rightarrow> addr list \<Rightarrow> addr set \<Rightarrow> bool"
  assumes take_law: "rel s (a # free) out \<Longrightarrow> \<exists>s'. take_obj s = Some (Some a, s') \<and> rel s' free (insert a out)"
    and give_law: "rel s free out \<Longrightarrow> a \<in> out \<Longrightarrow> \<exists>s'. give_obj a s = Some s' \<and> rel s' (a # free) (out - {a})"
    and apart: "rel s free out \<Longrightarrow> distinct free \<and> set free \<inter> out = {}"
begin

fun take_many :: "nat \<Rightarrow> 's \<Rightarrow> (addr list \<times> 's) option" where
  "take_many 0 s = Some ([], s)"
| "take_many (Suc n) s = do {
     (p, s) \<leftarrow> take_obj s;
     case p of NULL \<Rightarrow> None
     | Some a \<Rightarrow> do { (as, s) \<leftarrow> take_many n s; Some (a # as, s) } }"

fun give_many :: "addr list \<Rightarrow> 's \<Rightarrow> 's option" where
  "give_many [] s = Some s"
| "give_many (a # as) s = do { s \<leftarrow> give_obj a s; give_many as s }"

lemma take_many_spec:
  "rel s (as @ free) out \<Longrightarrow> \<exists>s'. take_many (length as) s = Some (as, s') \<and> rel s' free (set as \<union> out)"
proof (induction as arbitrary: s out)
  case (Cons a as)
  obtain s1 where s1: "take_obj s = Some (Some a, s1)" "rel s1 (as @ free) (insert a out)"
    using take_law Cons.prems by force
  then show ?case using Cons.IH [OF s1(2)] by force
qed simp

lemma give_many_spec:
  "rel s free (set as \<union> out) \<Longrightarrow> distinct as \<Longrightarrow> set as \<inter> out = {} \<Longrightarrow>
   \<exists>s'. give_many as s = Some s' \<and> rel s' (rev as @ free) out"
proof (induction as arbitrary: s free)
  case (Cons a as)
  have "\<exists>s1. give_obj a s = Some s1 \<and> rel s1 (a # free) (set (a # as) \<union> out - {a})"
    using Cons.prems(1) by (intro give_law) auto
  then obtain s1 where s1: "give_obj a s = Some s1" "rel s1 (a # free) (set (a # as) \<union> out - {a})" by blast
  moreover have "set (a # as) \<union> out - {a} = set as \<union> out" using Cons.prems(2,3) by auto
  ultimately show ?case using Cons.IH [of s1 "a # free"] Cons.prems(2,3) by auto
qed simp

lemma take_then_give:
  assumes "rel s (as @ free) out"
  shows "\<exists>s' s''. take_many (length as) s = Some (as, s') \<and> rel s' free (set as \<union> out) \<and>
    give_many (rev as) s' = Some s'' \<and> rel s'' (as @ free) out"
proof -
  obtain s' where s': "take_many (length as) s = Some (as, s')" "rel s' free (set as \<union> out)"
    using take_many_spec [OF assms] by blast
  have "distinct as" "set as \<inter> out = {}" using apart [OF assms] by auto
  then show ?thesis using give_many_spec [of s' free "rev as" out] s' by auto
qed

lemma give_then_take:
  assumes "rel s free out" and "a \<in> out"
  shows "\<exists>s' s''. give_obj a s = Some s' \<and> take_obj s' = Some (Some a, s'') \<and> rel s'' free out"
proof -
  obtain s' where s': "give_obj a s = Some s'" "rel s' (a # free) (out - {a})"
    using give_law [OF assms] by blast
  have "insert a (out - {a}) = out" using assms(2) by blast
  then show ?thesis using take_law [OF s'(2)] s'(1) by auto
qed

end

definition user_ptr :: "argo_mem_pool \<Rightarrow> obj \<Rightarrow> addr" where
  "user_ptr mp x = obj_addr mp x + MP_METADATA_SZ"

type_synonym pool_state = "allocator \<times> argo_mem_pool \<times> heap"

definition pool_get :: "pool_state \<Rightarrow> (cptr \<times> pool_state) option" where
  "pool_get s = (case s of (A, mp, h) \<Rightarrow> do { (p, mp, h) \<leftarrow> argo_mem_pool_get A mp h; Some (p, A, mp, h) })"

definition pool_put :: "addr \<Rightarrow> pool_state \<Rightarrow> pool_state option" where
  "pool_put a s = (case s of (A, mp, h) \<Rightarrow> do { (mp, h) \<leftarrow> argo_mem_pool_put mp a h; Some (A, mp, h) })"

definition pool_stack :: "pool_state \<Rightarrow> addr list \<Rightarrow> addr set \<Rightarrow> bool" where
  "pool_stack s free out = (case s of (A, mp, h) \<Rightarrow>
     \<exists>fs. pool_ok mp h fs \<and> free = map (user_ptr mp) fs \<and> out = user_ptr mp ` (objects mp - set fs))"

lemma user_ptr_inj: "slabs_ok mp h \<Longrightarrow> inj_on (user_ptr mp) (objects mp)"
  by (auto simp: inj_on_def user_ptr_def obj_addr_inj)

lemma user_ptr_simps [simp]: "user_ptr (mp\<lparr>mp_free_next := md\<rparr>) = user_ptr mp"
  by (simp add: user_ptr_def fun_eq_iff)

lemma pool_stack_get:
  assumes "pool_stack s (a # free) out"
  shows "\<exists>s'. pool_get s = Some (Some a, s') \<and> pool_stack s' free (insert a out)"
proof -
  obtain A mp h fs where s: "s = (A, mp, h)" and ok: "pool_ok mp h fs"
    and fs: "a # free = map (user_ptr mp) fs" and out: "out = user_ptr mp ` (objects mp - set fs)"
    using assms by (cases s) (auto simp: pool_stack_def)
  then obtain x xs where xs: "fs = x # xs" "a = user_ptr mp x" "free = map (user_ptr mp) xs" by (cases fs) auto
  note g = get_from_list [OF ok [unfolded xs]]
  have "insert x (objects mp - set (x # xs)) = objects mp - set xs"
    using ok xs by (auto simp: pool_ok_def)
  then have "insert a out = user_ptr mp ` (objects mp - set xs)" using out xs by (metis image_insert)
  then show ?thesis using g s xs
    by (auto simp: pool_get_def pool_stack_def user_ptr_def MP_METADATA_SZ_def)
qed

lemma pool_stack_put:
  assumes "pool_stack s free out" and "a \<in> out"
  shows "\<exists>s'. pool_put a s = Some s' \<and> pool_stack s' (a # free) (out - {a})"
proof -
  obtain A mp h fs where s: "s = (A, mp, h)" and ok: "pool_ok mp h fs"
    and fs: "free = map (user_ptr mp) fs" and out: "out = user_ptr mp ` (objects mp - set fs)"
    using assms(1) by (cases s) (auto simp: pool_stack_def)
  obtain x where x: "a = user_ptr mp x" "x \<in> objects mp" "x \<notin> set fs" using assms(2) out by auto
  note p = put_to_list [OF ok x(2,3)]
  have "objects mp - set (x # fs) = (objects mp - set fs) - {x}" by auto
  moreover have "user_ptr mp ` ((objects mp - set fs) - {x}) = out - user_ptr mp ` {x}"
    unfolding out using x by (intro inj_on_image_set_diff [OF user_ptr_inj [OF pool_ok_slabs [OF ok]]]) auto
  ultimately have "out - {a} = user_ptr mp ` (objects mp - set (x # fs))" using x(1) by simp
  then show ?thesis using p s x fs
    by (auto simp: pool_put_def pool_stack_def user_ptr_def MP_METADATA_SZ_def intro!: exI [of _ "x # fs"])
qed

interpretation mp: lifo_pool pool_get pool_put pool_stack
proof
  fix s free out
  assume "pool_stack s free out"
  then obtain A mp h fs where ok: "pool_ok mp h fs" and fs: "free = map (user_ptr mp) fs"
      "out = user_ptr mp ` (objects mp - set fs)"
    by (cases s) (auto simp: pool_stack_def)
  have inj: "inj_on (user_ptr mp) (objects mp)" using user_ptr_inj [OF pool_ok_slabs [OF ok]] .
  have sub: "distinct fs" "set fs \<subseteq> objects mp" using ok by (auto simp: pool_ok_def)
  then show "distinct free \<and> set free \<inter> out = {}"
    using fs inj by (auto simp: distinct_map inj_on_def)
qed (fact pool_stack_get pool_stack_put)+

subsection \<open>A pool and its clients\<close>

text \<open>
  A pool is created, then clients get and put objects in any order and write into the payload
  of the objects they hold, and the rest of the program allocates, frees and writes its own
  memory. \<open>pool_out\<close> are the pointers handed out and not put back.
\<close>

record mp_sys =
  sys_env :: allocator
  pool_self :: addr
  sys_pool :: argo_mem_pool
  sys_heap :: heap
  pool_out :: "addr set"

definition mp_start :: "mp_sys \<Rightarrow> bool" where
  "mp_start s \<longleftrightarrow> alloc_ok (sys_env s) \<and> pool_out s = {} \<and>
     (\<exists>sz cnt h. heap_wf h \<and> create_args_ok sz cnt \<and>
        argo_mem_pool_create (sys_env s) sz cnt h = Some (Some (pool_self s, sys_pool s), sys_heap s))"

inductive mp_step :: "mp_sys \<Rightarrow> mp_sys \<Rightarrow> bool" where
  step_get: "argo_mem_pool_get (sys_env s) (sys_pool s) (sys_heap s) = Some (Some a, mp, h) \<Longrightarrow>
    mp_step s (s\<lparr>sys_pool := mp, sys_heap := h, pool_out := insert a (pool_out s)\<rparr>)"
| step_get_null: "argo_mem_pool_get (sys_env s) (sys_pool s) (sys_heap s) = Some (NULL, mp, h) \<Longrightarrow>
    mp_step s (s\<lparr>sys_pool := mp, sys_heap := h\<rparr>)"
| step_put: "a \<in> pool_out s \<Longrightarrow> argo_mem_pool_put (sys_pool s) a (sys_heap s) = Some (mp, h) \<Longrightarrow>
    mp_step s (s\<lparr>sys_pool := mp, sys_heap := h, pool_out := pool_out s - {a}\<rparr>)"
| step_write: "a \<in> pool_out s \<Longrightarrow> a \<le> x \<Longrightarrow> x + 8 \<le> a + (unat (mp_obj_sz (sys_pool s)) - MP_METADATA_SZ) \<Longrightarrow>
    8 dvd x \<Longrightarrow> mp_step s (s\<lparr>sys_heap := (sys_heap s)\<lparr>heap_words := (heap_words (sys_heap s))(x := w)\<rparr>\<rparr>)"
| step_elsewhere: "heap_wf h \<Longrightarrow> (pool_self s, sizeof_argo_mem_pool) \<in> set (blocks h) \<Longrightarrow>
    (\<And>i b. slabs (sys_pool s) i = Some b \<Longrightarrow> (b, slab_size (sys_pool s)) \<in> set (blocks h) \<and>
       (\<forall>x. b \<le> x \<longrightarrow> x < b + slab_size (sys_pool s) \<longrightarrow> heap_words h x = heap_words (sys_heap s) x)) \<Longrightarrow>
    mp_step s (s\<lparr>sys_heap := h\<rparr>)"

definition mp_inv :: "mp_sys \<Rightarrow> bool" where
  "mp_inv s \<longleftrightarrow> alloc_ok (sys_env s) \<and>
     (pool_self s, sizeof_argo_mem_pool) \<in> set (blocks (sys_heap s)) \<and>
     (\<forall>i. slabs (sys_pool s) i \<noteq> Some (pool_self s)) \<and>
     (\<exists>fs. pool_ok (sys_pool s) (sys_heap s) fs \<and>
        pool_out s = user_ptr (sys_pool s) ` (objects (sys_pool s) - set fs))"

lemma mp_start_inv:
  assumes "mp_start s"
  shows "mp_inv s"
proof -
  obtain sz cnt h where c: "alloc_ok (sys_env s)" "pool_out s = {}" "heap_wf h" "create_args_ok sz cnt"
      "argo_mem_pool_create (sys_env s) sz cnt h = Some (Some (pool_self s, sys_pool s), sys_heap s)"
    using assms by (auto simp: mp_start_def)
  obtain a where "pool_ok (sys_pool s) (sys_heap s) (map (Pair 0) [0..<unat (mp_obj_cnt (sys_pool s))])"
      "mp_slab_cnt (sys_pool s) = 1" "slabs (sys_pool s) = [0 \<mapsto> a]" "pool_self s \<noteq> a"
      "(pool_self s, sizeof_argo_mem_pool) \<in> set (blocks (sys_heap s))"
    using create_cases [OF c(1,3,4)] c(5) by auto
  moreover from this(2) have "objects (sys_pool s) = set (map (Pair 0) [0..<unat (mp_obj_cnt (sys_pool s))])"
    by (auto simp: objects_def)
  ultimately show ?thesis using c(1,2) by (fastforce simp: mp_inv_def split: if_splits)
qed

text \<open>Every call of \<open>argo_mem_pool_get\<close> in a good state has one of three outcomes.\<close>

lemma get_outcome:
  assumes inv: "mp_inv s"
  obtains (null) "argo_mem_pool_get (sys_env s) (sys_pool s) (sys_heap s) = Some (NULL, sys_pool s, sys_heap s)"
  | (object) a mp h where "argo_mem_pool_get (sys_env s) (sys_pool s) (sys_heap s) = Some (Some a, mp, h)"
      "a \<notin> pool_out s" "mp_inv (s\<lparr>sys_pool := mp, sys_heap := h, pool_out := insert a (pool_out s)\<rparr>)"
      "mp_obj_sz mp = mp_obj_sz (sys_pool s)"
      "\<And>x. in_block (sys_heap s) x \<Longrightarrow> x \<noteq> a - 8 \<Longrightarrow> heap_words h x = heap_words (sys_heap s) x"
proof -
  let ?mp = "sys_pool s" and ?h = "sys_heap s" and ?A = "sys_env s"
  obtain fs where al: "alloc_ok ?A" and ok: "pool_ok ?mp ?h fs"
    and out: "pool_out s = user_ptr ?mp ` (objects ?mp - set fs)"
    and self: "(pool_self s, sizeof_argo_mem_pool) \<in> set (blocks ?h)" "\<forall>i. slabs ?mp i \<noteq> Some (pool_self s)"
    using inv by (auto simp: mp_inv_def)
  have sl: "slabs_ok ?mp ?h" using ok by (rule pool_ok_slabs)
  show ?thesis
  proof (cases fs)
    case (Cons x xs)
    note g = get_from_list(1) [OF ok [unfolded Cons], of ?A] get_from_list(2) [OF ok [unfolded Cons]]
    have x: "x \<in> objects ?mp" "x \<notin> set xs" using ok Cons by (auto simp: pool_ok_def)
    have eq: "insert x (objects ?mp - set (x # xs)) = objects ?mp - set xs" using x by auto
    have "user_ptr ?mp x \<notin> pool_out s"
      unfolding out using x Cons inj_on_image_mem_iff [OF user_ptr_inj [OF sl] x(1), of "objects ?mp - set fs"] by auto
    moreover have "insert (user_ptr ?mp x) (pool_out s) = user_ptr ?mp ` (objects ?mp - set xs)"
      using out Cons eq by (metis image_insert)
    ultimately show ?thesis using g al self
      by (intro object [OF g(1)]) (auto simp: mp_inv_def user_ptr_def MP_METADATA_SZ_def)
  next
    case Nil
    show ?thesis
    proof (cases "unat (mp_slab_cnt ?mp) = MP_SLABS_MAX \<or> fst (argo_alloc ?A (slab_size ?mp) ?h) = NULL")
      case True
      then show ?thesis using get_null [of ?mp ?h ?A] ok Nil al null by blast
    next
      case False
      then have max: "unat (mp_slab_cnt ?mp) < MP_SLABS_MAX" using sl by (auto simp: slabs_ok_def)
      obtain a h1 where a: "argo_alloc ?A (slab_size ?mp) ?h = (Some a, h1)"
        using False by (metis not_None_eq prod.collapse)
      have aself: "a \<noteq> pool_self s"
        using alloc_some(2) [OF al _ a self(1)] sl by (auto simp: slabs_ok_def)
      obtain mp h where g: "argo_mem_pool_get ?A ?mp ?h = Some (Some (a + 8), mp, h)"
        "pool_ok mp h (tl (slab_objs ?mp))"
        "slabs mp = (slabs ?mp)(unat (mp_slab_cnt ?mp) \<mapsto> a)" "mp_slab_cnt mp = mp_slab_cnt ?mp + 1"
        "mp_obj_sz mp = mp_obj_sz ?mp" "mp_obj_cnt mp = mp_obj_cnt ?mp"
        "set (blocks h) = insert (a, slab_size ?mp) (set (blocks ?h))"
        "\<forall>x. in_block ?h x \<longrightarrow> heap_words h x = heap_words ?h x"
        using get_new_slab [OF al ok [unfolded Nil] max a] by blast
      let ?n = "unat (mp_slab_cnt ?mp)"
      have cnt: "0 < unat (mp_obj_cnt ?mp)" using sl by (auto simp: slabs_ok_def geom_ok_def)
      have tl: "set (tl (slab_objs ?mp)) = Pair ?n ` {1..<unat (mp_obj_cnt ?mp)}"
        using cnt by (auto simp: slab_objs_def map_tl [symmetric] simp del: upt_Suc)
      have "objects mp - set (tl (slab_objs ?mp)) = insert (?n, 0) (objects ?mp)"
        using cnt g(4,6) slab_cnt_Suc [OF max] unfolding tl by (auto simp: objects_def less_Suc_eq)
      moreover have "user_ptr mp (?n, 0) = a + 8"
        using g(3) by (simp add: user_ptr_def obj_addr_def MP_METADATA_SZ_def)
      moreover have old: "user_ptr mp x = user_ptr ?mp x" if "x \<in> objects ?mp" for x
        using that g(3,5) by (auto simp: user_ptr_def obj_addr_def objects_def)
      ultimately have img: "user_ptr mp ` (objects mp - set (tl (slab_objs ?mp))) = insert (a + 8) (pool_out s)"
        using out Nil by (auto simp: image_iff)
      have fresh: "a + 8 \<notin> pool_out s"
      proof
        assume "a + 8 \<in> pool_out s"
        then obtain x where x: "x \<in> objects ?mp" "a = obj_addr ?mp x"
          using out by (auto simp: user_ptr_def MP_METADATA_SZ_def)
        have "heap_wf ?h" using sl by (simp add: slabs_ok_def)
        then have "obj_addr ?mp x + 8 \<le> a \<or> a + slab_size ?mp \<le> obj_addr ?mp x"
          by (intro in_block_apart [OF objects_in_block(2) [OF sl x(1)]] alloc_some(2) [OF al _ a])
        then have "slab_size ?mp = 0" using x(2) by simp
        then show False using cnt sl by (auto simp: slab_size_def slabs_ok_def geom_ok_def)
      qed
      show ?thesis
        using g(5,8) fresh img g(2,3,7) al self aself
        by (intro object [OF g(1)]) (auto simp: mp_inv_def intro!: exI [of _ "tl (slab_objs ?mp)"])
    qed
  qed
qed

text \<open>Changes of memory that keep the slabs and every metadata word keep the pool.\<close>

lemma pool_ok_frame:
  assumes ok: "pool_ok mp h fs" and wf: "heap_wf h'"
    and slabs: "\<And>i b. slabs mp i = Some b \<Longrightarrow> (b, slab_size mp) \<in> set (blocks h')"
    and md: "\<And>x. x \<in> objects mp \<Longrightarrow> heap_words h' (obj_addr mp x) = heap_words h (obj_addr mp x)"
  shows "pool_ok mp h' fs"
proof -
  have "slabs_ok mp h'"
    unfolding slabs_ok_def
  proof (intro conjI allI impI)
    fix i assume "i < unat (mp_slab_cnt mp)"
    then obtain b where "slabs mp i = Some b" "8 dvd b" using slabs_ok_slab [OF pool_ok_slabs [OF ok]] by metis
    then show "\<exists>b. slabs mp i = Some b \<and> 8 dvd b \<and> (b, slab_size mp) \<in> set (blocks h')" using slabs by blast
  qed (use ok wf in \<open>auto simp: pool_ok_def slabs_ok_def\<close>)
  moreover have "free_chain mp h' md' fs = free_chain mp h md' fs" for md'
    using ok md by (intro free_chain_cong) (auto simp: pool_ok_def)
  ultimately show ?thesis using ok md by (auto simp: pool_ok_def)
qed

lemma payload_not_metadata:
  assumes sl: "slabs_ok mp h" and y: "y \<in> objects mp" and x: "x \<in> objects mp"
    and w: "user_ptr mp y \<le> w" "w + 8 \<le> user_ptr mp y + (unat (mp_obj_sz mp) - MP_METADATA_SZ)"
  shows "w \<noteq> obj_addr mp x"
proof (cases "x = y")
  case True
  then show ?thesis using w by (auto simp: user_ptr_def MP_METADATA_SZ_def)
next
  case False
  then show ?thesis using objects_apart [OF sl x y False] w sl
    by (auto simp: user_ptr_def MP_METADATA_SZ_def slabs_ok_def geom_ok_def)
qed

lemma mp_step_inv:
  assumes inv: "mp_inv s" and step: "mp_step s t"
  shows "mp_inv t"
proof -
  obtain fs where al: "alloc_ok (sys_env s)" and ok: "pool_ok (sys_pool s) (sys_heap s) fs"
    and out: "pool_out s = user_ptr (sys_pool s) ` (objects (sys_pool s) - set fs)"
    and self: "(pool_self s, sizeof_argo_mem_pool) \<in> set (blocks (sys_heap s))"
      "\<forall>i. slabs (sys_pool s) i \<noteq> Some (pool_self s)"
    using inv by (auto simp: mp_inv_def)
  have sl: "slabs_ok (sys_pool s) (sys_heap s)" using ok by (rule pool_ok_slabs)
  have slab: "(b, slab_size (sys_pool s)) \<in> set (blocks (sys_heap s))" if "slabs (sys_pool s) i = Some b" for i b
  proof -
    have "i < unat (mp_slab_cnt (sys_pool s))" using sl that by (auto simp: slabs_ok_def not_less [symmetric])
    then show ?thesis using slabs_ok_slab [OF sl] that by (metis option.inject)
  qed
  show ?thesis
    using step
  proof cases
    case (step_get a mp h)
    then show ?thesis by (cases rule: get_outcome [OF inv]) auto
  next
    case (step_get_null mp h)
    then show ?thesis using inv by (cases rule: get_outcome [OF inv]) auto
  next
    case (step_put a mp h)
    have "pool_stack (sys_env s, sys_pool s, sys_heap s) (map (user_ptr (sys_pool s)) fs) (pool_out s)"
      using ok out by (auto simp: pool_stack_def)
    from pool_stack_put [OF this step_put(2)]
    have st: "pool_stack (sys_env s, mp, h) (a # map (user_ptr (sys_pool s)) fs) (pool_out s - {a})"
      using step_put(3) by (auto simp: pool_put_def)
    obtain b w where "mp = (sys_pool s)\<lparr>mp_free_next := w\<rparr>" "blocks h = blocks (sys_heap s)"
      using step_put(3)
      by (auto simp: argo_mem_pool_put_def Let_def load_def store_def split: if_splits)
    then show ?thesis using st al self step_put(1) by (auto simp: mp_inv_def pool_stack_def)
  next
    case (step_write a x w)
    obtain y where y: "a = user_ptr (sys_pool s) y" "y \<in> objects (sys_pool s)" using step_write(2) out by auto
    let ?h = "(sys_heap s)\<lparr>heap_words := (heap_words (sys_heap s))(x := w)\<rparr>"
    have "pool_ok (sys_pool s) ?h fs"
    proof (rule pool_ok_frame [OF ok])
      show "heap_wf ?h" using sl by (simp add: slabs_ok_def heap_wf_def)
    next
      fix z assume z: "z \<in> objects (sys_pool s)"
      then show "heap_words ?h (obj_addr (sys_pool s) z) = heap_words (sys_heap s) (obj_addr (sys_pool s) z)"
        using payload_not_metadata [OF sl y(2) z step_write(3,4) [unfolded y(1)]] by simp
    qed (use slab in simp)
    then show ?thesis using step_write(1) al self out by (auto simp: mp_inv_def)
  next
    case (step_elsewhere h)
    have "pool_ok (sys_pool s) h fs"
    proof (rule pool_ok_frame [OF ok step_elsewhere(2)])
      fix z assume z: "z \<in> objects (sys_pool s)"
      obtain i j where zij: "z = (i, j)" "i < unat (mp_slab_cnt (sys_pool s))" "j < unat (mp_obj_cnt (sys_pool s))"
        using z by (auto simp: objects_def)
      obtain b where b: "slabs (sys_pool s) i = Some b" using slabs_ok_slab [OF sl zij(2)] .
      have geom: "geom_ok (mp_obj_sz (sys_pool s)) (mp_obj_cnt (sys_pool s))" using sl by (simp add: slabs_ok_def)
      have "b \<le> obj_addr (sys_pool s) z" "obj_addr (sys_pool s) z < b + slab_size (sys_pool s)"
        using geom zij(1,3) b by (simp_all add: obj_addr_def slab_size_def geom_ok_def)
      then show "heap_words h (obj_addr (sys_pool s) z) = heap_words (sys_heap s) (obj_addr (sys_pool s) z)"
        using step_elsewhere(4) [OF b] by blast
    qed (use step_elsewhere(4) in blast)
    then show ?thesis using step_elsewhere(1,3) al self out by (auto simp: mp_inv_def)
  qed
qed

interpretation mp_sys: inv_system mp_start mp_step mp_inv
  by unfold_locales (fact mp_start_inv, fact mp_step_inv)

subsection \<open>What the pool guarantees\<close>

text \<open>
  C1: in every state the clients can reach, every pointer handed out is 8-byte aligned and its
  payload lies inside one live allocation, and two pointers handed out are at least an object
  apart, so that the payloads and the headers of the objects in use are disjoint.
\<close>

theorem mem_pool_exclusive:
  assumes "reach mp_start mp_step s"
  shows "(\<forall>a \<in> pool_out s. 8 dvd a \<and>
      (\<exists>(b, n) \<in> set (blocks (sys_heap s)). b + 8 \<le> a \<and> a + (unat (mp_obj_sz (sys_pool s)) - 8) \<le> b + n)) \<and>
    (\<forall>a \<in> pool_out s. \<forall>b \<in> pool_out s. a \<noteq> b \<longrightarrow>
      a + unat (mp_obj_sz (sys_pool s)) \<le> b \<or> b + unat (mp_obj_sz (sys_pool s)) \<le> a)"
proof -
  obtain fs where ok: "pool_ok (sys_pool s) (sys_heap s) fs"
    and out: "pool_out s = user_ptr (sys_pool s) ` (objects (sys_pool s) - set fs)"
    using mp_sys.reach_inv [OF assms] by (auto simp: mp_inv_def)
  have sl: "slabs_ok (sys_pool s) (sys_heap s)" using ok by (rule pool_ok_slabs)
  have sz: "8 \<le> unat (mp_obj_sz (sys_pool s))" using sl by (simp add: slabs_ok_def geom_ok_def)
  have "8 dvd a \<and> (\<exists>(b, n) \<in> set (blocks (sys_heap s)). b + 8 \<le> a \<and> a + (unat (mp_obj_sz (sys_pool s)) - 8) \<le> b + n)"
    if a: "a \<in> pool_out s" for a
  proof -
    obtain x where x: "x \<in> objects (sys_pool s)" "a = obj_addr (sys_pool s) x + 8"
      using a out by (auto simp: user_ptr_def MP_METADATA_SZ_def)
    then show ?thesis using objects_in_block(1,3) [OF sl x(1)] sz by fastforce
  qed
  moreover have "a + unat (mp_obj_sz (sys_pool s)) \<le> b \<or> b + unat (mp_obj_sz (sys_pool s)) \<le> a"
    if ab: "a \<in> pool_out s" "b \<in> pool_out s" "a \<noteq> b" for a b
  proof -
    obtain x y where xy: "x \<in> objects (sys_pool s)" "a = obj_addr (sys_pool s) x + 8"
      "y \<in> objects (sys_pool s)" "b = obj_addr (sys_pool s) y + 8"
      using ab(1,2) out by (auto simp: user_ptr_def MP_METADATA_SZ_def)
    then show ?thesis using objects_apart [OF sl xy(1,3)] ab(3) by auto
  qed
  ultimately show ?thesis by blast
qed

text \<open>
  C2: in every such state \<open>argo_mem_pool_get\<close> runs without undefined behaviour and returns \<open>NULL\<close>
  or a pointer nobody holds, leaving every other word of live memory as it was, and
  \<open>argo_mem_pool_put\<close> of a pointer in use runs without undefined behaviour.
\<close>

theorem mem_pool_get_fresh:
  assumes "reach mp_start mp_step s"
  shows "(\<exists>p mp h. argo_mem_pool_get (sys_env s) (sys_pool s) (sys_heap s) = Some (p, mp, h) \<and>
      (case p of NULL \<Rightarrow> mp = sys_pool s \<and> h = sys_heap s
       | Some a \<Rightarrow> a \<notin> pool_out s \<and> (\<forall>x. in_block (sys_heap s) x \<longrightarrow> x \<noteq> a - 8 \<longrightarrow>
           heap_words h x = heap_words (sys_heap s) x))) \<and>
    (\<forall>a \<in> pool_out s. argo_mem_pool_put (sys_pool s) a (sys_heap s) \<noteq> None)"
proof -
  have inv: "mp_inv s" using mp_sys.reach_inv [OF assms] .
  have "argo_mem_pool_put (sys_pool s) a (sys_heap s) \<noteq> None" if a: "a \<in> pool_out s" for a
  proof -
    obtain fs where "pool_ok (sys_pool s) (sys_heap s) fs"
      "pool_out s = user_ptr (sys_pool s) ` (objects (sys_pool s) - set fs)"
      using inv by (auto simp: mp_inv_def)
    then show ?thesis using a put_to_list by (fastforce simp: user_ptr_def MP_METADATA_SZ_def)
  qed
  then show ?thesis by (cases rule: get_outcome [OF inv]) fastforce+
qed

text \<open>
  C5: \<open>argo_mem_pool_destroy\<close> on a pool in any reachable state frees the pool structure and every
  slab exactly once, and no other allocation.
\<close>

theorem mem_pool_destroy_releases:
  assumes "reach mp_start mp_step s"
  shows "\<exists>h. argo_mem_pool_destroy (sys_env s) (pool_self s) (sys_pool s) (sys_heap s) = Some h \<and>
    set (blocks h) = set (blocks (sys_heap s)) - insert (pool_self s, sizeof_argo_mem_pool)
      {(b, slab_size (sys_pool s)) |b k. slabs (sys_pool s) k = Some b}"
  using mp_sys.reach_inv [OF assms] by (intro destroy_effect) (auto simp: mp_inv_def pool_ok_def)

text \<open>
  C4: with at least one object, an object size that fits a slab and a product that fits 32
  bits, \<open>argo_mem_pool_create\<close> returns \<open>NULL\<close> with memory as it was, or a pool whose first slab is
  completely free: as many objects as asked for, capped so that the slab stays within 256 MB,
  each large enough for the payload asked for and the header.
\<close>

theorem mem_pool_create_ok:
  assumes "alloc_ok A" and "heap_wf h" and "create_args_ok sz cnt"
  shows "\<exists>r h'. argo_mem_pool_create A sz cnt h = Some (r, h') \<and>
    (\<forall>x. in_block h x \<longrightarrow> heap_words h' x = heap_words h x) \<and>
    (case r of NULL \<Rightarrow> set (blocks h') = set (blocks h)
     | Some (self, mp) \<Rightarrow> (self, sizeof_argo_mem_pool) \<in> set (blocks h') - set (blocks h) \<and>
         pool_ok mp h' (map (Pair 0) [0..<unat (mp_obj_cnt mp)]) \<and>
         unat sz + 8 \<le> unat (mp_obj_sz mp) \<and> unat (mp_obj_sz mp) * unat (mp_obj_cnt mp) \<le> 2 ^ 28 \<and>
         unat (mp_obj_cnt mp) = (if full_sz sz * unat cnt \<le> 2 ^ 28 then unat cnt else 2 ^ 28 div full_sz sz))"
proof -
  have sz: "unat sz + 8 \<le> full_sz sz" by (simp add: full_sz_def)
  show ?thesis
    using create_cases [OF assms]
  proof (elim disjE exE conjE)
    fix h' assume "argo_mem_pool_create A sz cnt h = Some (NULL, h')" "set (blocks h') = set (blocks h)"
      "\<forall>x. in_block h x \<longrightarrow> heap_words h' x = heap_words h x"
    then show ?thesis by auto
  next
    fix self a mp h' assume c: "argo_mem_pool_create A sz cnt h = Some (Some (self, mp), h')"
      "pool_ok mp h' (map (Pair 0) [0..<unat (mp_obj_cnt mp)])"
      "unat (mp_obj_sz mp) = full_sz sz"
      "unat (mp_obj_cnt mp) = (if full_sz sz * unat cnt \<le> 2 ^ 28 then unat cnt else 2 ^ 28 div full_sz sz)"
      "(self, sizeof_argo_mem_pool) \<notin> set (blocks h)"
      "set (blocks h') = {(self, sizeof_argo_mem_pool), (a, slab_size mp)} \<union> set (blocks h)"
      "\<forall>x. in_block h x \<longrightarrow> heap_words h' x = heap_words h x"
    have "unat (mp_obj_sz mp) * unat (mp_obj_cnt mp) \<le> 2 ^ 28"
      using c(2) by (simp add: pool_ok_def slabs_ok_def geom_ok_def)
    then show ?thesis using c sz by (intro exI [of _ "Some (self, mp)"] exI [of _ h']) auto
  qed
qed

text \<open>
  When the rounded object size times the count is 0 as a 32-bit number (a count of 0, or for
  instance 65536 objects of 65528 bytes), the check against the slab size lets it pass, a slab of
  no bytes is allocated, and initialising its free list writes outside every allocation.
\<close>

theorem mem_pool_create_zero_slab:
  assumes "alloc_ok A" and "heap_wf h" and "((sz + 15) AND - 8) * cnt = 0"
    and "argo_alloc A sizeof_argo_mem_pool h = (Some self, h1)" and "argo_alloc A 0 h1 = (Some a, h2)"
  shows "argo_mem_pool_create A sz cnt h = None"
proof -
  have wf: "heap_wf h1" using alloc_some(5) [OF assms(1,2,4)] .
  have "a \<noteq> b \<and> (a + 0 \<le> b \<or> b + k \<le> a)" if "(b, k) \<in> set (blocks h1)" for b k
    using alloc_some(2) [OF assms(1) wf assms(5) that] .
  then have out: "\<not> in_block h2 a"
    unfolding in_block_def alloc_some(3) [OF assms(1) wf assms(5)] by fastforce
  have adj: "mp_adjust_size_and_count sz cnt = ((sz + 15) AND - 8, cnt)"
    using assms(3) by (simp add: mp_adjust_size_and_count_def Let_def MP_METADATA_SZ_def add.assoc MP_SLAB_SIZE_def)
  have "mp_free_list_init a ((sz + 15) AND - 8) cnt 0 h2 = None"
    using out by (subst mp_free_list_init_def, subst mp_free_list_loop.simps) (simp add: Let_def store_def)
  then have "mp_create_new_slab A \<lparr>slabs = (\<lambda>_. NULL), mp_free_next = 0, mp_slab_cnt = 0,
      mp_obj_sz = (sz + 15) AND - 8, mp_obj_cnt = cnt\<rparr> h1 = None"
    using assms(3,5) by (simp add: mp_create_new_slab_def Let_def MP_SLABS_MAX_def)
  then show ?thesis using adj assms(4) by (simp add: argo_mem_pool_create_def)
qed

text \<open>
  C3: the pool is a stack: taking objects hands out the free list from its front, and putting
  the same objects back in reverse order restores it.
\<close>

theorem mem_pool_take_give:
  assumes "pool_stack s (as @ free) out"
  shows "\<exists>s' s''. mp.take_many (length as) s = Some (as, s') \<and> pool_stack s' free (set as \<union> out) \<and>
    mp.give_many (rev as) s' = Some s'' \<and> pool_stack s'' (as @ free) out"
  using assms by (rule mp.take_then_give)

subsection \<open>Concrete runs\<close>

text \<open>A bump allocator, which meets the hypotheses on \<open>ARGO_ALLOC\<close> and \<open>ARGO_FREE\<close>.\<close>

definition top_of :: "heap \<Rightarrow> nat" where
  "top_of h = foldr (\<lambda>(b, n) m. max (b + n) m) (blocks h) 0"

definition bump :: allocator where
  "bump = \<lparr>argo_alloc = (\<lambda>n h. let a = 8 * Suc (top_of h div 8) in (Some a, h\<lparr>blocks := (a, n) # blocks h\<rparr>)),
     argo_free = (\<lambda>a h. if a \<in> fst ` set (blocks h)
        then Some (h\<lparr>blocks := filter (\<lambda>(b, n). b \<noteq> a) (blocks h)\<rparr>) else None)\<rparr>"

lemma top_of_upper: "(b, n) \<in> set (blocks h) \<Longrightarrow> b + n \<le> top_of h"
proof -
  have "(b, n) \<in> set bs \<Longrightarrow> b + n \<le> foldr (\<lambda>(b, n) m. max (b + n) m) bs 0" for bs
    by (induction bs) (auto simp: le_max_iff_disj)
  then show "(b, n) \<in> set (blocks h) \<Longrightarrow> b + n \<le> top_of h" by (simp add: top_of_def)
qed

lemma bump_ok: "alloc_ok bump"
proof -
  have fresh: "a \<noteq> b \<and> (a + n \<le> b \<or> b + k \<le> a)"
    if "(b, k) \<in> set (blocks h)" "a = 8 * Suc (top_of h div 8)" for a b n k h
  proof -
    have "top_of h < a" unfolding that(2) by (simp add: dividend_less_div_times mult.commute)
    then show ?thesis using top_of_upper [OF that(1)] by simp
  qed
  have free: "set (filter (\<lambda>(b, m). b \<noteq> a) (blocks h)) = set (blocks h) - {(a, n)}"
    if "heap_wf h" "(a, n) \<in> set (blocks h)" for a n h
    using that unfolding heap_wf_def by auto
  show ?thesis
    unfolding alloc_ok_def
  proof (intro conjI allI impI)
    fix n h a h'
    assume "argo_alloc bump n h = (Some a, h')"
    then have a: "a = 8 * Suc (top_of h div 8)" and h': "h' = h\<lparr>blocks := (a, n) # blocks h\<rparr>"
      by (auto simp: bump_def Let_def)
    show "8 dvd a" using a by simp
    show "\<forall>(b, k)\<in>set (blocks h). a \<noteq> b \<and> (a + n \<le> b \<or> b + k \<le> a)" using fresh [OF _ a] by auto
    show "set (blocks h') = insert (a, n) (set (blocks h))" using h' by simp
    show "heap_words h' x = heap_words h x" for x using h' by simp
  next
    fix a n h assume "heap_wf h" and m: "(a, n) \<in> set (blocks h)"
    then show "\<exists>h'. argo_free bump a h = Some h' \<and> set (blocks h') = set (blocks h) - {(a, n)} \<and>
        (\<forall>x. in_block h' x \<longrightarrow> heap_words h' x = heap_words h x)"
      using free by (auto simp: bump_def image_iff intro!: bexI [OF _ m])
  qed (auto simp: bump_def Let_def)
qed

definition empty_heap :: heap where
  "empty_heap = \<lparr>blocks = [], heap_words = (\<lambda>_. 0)\<rparr>"

lemma empty_heap_wf: "heap_wf empty_heap"
  by (simp add: empty_heap_def heap_wf_def)

text \<open>A pool of two objects with 8 bytes of payload, and both objects in use.\<close>

definition demo_pool :: argo_mem_pool where
  "demo_pool = \<lparr>slabs = [0 \<mapsto> 32808], mp_free_next = 0, mp_slab_cnt = 1, mp_obj_sz = 16, mp_obj_cnt = 2\<rparr>"

definition demo_heap :: heap where
  "demo_heap = \<lparr>blocks = [(32808, 32), (8, 32792)],
     heap_words = (\<lambda>_. 0)(32808 := 16, 32824 := MP_OFFSET_INVALID)\<rparr>"

lemma demo_create: "argo_mem_pool_create bump 8 2 empty_heap = Some (Some (8, demo_pool), demo_heap)"
  by (simp add: argo_mem_pool_create_def mp_adjust_size_and_count_def mp_create_new_slab_def
      mp_free_list_init_def mp_free_list_loop.simps store_def in_block_def mp_consts sizeof_argo_mem_pool_def
      bump_def empty_heap_def demo_pool_def demo_heap_def top_of_def)

lemma demo_get_1: "argo_mem_pool_get bump demo_pool demo_heap =
    Some (Some 32816, demo_pool\<lparr>mp_free_next := 16\<rparr>, demo_heap\<lparr>heap_words := (heap_words demo_heap)(32808 := 0)\<rparr>)"
  by (simp add: argo_mem_pool_get_def mp_metadata_to_inx_and_offset_def mp_inx_and_offset_to_addr_def
      load_def store_def in_block_def mp_consts demo_pool_def demo_heap_def)

definition demo_s :: "argo_mem_pool \<Rightarrow> heap \<Rightarrow> addr set \<Rightarrow> mp_sys" where
  "demo_s mp h out = \<lparr>sys_env = bump, pool_self = 8, sys_pool = mp, sys_heap = h, pool_out = out\<rparr>"

definition demo_pool_1 :: argo_mem_pool where
  "demo_pool_1 = demo_pool\<lparr>mp_free_next := 16\<rparr>"

definition demo_heap_1 :: heap where
  "demo_heap_1 = demo_heap\<lparr>heap_words := (heap_words demo_heap)(32808 := 0)\<rparr>"

definition demo_1 :: mp_sys where
  "demo_1 = demo_s demo_pool_1 demo_heap_1 {32816}"

lemma demo_0_reach: "reach mp_start mp_step (demo_s demo_pool demo_heap {})"
  using bump_ok empty_heap_wf demo_create
  by (intro reach_init, unfold mp_start_def)
    (intro conjI exI [of _ "8 :: u32"] exI [of _ "2 :: u32"] exI [of _ empty_heap],
      simp_all add: demo_s_def create_args_ok_def full_sz_def)

lemma demo_1_reach: "reach mp_start mp_step demo_1"
proof -
  have "mp_step (demo_s demo_pool demo_heap {}) demo_1"
    using step_get [of "demo_s demo_pool demo_heap {}"] demo_get_1
    by (simp add: demo_1_def demo_s_def demo_pool_1_def demo_heap_1_def)
  then show ?thesis using demo_0_reach by (metis reach_step)
qed

theorem mem_pool_exclusive_witness:
  "pool_out demo_1 = {32816} \<and> 8 dvd (32816 :: nat) \<and>
   (\<exists>(b, n) \<in> set (blocks demo_heap_1). b + 8 \<le> 32816 \<and> 32816 + (unat (mp_obj_sz demo_pool_1) - 8) \<le> b + n)"
  using mem_pool_exclusive [OF demo_1_reach] by (auto simp: demo_1_def demo_s_def)

theorem mem_pool_get_fresh_witness:
  "\<exists>p mp h. argo_mem_pool_get bump demo_pool_1 demo_heap_1 = Some (p, mp, h) \<and> p \<noteq> Some 32816"
  using mem_pool_get_fresh [OF demo_1_reach] by (auto simp: demo_1_def demo_s_def split: option.splits)

theorem mem_pool_destroy_releases_witness:
  "\<exists>h. argo_mem_pool_destroy bump 8 demo_pool_1 demo_heap_1 = Some h \<and> blocks h = []"
proof -
  obtain h where h: "argo_mem_pool_destroy bump 8 demo_pool_1 demo_heap_1 = Some h"
    "set (blocks h) = set (blocks demo_heap_1) - insert (8, sizeof_argo_mem_pool)
      {(b, slab_size demo_pool_1) |b k. slabs demo_pool_1 k = Some b}"
    using mem_pool_destroy_releases [OF demo_1_reach] by (auto simp: demo_1_def demo_s_def)
  have "{(b, slab_size demo_pool_1) |b k. slabs demo_pool_1 k = Some b} = {(32808, 32)}"
    by (auto simp: demo_pool_1_def demo_pool_def slab_size_def split: if_splits)
  then have "set (blocks h) = {}"
    using h(2) by (simp add: demo_heap_1_def demo_heap_def sizeof_argo_mem_pool_def MP_SLABS_MAX_def)
  then show ?thesis using h(1) by simp
qed

theorem mem_pool_create_ok_witness:
  "\<exists>r h'. argo_mem_pool_create bump 8 2 empty_heap = Some (r, h') \<and>
    (case r of NULL \<Rightarrow> blocks h' = []
     | Some (self, mp) \<Rightarrow> pool_ok mp h' [(0, 0), (0, 1)] \<and> 16 \<le> unat (mp_obj_sz mp))"
proof -
  have "create_args_ok 8 2" by (simp add: create_args_ok_def full_sz_def)
  then show ?thesis
    using mem_pool_create_ok [OF bump_ok empty_heap_wf, of 8 2] demo_create
    by (auto simp: demo_pool_def upt_rec)
qed

theorem mem_pool_create_zero_slab_witness:
  "argo_mem_pool_create bump 65528 65536 empty_heap = None \<and> argo_mem_pool_create bump 8 0 empty_heap = None"
proof -
  obtain self h1 a h2 where "argo_alloc bump sizeof_argo_mem_pool empty_heap = (Some self, h1)"
    "argo_alloc bump 0 h1 = (Some a, h2)"
    by (simp add: bump_def Let_def)
  then show ?thesis
    using mem_pool_create_zero_slab [OF bump_ok empty_heap_wf, of 65528 65536]
      mem_pool_create_zero_slab [OF bump_ok empty_heap_wf, of 8 0] by simp
qed

theorem mem_pool_take_give_witness:
  "\<exists>s' s''. mp.take_many 2 (bump, demo_pool, demo_heap) = Some ([32816, 32832], s') \<and>
    mp.give_many [32832, 32816] s' = Some s'' \<and> pool_stack s'' [32816, 32832] {}"
proof -
  have "pool_ok demo_pool demo_heap [(0, 0), (0, 1)]"
    using create_cases [OF bump_ok empty_heap_wf, of 8 2] demo_create
    by (auto simp: create_args_ok_def full_sz_def demo_pool_def upt_rec)
  moreover have "objects demo_pool = {(0, 0), (0, 1)}"
    by (auto simp: objects_def demo_pool_def)
  moreover have "user_ptr demo_pool (0, 0) = 32816" "user_ptr demo_pool (0, 1) = 32832"
    by (simp_all add: user_ptr_def obj_addr_def demo_pool_def MP_METADATA_SZ_def)
  ultimately have "pool_stack (bump, demo_pool, demo_heap) ([32816, 32832] @ []) {}"
    unfolding pool_stack_def prod.case by (intro exI [of _ "[(0, 0), (0, 1)]"]) simp
  from mem_pool_take_give [OF this] show ?thesis
    by (auto simp: numeral_2_eq_2 simp del: mp.take_many.simps mp.give_many.simps)
qed

end
