(* ===== verification/Shm_Queue.thy ===== *)
theory Shm_Queue
  imports Posix "HOL-Library.Signed_Division"
begin

section \<open>Producer and consumer over shared memory\<close>

text \<open>
  Models \<open>src/src/system/ipc/sharedmemory/shm_producer.c\<close> and \<open>shm_consumer.c\<close>: a ring buffer of
  four integers in a shared memory segment, guarded by three named semaphores. The queue
  functions take the pointer to the segment (\<open>None\<close> is \<open>NULL\<close>) and give \<open>None\<close> when they index
  outside the array; an index is a C \<open>int\<close>, and \<open>%\<close> is the truncating remainder \<open>smod\<close>.
  The two main loops are the step relation \<open>shm_step\<close>: one step per semaphore operation, and one
  for the critical section.

  The lemmas show that the ring refines a list, that the semaphores keep the producer away from a
  full queue and the consumer away from an empty one, that the consumer sees exactly what was
  produced, in order, and that the two processes never block each other for ever. The last part
  shows what a restarted producer does to this.
\<close>

definition QUEUE_SIZE :: nat where
  "QUEUE_SIZE = 4"

record queue =
  arr :: "int list"
  head :: int
  tail :: int

subsection \<open>The queue functions\<close>

definition arr_get :: "queue \<Rightarrow> int \<Rightarrow> int option" where
  "arr_get q i = (if 0 \<le> i \<and> nat i < length (arr q) then Some (arr q ! nat i) else None)"

definition arr_set :: "queue \<Rightarrow> int \<Rightarrow> int \<Rightarrow> queue option" where
  "arr_set q i v = (if 0 \<le> i \<and> nat i < length (arr q) then Some (q\<lparr>arr := (arr q)[nat i := v]\<rparr>) else None)"

definition queue_init :: "queue option \<Rightarrow> int \<times> queue option" where
  "queue_init q = (case q of NULL \<Rightarrow> (- 1, NULL) | Some q \<Rightarrow> (0, Some (q\<lparr>head := - 1, tail := - 1\<rparr>)))"

definition queue_add :: "queue option \<Rightarrow> int \<Rightarrow> (int \<times> queue option) option" where
  "queue_add q val = (case q of NULL \<Rightarrow> Some (- 1, NULL)
     | Some q \<Rightarrow>
         if (tail q + 1) smod int QUEUE_SIZE = head q then Some (0, Some q)
         else do {
           let q = (if head q = - 1 \<and> tail q = - 1 then q\<lparr>head := 0, tail := 0\<rparr>
                    else q\<lparr>tail := (tail q + 1) smod int QUEUE_SIZE\<rparr>);
           q \<leftarrow> arr_set q (tail q) val;
           Some (0, Some q) })"

text \<open>The second result is the number the function prints as deleted.\<close>

definition queue_delete :: "queue option \<Rightarrow> (int \<times> int option \<times> queue option) option" where
  "queue_delete q = (case q of NULL \<Rightarrow> Some (- 1, NULL, NULL)
     | Some q \<Rightarrow>
         if head q = - 1 then Some (0, NULL, Some q)
         else do {
           v \<leftarrow> arr_get q (head q);
           Some (0, Some v, Some (
             if head q = tail q then q\<lparr>head := - 1, tail := - 1\<rparr>
             else q\<lparr>head := (head q + 1) smod int QUEUE_SIZE\<rparr>)) })"

partial_function (option) queue_print_loop :: "queue \<Rightarrow> int \<Rightarrow> int list option" where
  "queue_print_loop q i = do {
     v \<leftarrow> arr_get q i;
     if i = tail q then Some [v]
     else do {
       vs \<leftarrow> queue_print_loop q ((i + 1) smod int QUEUE_SIZE);
       Some (v # vs) } }"

definition queue_print :: "queue option \<Rightarrow> (int \<times> int list) option" where
  "queue_print q = (case q of NULL \<Rightarrow> Some (- 1, [])
     | Some q \<Rightarrow>
         if head q = - 1 then Some (0, [])
         else do { vs \<leftarrow> queue_print_loop q (head q); Some (0, vs) })"

subsection \<open>Starting up\<close>

text \<open>
  The calls before the loops. The result is the exit code, or the attached segment; the producer
  initialises the queue in it, whatever it holds.
\<close>

definition producer_start :: "queue \<Rightarrow> 'a os_scheme \<Rightarrow> ((int + queue option) \<times> 'a os_scheme) option" where
  "producer_start segment s = do {
     (r, s) \<leftarrow> sys_zero s;
     if r \<noteq> 0 then Some (Inl 1, s)
     else do {
       (shm_key, s) \<leftarrow> sys_zero s;
       if shm_key < 0 then Some (Inl 1, s)
       else do {
         (shm_id, s) \<leftarrow> sys_zero s;
         (shm_id, s) \<leftarrow> (if shm_id < 0 \<and> os_errno s = EEXIST then sys_zero s else Some (shm_id, s));
         if shm_id < 0 then Some (Inl 1, s)
         else do {
           (q, s) \<leftarrow> sys_zero s;
           if q = - 1 then Some (Inl 1, s)
           else Some (Inr (snd (queue_init (Some segment))), s) } } } }"

definition consumer_start :: "queue \<Rightarrow> 'a os_scheme \<Rightarrow> ((int + queue option) \<times> 'a os_scheme) option" where
  "consumer_start segment s = do {
     (r, s) \<leftarrow> sys_zero s;
     if r \<noteq> 0 then Some (Inl 1, s)
     else do {
       (shm_key, s) \<leftarrow> sys_zero s;
       if shm_key < 0 then Some (Inl 1, s)
       else do {
         (shm_id, s) \<leftarrow> sys_zero s;
         if shm_id < 0 then Some (Inl 1, s)
         else do {
           (q, s) \<leftarrow> sys_zero s;
           if q = - 1 then Some (Inl 1, s) else Some (Inr (Some segment), s) } } } }"

subsection \<open>The ring refines a list\<close>

definition ring_ok :: "queue \<Rightarrow> bool" where
  "ring_ok q \<longleftrightarrow> length (arr q) = 4 \<and>
     (head q = - 1 \<and> tail q = - 1 \<or> head q \<in> {0, 1, 2, 3} \<and> tail q \<in> {0, 1, 2, 3})"

definition contents :: "queue \<Rightarrow> int list" where
  "contents q = (if head q = - 1 then []
     else map (\<lambda>i. arr q ! ((nat (head q) + i) mod 4)) [0..<Suc ((nat (tail q) + 4 - nat (head q)) mod 4)])"

lemma four: "length xs = 4 \<Longrightarrow> \<exists>a b c d. xs = [a, b, c, d]"
  by (auto simp: numeral_eq_Suc length_Suc_conv)

text \<open>The contents for each position of head and tail.\<close>

lemma contents_table:
  "contents \<lparr>arr = [a, b, c, d], head = - 1, tail = - 1\<rparr> = []"
  "contents \<lparr>arr = [a, b, c, d], head = 0, tail = 0\<rparr> = [a]"
  "contents \<lparr>arr = [a, b, c, d], head = 0, tail = 1\<rparr> = [a, b]"
  "contents \<lparr>arr = [a, b, c, d], head = 0, tail = 2\<rparr> = [a, b, c]"
  "contents \<lparr>arr = [a, b, c, d], head = 0, tail = 3\<rparr> = [a, b, c, d]"
  "contents \<lparr>arr = [a, b, c, d], head = 1, tail = 0\<rparr> = [b, c, d, a]"
  "contents \<lparr>arr = [a, b, c, d], head = 1, tail = 1\<rparr> = [b]"
  "contents \<lparr>arr = [a, b, c, d], head = 1, tail = 2\<rparr> = [b, c]"
  "contents \<lparr>arr = [a, b, c, d], head = 1, tail = 3\<rparr> = [b, c, d]"
  "contents \<lparr>arr = [a, b, c, d], head = 2, tail = 0\<rparr> = [c, d, a]"
  "contents \<lparr>arr = [a, b, c, d], head = 2, tail = 1\<rparr> = [c, d, a, b]"
  "contents \<lparr>arr = [a, b, c, d], head = 2, tail = 2\<rparr> = [c]"
  "contents \<lparr>arr = [a, b, c, d], head = 2, tail = 3\<rparr> = [c, d]"
  "contents \<lparr>arr = [a, b, c, d], head = 3, tail = 0\<rparr> = [d, a]"
  "contents \<lparr>arr = [a, b, c, d], head = 3, tail = 1\<rparr> = [d, a, b]"
  "contents \<lparr>arr = [a, b, c, d], head = 3, tail = 2\<rparr> = [d, a, b, c]"
  "contents \<lparr>arr = [a, b, c, d], head = 3, tail = 3\<rparr> = [d]"
  by (simp_all add: contents_def upt_rec)

lemmas queue_defs = ring_ok_def contents_table QUEUE_SIZE_def signed_modulo_int_def arr_get_def arr_set_def

lemma ring_cases:
  assumes "ring_ok q"
  obtains (empty) a b c d where "q = \<lparr>arr = [a, b, c, d], head = - 1, tail = - 1\<rparr>"
  | (some) a b c d h t where "q = \<lparr>arr = [a, b, c, d], head = h, tail = t\<rparr>"
      "h \<in> {0, 1, 2, 3}" "t \<in> {0, 1, 2, 3}"
proof -
  obtain a b c d where "arr q = [a, b, c, d]" using assms four [of "arr q"] by (auto simp: ring_ok_def)
  then show ?thesis using assms empty [of a b c d] some [of a b c d "head q" "tail q"]
    by (cases q) (auto simp: ring_ok_def)
qed

lemma queue_add_contents:
  assumes "ring_ok q" and "length (contents q) < 4"
  shows "\<exists>q'. queue_add (Some q) v = Some (0, Some q') \<and> ring_ok q' \<and> contents q' = contents q @ [v]"
  using assms(1)
proof (cases rule: ring_cases)
  case (empty a b c d)
  then show ?thesis by (simp add: queue_add_def queue_defs)
next
  case (some a b c d h t)
  then show ?thesis using assms(2)
    by (elim insertE emptyE) (simp_all add: queue_add_def queue_defs)
qed

lemma queue_add_full:
  assumes "ring_ok q" and "length (contents q) = 4"
  shows "queue_add (Some q) v = Some (0, Some q)"
  using assms(1)
proof (cases rule: ring_cases)
  case (some a b c d h t)
  then show ?thesis using assms(2) by (elim insertE emptyE) (simp_all add: queue_add_def queue_defs)
qed (use assms(2) in \<open>simp add: contents_table\<close>)

lemma queue_delete_contents:
  assumes "ring_ok q" and "contents q = x # xs"
  shows "\<exists>q'. queue_delete (Some q) = Some (0, Some x, Some q') \<and> ring_ok q' \<and> contents q' = xs"
  using assms(1)
proof (cases rule: ring_cases)
  case (some a b c d h t)
  then show ?thesis using assms(2)
    by (elim insertE emptyE) (auto simp: queue_delete_def queue_defs)
qed (use assms(2) in \<open>simp add: contents_table\<close>)

lemma queue_print_contents:
  assumes "ring_ok q"
  shows "queue_print (Some q) = Some (0, contents q)"
  using assms
proof (cases rule: ring_cases)
  case (some a b c d h t)
  then show ?thesis
    by (elim insertE emptyE) (simp_all add: queue_print_def queue_defs queue_print_loop.simps)
qed (simp add: queue_print_def contents_table)

lemma contents_bound: "length (contents q) \<le> 4"
  by (simp add: contents_def Suc_le_eq)

lemma contents_empty: "contents q = [] \<longleftrightarrow> head q = - 1"
  by (auto simp: contents_def)

subsection \<open>The two loops\<close>

datatype producer_pc =
    Produce | WaitEmpty int | WaitMutexP int | AddP int | PostMutexP | PostFull

datatype consumer_pc =
    WaitFull | WaitMutexC | DeleteC | PostMutexC | PostEmpty

record shm_state =
  shm_q :: queue
  full :: nat
  empty :: nat
  mutex :: nat
  ppc :: producer_pc
  cpc :: consumer_pc
  produced :: "int list"
  consumed :: "int list"

text \<open>\<open>produced\<close> and \<open>consumed\<close> record the numbers the two programs report, in order.\<close>

definition shm_start :: "shm_state \<Rightarrow> bool" where
  "shm_start s \<longleftrightarrow> (\<exists>q. length (arr q) = QUEUE_SIZE \<and> snd (queue_init (Some q)) = Some (shm_q s)) \<and>
     full s = 0 \<and> empty s = QUEUE_SIZE \<and> mutex s = 1 \<and> ppc s = Produce \<and> cpc s = WaitFull \<and>
     produced s = [] \<and> consumed s = []"

inductive shm_step :: "shm_state \<Rightarrow> shm_state \<Rightarrow> bool" where
  produce: "ppc s = Produce \<Longrightarrow> shm_step s (s\<lparr>ppc := WaitEmpty val\<rparr>)"
| wait_empty: "ppc s = WaitEmpty val \<Longrightarrow> 0 < empty s \<Longrightarrow>
    shm_step s (s\<lparr>ppc := WaitMutexP val, empty := empty s - 1\<rparr>)"
| wait_mutex_p: "ppc s = WaitMutexP val \<Longrightarrow> 0 < mutex s \<Longrightarrow>
    shm_step s (s\<lparr>ppc := AddP val, mutex := mutex s - 1\<rparr>)"
| add: "ppc s = AddP val \<Longrightarrow> queue_add (Some (shm_q s)) val = Some (r, Some q) \<Longrightarrow>
    queue_print (Some q) = Some pr \<Longrightarrow>
    shm_step s (s\<lparr>ppc := PostMutexP, shm_q := q, produced := produced s @ [val]\<rparr>)"
| post_mutex_p: "ppc s = PostMutexP \<Longrightarrow> shm_step s (s\<lparr>ppc := PostFull, mutex := mutex s + 1\<rparr>)"
| post_full: "ppc s = PostFull \<Longrightarrow> shm_step s (s\<lparr>ppc := Produce, full := full s + 1\<rparr>)"
| wait_full: "cpc s = WaitFull \<Longrightarrow> 0 < full s \<Longrightarrow> shm_step s (s\<lparr>cpc := WaitMutexC, full := full s - 1\<rparr>)"
| wait_mutex_c: "cpc s = WaitMutexC \<Longrightarrow> 0 < mutex s \<Longrightarrow>
    shm_step s (s\<lparr>cpc := DeleteC, mutex := mutex s - 1\<rparr>)"
| delete: "cpc s = DeleteC \<Longrightarrow> queue_delete (Some (shm_q s)) = Some (r, v, Some q) \<Longrightarrow>
    queue_print (Some q) = Some pr \<Longrightarrow>
    shm_step s (s\<lparr>cpc := PostMutexC, shm_q := q,
      consumed := consumed s @ (case v of None \<Rightarrow> [] | Some x \<Rightarrow> [x])\<rparr>)"
| post_mutex_c: "cpc s = PostMutexC \<Longrightarrow> shm_step s (s\<lparr>cpc := PostEmpty, mutex := mutex s + 1\<rparr>)"
| post_empty: "cpc s = PostEmpty \<Longrightarrow> shm_step s (s\<lparr>cpc := WaitFull, empty := empty s + 1\<rparr>)"

fun p_reserved :: "producer_pc \<Rightarrow> nat" where
  "p_reserved (WaitMutexP _) = 1" | "p_reserved (AddP _) = 1" | "p_reserved _ = 0"

fun p_added :: "producer_pc \<Rightarrow> nat" where
  "p_added PostMutexP = 1" | "p_added PostFull = 1" | "p_added _ = 0"

fun p_inside :: "producer_pc \<Rightarrow> nat" where
  "p_inside (AddP _) = 1" | "p_inside PostMutexP = 1" | "p_inside _ = 0"

fun c_reserved :: "consumer_pc \<Rightarrow> nat" where
  "c_reserved WaitMutexC = 1" | "c_reserved DeleteC = 1" | "c_reserved _ = 0"

fun c_deleted :: "consumer_pc \<Rightarrow> nat" where
  "c_deleted PostMutexC = 1" | "c_deleted PostEmpty = 1" | "c_deleted _ = 0"

fun c_inside :: "consumer_pc \<Rightarrow> nat" where
  "c_inside DeleteC = 1" | "c_inside PostMutexC = 1" | "c_inside _ = 0"

text \<open>
  Every slot of the ring is accounted for: it is counted by \<open>empty\<close> or \<open>full\<close>, or one of the
  processes is between taking it from one semaphore and giving it to the other.
\<close>

definition shm_inv :: "shm_state \<Rightarrow> bool" where
  "shm_inv s \<longleftrightarrow> ring_ok (shm_q s) \<and> produced s = consumed s @ contents (shm_q s) \<and>
     length (contents (shm_q s)) = full s + p_added (ppc s) + c_reserved (cpc s) \<and>
     empty s + p_reserved (ppc s) + length (contents (shm_q s)) + c_deleted (cpc s) = 4 \<and>
     mutex s + p_inside (ppc s) + c_inside (cpc s) = 1"

lemma shm_start_inv:
  assumes "shm_start s"
  shows "shm_inv s"
proof -
  obtain q where "shm_q s = q\<lparr>head := - 1, tail := - 1\<rparr>" "length (arr q) = 4"
    using assms unfolding shm_start_def queue_init_def QUEUE_SIZE_def by (metis option.inject option.simps(5) snd_conv)
  then show ?thesis
    using assms by (auto simp: shm_start_def shm_inv_def ring_ok_def contents_def QUEUE_SIZE_def)
qed

lemma shm_step_inv:
  assumes inv: "shm_inv s" and "shm_step s t"
  shows "shm_inv t"
  using assms(2)
proof cases
  case (add val r q pr)
  then have "length (contents (shm_q s)) < 4" using inv by (auto simp: shm_inv_def)
  then show ?thesis using inv add queue_add_contents [of "shm_q s" val]
    by (auto simp: shm_inv_def)
next
  case (delete r v q pr)
  then have "contents (shm_q s) \<noteq> []" using inv by (auto simp: shm_inv_def)
  then obtain x xs where x: "contents (shm_q s) = x # xs" by (auto simp: neq_Nil_conv)
  then show ?thesis using inv delete queue_delete_contents [of "shm_q s" x xs]
    by (auto simp: shm_inv_def)
qed (use inv in \<open>auto simp: shm_inv_def\<close>)

interpretation shm: inv_system shm_start shm_step shm_inv
  by unfold_locales (fact shm_start_inv, fact shm_step_inv)

text \<open>
  C14: at every moment the numbers the consumer has taken, followed by the contents of the ring, are
  the numbers the producer has added, in order: nothing is lost, repeated or reordered, and
  \<open>queue_print\<close> prints exactly the numbers not consumed yet, at most four.
\<close>

theorem shm_fifo:
  assumes "reach shm_start shm_step s"
  shows "\<exists>rest. produced s = consumed s @ rest \<and> queue_print (Some (shm_q s)) = Some (0, rest) \<and>
    length rest \<le> QUEUE_SIZE"
  using shm.reach_inv [OF assms] contents_bound [of "shm_q s"] queue_print_contents [of "shm_q s"]
  by (auto simp: shm_inv_def QUEUE_SIZE_def)

text \<open>
  C15: the producer never finds the queue full and the consumer never finds it empty, and the two are
  never in their critical sections at the same time.
\<close>

theorem shm_critical_safe:
  assumes "reach shm_start shm_step s"
  shows "(ppc s = AddP val \<longrightarrow> (tail (shm_q s) + 1) smod int QUEUE_SIZE \<noteq> head (shm_q s) \<and> cpc s \<noteq> DeleteC) \<and>
    (cpc s = DeleteC \<longrightarrow> head (shm_q s) \<noteq> - 1)"
proof -
  have inv: "shm_inv s" using shm.reach_inv [OF assms] .
  have "(tail (shm_q s) + 1) smod int QUEUE_SIZE \<noteq> head (shm_q s)" if "ppc s = AddP val"
  proof
    assume full: "(tail (shm_q s) + 1) smod int QUEUE_SIZE = head (shm_q s)"
    have "length (contents (shm_q s)) < 4" using inv that by (auto simp: shm_inv_def)
    moreover have "queue_add (Some (shm_q s)) val = Some (0, Some (shm_q s))"
      using full by (simp add: queue_add_def)
    ultimately show False using inv queue_add_contents [of "shm_q s" val] by (auto simp: shm_inv_def)
  qed
  moreover have "head (shm_q s) \<noteq> - 1" if "cpc s = DeleteC"
    using inv that contents_empty [of "shm_q s"] by (auto simp: shm_inv_def)
  ultimately show ?thesis using inv by (auto simp: shm_inv_def)
qed

text \<open>
  The two processes never block each other: in every reachable state one of them can take a
  step.
\<close>

theorem shm_never_stuck:
  assumes "reach shm_start shm_step s"
  shows "\<exists>t. shm_step s t"
proof -
  have inv: "shm_inv s" using shm.reach_inv [OF assms] .
  then have ok: "ring_ok (shm_q s)" by (simp add: shm_inv_def)
  consider (c) "cpc s \<in> {DeleteC, PostMutexC, PostEmpty}" | (m) "cpc s \<in> {WaitMutexC}" "0 < mutex s"
    | (p) "cpc s \<in> {WaitFull, WaitMutexC}" "cpc s = WaitMutexC \<longrightarrow> mutex s = 0" by (cases "cpc s") auto
  then show ?thesis
  proof cases
    case c
    show ?thesis
    proof (cases "cpc s = DeleteC")
      case True
      then have "contents (shm_q s) \<noteq> []" using inv by (auto simp: shm_inv_def)
      then obtain x xs where "contents (shm_q s) = x # xs" by (auto simp: neq_Nil_conv)
      then obtain q' where "queue_delete (Some (shm_q s)) = Some (0, Some x, Some q')" "ring_ok q'"
        using queue_delete_contents [OF ok] by blast
      then show ?thesis using delete [OF True] queue_print_contents by blast
    qed (use c in \<open>auto intro: shm_step.intros\<close>)
  next
    case m
    then show ?thesis by (auto intro: shm_step.intros)
  next
    case p
    show ?thesis
    proof (cases "ppc s")
      case (AddP val)
      then have "length (contents (shm_q s)) < 4" using inv by (auto simp: shm_inv_def)
      then obtain q' where "queue_add (Some (shm_q s)) val = Some (0, Some q')" "ring_ok q'"
        using queue_add_contents [OF ok] by blast
      then show ?thesis using add [OF AddP] queue_print_contents by blast
    next
      case (WaitEmpty val)
      have "0 < empty s \<or> cpc s = WaitFull \<and> 0 < full s"
        using inv p WaitEmpty by (auto simp: shm_inv_def)
      then show ?thesis using wait_empty [OF WaitEmpty] wait_full [of s] by blast
    next
      case (WaitMutexP val)
      then have "mutex s = 1" using inv p by (auto simp: shm_inv_def)
      then show ?thesis using wait_mutex_p [OF WaitMutexP] by auto
    qed (auto intro: shm_step.intros)
  qed
qed

subsection \<open>Restarting the producer\<close>

text \<open>
  A producer that is interrupted and started again attaches the existing segment and initialises
  the queue in it; \<open>sem_open\<close> without \<open>O_EXCL\<close> keeps the values of the existing semaphores.
\<close>

definition producer_restart :: "shm_state \<Rightarrow> shm_state" where
  "producer_restart s = s\<lparr>ppc := Produce, shm_q := the (snd (queue_init (Some (shm_q s))))\<rparr>"

text \<open>
  After a restart the semaphores no longer agree with the queue: whenever numbers are waiting in the
  ring and both processes are between rounds, restarting the producer discards them, and the consumer
  then enters its critical section with an empty queue.
\<close>

theorem shm_restart_breaks:
  assumes "reach shm_start shm_step s" and "0 < full s" and "cpc s = WaitFull" and "ppc s = Produce"
  shows "\<exists>t. shm_step\<^sup>*\<^sup>* (producer_restart s) t \<and> cpc t = DeleteC \<and> head (shm_q t) = - 1 \<and>
    length (produced t) = length (consumed t) + full s"
proof -
  have inv: "shm_inv s" using shm.reach_inv [OF assms(1)] .
  let ?r = "producer_restart s"
  let ?u = "?r\<lparr>cpc := WaitMutexC, full := full s - 1\<rparr>"
  let ?t = "?u\<lparr>cpc := DeleteC, mutex := mutex s - 1\<rparr>"
  have m: "mutex s = 1" using inv assms(3,4) by (auto simp: shm_inv_def)
  have "shm_step ?r ?u" using wait_full [of ?r] assms(2,3) by (simp add: producer_restart_def)
  moreover have "shm_step ?u ?t" using wait_mutex_c [of ?u] m by (simp add: producer_restart_def)
  ultimately have "shm_step\<^sup>*\<^sup>* ?r ?t" by (meson rtranclp.rtrancl_into_rtrancl rtranclp.rtrancl_refl)
  moreover have "length (produced s) = length (consumed s) + full s"
    using inv assms(3,4) by (auto simp: shm_inv_def)
  ultimately show ?thesis
    by (intro exI [of _ ?t]) (simp add: producer_restart_def queue_init_def)
qed

subsection \<open>Concrete runs\<close>

definition shm_0 :: shm_state where
  "shm_0 = \<lparr>shm_q = \<lparr>arr = [0, 0, 0, 0], head = - 1, tail = - 1\<rparr>, full = 0, empty = 4, mutex = 1,
     ppc = Produce, cpc = WaitFull, produced = [], consumed = []\<rparr>"

definition shm_added :: shm_state where
  "shm_added = shm_0\<lparr>shm_q := \<lparr>arr = [7, 0, 0, 0], head = 0, tail = 0\<rparr>, empty := 3, mutex := 0,
     ppc := PostMutexP, produced := [7]\<rparr>"

lemma shm_0_reach: "reach shm_start shm_step shm_0"
  by (rule reach_init)
    (auto simp: shm_start_def shm_0_def queue_init_def QUEUE_SIZE_def
      intro!: exI [of _ "\<lparr>arr = [0, 0, 0, 0], head = - 1, tail = - 1\<rparr>"])

lemma shm_wait_reach: "reach shm_start shm_step (shm_0\<lparr>ppc := AddP 7, empty := 3, mutex := 0\<rparr>)"
proof -
  have 1: "shm_step shm_0 (shm_0\<lparr>ppc := WaitEmpty 7\<rparr>)" by (rule produce) (simp add: shm_0_def)
  have 2: "shm_step (shm_0\<lparr>ppc := WaitEmpty 7\<rparr>) (shm_0\<lparr>ppc := WaitMutexP 7, empty := 3\<rparr>)"
    using wait_empty [of "shm_0\<lparr>ppc := WaitEmpty 7\<rparr>"] by (simp add: shm_0_def)
  have 3: "shm_step (shm_0\<lparr>ppc := WaitMutexP 7, empty := 3\<rparr>) (shm_0\<lparr>ppc := AddP 7, empty := 3, mutex := 0\<rparr>)"
    using wait_mutex_p [of "shm_0\<lparr>ppc := WaitMutexP 7, empty := 3\<rparr>"] by (simp add: shm_0_def)
  show ?thesis by (rule reach_step [OF reach_step [OF reach_step [OF shm_0_reach 1] 2] 3])
qed

lemma shm_added_reach: "reach shm_start shm_step shm_added"
proof -
  let ?q = "\<lparr>arr = [7, 0, 0, 0], head = 0, tail = 0\<rparr>"
  have "ring_ok ?q" by (simp add: ring_ok_def)
  then have "shm_step (shm_0\<lparr>ppc := AddP 7, empty := 3, mutex := 0\<rparr>) shm_added"
    using add [of "shm_0\<lparr>ppc := AddP 7, empty := 3, mutex := 0\<rparr>" 7 0 ?q] queue_print_contents
    by (simp add: shm_0_def shm_added_def queue_add_def QUEUE_SIZE_def arr_set_def)
  then show ?thesis using shm_wait_reach by (metis reach_step)
qed

lemma shm_ready_reach: "reach shm_start shm_step (shm_added\<lparr>ppc := Produce, mutex := 1, full := 1\<rparr>)"
proof -
  have 1: "shm_step shm_added (shm_added\<lparr>ppc := PostFull, mutex := 1\<rparr>)"
    using post_mutex_p [of shm_added] by (simp add: shm_added_def)
  have 2: "shm_step (shm_added\<lparr>ppc := PostFull, mutex := 1\<rparr>) (shm_added\<lparr>ppc := Produce, mutex := 1, full := 1\<rparr>)"
    using post_full [of "shm_added\<lparr>ppc := PostFull, mutex := 1\<rparr>"] by (simp add: shm_added_def shm_0_def)
  show ?thesis by (rule reach_step [OF reach_step [OF shm_added_reach 1] 2])
qed

theorem shm_fifo_witness:
  "produced shm_added = [7] \<and> queue_print (Some (shm_q shm_added)) = Some (0, [7])"
  using shm_fifo [OF shm_added_reach] by (simp add: shm_added_def shm_0_def)

theorem shm_critical_safe_witness:
  "(tail (shm_q shm_0) + 1) smod int QUEUE_SIZE \<noteq> head (shm_q shm_0)"
  using shm_critical_safe [OF shm_wait_reach, of 7] by simp

theorem shm_never_stuck_witness: "\<exists>t. shm_step shm_added t"
  by (rule shm_never_stuck [OF shm_added_reach])

theorem shm_restart_breaks_witness:
  "\<exists>t. shm_step\<^sup>*\<^sup>* (producer_restart (shm_added\<lparr>ppc := Produce, mutex := 1, full := 1\<rparr>)) t \<and>
    cpc t = DeleteC \<and> head (shm_q t) = - 1 \<and> length (produced t) = length (consumed t) + 1"
  using shm_restart_breaks [OF shm_ready_reach] by (simp add: shm_added_def shm_0_def)

end
