(* ===== verification/Shm_Signals.thy ===== *)
theory Shm_Signals
  imports Shm_Queue
begin

section \<open>Interrupting and restarting the producer and the consumer\<close>

text \<open>
  Models \<open>signal_handler\<close> of \<open>src/src/system/ipc/sharedmemory/shm_producer.c\<close>, which \<open>shm_consumer.c\<close> repeats, and the life of the
  two processes around it: a process may be interrupted at any point of its loop, dies in the handler, and may be started
  again. The segment and the named semaphores outlive the processes.

  The lemmas show that the handler always ends the process, and that a process interrupted inside its critical
  section stops both programs for good, however often they are restarted.
\<close>

subsection \<open>The handler\<close>

text \<open>
  \<open>attached\<close>: the segment is in the address space. \<open>ended_by\<close>: the signal that ended the process, once its disposition is the default
  again and it is raised.
\<close>

record shm_proc = os +
  attached :: bool
  default_signals :: "int set"
  ended_by :: "int option"

definition raise_signal :: "int \<Rightarrow> 'a shm_proc_scheme \<Rightarrow> 'a shm_proc_scheme" where
  "raise_signal signum s = (if signum \<in> default_signals s then s\<lparr>ended_by := Some signum\<rparr> else s)"

definition shm_signal_handler :: "int \<Rightarrow> 'a shm_proc_scheme \<Rightarrow> 'a shm_proc_scheme option" where
  "shm_signal_handler signum s = do {
     (r, s) \<leftarrow> sys_zero s;
     let s = (if r < 0 then s else s\<lparr>attached := False\<rparr>);
     let s = s\<lparr>default_signals := insert signum (default_signals s)\<rparr>;
     Some (raise_signal signum s) }"

text \<open>Whether the segment can be detached or not, the process ends.\<close>

lemma shm_signal_handler_ends:
  assumes "replies s = r # rs" "\<exists>e n. r = Fail e \<or> r = Ok n"
  shows "\<exists>s'. shm_signal_handler signum s = Some s' \<and> ended_by s' = Some signum"
  using assms by (auto simp: shm_signal_handler_def sys_zero_def sys_next_def raise_signal_def)

subsection \<open>The life of the processes\<close>

text \<open>Each step of the two loops is one of the producer or one of the consumer.\<close>

record shm_life = shm_state +
  p_alive :: bool
  c_alive :: bool

definition producer_move :: "shm_state \<Rightarrow> shm_state \<Rightarrow> bool" where
  "producer_move s t \<longleftrightarrow> shm_step s t \<and> cpc t = cpc s"

definition consumer_move :: "shm_state \<Rightarrow> shm_state \<Rightarrow> bool" where
  "consumer_move s t \<longleftrightarrow> shm_step s t \<and> ppc t = ppc s"

text \<open>A consumer that is started again attaches the segment as it is and begins its loop.\<close>

definition consumer_restart :: "shm_state \<Rightarrow> shm_state" where
  "consumer_restart s = s\<lparr>cpc := WaitFull\<rparr>"

definition with_life :: "shm_state \<Rightarrow> bool \<Rightarrow> bool \<Rightarrow> shm_life" where
  "with_life s p c = shm_state.extend s (shm_life.fields p c)"

abbreviation loops :: "shm_life \<Rightarrow> shm_state" where
  "loops \<equiv> shm_state.truncate"

inductive life_step :: "shm_life \<Rightarrow> shm_life \<Rightarrow> bool" where
  p_move: "p_alive s \<Longrightarrow> producer_move (loops s) t \<Longrightarrow> life_step s (with_life t True (c_alive s))"
| c_move: "c_alive s \<Longrightarrow> consumer_move (loops s) t \<Longrightarrow> life_step s (with_life t (p_alive s) True)"
| p_signal: "p_alive s \<Longrightarrow> life_step s (s\<lparr>p_alive := False\<rparr>)"
| c_signal: "c_alive s \<Longrightarrow> life_step s (s\<lparr>c_alive := False\<rparr>)"
| p_restart: "\<not> p_alive s \<Longrightarrow> life_step s (with_life (producer_restart (loops s)) True (c_alive s))"
| c_restart: "\<not> c_alive s \<Longrightarrow> life_step s (with_life (consumer_restart (loops s)) (p_alive s) True)"

inductive_cases life_stepE: "life_step s t"

lemma with_life_sel [simp]:
  "mutex (with_life s p c) = mutex s" "ppc (with_life s p c) = ppc s" "cpc (with_life s p c) = cpc s"
  "produced (with_life s p c) = produced s" "consumed (with_life s p c) = consumed s"
  "p_alive (with_life s p c) = p" "c_alive (with_life s p c) = c" "loops (with_life s p c) = s"
  by (simp_all add: with_life_def shm_state.defs shm_life.defs)

lemma loops_sel [simp]:
  "mutex (loops s) = mutex s" "ppc (loops s) = ppc s" "cpc (loops s) = cpc s"
  "produced (loops s) = produced s" "consumed (loops s) = consumed s" "full (loops s) = full s" "empty (loops s) = empty s"
  by (simp_all add: shm_state.defs)

text \<open>The mutex is taken and no living process is where it would give it back.\<close>

definition mutex_lost :: "int list \<Rightarrow> int list \<Rightarrow> shm_life \<Rightarrow> bool" where
  "mutex_lost ps cs s \<longleftrightarrow> mutex s = 0 \<and> produced s = ps \<and> consumed s = cs \<and>
     (p_alive s \<longrightarrow> p_inside (ppc s) = 0) \<and> (c_alive s \<longrightarrow> c_inside (cpc s) = 0)"

lemma moves_keep_loss:
  assumes "mutex s = 0"
  shows "producer_move s t \<Longrightarrow> p_inside (ppc s) = 0 \<Longrightarrow>
      mutex t = 0 \<and> p_inside (ppc t) = 0 \<and> produced t = produced s \<and> consumed t = consumed s \<and> cpc t = cpc s"
    and "consumer_move s t \<Longrightarrow> c_inside (cpc s) = 0 \<Longrightarrow>
      mutex t = 0 \<and> c_inside (cpc t) = 0 \<and> produced t = produced s \<and> consumed t = consumed s \<and> ppc t = ppc s"
  using assms by (auto simp: producer_move_def consumer_move_def elim!: shm_step.cases)

lemma life_step_keeps_loss: "mutex_lost ps cs s \<Longrightarrow> life_step s t \<Longrightarrow> mutex_lost ps cs t"
  by (auto simp: mutex_lost_def producer_restart_def consumer_restart_def elim!: life_stepE dest: moves_keep_loss [rotated])

interpretation lost: inv_system "mutex_lost ps cs" life_step "mutex_lost ps cs"
  by unfold_locales (simp, fact life_step_keeps_loss)

text \<open>
  C13: when a process is interrupted inside its critical section, the mutex stays taken for ever. Whatever the two processes do
  from then on, and however often they are interrupted and started again, nothing more is produced or consumed and
  neither of them enters its critical section again.
\<close>

theorem shm_killed_inside_blocks:
  assumes "reach shm_start shm_step s"
    and "p_inside (ppc s) = 1 \<and> \<not> p \<and> c \<or> c_inside (cpc s) = 1 \<and> p \<and> \<not> c"
    and "life_step\<^sup>*\<^sup>* (with_life s p c) t"
  shows "mutex t = 0 \<and> produced t = produced s \<and> consumed t = consumed s \<and>
    (p_alive t \<longrightarrow> (\<forall>v. ppc t \<noteq> AddP v)) \<and> (c_alive t \<longrightarrow> cpc t \<noteq> DeleteC)"
proof -
  have inv: "shm_inv s" using shm.reach_inv [OF assms(1)] .
  have "mutex_lost (produced s) (consumed s) (with_life s p c)"
    using inv assms(2) by (auto simp: mutex_lost_def shm_inv_def)
  then have "mutex_lost (produced s) (consumed s) t"
    using lost.star_inv [OF assms(3)] by blast
  then show ?thesis by (auto simp: mutex_lost_def)
qed

text \<open>The producer is interrupted after its first addition, started again, and produces another number.\<close>

theorem shm_killed_inside_blocks_witness:
  "life_step\<^sup>*\<^sup>* (with_life shm_added False True) (with_life (producer_restart shm_added) True True) \<and>
   produced (with_life (producer_restart shm_added) True True) = [7] \<and> mutex (producer_restart shm_added) = 0"
proof -
  have "life_step (with_life shm_added False True) (with_life (producer_restart shm_added) True True)"
    using p_restart [of "with_life shm_added False True"] by simp
  then have r: "life_step\<^sup>*\<^sup>* (with_life shm_added False True) (with_life (producer_restart shm_added) True True)" ..
  then show ?thesis using shm_killed_inside_blocks [OF shm_added_reach _ r] by (simp add: shm_added_def shm_0_def)
qed

end
