(* ===== verification/Dining.thy ===== *)
theory Dining
  imports Tpt_Prelude
begin

section \<open>Dining philosophers\<close>

text \<open>
  Models \<open>src/src/system/diningphilo/dinphilo.c\<close>: \<open>initialize_semaphores\<close>, the creation of the
  threads by \<open>run_all_threads\<close> and the thread function \<open>philosopher\<close>, one step per semaphore
  operation. The number of philosophers is a field of the state (\<open>main\<close> uses 5).

  The lemmas show that neighbours never eat together, that the semaphore \<open>lock\<close>, which lets one
  philosopher less than there are seats reach for the forks, rules out deadlock, and that every
  run ends with all threads finished.
\<close>

datatype phil_pc =
    NotCreated | Thinking | WaitLock | WaitLeft | WaitRight | Eating
  | PostLeft | PostRight | PostLock | ThinkingAgain | Exited

record table =
  count :: nat
  forks :: "nat \<Rightarrow> nat"
  lock :: nat
  next_thread :: nat
  pc :: "nat \<Rightarrow> phil_pc"

subsection \<open>The program\<close>

definition initialize_semaphores :: "nat \<Rightarrow> table" where
  "initialize_semaphores num_forks = \<lparr>count = num_forks,
     forks = (\<lambda>i. if i < num_forks then 1 else 0), lock = num_forks - 1,
     next_thread = 0, pc = (\<lambda>_. NotCreated)\<rparr>"

definition right_fork :: "table \<Rightarrow> nat \<Rightarrow> nat" where
  "right_fork s i = (i + 1) mod count s"

text \<open>The loop of \<open>run_all_threads\<close>: one thread after the other, the earlier ones already running.\<close>

definition create_thread :: "table \<Rightarrow> table" where
  "create_thread s = s\<lparr>pc := (pc s)(next_thread s := Thinking), next_thread := next_thread s + 1\<rparr>"

text \<open>
  The body of \<open>philosopher\<close> for position \<open>i\<close>: the state after its next operation, or \<open>None\<close> while
  it blocks in \<open>sem_wait\<close> (or is not running).
\<close>

fun philosopher :: "nat \<Rightarrow> phil_pc \<Rightarrow> table \<Rightarrow> table option" where
  "philosopher i Thinking s = Some (s\<lparr>pc := (pc s)(i := WaitLock)\<rparr>)"
| "philosopher i WaitLock s =
     (if 0 < lock s then Some (s\<lparr>lock := lock s - 1, pc := (pc s)(i := WaitLeft)\<rparr>) else None)"
| "philosopher i WaitLeft s =
     (if 0 < forks s i
      then Some (s\<lparr>forks := (forks s)(i := forks s i - 1), pc := (pc s)(i := WaitRight)\<rparr>) else None)"
| "philosopher i WaitRight s =
     (let r = right_fork s i in
      if 0 < forks s r
      then Some (s\<lparr>forks := (forks s)(r := forks s r - 1), pc := (pc s)(i := Eating)\<rparr>) else None)"
| "philosopher i Eating s = Some (s\<lparr>pc := (pc s)(i := PostLeft)\<rparr>)"
| "philosopher i PostLeft s =
     Some (s\<lparr>forks := (forks s)(i := forks s i + 1), pc := (pc s)(i := PostRight)\<rparr>)"
| "philosopher i PostRight s =
     (let r = right_fork s i in
      Some (s\<lparr>forks := (forks s)(r := forks s r + 1), pc := (pc s)(i := PostLock)\<rparr>))"
| "philosopher i PostLock s = Some (s\<lparr>lock := lock s + 1, pc := (pc s)(i := ThinkingAgain)\<rparr>)"
| "philosopher i ThinkingAgain s = Some (s\<lparr>pc := (pc s)(i := Exited)\<rparr>)"
| "philosopher i NotCreated s = None"
| "philosopher i Exited s = None"

definition din_start :: "table \<Rightarrow> bool" where
  "din_start s \<longleftrightarrow> (\<exists>n \<ge> 2. s = initialize_semaphores n)"

inductive din_step :: "table \<Rightarrow> table \<Rightarrow> bool" where
  create: "next_thread s < count s \<Longrightarrow> din_step s (create_thread s)"
| run: "i < count s \<Longrightarrow> philosopher i (pc s i) s = Some t \<Longrightarrow> din_step s t"

subsection \<open>The invariant\<close>

definition holds_left :: "phil_pc \<Rightarrow> bool" where
  "holds_left p \<longleftrightarrow> p \<in> {WaitRight, Eating, PostLeft}"

definition holds_right :: "phil_pc \<Rightarrow> bool" where
  "holds_right p \<longleftrightarrow> p \<in> {Eating, PostLeft, PostRight}"

definition past_lock :: "phil_pc \<Rightarrow> bool" where
  "past_lock p \<longleftrightarrow> p \<in> {WaitLeft, WaitRight, Eating, PostLeft, PostRight, PostLock}"

definition inside :: "table \<Rightarrow> nat set" where
  "inside s = {i. i < count s \<and> past_lock (pc s i)}"

text \<open>A fork is on the table, or one of its two neighbours holds it.\<close>

definition din_inv :: "table \<Rightarrow> bool" where
  "din_inv s \<longleftrightarrow> 2 \<le> count s \<and> next_thread s \<le> count s \<and>
     (\<forall>i < count s. pc s i = NotCreated \<longleftrightarrow> next_thread s \<le> i) \<and>
     lock s + card (inside s) = count s - 1 \<and>
     (\<forall>i < count s. forks s (right_fork s i) + of_bool (holds_left (pc s (right_fork s i)))
        + of_bool (holds_right (pc s i)) = 1)"

lemmas pc_defs = holds_left_def holds_right_def past_lock_def

lemma right_fork_less: "0 < count s \<Longrightarrow> right_fork s i < count s"
  by (simp add: right_fork_def)

lemma right_fork_inj:
  assumes "i < count s" "j < count s"
  shows "right_fork s i = right_fork s j \<longleftrightarrow> i = j"
  using assms by (auto simp: right_fork_def mod_Suc split: if_splits)

lemma right_fork_ne: "2 \<le> count s \<Longrightarrow> i < count s \<Longrightarrow> right_fork s i \<noteq> i"
  by (auto simp: right_fork_def mod_Suc split: if_splits)

lemma right_fork_surj:
  assumes "f < count s"
  obtains i where "i < count s" "right_fork s i = f"
proof (cases f)
  case 0
  then show ?thesis using that [of "count s - 1"] assms by (simp add: right_fork_def)
next
  case (Suc k)
  then show ?thesis using that [of k] assms by (simp add: right_fork_def)
qed

lemma right_fork_cong: "count t = count s \<Longrightarrow> right_fork t = right_fork s"
  by (simp add: right_fork_def fun_eq_iff)

lemma din_start_inv: "din_start s \<Longrightarrow> din_inv s"
  by (auto simp: din_start_def din_inv_def initialize_semaphores_def inside_def pc_defs right_fork_def)

lemma finite_inside [simp]: "finite (inside s)"
  by (simp add: inside_def)

text \<open>
  What one operation of a philosopher does: it moves forks and the lock between the semaphores and
  the philosopher, and its program counter forward.
\<close>

fun pc_left :: "phil_pc \<Rightarrow> nat" where
  "pc_left NotCreated = 10" | "pc_left Thinking = 9" | "pc_left WaitLock = 8" | "pc_left WaitLeft = 7"
| "pc_left WaitRight = 6" | "pc_left Eating = 5" | "pc_left PostLeft = 4" | "pc_left PostRight = 3"
| "pc_left PostLock = 2" | "pc_left ThinkingAgain = 1" | "pc_left Exited = 0"

fun next_pc :: "phil_pc \<Rightarrow> phil_pc" where
  "next_pc Thinking = WaitLock" | "next_pc WaitLock = WaitLeft" | "next_pc WaitLeft = WaitRight"
| "next_pc WaitRight = Eating" | "next_pc Eating = PostLeft" | "next_pc PostLeft = PostRight"
| "next_pc PostRight = PostLock" | "next_pc PostLock = ThinkingAgain" | "next_pc ThinkingAgain = Exited"
| "next_pc p = p"

lemma philosopher_effect:
  assumes "philosopher i p s = Some t" and "right_fork s i \<noteq> i"
  shows "pc t = (pc s)(i := next_pc p)" "count t = count s" "next_thread t = next_thread s"
    "pc_left p = Suc (pc_left (next_pc p))" "p \<noteq> NotCreated" "next_pc p \<noteq> NotCreated"
    "lock t + of_bool (past_lock (next_pc p)) = lock s + of_bool (past_lock p)"
    "forks t i + of_bool (holds_left (next_pc p)) = forks s i + of_bool (holds_left p)"
    "forks t (right_fork s i) + of_bool (holds_right (next_pc p)) =
       forks s (right_fork s i) + of_bool (holds_right p)"
    "f \<noteq> i \<Longrightarrow> f \<noteq> right_fork s i \<Longrightarrow> forks t f = forks s f"
  using assms by (cases p; auto simp: pc_defs Let_def split: if_splits)+

lemma card_inside:
  assumes "i < count s" and "pc t = (pc s)(i := p')" and "count t = count s"
  shows "card (inside t) + of_bool (past_lock (pc s i)) = card (inside s) + of_bool (past_lock p')"
proof -
  have "inside t = (if past_lock p' then insert i (inside s) else inside s - {i})"
    using assms by (auto simp: inside_def)
  moreover have "i \<in> inside s \<longleftrightarrow> past_lock (pc s i)" using assms(1) by (simp add: inside_def)
  moreover have "0 < card (inside s)" if "i \<in> inside s" using that by (auto simp: card_gt_0_iff)
  ultimately show ?thesis by (auto simp: card_insert_if)
qed

lemma din_step_inv:
  assumes inv: "din_inv s" and "din_step s t"
  shows "din_inv t"
  using assms(2)
proof cases
  case create
  have "inside t = inside s"
    using inv create by (auto simp: inside_def create_thread_def din_inv_def pc_defs)
  moreover have "holds_left (pc t i) = holds_left (pc s i)" "holds_right (pc t i) = holds_right (pc s i)"
    if "i < count s" for i
    using inv create that by (auto simp: create_thread_def din_inv_def pc_defs)
  moreover have "right_fork t = right_fork s" "forks t = forks s" "lock t = lock s" "count t = count s"
    using create(1) by (auto simp: create_thread_def intro: right_fork_cong)
  moreover have "0 < count s" using inv by (simp add: din_inv_def)
  ultimately show ?thesis using inv create right_fork_less [of s]
    by (auto simp: din_inv_def create_thread_def)
next
  case (run i)
  have ne: "right_fork s i \<noteq> i" using right_fork_ne [of s i] inv run(1) by (simp add: din_inv_def)
  let ?p = "next_pc (pc s i)"
  note e = philosopher_effect [OF run(2) ne]
  have r: "right_fork t = right_fork s" using e(2) by (rule right_fork_cong)
  have "lock t + card (inside t) = lock s + card (inside s)"
    using card_inside [OF run(1) e(1,2)] e(7) by linarith
  moreover have "forks t (right_fork s j) + of_bool (holds_left (pc t (right_fork s j))) + of_bool (holds_right (pc t j)) = 1"
    if j: "j < count s" for j
  proof -
    have old: "forks s (right_fork s j) + of_bool (holds_left (pc s (right_fork s j))) + of_bool (holds_right (pc s j)) = 1"
      using inv j by (simp add: din_inv_def)
    consider "j = i" | "right_fork s j = i" | "j \<noteq> i" "right_fork s j \<noteq> i" by blast
    then show ?thesis
    proof cases
      case 1
      then show ?thesis using old e(1,9) ne by simp
    next
      case 2
      then show ?thesis using old e(1,8) ne by auto
    next
      case 3
      then show ?thesis using old e(1) e(10) [of "right_fork s j"] right_fork_inj [OF j run(1)] by simp
    qed
  qed
  ultimately show ?thesis using inv e(1-3,5,6) r by (auto simp: din_inv_def)
qed

subsection \<open>Progress\<close>

definition all_exited :: "table \<Rightarrow> bool" where
  "all_exited s \<longleftrightarrow> (\<forall>i < count s. pc s i = Exited)"

lemma stuck_pc:
  assumes "\<nexists>t. din_step s t" and "i < count s"
  shows "next_thread s \<ge> count s" "pc s i \<in> {NotCreated, WaitLock, WaitLeft, WaitRight, Exited}"
    "pc s i = WaitLock \<Longrightarrow> lock s = 0" "pc s i = WaitLeft \<Longrightarrow> forks s i = 0"
    "pc s i = WaitRight \<Longrightarrow> forks s (right_fork s i) = 0"
proof -
  show "next_thread s \<ge> count s" using assms(1) create by (metis not_le)
  have none: "philosopher i (pc s i) s = None" using assms run by fastforce
  then show "pc s i \<in> {NotCreated, WaitLock, WaitLeft, WaitRight, Exited}" by (cases "pc s i") (auto simp: Let_def)
  show "pc s i = WaitLock \<Longrightarrow> lock s = 0" using none by (simp split: if_splits)
  show "pc s i = WaitLeft \<Longrightarrow> forks s i = 0" using none by (simp split: if_splits)
  show "pc s i = WaitRight \<Longrightarrow> forks s (right_fork s i) = 0" using none by (simp add: Let_def split: if_splits)
qed

lemma stuck_right:
  assumes inv: "din_inv s" and stuck: "\<nexists>t. din_step s t" and i: "i < count s"
  shows "pc s i \<noteq> WaitLeft" "pc s i = WaitRight \<Longrightarrow> pc s (right_fork s i) = WaitRight"
proof -
  have "0 < count s" using i by simp
  then have r: "right_fork s i < count s" by (rule right_fork_less)
  have sum: "forks s (right_fork s j) + of_bool (holds_left (pc s (right_fork s j))) + of_bool (holds_right (pc s j)) = 1"
    if "j < count s" for j using inv that by (simp add: din_inv_def)
  have no_right: "\<not> holds_right (pc s j)" if "j < count s" for j
    using stuck_pc(2) [OF stuck that] by (auto simp: holds_right_def)
  show "pc s i \<noteq> WaitLeft"
  proof
    assume w: "pc s i = WaitLeft"
    obtain j where j: "j < count s" "right_fork s j = i" using right_fork_surj [OF i] .
    then show False using sum [OF j(1)] no_right [OF j(1)] stuck_pc(4) [OF stuck i w] w by (simp add: holds_left_def)
  qed
  assume w: "pc s i = WaitRight"
  have "holds_left (pc s (right_fork s i))"
    using sum [OF i] no_right [OF i] stuck_pc(5) [OF stuck i w] by (cases "holds_left (pc s (right_fork s i))") auto
  then show "pc s (right_fork s i) = WaitRight"
    using stuck_pc(2) [OF stuck r] by (auto simp: holds_left_def)
qed

lemma all_wait_right:
  assumes inv: "din_inv s" and stuck: "\<nexists>t. din_step s t" and i: "i < count s" "pc s i = WaitRight"
  shows "pc s ((i + k) mod count s) = WaitRight"
proof (induction k)
  case (Suc k)
  have "(i + k) mod count s < count s" using i by simp
  then have "pc s (right_fork s ((i + k) mod count s)) = WaitRight" using stuck_right(2) [OF inv stuck] Suc by blast
  then show ?case by (simp add: right_fork_def mod_Suc_eq)
qed (use i in simp)

lemma stuck_exited:
  assumes inv: "din_inv s" and stuck: "\<nexists>t. din_step s t"
  shows "all_exited s"
proof -
  have n: "2 \<le> count s" and lock: "lock s + card (inside s) = count s - 1" using inv by (auto simp: din_inv_def)
  have none_right: "pc s i \<noteq> WaitRight" if i: "i < count s" for i
  proof
    assume w: "pc s i = WaitRight"
    have "past_lock (pc s j)" if j: "j < count s" for j
    proof -
      have "(i + (j + count s - i)) mod count s = j" using i j by simp
      then have "pc s j = WaitRight" using all_wait_right [OF inv stuck i w, of "j + count s - i"] by simp
      then show ?thesis by (simp add: past_lock_def)
    qed
    then have "inside s = {..<count s}" by (auto simp: inside_def)
    then show False using lock n by simp
  qed
  have "pc s i \<in> {WaitLock, Exited}" if i: "i < count s" for i
  proof -
    have "pc s i \<noteq> NotCreated" using inv stuck_pc(1) [OF stuck i] i by (auto simp: din_inv_def)
    then show ?thesis using stuck_pc(2) [OF stuck i] none_right [OF i] stuck_right(1) [OF inv stuck i] by auto
  qed
  moreover from this have "inside s = {}" by (fastforce simp: inside_def past_lock_def)
  then have "0 < lock s" using lock n by simp
  ultimately show ?thesis using stuck_pc(3) [OF stuck] by (auto simp: all_exited_def)
qed

definition work_left :: "table \<Rightarrow> nat" where
  "work_left s = (\<Sum>i<count s. pc_left (pc s i))"

lemma work_decreases:
  assumes inv: "din_inv s" and "din_step s t"
  shows "work_left t < work_left s"
proof -
  have sum: "(\<Sum>j<n. pc_left ((g(i := p)) j)) < (\<Sum>j<n. pc_left (g j))"
    if "i < n" "pc_left p < pc_left (g i)" for n i :: nat and g p
    using that by (intro sum_strict_mono_ex1) auto
  show ?thesis
    using assms(2)
  proof cases
    case create
    then have "pc s (next_thread s) = NotCreated" using inv by (auto simp: din_inv_def)
    then show ?thesis using create sum [of "next_thread s" "count s" Thinking "pc s"]
      by (simp add: work_left_def create_thread_def)
  next
    case (run i)
    have "right_fork s i \<noteq> i" using right_fork_ne [of s i] inv run(1) by (simp add: din_inv_def)
    note e = philosopher_effect [OF run(2) this]
    then show ?thesis using sum [of i "count s" "next_pc (pc s i)" "pc s"] run(1)
      by (simp add: work_left_def)
  qed
qed

interpretation din: terminating_system din_start din_step din_inv work_left
  by unfold_locales (fact din_start_inv, fact din_step_inv, fact work_decreases)

subsection \<open>What the program guarantees\<close>

text \<open>C16: two neighbours never eat at the same time.\<close>

theorem dining_exclusion:
  assumes "reach din_start din_step s" and "i < count s"
  shows "\<not> (pc s i = Eating \<and> pc s ((i + 1) mod count s) = Eating)"
proof -
  have "din_inv s" using din.reach_inv [OF assms(1)] .
  then have "forks s (right_fork s i) + of_bool (holds_left (pc s (right_fork s i))) + of_bool (holds_right (pc s i)) = 1"
    using assms(2) by (simp add: din_inv_def)
  then show ?thesis by (auto simp: right_fork_def pc_defs)
qed

text \<open>C17: no deadlock: a reachable state in which nobody can move is one in which all threads have finished.\<close>

theorem dining_no_deadlock:
  assumes "reach din_start din_step s" and "\<nexists>t. din_step s t"
  shows "\<forall>i < count s. pc s i = Exited"
  using stuck_exited [OF din.reach_inv [OF assms(1)] assms(2)] by (simp add: all_exited_def)

text \<open>
  C18: every run ends, after at most ten operations for each philosopher, and it can be continued
  from every reachable state to one in which every philosopher has eaten and left.
\<close>

theorem dining_terminates:
  assumes "2 \<le> n" and "reach din_start din_step s" and "count s = n"
  shows "((din_step ^^ k) (initialize_semaphores n) t \<longrightarrow> k \<le> 10 * n) \<and>
    (\<exists>u. din_step\<^sup>*\<^sup>* s u \<and> all_exited u)"
proof
  have "din_start (initialize_semaphores n)" using assms(1) by (auto simp: din_start_def)
  then have "din_inv (initialize_semaphores n)" by (rule din_start_inv)
  moreover have "work_left (initialize_semaphores n) = 10 * n"
    by (simp add: work_left_def initialize_semaphores_def)
  ultimately show "(din_step ^^ k) (initialize_semaphores n) t \<longrightarrow> k \<le> 10 * n"
    using din.steps_bounded by fastforce
  have inv: "din_inv s" using din.reach_inv [OF assms(2)] .
  then obtain u where u: "din_step\<^sup>*\<^sup>* s u" "\<forall>v. \<not> din_step u v" using din.runs_to_end by blast
  then show "\<exists>u. din_step\<^sup>*\<^sup>* s u \<and> all_exited u"
    using stuck_exited [OF din.star_inv [OF u(1) inv]] by blast
qed

text \<open>
  With a single seat the lock starts at 0 and the only philosopher waits for ever: the argument of
  \<open>initialize_semaphores\<close> must be at least 2.
\<close>

lemma one_philosopher_blocks: "lock s = 0 \<Longrightarrow> philosopher i WaitLock s = None"
  by simp

subsection \<open>Concrete runs\<close>

lemma five_reach: "reach din_start din_step (create_thread (initialize_semaphores 5))"
proof -
  have "din_start (initialize_semaphores 5)" unfolding din_start_def by (intro exI [of _ 5]) simp
  moreover have "din_step (initialize_semaphores 5) (create_thread (initialize_semaphores 5))"
    by (rule create) (simp add: initialize_semaphores_def)
  ultimately show ?thesis by (metis reach_init reach_step)
qed

lemma five_count: "count (create_thread (initialize_semaphores 5)) = 5"
  by (simp add: create_thread_def initialize_semaphores_def)

theorem dining_exclusion_witness:
  "\<not> (pc (create_thread (initialize_semaphores 5)) 4 = Eating \<and>
      pc (create_thread (initialize_semaphores 5)) 0 = Eating)"
  using dining_exclusion [OF five_reach, of 4] by (simp add: five_count)

theorem dining_terminates_witness:
  "\<exists>u. din_step\<^sup>*\<^sup>* (create_thread (initialize_semaphores 5)) u \<and> all_exited u"
  using dining_terminates [OF _ five_reach five_count] by simp

theorem dining_no_deadlock_witness:
  "\<exists>u. reach din_start din_step u \<and> (\<forall>i < 5. pc u i = Exited) \<and> count u = 5"
proof -
  let ?s = "create_thread (initialize_semaphores 5)"
  have inv: "din_inv ?s" using din.reach_inv [OF five_reach] .
  obtain u where u: "din_step\<^sup>*\<^sup>* ?s u" "\<forall>v. \<not> din_step u v" using din.runs_to_end [OF inv] by blast
  have "reach din_start din_step u \<and> count u = 5"
    using u(1)
  proof (induction rule: rtranclp_induct)
    case base
    then show ?case using five_reach five_count by blast
  next
    case (step v w)
    then have "din_inv v" using din.reach_inv by blast
    with step(2) have "count w = count v"
      using philosopher_effect(2) right_fork_ne [of v]
      by (auto simp: create_thread_def din_inv_def elim!: din_step.cases)
    then show ?case using step reach_step by metis
  qed
  then show ?thesis using dining_no_deadlock [of u] u(2) by auto
qed

end
