(* ===== verification/Cond_Var.thy ===== *)
theory Cond_Var
  imports Tpt_Prelude
begin

section \<open>A watcher on a condition variable\<close>

text \<open>
  Models \<open>src/src/other/condvar.c\<close>: two threads increment a counter ten times each and signal when
  it reaches 12, a third waits for that and adds 100. A critical section is one step; waking up
  from \<open>pthread_cond_wait\<close> may be spurious. The lemmas show that the watcher never sleeps through
  the signal, that every run ends, and with which values.
\<close>

definition count_limit :: int where
  "count_limit = 12"

definition tcount :: nat where
  "tcount = 10"

datatype watch_pc = Started | Sleeping | Woken | Done

record counter =
  count :: int
  todo :: "nat \<Rightarrow> nat"      \<comment> \<open>increments left for the threads 2 and 3\<close>
  watcher :: watch_pc

definition cv_start :: "counter \<Rightarrow> bool" where
  "cv_start s \<longleftrightarrow> count s = 0 \<and> todo s = (\<lambda>_. 0)(2 := tcount, 3 := tcount) \<and> watcher s = Started"

text \<open>One turn of the loop of \<open>incrementCount\<close>; the signal wakes the watcher if it sleeps.\<close>

definition incrementCount :: "nat \<Rightarrow> counter \<Rightarrow> counter" where
  "incrementCount tid s = (
     let s = s\<lparr>count := count s + 1, todo := (todo s)(tid := todo s tid - 1)\<rparr>
     in if count s = count_limit \<and> watcher s = Sleeping then s\<lparr>watcher := Woken\<rparr> else s)"

text \<open>
  \<open>watchCount\<close> from a point where it holds the mutex to the next where it releases it: the loop
  condition, and after a wakeup the addition before it.
\<close>

definition watchCount :: "counter \<Rightarrow> counter" where
  "watchCount s = (
     let s = (if watcher s = Woken then s\<lparr>count := count s + 100\<rparr> else s)
     in if count s < count_limit then s\<lparr>watcher := Sleeping\<rparr> else s\<lparr>watcher := Done\<rparr>)"

inductive cv_step :: "counter \<Rightarrow> counter \<Rightarrow> bool" where
  increment: "tid \<in> {2, 3} \<Longrightarrow> 0 < todo s tid \<Longrightarrow> cv_step s (incrementCount tid s)"
| watch: "watcher s \<in> {Started, Woken} \<Longrightarrow> cv_step s (watchCount s)"
| spurious: "watcher s = Sleeping \<Longrightarrow> cv_step s (s\<lparr>watcher := Woken\<rparr>)"

subsection \<open>The invariant\<close>

definition remaining :: "counter \<Rightarrow> nat" where
  "remaining s = todo s 2 + todo s 3"

definition cv_inv :: "counter \<Rightarrow> bool" where
  "cv_inv s \<longleftrightarrow> (\<exists>k \<in> {0, 1}. count s + int (remaining s) = 20 + 100 * k \<and>
       (watcher s \<noteq> Done \<longrightarrow> k = 0) \<and> (watcher s = Done \<longrightarrow> count_limit \<le> count s)) \<and>
     (watcher s = Sleeping \<longrightarrow> count s < count_limit) \<and> 0 \<le> count s"

fun watch_rank :: "watch_pc \<Rightarrow> nat" where
  "watch_rank Started = 3" | "watch_rank Sleeping = 2" | "watch_rank Woken = 1" | "watch_rank Done = 0"

definition cv_size :: "counter \<Rightarrow> nat" where
  "cv_size s = remaining s + watch_rank (watcher s)"

lemmas cv_defs = cv_inv_def remaining_def incrementCount_def watchCount_def Let_def count_limit_def

lemma cv_step_inv:
  assumes "cv_inv s" and "cv_step s t"
  shows "cv_inv t \<and> cv_size t < cv_size s"
  using assms(2)
proof cases
  case (increment tid)
  then show ?thesis using assms(1) by (auto simp: cv_defs cv_size_def)
next
  case watch
  then show ?thesis using assms(1) by (auto simp: cv_defs cv_size_def)
next
  case spurious
  then show ?thesis using assms(1) by (auto simp: cv_defs cv_size_def)
qed

lemma cv_start_inv: "cv_start s \<Longrightarrow> cv_inv s"
  by (auto simp: cv_start_def cv_defs tcount_def)

interpretation cv: terminating_system cv_start cv_step cv_inv cv_size
  by unfold_locales (use cv_start_inv cv_step_inv in auto)

text \<open>The states in which nothing is left to do.\<close>

lemma cv_stuck_final:
  assumes "cv_inv t" and "\<forall>u. \<not> cv_step t u"
  shows "remaining t = 0 \<and> watcher t = Done \<and> count t \<in> {20, 120}"
proof -
  have "todo t 2 = 0" "todo t 3 = 0" using assms(2) increment [of _ t] by fastforce+
  moreover have "watcher t = Done" using assms(2) watch [of t] spurious [of t] by (cases "watcher t") auto
  ultimately show ?thesis using assms(1) by (auto simp: cv_inv_def remaining_def)
qed

lemma cv_start_size: "cv_start s \<Longrightarrow> cv_size s = 23"
  by (simp add: cv_start_def cv_size_def remaining_def tcount_def)

text \<open>
  C19: the watcher never misses its signal: in every reachable state in which it sleeps the limit has not been reached and
  increments are still to come. Every run ends: from the start no run has more than 23 steps, whatever the order of the
  threads and the spurious wakeups, and a run that cannot be continued has all threads finished and the counter at 20 or 120.
\<close>

theorem condvar_ends:
  assumes "cv_start s"
  shows "((cv_step ^^ n) s t \<longrightarrow> n \<le> 23) \<and>
    (cv_step\<^sup>*\<^sup>* s t \<longrightarrow> (watcher t = Sleeping \<longrightarrow> count t < count_limit \<and> 0 < remaining t) \<and>
      ((\<forall>u. \<not> cv_step t u) \<longrightarrow> remaining t = 0 \<and> watcher t = Done \<and> count t \<in> {20, 120}))"
proof (intro conjI impI)
  have inv: "cv_inv s" using assms by (rule cv_start_inv)
  show "n \<le> 23" if "(cv_step ^^ n) s t"
    using cv.steps_bounded [OF that inv] cv_start_size [OF assms] by simp
  assume "cv_step\<^sup>*\<^sup>* s t"
  then have t: "cv_inv t" using cv.star_inv inv by blast
  show "remaining t = 0" "watcher t = Done" "count t \<in> {20, 120}" if "\<forall>u. \<not> cv_step t u"
    using cv_stuck_final [OF t that] by auto
  show "count t < count_limit" "0 < remaining t" if "watcher t = Sleeping"
    using t that by (auto simp: cv_inv_def count_limit_def)
qed

text \<open>
  The watcher does not look at the counter again before it adds 100: a spurious wakeup makes it add
  100 to a counter below the limit.
\<close>

lemma condvar_spurious_adds:
  assumes "watcher s = Sleeping" and "count s < count_limit"
  shows "\<exists>t u. cv_step s t \<and> cv_step t u \<and> count u = count s + 100"
proof -
  let ?t = "s\<lparr>watcher := Woken\<rparr>"
  have "cv_step ?t (watchCount ?t)" by (rule watch) simp
  moreover have "count (watchCount ?t) = count s + 100" by (simp add: watchCount_def Let_def)
  ultimately show ?thesis using spurious [OF assms(1)] by blast
qed

definition cv_0 :: counter where
  "cv_0 = \<lparr>count = 0, todo = (\<lambda>_. 0)(2 := tcount, 3 := tcount), watcher = Started\<rparr>"

lemma cv_0_sleeps: "cv_start cv_0" "cv_step cv_0 (cv_0\<lparr>watcher := Sleeping\<rparr>)"
  using watch [of cv_0] by (simp_all add: cv_start_def watchCount_def cv_0_def count_limit_def)

theorem condvar_ends_witness:
  "cv_step\<^sup>*\<^sup>* cv_0 (cv_0\<lparr>watcher := Sleeping\<rparr>) \<and> (cv_step ^^ 1) cv_0 (cv_0\<lparr>watcher := Sleeping\<rparr>) \<and>
   0 < remaining (cv_0\<lparr>watcher := Sleeping\<rparr>) \<and> (1 :: nat) \<le> 23"
  using condvar_ends [OF cv_0_sleeps(1), of 1 "cv_0\<lparr>watcher := Sleeping\<rparr>"] cv_0_sleeps(2) by auto

end
