(* ===== verification/Sproxy_Net.thy ===== *)
theory Sproxy_Net
  imports Posix
begin

unbundle bit_operations_syntax

section \<open>Sockets of the splicing proxy\<close>

text \<open>
  Models \<open>src/src/networking/splice/sp_trans_proxy/src/sproxy_net.c\<close> (\<open>sp_exp\<close> has the same file
  less one function). A buffer argument is the bytes it points to (\<open>None\<close> is \<open>NULL\<close>) and its
  length; reading beyond the bytes is undefined behaviour and gives \<open>None\<close>. A pointer through
  which a function returns a socket is the value stored there.

  The lemmas show that the send loops hand over exactly the buffer, in order, or a prefix of it
  when they fail, and which descriptors the connecting functions leave open.
\<close>

definition set_socket_non_blocking :: "int \<Rightarrow> 'a os_scheme \<Rightarrow> (int \<times> 'a os_scheme) option" where
  "set_socket_non_blocking sock s = do {
     (socket_flags, s) \<leftarrow> sys_getfl sock s;
     if socket_flags < 0 then Some (- 1, s)
     else do {
       (ret, s) \<leftarrow> sys_setfl sock (word_of_int socket_flags OR O_NONBLOCK) s;
       if ret < 0 then Some (- 1, s) else Some (0, s) } }"

text \<open>
  \<open>server_socket < 0\<close> in the source compares the pointer, not the descriptor, and is never true.
\<close>

definition tcp_bind_and_listen ::
    "string option \<Rightarrow> int \<Rightarrow> int option \<Rightarrow> 'a os_scheme \<Rightarrow> (int \<times> int option \<times> 'a os_scheme) option" where
  "tcp_bind_and_listen bind_ip bind_port server_socket s =
     (if bind_ip = NULL \<or> server_socket = NULL \<or> bind_port < 0 \<or> bind_port > 65535
      then Some (- 1, server_socket, s)
      else do {
        (fd, s) \<leftarrow> sys_newfd s;
        (_, s) \<leftarrow> sys_fdcall fd s;
        (a, s) \<leftarrow> sys_aton s;
        if a = 0 then Some (- 1, Some fd, s)
        else do {
          (ret, s) \<leftarrow> sys_fdcall fd s;
          if ret < 0 then Some (- 1, Some fd, s)
          else do {
            (ret, s) \<leftarrow> sys_fdcall fd s;
            if ret < 0 then Some (- 1, Some fd, s) else Some (0, Some fd, s) } } })"

text \<open>
  The test \<open>socket == NULL\<close> looks at the library function \<open>socket\<close>, which is never null; the
  pointer \<open>local_socket\<close> is not tested, and storing through a null one is undefined.
\<close>

definition tcp_connect_to_server ::
    "string option \<Rightarrow> int \<Rightarrow> int option \<Rightarrow> 'a os_scheme \<Rightarrow> (int \<times> int option \<times> 'a os_scheme) option" where
  "tcp_connect_to_server server_ip server_port local_socket s =
     (if server_ip = NULL \<or> server_port < 0 \<or> server_port > 65535 then Some (- 1, local_socket, s)
      else do {
        (sock, s) \<leftarrow> sys_newfd s;
        if sock < 0 then Some (- 1, local_socket, s)
        else do {
          (a, s) \<leftarrow> sys_aton s;
          if a = 0 then Some (- 1, local_socket, s)
          else do {
            (ret, s) \<leftarrow> sys_fdcall sock s;
            if ret < 0 then Some (- 1, local_socket, s)
            else case local_socket of NULL \<Rightarrow> None | Some _ \<Rightarrow> Some (0, Some sock, s) } } })"

definition tcp_transparent_connect_to_server ::
    "string option \<Rightarrow> int \<Rightarrow> int option \<Rightarrow> string option \<Rightarrow> int \<Rightarrow> 'a os_scheme \<Rightarrow>
     (int \<times> int option \<times> 'a os_scheme) option" where
  "tcp_transparent_connect_to_server server_ip server_port local_socket client_ip client_port s =
     (if server_ip = NULL \<or> server_port < 0 \<or> server_port > 65535 then Some (- 1, local_socket, s)
      else do {
        (sock, s) \<leftarrow> sys_newfd s;
        if sock < 0 then Some (- 1, local_socket, s)
        else do {
          (_, s) \<leftarrow> sys_fdcall sock s;
          (ret, s) \<leftarrow> sys_fdcall sock s;
          if ret < 0 then Some (- 1, local_socket, s)
          else if client_ip = NULL then None
          else do {
            (a, s) \<leftarrow> sys_aton s;
            if a = 0 then Some (- 1, local_socket, s)
            else do {
              (ret, s) \<leftarrow> sys_fdcall sock s;
              if ret < 0 then Some (- 1, local_socket, s)
              else do {
                (a, s) \<leftarrow> sys_aton s;
                if a = 0 then Some (- 1, local_socket, s)
                else do {
                  (ret, s) \<leftarrow> sys_fdcall sock s;
                  if ret < 0 then Some (- 1, local_socket, s)
                  else case local_socket of NULL \<Rightarrow> None | Some _ \<Rightarrow> Some (0, Some sock, s) } } } } } })"

subsection \<open>Sending and receiving\<close>

function tcp_send_data_loop :: "int \<Rightarrow> u8 list \<Rightarrow> nat \<Rightarrow> 'a os_scheme \<Rightarrow> (int \<times> 'a os_scheme) option" where
  "tcp_send_data_loop sock buf bytes_sent s =
     (if bytes_sent < length buf then do {
        (ret, s') \<leftarrow> sys_send sock (drop bytes_sent buf) s;
        if ret < 0 then
          (if os_errno s' = EINTR then tcp_send_data_loop sock buf bytes_sent s' else Some (- 1, s'))
        else tcp_send_data_loop sock buf (bytes_sent + nat ret) s' }
      else Some (int bytes_sent, s))"
  by pat_completeness auto
termination
  by (relation "measure (\<lambda>(sock, buf, n, s). fuel s)") (auto dest: sys_fuel)

definition tcp_send_data ::
    "int \<Rightarrow> u8 list option \<Rightarrow> int \<Rightarrow> 'a os_scheme \<Rightarrow> (int \<times> 'a os_scheme) option" where
  "tcp_send_data socket buf buf_len s =
     (case buf of NULL \<Rightarrow> Some (- 1, s)
      | Some b \<Rightarrow>
          if buf_len < 0 \<or> socket < 0 then Some (- 1, s)
          else if nat buf_len > length b then None
          else tcp_send_data_loop socket (take (nat buf_len) b) 0 s)"

function send_with_poll_loop :: "int \<Rightarrow> u8 list \<Rightarrow> nat \<Rightarrow> 'a os_scheme \<Rightarrow> (int \<times> 'a os_scheme) option" where
  "send_with_poll_loop sock buf bytes_sent s =
     (if bytes_sent < length buf then do {
        (ret, revents, s') \<leftarrow> sys_poll 1 s;
        if ret < 0 then
          (if os_errno s' = EINTR then send_with_poll_loop sock buf bytes_sent s' else Some (- 1, s'))
        else if ret = 0 then Some (- 1, s')
        else if POLLOUT \<in> set (concat revents) then do {
          (ret, s'') \<leftarrow> sys_send sock (drop bytes_sent buf) s';
          if ret < 0 then
            (if os_errno s'' = EINTR then send_with_poll_loop sock buf bytes_sent s'' else Some (- 1, s''))
          else send_with_poll_loop sock buf (bytes_sent + nat ret) s'' }
        else send_with_poll_loop sock buf bytes_sent s' }
      else Some (int bytes_sent, s))"
  by pat_completeness auto
termination
  by (relation "measure (\<lambda>(sock, buf, n, s). fuel s)") (auto dest!: sys_fuel)

definition tcp_send_data_with_poll ::
    "int \<Rightarrow> u8 list \<Rightarrow> int \<Rightarrow> 'a os_scheme \<Rightarrow> (int \<times> 'a os_scheme) option" where
  "tcp_send_data_with_poll socket buf buf_len s =
     (if nat buf_len > length buf then None else send_with_poll_loop socket (take (nat buf_len) buf) 0 s)"

function tcp_receive_loop :: "int \<Rightarrow> nat \<Rightarrow> 'a os_scheme \<Rightarrow> (int \<times> u8 list \<times> 'a os_scheme) option" where
  "tcp_receive_loop sock buf_len s = do {
     (ret, revents, s') \<leftarrow> sys_poll 1 s;
     if ret < 0 then
       (if os_errno s' = EINTR then tcp_receive_loop sock buf_len s' else Some (- 1, [], s'))
     else if ret = 0 then Some (- 1, [], s')
     else if POLLIN \<in> set (concat revents) \<or> POLLPRI \<in> set (concat revents) then do {
       (ret, data, s'') \<leftarrow> sys_recv sock buf_len s';
       if ret < 0 then
         (if os_errno s'' = EINTR then tcp_receive_loop sock buf_len s'' else Some (- 1, [], s''))
       else if ret = 0 then Some (0, [], s'')
       else Some (ret, data, s'') }
     else tcp_receive_loop sock buf_len s' }"
  by pat_completeness auto
termination
  by (relation "measure (\<lambda>(sock, n, s). fuel s)") (auto dest!: sys_fuel)

text \<open>The second result is what is written to the start of the buffer.\<close>

definition tcp_receive_data_with_poll ::
    "int \<Rightarrow> u8 list option \<Rightarrow> int \<Rightarrow> 'a os_scheme \<Rightarrow> (int \<times> u8 list \<times> 'a os_scheme) option" where
  "tcp_receive_data_with_poll socket buf buf_len s =
     (case buf of NULL \<Rightarrow> Some (- 1, [], s)
      | Some b \<Rightarrow>
          if buf_len \<le> 0 then Some (- 1, [], s)
          else if nat buf_len > length b then None
          else tcp_receive_loop socket (nat buf_len) s)"

declare tcp_send_data_loop.simps [simp del] send_with_poll_loop.simps [simp del]
  tcp_receive_loop.simps [simp del]

subsection \<open>What the send loops do\<close>

text \<open>\<open>sends sock d s s'\<close>: between the states nothing happened but sending \<open>d\<close> on \<open>sock\<close>.\<close>

definition sends :: "int \<Rightarrow> u8 list \<Rightarrow> 'a os_scheme \<Rightarrow> 'a os_scheme \<Rightarrow> bool" where
  "sends sock d s s' \<longleftrightarrow> s' = s\<lparr>replies := replies s', os_errno := os_errno s',
     sent := (sent s)(sock := sent s sock @ d)\<rparr>"

lemma sends_refl: "sends sock [] s s"
  by (cases s) (simp add: sends_def)

lemma sends_trans: "sends sock d s t \<Longrightarrow> sends sock e t u \<Longrightarrow> sends sock (d @ e) s u"
  by (cases s; cases t; cases u) (simp add: sends_def)

lemma sends_send: "sys_send sock buf s = Some (i, s') \<Longrightarrow> sends sock (take (nat i) buf) s s'"
  by (auto simp: sends_def elim!: sys_sendE)

lemma sends_send_bound: "sys_send sock buf s = Some (i, s') \<Longrightarrow> 0 \<le> i \<Longrightarrow> nat i \<le> length buf"
  by (auto elim!: sys_sendE)

lemma sends_poll: "sys_poll n s = Some (i, revs, s') \<Longrightarrow> sends sock [] s s'"
  by (auto simp: sends_def elim!: sys_pollE)

lemma sends_fields:
  assumes "sends sock d s s'"
  shows "fds s' = fds s" "fdflags s' = fdflags s" "rcvd s' = rcvd s" "closed s' = closed s"
    "sent s' = (sent s)(sock := sent s sock @ d)" "os.more s' = os.more s"
  using assms by (cases s; cases s'; simp add: sends_def)+

text \<open>The common shape of the result of both loops.\<close>

definition send_result :: "int \<Rightarrow> u8 list \<Rightarrow> nat \<Rightarrow> 'a os_scheme \<Rightarrow> int \<Rightarrow> 'a os_scheme \<Rightarrow> bool" where
  "send_result sock buf n s r s' \<longleftrightarrow>
     r = int (length buf) \<and> sends sock (drop n buf) s s' \<or>
     r = - 1 \<and> (\<exists>k. n + k < length buf \<and> sends sock (take k (drop n buf)) s s')"

lemma send_result_step:
  assumes "send_result sock buf (n + k) t r s'" and "sends sock (take k (drop n buf)) s t"
    and "n + k \<le> length buf"
  shows "send_result sock buf n s r s'"
proof -
  have split: "drop n buf = take k (drop n buf) @ drop (n + k) buf"
    by (metis append_take_drop_id drop_drop add.commute)
  consider "r = int (length buf)" "sends sock (drop (n + k) buf) t s'"
    | j where "r = - 1" "n + k + j < length buf" "sends sock (take j (drop (n + k) buf)) t s'"
    using assms(1) by (auto simp: send_result_def)
  then show ?thesis
  proof cases
    case 1
    then show ?thesis using sends_trans [OF assms(2) 1(2)] split by (simp add: send_result_def)
  next
    case (2 j)
    have "take (k + j) (drop n buf) = take k (drop n buf) @ take j (drop (n + k) buf)"
      unfolding take_add drop_drop by (subst add.commute) (rule refl)
    then have "sends sock (take (k + j) (drop n buf)) s s'" using sends_trans [OF assms(2) 2(3)] by simp
    then show ?thesis using 2(1,2) unfolding send_result_def
      by (intro disjI2 conjI exI [of _ "k + j"]) simp_all
  qed
qed

lemma send_result_again:
  "send_result sock buf n t r s' \<Longrightarrow> sends sock [] s t \<Longrightarrow> n \<le> length buf \<Longrightarrow> send_result sock buf n s r s'"
  using send_result_step [of sock buf n 0 t r s' s] by simp

lemma send_result_fail: "sends sock [] s s' \<Longrightarrow> n < length buf \<Longrightarrow> send_result sock buf n s (- 1) s'"
  by (auto simp: send_result_def intro!: exI [of _ 0])

lemma send_loop_result:
  "tcp_send_data_loop sock buf n s = Some (r, s') \<Longrightarrow> n \<le> length buf \<Longrightarrow> send_result sock buf n s r s'"
proof (induction sock buf n s arbitrary: r s' rule: tcp_send_data_loop.induct)
  case (1 sock buf n s)
  show ?case
  proof (cases "n < length buf")
    case False
    then show ?thesis using 1(3,4)
      by (subst (asm) tcp_send_data_loop.simps) (auto simp: send_result_def sends_refl)
  next
    case True
    then obtain i t where i: "sys_send sock (drop n buf) s = Some (i, t)"
      and rest: "(if i < 0 then (if os_errno t = EINTR then tcp_send_data_loop sock buf n t else Some (- 1, t))
        else tcp_send_data_loop sock buf (n + nat i) t) = Some (r, s')"
      using 1(3) by (subst (asm) tcp_send_data_loop.simps) (auto elim!: bind_SomeE)
    show ?thesis
    proof (cases "i < 0")
      case neg: True
      then have "sends sock [] s t" using sends_send [OF i] by simp
      then show ?thesis using rest neg 1(1) [OF True i refl neg] 1(4) True
        by (auto split: if_splits intro: send_result_again send_result_fail)
    next
      case pos: False
      then have "n + nat i \<le> length buf" using sends_send_bound [OF i] True by auto
      then show ?thesis
        using send_result_step [OF 1(2) [OF True i refl pos] sends_send [OF i]] rest pos by auto
    qed
  qed
qed

lemma poll_loop_result:
  "send_with_poll_loop sock buf n s = Some (r, s') \<Longrightarrow> n \<le> length buf \<Longrightarrow> send_result sock buf n s r s'"
proof (induction sock buf n s arbitrary: r s' rule: send_with_poll_loop.induct)
  case (1 sock buf n s)
  show ?case
  proof (cases "n < length buf")
    case False
    then show ?thesis using 1(5,6)
      by (subst (asm) send_with_poll_loop.simps) (auto simp: send_result_def sends_refl)
  next
    case True
    then obtain i revs t where i: "sys_poll 1 s = Some (i, revs, t)"
      and rest: "(if i < 0 then
          (if os_errno t = EINTR then send_with_poll_loop sock buf n t else Some (- 1, t))
        else if i = 0 then Some (- 1, t)
        else if POLLOUT \<in> set (concat revs) then do {
          (ret, s'') \<leftarrow> sys_send sock (drop n buf) t;
          if ret < 0 then
            (if os_errno s'' = EINTR then send_with_poll_loop sock buf n s'' else Some (- 1, s''))
          else send_with_poll_loop sock buf (n + nat ret) s'' }
        else send_with_poll_loop sock buf n t) = Some (r, s')"
      using 1(5) by (subst (asm) send_with_poll_loop.simps) (auto elim!: bind_SomeE)
    have q: "sends sock [] s t" using sends_poll [OF i] .
    consider (neg) "i < 0" | (zero) "i = 0" | (other) "0 < i" "POLLOUT \<notin> set (concat revs)"
      | (out) "0 < i" "POLLOUT \<in> set (concat revs)" by linarith
    then show ?thesis
    proof cases
      case neg
      then show ?thesis using rest 1(1) [OF True i refl refl neg] 1(6) True q
        by (auto split: if_splits intro: send_result_again send_result_fail)
    next
      case zero
      then show ?thesis using rest True q by (auto intro: send_result_fail)
    next
      case other
      then show ?thesis using rest 1(4) [OF True i refl refl] 1(6) q by (auto intro: send_result_again)
    next
      case out
      then obtain j u where j: "sys_send sock (drop n buf) t = Some (j, u)"
        and rest2: "(if j < 0 then (if os_errno u = EINTR then send_with_poll_loop sock buf n u else Some (- 1, u))
          else send_with_poll_loop sock buf (n + nat j) u) = Some (r, s')"
        using rest by (auto elim!: bind_SomeE)
      have nn: "\<not> i < 0" "i \<noteq> 0" using out by auto
      have "send_result sock buf n t r s'"
      proof (cases "j < 0")
        case neg: True
        then have "sends sock [] t u" using sends_send [OF j] by simp
        then show ?thesis using rest2 neg 1(2) [OF True i refl refl nn out(2) j refl neg] 1(6) True
          by (auto split: if_splits intro: send_result_again send_result_fail)
      next
        case pos: False
        then have "n + nat j \<le> length buf" using sends_send_bound [OF j] True by auto
        then show ?thesis
          using send_result_step [OF 1(3) [OF True i refl refl nn out(2) j refl pos] sends_send [OF j]] rest2 pos by auto
      qed
      then show ?thesis using q 1(6) by (rule send_result_again)
    qed
  qed
qed

text \<open>
  Answers of the kernel under which a send loop with \<open>n\<close> bytes to go finishes: each call is interrupted
  or takes at least one byte.
\<close>

fun drains :: "nat \<Rightarrow> reply list \<Rightarrow> bool" where
  "drains 0 rs = True"
| "drains n (Fail e # rs) = (e = EINTR \<and> drains n rs)"
| "drains n (Ok k # rs) = (0 < k \<and> k \<le> n \<and> drains (n - k) rs)"
| "drains n rs = False"

lemma send_loop_completes:
  "drains (length buf - n) (replies s) \<Longrightarrow> n \<le> length buf \<Longrightarrow>
   \<exists>s'. tcp_send_data_loop sock buf n s = Some (int (length buf), s')"
proof (induction "replies s" arbitrary: n s)
  case Nil
  then have "n = length buf" by (cases "length buf - n") auto
  then show ?case by (subst tcp_send_data_loop.simps) simp
next
  case (Cons r rs)
  show ?case
  proof (cases "length buf - n")
    case 0
    then have "n = length buf" using Cons.prems(2) by simp
    then show ?thesis by (subst tcp_send_data_loop.simps) simp
  next
    case (Suc m)
    then have lt: "n < length buf" by simp
    show ?thesis
    proof (cases r)
      case (Fail e)
      let ?s = "s\<lparr>replies := rs, os_errno := e\<rparr>"
      have e: "e = EINTR" "drains (length buf - n) (replies ?s)"
        using Cons.prems(1) Cons.hyps(2) Fail Suc by (simp_all flip: Cons.hyps(2))
      have "sys_send sock (drop n buf) s = Some (- 1, ?s)"
        using Fail by (simp add: sys_send_def sys_next_def flip: Cons.hyps(2))
      then show ?thesis using Cons.hyps(1) [of ?s n] e lt by (subst tcp_send_data_loop.simps) simp
    next
      case (Ok k)
      let ?s = "s\<lparr>replies := rs, sent := (sent s)(sock := sent s sock @ take k (drop n buf))\<rparr>"
      have k: "0 < k" "k \<le> length buf - n" "drains (length buf - n - k) (replies ?s)"
        using Cons.prems(1) Ok Suc by (auto simp flip: Cons.hyps(2))
      have "sys_send sock (drop n buf) s = Some (int k, ?s)"
        using Ok k(2) by (simp add: sys_send_def sys_next_def flip: Cons.hyps(2))
      then show ?thesis using Cons.hyps(1) [of ?s "n + k"] k lt by (subst tcp_send_data_loop.simps) simp
    qed (use Cons.prems(1) Suc in \<open>simp_all flip: Cons.hyps(2)\<close>)
  qed
qed

text \<open>
  C21: \<open>tcp_send_data\<close> returns the number of bytes asked for after handing exactly these bytes, in order,
  to the kernel, or -1 after handing over a proper prefix; it does nothing else. When each call of
  \<open>send\<close> is interrupted or takes at least one byte, it returns with everything sent.
\<close>

theorem send_data_exact:
  assumes "0 \<le> socket" and "n \<le> length b"
  shows "(\<forall>r s'. tcp_send_data socket (Some b) (int n) s = Some (r, s') \<longrightarrow>
      keeps_io (s\<lparr>sent := sent s'\<rparr>) s' \<and>
      (r = int n \<and> sent s' = (sent s)(socket := sent s socket @ take n b) \<or>
       r = - 1 \<and> (\<exists>k<n. sent s' = (sent s)(socket := sent s socket @ take k b)))) \<and>
    (drains n (replies s) \<longrightarrow> (\<exists>s'. tcp_send_data socket (Some b) (int n) s = Some (int n, s')))"
proof (intro conjI allI impI)
  fix r s'
  assume "tcp_send_data socket (Some b) (int n) s = Some (r, s')"
  then have "tcp_send_data_loop socket (take n b) 0 s = Some (r, s')"
    using assms by (simp add: tcp_send_data_def)
  then have res: "send_result socket (take n b) 0 s r s'" by (rule send_loop_result) simp
  then obtain d where "sends socket d s s'" by (auto simp: send_result_def)
  then show "keeps_io (s\<lparr>sent := sent s'\<rparr>) s'" by (simp add: keeps_io_def sends_fields)
  have "length (take n b) = n" using assms(2) by simp
  then show "r = int n \<and> sent s' = (sent s)(socket := sent s socket @ take n b) \<or>
       r = - 1 \<and> (\<exists>k<n. sent s' = (sent s)(socket := sent s socket @ take k b))"
    using res by (auto simp: send_result_def dest!: sends_fields(5))
next
  assume "drains n (replies s)"
  then show "\<exists>s'. tcp_send_data socket (Some b) (int n) s = Some (int n, s')"
    using send_loop_completes [of "take n b" 0 s socket] assms by (simp add: tcp_send_data_def min_absorb2)
qed

lemma send_with_poll_result:
  assumes "tcp_send_data_with_poll sock buf (int n) s = Some (r, s')" and "n \<le> length buf"
  shows "send_result sock (take n buf) 0 s r s'"
  using assms poll_loop_result [of sock "take n buf" 0 s] by (simp add: tcp_send_data_with_poll_def)

subsection \<open>Receiving\<close>

lemma receive_loop_result:
  "tcp_receive_loop sock n s = Some (r, d, s') \<Longrightarrow>
   length d \<le> n \<and> (r = int (length d) \<or> r = - 1 \<and> d = []) \<and> fds s' = fds s \<and> sent s' = sent s \<and>
   rcvd s' = (rcvd s)(sock := rcvd s sock @ d)"
proof (induction sock n s arbitrary: r d s' rule: tcp_receive_loop.induct)
  case (1 sock n s)
  from 1(4) obtain i revs t where i: "sys_poll 1 s = Some (i, revs, t)"
      and rest: "(if i < 0 then (if os_errno t = EINTR then tcp_receive_loop sock n t else Some (- 1, [], t))
        else if i = 0 then Some (- 1, [], t)
        else if POLLIN \<in> set (concat revs) \<or> POLLPRI \<in> set (concat revs) then do {
          (ret, data, s'') \<leftarrow> sys_recv sock n t;
          if ret < 0 then (if os_errno s'' = EINTR then tcp_receive_loop sock n s'' else Some (- 1, [], s''))
          else if ret = 0 then Some (0, [], s'')
          else Some (ret, data, s'') }
        else tcp_receive_loop sock n t) = Some (r, d, s')"
    by (subst (asm) tcp_receive_loop.simps) (auto elim!: bind_SomeE)
  have q: "fds t = fds s" "sent t = sent s" "rcvd t = rcvd s" using i by (auto elim!: sys_pollE)
  consider (neg) "i < 0" | (zero) "i = 0" | (other) "0 < i" "\<not> (POLLIN \<in> set (concat revs) \<or> POLLPRI \<in> set (concat revs))"
    | (inn) "0 < i" "POLLIN \<in> set (concat revs) \<or> POLLPRI \<in> set (concat revs)" by linarith
  then show ?case
  proof cases
    case neg
    then show ?thesis using rest 1(1) [OF i refl refl neg] q by (auto split: if_splits)
  next
    case zero
    then show ?thesis using rest q by auto
  next
    case other
    then show ?thesis using rest 1(3) [OF i refl refl] q by auto
  next
    case inn
    then obtain j data u where j: "sys_recv sock n t = Some (j, data, u)"
      and rest2: "(if j < 0 then (if os_errno u = EINTR then tcp_receive_loop sock n u else Some (- 1, [], u))
          else if j = 0 then Some (0, [], u) else Some (j, data, u)) = Some (r, d, s')"
      using rest by (auto elim!: bind_SomeE)
    have nn: "\<not> i < 0" "i \<noteq> 0" using inn by auto
    show ?thesis
    proof (cases "j < 0")
      case neg: True
      have u: "fds u = fds t" "sent u = sent t" "rcvd u = rcvd t" using j neg by (auto elim!: sys_recvE)
      show ?thesis
      proof (cases "os_errno u = EINTR")
        case True
        then have "tcp_receive_loop sock n u = Some (r, d, s')" using rest2 neg by simp
        from 1(2) [OF i refl refl nn inn(2) j refl refl neg True this] show ?thesis using u q by simp
      next
        case False
        then show ?thesis using rest2 neg u q by simp
      qed
    next
      case False
      have u: "j = int (length data)" "length data \<le> n" "fds u = fds t" "sent u = sent t"
        "rcvd u = (rcvd t)(sock := rcvd t sock @ data)"
        using j False by (auto elim!: sys_recvE)
      have "r = j" "d = data" "s' = u" using rest2 False u(1) by (auto split: if_splits)
      then show ?thesis using u q by simp
    qed
  qed
qed

subsection \<open>Descriptors\<close>

text \<open>
  A connecting function that fails after \<open>socket\<close> succeeded leaves the new descriptor open, and its
  caller cannot close it, since it is not stored; on success the new descriptor is stored.
\<close>

theorem connect_failure_leaks:
  assumes "tcp_transparent_connect_to_server (Some ip) port (Some old) (Some cip) cport s = Some (r, l, s')"
    and "0 \<le> port" "port \<le> 65535" and "replies s = Ok n # rs" and "int n \<notin> fds s"
  shows "fds s' = insert (int n) (fds s) \<and> closed s' = closed s \<and>
    (r = 0 \<and> l = Some (int n) \<or> r = - 1 \<and> l = Some old)"
proof -
  have sock: "sys_newfd s = Some (int n, s\<lparr>replies := rs, fds := insert (int n) (fds s)\<rparr>)"
    using assms(4,5) by (simp add: sys_newfd_def sys_next_def)
  show ?thesis
    using assms(1-3) unfolding tcp_transparent_connect_to_server_def sock
    by (auto elim!: bind_SomeE sys_fdcallE sys_atonE split: if_splits)
qed

lemma bind_and_listen_ok:
  assumes "tcp_bind_and_listen ip port (Some old) s = Some (0, l, s')"
  shows "\<exists>fd \<ge> 0. l = Some fd \<and> fd \<notin> fds s \<and> fds s' = insert fd (fds s)"
  using assms unfolding tcp_bind_and_listen_def
  by (auto elim!: bind_SomeE sys_newfdE sys_fdcallE sys_atonE split: if_splits)

theorem send_data_exact_witness:
  "tcp_send_data 5 (Some [1, 2, 3]) (int 3) (boot [Ok 2, Fail EINTR, Ok 1]) \<noteq> None \<and>
   drains 3 [Ok 2, Fail EINTR, Ok 1]"
  using send_data_exact [of 5 3 "[1, 2, 3]" "boot [Ok 2, Fail EINTR, Ok 1]"]
  by (auto simp: boot_def numeral_eq_Suc)

theorem connect_failure_leaks_witness:
  "\<exists>r l s'. tcp_transparent_connect_to_server (Some ''10.0.0.1'') 80 (Some 0) (Some ''10.0.0.2'') 7
      (boot [Ok 4, Ok 0, Fail ENOMEM]) = Some (r, l, s') \<and> r = - 1 \<and> fds s' = {4} \<and> l = Some 0"
proof -
  obtain s' where run: "tcp_transparent_connect_to_server (Some ''10.0.0.1'') 80 (Some 0) (Some ''10.0.0.2'') 7
      (boot [Ok 4, Ok 0, Fail ENOMEM]) = Some (- 1, Some 0, s')"
    by (simp add: tcp_transparent_connect_to_server_def boot_def sys_newfd_def sys_fdcall_def sys_zero_def sys_next_def)
  then show ?thesis using connect_failure_leaks [OF run, of 4] by (auto simp: boot_def)
qed

end
