(* ===== verification/Proxy_Net.thy ===== *)
theory Proxy_Net
  imports Sproxy_Net
begin

unbundle bit_operations_syntax

section \<open>Sockets of the HTTP proxy\<close>

text \<open>
  Models \<open>src/src/networking/himproxy/proxy_old/proxy_net.c\<close>, the HTTP proxy's own version of the
  socket functions that the splicing proxy has in \<open>sproxy_net.c\<close> (theory \<open>Sproxy_Net\<close>). A pointer
  through which a function returns a socket is the value stored there, \<open>None\<close> the null pointer.
  The lemmas compare the two versions: for pointers that are not null they take the same answers of the
  kernel to the same results, and differ only in what a failed connection leaves behind the caller's pointer. (The model of
  the kernel does not record the arguments of \<open>bind\<close>, \<open>listen\<close> and \<open>connect\<close>, so the comparison says nothing about them.)
\<close>

definition proxy_set_socket_non_blocking :: "int option \<Rightarrow> 'a os_scheme \<Rightarrow> (int \<times> 'a os_scheme) option" where
  "proxy_set_socket_non_blocking sock s =
     (case sock of None \<Rightarrow> Some (- 1, s)
      | Some fd \<Rightarrow> do {
          (sock_flags, s) \<leftarrow> sys_getfl fd s;
          if sock_flags < 0 then Some (- 1, s)
          else do {
            let sock_flags = word_of_int sock_flags OR O_NONBLOCK;
            (ret, s) \<leftarrow> sys_setfl fd sock_flags s;
            if ret < 0 then Some (- 1, s) else Some (0, s) } })"

text \<open>\<open>server_sock < 0\<close> in the source compares the pointer and is never true.\<close>

definition proxy_tcp_bind_and_listen ::
    "string option \<Rightarrow> int \<Rightarrow> int option \<Rightarrow> 'a os_scheme \<Rightarrow> (int \<times> int option \<times> 'a os_scheme) option" where
  "proxy_tcp_bind_and_listen bind_ip bind_port server_sock s =
     (if bind_ip = None \<or> server_sock = None \<or> bind_port < 0 \<or> bind_port > 65535
      then Some (- 1, server_sock, s)
      else do {
        (fd, s) \<leftarrow> sys_newfd s;
        let server_sock = Some fd;
        (_, s) \<leftarrow> sys_fdcall fd s;
        (a, s) \<leftarrow> sys_aton s;
        if a = 0 then Some (- 1, server_sock, s)
        else do {
          (ret, s) \<leftarrow> sys_fdcall fd s;
          if ret < 0 then Some (- 1, server_sock, s)
          else do {
            (ret, s) \<leftarrow> sys_fdcall fd s;
            if ret < 0 then Some (- 1, server_sock, s) else Some (0, server_sock, s) } } })"

text \<open>The socket is stored before it is known to be connected.\<close>

definition proxy_tcp_connect_to_server ::
    "string option \<Rightarrow> int \<Rightarrow> int option \<Rightarrow> 'a os_scheme \<Rightarrow> (int \<times> int option \<times> 'a os_scheme) option" where
  "proxy_tcp_connect_to_server server_ip server_port local_sock s =
     (if server_ip = None \<or> server_port < 0 \<or> server_port > 65535 \<or> local_sock = None
      then Some (- 1, local_sock, s)
      else do {
        (fd, s) \<leftarrow> sys_newfd s;
        let local_sock = Some fd;
        if fd < 0 then Some (- 1, local_sock, s)
        else do {
          (a, s) \<leftarrow> sys_aton s;
          if a = 0 then Some (- 1, local_sock, s)
          else do {
            (ret, s) \<leftarrow> sys_fdcall fd s;
            if ret < 0 then Some (- 1, local_sock, s) else Some (0, local_sock, s) } } })"

text \<open>As in \<open>Sproxy_Net\<close>, the test \<open>socket == NULL\<close> looks at the library function.\<close>

definition proxy_tcp_transparent_connect_to_server ::
    "string option \<Rightarrow> int \<Rightarrow> int option \<Rightarrow> string option \<Rightarrow> int \<Rightarrow> 'a os_scheme \<Rightarrow>
     (int \<times> int option \<times> 'a os_scheme) option" where
  "proxy_tcp_transparent_connect_to_server server_ip server_port local_socket client_ip client_port s =
     (if server_ip = None \<or> server_port < 0 \<or> server_port > 65535 then Some (- 1, local_socket, s)
      else do {
        (sock, s) \<leftarrow> sys_newfd s;
        if sock < 0 then Some (- 1, local_socket, s)
        else do {
          (_, s) \<leftarrow> sys_fdcall sock s;
          (ret, s) \<leftarrow> sys_fdcall sock s;
          if ret < 0 then Some (- 1, local_socket, s)
          else if client_ip = None then None
          else do {
            (a, s) \<leftarrow> sys_aton s;
            if a = 0 then Some (- 1, local_socket, s)
            else do {
              (ret, s) \<leftarrow> sys_fdcall sock s;
              if ret < 0 then Some (- 1, local_socket, s)
              else do {
                (a, s) \<leftarrow> sys_aton s;
                if a = 0 then Some (- 1, local_socket, s)
                else do {
                  (ret, s) \<leftarrow> sys_fdcall sock s;
                  if ret < 0 then Some (- 1, local_socket, s)
                  else case local_socket of None \<Rightarrow> None | Some _ \<Rightarrow> Some (0, Some sock, s) } } } } } })"

subsection \<open>The two versions agree\<close>

text \<open>Forgetting what is stored behind the pointer of a failed connection.\<close>

definition forget_on_failure ::
  "(int \<times> int option \<times> 'a os_scheme) option \<Rightarrow> (int \<times> int option \<times> 'a os_scheme) option" where
  "forget_on_failure = map_option (\<lambda>(r, p, s). (r, if r < 0 then None else p, s))"

lemma bind_forget:
  "forget_on_failure (Option.bind m f) = Option.bind m (\<lambda>x. forget_on_failure (f x))"
  by (cases m) (simp_all add: forget_on_failure_def)

lemma forget_Some: "forget_on_failure (Some (r, p, s)) = Some (r, if r < 0 then None else p, s)"
  by (simp add: forget_on_failure_def)

lemma connect_agrees:
  "forget_on_failure (proxy_tcp_connect_to_server ip port (Some v) s) =
   forget_on_failure (tcp_connect_to_server ip port (Some v) s)"
  unfolding proxy_tcp_connect_to_server_def tcp_connect_to_server_def
  by (auto simp: bind_forget Let_def forget_Some split: prod.splits if_splits intro!: Option.bind_cong)

text \<open>
  For pointers that are not null, making a socket non-blocking, binding and listening and the transparent connection take
  the answers of the kernel to the same result and state in both proxies; so does the plain connection, and on success
  it stores the same socket. Only a failed plain connection differs: the HTTP proxy has stored the
  unconnected socket, the splicing proxy has lost it.
\<close>

lemma proxy_net_agrees:
  "proxy_set_socket_non_blocking (Some fd) s = Sproxy_Net.set_socket_non_blocking fd s \<and>
   proxy_tcp_bind_and_listen ip port p s = tcp_bind_and_listen ip port p s \<and>
   proxy_tcp_transparent_connect_to_server ip port p cip cport s = tcp_transparent_connect_to_server ip port p cip cport s \<and>
   forget_on_failure (proxy_tcp_connect_to_server ip port (Some v) s) =
     forget_on_failure (tcp_connect_to_server ip port (Some v) s)"
proof (intro conjI)
  show "proxy_set_socket_non_blocking (Some fd) s = Sproxy_Net.set_socket_non_blocking fd s"
    unfolding proxy_set_socket_non_blocking_def Sproxy_Net.set_socket_non_blocking_def Let_def by simp
  show "proxy_tcp_bind_and_listen ip port p s = tcp_bind_and_listen ip port p s"
    by (simp add: proxy_tcp_bind_and_listen_def tcp_bind_and_listen_def Let_def)
  show "proxy_tcp_transparent_connect_to_server ip port p cip cport s = tcp_transparent_connect_to_server ip port p cip cport s"
    by (simp add: proxy_tcp_transparent_connect_to_server_def tcp_transparent_connect_to_server_def)
  show "forget_on_failure (proxy_tcp_connect_to_server ip port (Some v) s) =
      forget_on_failure (tcp_connect_to_server ip port (Some v) s)"
    by (rule connect_agrees)
qed

end
