(* ===== verification/C_Text.thy ===== *)
theory C_Text
  imports Tpt_Prelude
begin

section \<open>Strings and command lines\<close>

text \<open>
  The functions of the C library on strings that the programs use: a character array read as a
  string, \<open>strncpy\<close>, \<open>atoi\<close>, printing of \<open>int\<close>, and \<open>getopt\<close>. A number outside the range of
  \<open>int\<close> is undefined behaviour of \<open>atoi\<close> and gives \<open>None\<close>, like an array without a
  terminating zero character.

  The lemmas show that \<open>atoi\<close> reads back every printed \<open>int\<close>, what a copied string looks like, and
  that \<open>getopt\<close> yields the options of separate arguments one by one.
\<close>

subsection \<open>Character arrays\<close>

abbreviation NUL :: char where
  "NUL \<equiv> CHR 0x00"

text \<open>\<open>strncpy\<close> into an array of \<open>n\<close> characters: cut at \<open>n\<close>, padded with zero characters.\<close>

definition strncpy :: "nat \<Rightarrow> string \<Rightarrow> string" where
  "strncpy n src = take n (src @ replicate n NUL)"

text \<open>The string in a character array: up to the first zero character, which must be there.\<close>

definition cstring :: "string \<Rightarrow> string option" where
  "cstring buf = (if NUL \<in> set buf then Some (takeWhile (\<lambda>c. c \<noteq> NUL) buf) else None)"

lemma length_strncpy [simp]: "length (strncpy n src) = n"
  by (simp add: strncpy_def)

text \<open>A copied string can be read back exactly when it is shorter than the array.\<close>

lemma cstring_strncpy:
  assumes "NUL \<notin> set src"
  shows "cstring (strncpy n src) = (if length src < n then Some src else None)"
proof (cases "length src < n")
  case True
  then have e: "strncpy n src = src @ NUL # replicate (n - length src - 1) NUL"
    by (cases "n - length src") (auto simp: strncpy_def min_def)
  have "takeWhile (\<lambda>c. c \<noteq> NUL) (src @ NUL # replicate (n - length src - 1) NUL) = src"
    using assms by (subst takeWhile_append2) auto
  then show ?thesis using True e by (simp add: cstring_def)
next
  case False
  then have "strncpy n src = take n src" by (simp add: strncpy_def)
  moreover have "NUL \<notin> set (take n src)" using assms by (meson in_set_takeD)
  ultimately show ?thesis using False by (simp add: cstring_def)
qed

subsection \<open>Numbers\<close>

definition c_isspace :: "char \<Rightarrow> bool" where
  "c_isspace c \<longleftrightarrow> of_char c \<in> {9 :: nat, 10, 11, 12, 13, 32}"

definition c_isdigit :: "char \<Rightarrow> bool" where
  "c_isdigit c \<longleftrightarrow> 48 \<le> (of_char c :: nat) \<and> (of_char c :: nat) \<le> 57"

definition digit_value :: "char \<Rightarrow> int" where
  "digit_value c = int (of_char c) - 48"

definition digits_value :: "string \<Rightarrow> int" where
  "digits_value ds = foldl (\<lambda>v c. 10 * v + digit_value c) 0 ds"

definition INT_RANGE :: "int \<Rightarrow> bool" where
  "INT_RANGE n \<longleftrightarrow> - (2 ^ 31) \<le> n \<and> n < 2 ^ 31"

definition atoi :: "string \<Rightarrow> int option" where
  "atoi str =
     (let t = dropWhile c_isspace str;
          neg = (case t of c # _ \<Rightarrow> c = CHR ''-'' | [] \<Rightarrow> False);
          t = (case t of c # cs \<Rightarrow> if c = CHR ''-'' \<or> c = CHR ''+'' then cs else t | [] \<Rightarrow> t);
          v = digits_value (takeWhile c_isdigit t);
          v = (if neg then - v else v)
      in if INT_RANGE v then Some v else None)"

definition digit_char :: "nat \<Rightarrow> char" where
  "digit_char d = char_of (48 + d)"

text \<open>The characters of \<open>%d\<close>.\<close>

fun nat_digits :: "nat \<Rightarrow> string" where
  "nat_digits n = (if n < 10 then [digit_char n] else nat_digits (n div 10) @ [digit_char (n mod 10)])"

declare nat_digits.simps [simp del]

definition printf_d :: "int \<Rightarrow> string" where
  "printf_d n = (if n < 0 then CHR ''-'' # nat_digits (nat (- n)) else nat_digits (nat n))"

text \<open>The digits of \<open>%x\<close>.\<close>

definition hex_digit :: "nat \<Rightarrow> char" where
  "hex_digit d = (if d < 10 then digit_char d else char_of (87 + d))"

fun hex_digits :: "nat \<Rightarrow> string" where
  "hex_digits n = (if n < 16 then [hex_digit n] else hex_digits (n div 16) @ [hex_digit (n mod 16)])"

declare hex_digits.simps [simp del]

lemma digit_char_props:
  assumes "d < 10"
  shows "c_isdigit (digit_char d)" "digit_value (digit_char d) = int d" "\<not> c_isspace (digit_char d)"
    "digit_char d \<noteq> CHR ''-''" "digit_char d \<noteq> CHR ''+''" "digit_char d \<noteq> NUL"
proof -
  have n: "of_char (digit_char d) = 48 + d" using assms by (simp add: digit_char_def)
  show "c_isdigit (digit_char d)" "\<not> c_isspace (digit_char d)" "digit_value (digit_char d) = int d"
    using n assms by (auto simp: c_isdigit_def c_isspace_def digit_value_def)
  have "(of_char (CHR ''-'') :: nat) = 45" "(of_char (CHR ''+'') :: nat) = 43" "(of_char NUL :: nat) = 0"
    by simp_all
  with n show "digit_char d \<noteq> CHR ''-''" "digit_char d \<noteq> CHR ''+''" "digit_char d \<noteq> NUL"
    by (metis nat_arith.rule0 add_leD1 le_add1 numeral_le_iff semiring_norm add_eq_0_iff_both_eq_0 zero_neq_numeral)+
qed

lemma nat_digits_digits: "\<forall>c \<in> set (nat_digits n). c_isdigit c \<and> c \<noteq> NUL"
  by (induction n rule: nat_digits.induct) (subst nat_digits.simps, auto simp: digit_char_props)

lemma nat_digits_nonempty [simp]: "nat_digits n \<noteq> []"
  by (subst nat_digits.simps) simp

lemma digits_value_snoc: "digits_value (ds @ [c]) = 10 * digits_value ds + digit_value c"
  by (simp add: digits_value_def)

lemma digits_value_nat_digits: "digits_value (nat_digits n) = int n"
proof (induction n rule: nat_digits.induct)
  case (1 n)
  have "10 * int (n div 10) + int (n mod 10) = int n" by (simp add: zdiv_int zmod_int)
  with 1 show ?case
    by (subst nat_digits.simps)
      (auto simp: digits_value_snoc digit_char_props, simp_all add: digits_value_def digit_char_props)
qed

lemma digit_not_sign: "c_isdigit c \<Longrightarrow> c \<noteq> CHR ''-'' \<and> c \<noteq> CHR ''+'' \<and> \<not> c_isspace c"
  by (auto simp: c_isdigit_def c_isspace_def)

lemma atoi_printf_d:
  assumes "INT_RANGE n"
  shows "atoi (printf_d n) = Some n"
proof -
  have tw: "takeWhile c_isdigit (nat_digits m) = nat_digits m" for m
    using nat_digits_digits by (auto intro: takeWhile_eq_all_conv [THEN iffD2])
  have hd: "\<exists>c cs. nat_digits m = c # cs \<and> c_isdigit c" for m
    using nat_digits_digits [of m] nat_digits_nonempty [of m] by (cases "nat_digits m") auto
  show ?thesis
  proof (cases "n < 0")
    case True
    then have "digits_value (takeWhile c_isdigit (nat_digits (nat (- n)))) = - n"
      by (simp add: tw digits_value_nat_digits del: takeWhile_eq_all_conv)
    then show ?thesis using assms True
      by (simp add: atoi_def printf_d_def c_isspace_def Let_def)
  next
    case False
    obtain c cs where c: "nat_digits (nat n) = c # cs" "c_isdigit c" using hd by blast
    have "dropWhile c_isspace (c # cs) = c # cs" "c \<noteq> CHR ''-''" "c \<noteq> CHR ''+''"
      using digit_not_sign [OF c(2)] by auto
    moreover have "digits_value (takeWhile c_isdigit (c # cs)) = n"
      using tw [of "nat n"] digits_value_nat_digits [of "nat n"] c(1) False by simp
    ultimately show ?thesis using assms False c by (simp add: atoi_def printf_d_def Let_def)
  qed
qed

subsection \<open>Options\<close>

text \<open>
  \<open>getopt\<close> of the GNU library with an option string that begins with a colon: an unknown option
  gives \<open>?\<close>, an option whose argument is missing gives a colon, arguments that are not options are passed
  over, and \<open>--\<close> ends the options. An option letter followed by a colon takes an argument: the
  rest of its word, or the next word.
\<close>

datatype optres = Opt char string | Unknown char | Missing char

fun opt_lookup :: "string \<Rightarrow> char \<Rightarrow> bool option" where
  "opt_lookup [] c = None"
| "opt_lookup (x # xs) c =
     (if x = c \<and> c \<noteq> CHR '':'' then Some (case xs of y # _ \<Rightarrow> y = CHR '':'' | [] \<Rightarrow> False) else opt_lookup xs c)"

definition is_option_word :: "string \<Rightarrow> bool" where
  "is_option_word w = (case w of c # _ # _ \<Rightarrow> c = CHR ''-'' | _ \<Rightarrow> False)"

text \<open>The second argument holds the letters left of the current word.\<close>

function getopt_loop :: "string \<Rightarrow> string \<Rightarrow> string list \<Rightarrow> optres list" where
  "getopt_loop spec [] [] = []"
| "getopt_loop spec [] (w # ws) =
     (if w = ''--'' then []
      else if is_option_word w then getopt_loop spec (tl w) ws
      else getopt_loop spec [] ws)"
| "getopt_loop spec (c # cs) ws =
     (case opt_lookup spec c of
        None \<Rightarrow> Unknown c # getopt_loop spec cs ws
      | Some False \<Rightarrow> Opt c [] # getopt_loop spec cs ws
      | Some True \<Rightarrow>
          if cs \<noteq> [] then Opt c cs # getopt_loop spec [] ws
          else (case ws of [] \<Rightarrow> [Missing c] | w # ws' \<Rightarrow> Opt c w # getopt_loop spec [] ws'))"
  by pat_completeness auto
termination
  by (relation "measure (\<lambda>(spec, cs, ws). length cs + sum_list (map (\<lambda>w. Suc (length w)) ws))")
    (auto simp: is_option_word_def split: list.splits)

definition getopt :: "string \<Rightarrow> string list \<Rightarrow> optres list" where
  "getopt spec args = getopt_loop spec [] args"

text \<open>An option in a word of its own, with its argument in the next word.\<close>

lemma getopt_simps [simp]:
  "getopt spec [] = []"
  "opt_lookup spec c = Some True \<Longrightarrow> c \<noteq> CHR ''-'' \<Longrightarrow> getopt spec ([CHR ''-'', c] # w # ws) = Opt c w # getopt spec ws"
  "opt_lookup spec c = Some True \<Longrightarrow> c \<noteq> CHR ''-'' \<Longrightarrow> getopt spec [[CHR ''-'', c]] = [Missing c]"
  "opt_lookup spec c = Some False \<Longrightarrow> c \<noteq> CHR ''-'' \<Longrightarrow> getopt spec ([CHR ''-'', c] # ws) = Opt c [] # getopt spec ws"
  "opt_lookup spec c = None \<Longrightarrow> c \<noteq> CHR ''-'' \<Longrightarrow> getopt spec ([CHR ''-'', c] # ws) = Unknown c # getopt spec ws"
  by (simp_all add: getopt_def is_option_word_def)

text \<open>Only letters of the option string are returned as options.\<close>

lemma getopt_loop_known: "Opt c w \<in> set (getopt_loop spec cs ws) \<Longrightarrow> opt_lookup spec c \<noteq> None"
  by (induction spec cs ws rule: getopt_loop.induct)
    (auto split: if_splits option.splits bool.splits list.splits)

lemma getopt_known: "Opt c w \<in> set (getopt spec ws) \<Longrightarrow> opt_lookup spec c \<noteq> None"
  by (simp add: getopt_def getopt_loop_known)

end
