(* ===== verification/Proxy_Config.thy ===== *)
theory Proxy_Config
  imports C_Text
begin

section \<open>The configuration of the proxy\<close>

text \<open>
  Models \<open>src/src/networking/himproxy/proxy_old/proxy_config.c\<close> and its record of settings. The
  configuration reader (\<open>jsf_conf_load\<close>, \<open>GetStrConf\<close>, \<open>GetIntConf\<close>) is outside the sources: the
  three functions are a parameter, the record \<open>jsf_conf\<close>. A negative number is what the reader
  returns for a setting that is missing. Copying from a null pointer is undefined behaviour
  and gives \<open>None\<close>.
\<close>

record proxy_config =
  listen_ip :: string
  listen_port :: int
  log_level :: int
  child_count :: int
  workq_parallelism :: int
  workq_thread_timeout :: int
  workq_length :: int
  ip_transparency :: int

record 'fp jsf_conf =
  jsf_conf_load :: "string \<Rightarrow> int \<times> 'fp option"
  GetStrConf :: "'fp \<Rightarrow> string \<Rightarrow> string \<Rightarrow> string option"
  GetIntConf :: "'fp \<Rightarrow> string \<Rightarrow> string \<Rightarrow> int"

definition LISTEN_IP_SIZE :: nat where
  "LISTEN_IP_SIZE = 16"

definition PROXY_SECTION_NAME :: string where
  "PROXY_SECTION_NAME = ''PROXY''"

definition get_proxy_config ::
  "'fp jsf_conf \<Rightarrow> 'fp option \<Rightarrow> string option \<Rightarrow> proxy_config \<Rightarrow> (int \<times> proxy_config) option" where
  "get_proxy_config lib fp proxy_sec_name c =
     (case (fp, proxy_sec_name) of (Some fp, Some sec) \<Rightarrow> do {
        ip \<leftarrow> (case GetStrConf lib fp sec ''ListenIP'' of
                 None \<Rightarrow> None
               | Some str \<Rightarrow> Some (strncpy LISTEN_IP_SIZE ''0.0.0.0''));
        let c = c\<lparr>listen_ip := ip\<rparr>;
        let v = GetIntConf lib fp sec ''ListenPort'';
        let c = c\<lparr>listen_port := (if v < 0 then 9001 else v)\<rparr>;
        let v = GetIntConf lib fp sec ''ChildCount'';
        let c = c\<lparr>child_count := (if v < 0 then 1 else v)\<rparr>;
        let v = GetIntConf lib fp sec ''LogLevel'';
        let c = c\<lparr>log_level := (if v < 0 then 4 else v)\<rparr>;
        let v = GetIntConf lib fp sec ''WorkqParallelism'';
        let c = c\<lparr>workq_parallelism := (if v < 0 then 25 else v)\<rparr>;
        let v = GetIntConf lib fp sec ''WorkqThreadTimeout'';
        let c = c\<lparr>workq_thread_timeout := (if v < 0 then 10 else v)\<rparr>;
        let v = GetIntConf lib fp sec ''WorkqLength'';
        let c = c\<lparr>workq_length := (if v < 0 then 0 else v)\<rparr>;
        let v = GetIntConf lib fp sec ''IPTransparency'';
        let c = c\<lparr>ip_transparency := (if v < 0 then 0 else v)\<rparr>;
        Some (0, c) }
      | _ \<Rightarrow> Some (- 1, c))"

definition get_config ::
  "'fp jsf_conf \<Rightarrow> string option \<Rightarrow> proxy_config \<Rightarrow> (int \<times> proxy_config) option" where
  "get_config lib conf_file c =
     (case conf_file of None \<Rightarrow> Some (- 1, c)
      | Some f \<Rightarrow>
          (case jsf_conf_load lib f of (r, fp) \<Rightarrow>
             if r < 0 then Some (- 1, c)
             else do {
               (r, c) \<leftarrow> get_proxy_config lib fp (Some PROXY_SECTION_NAME) c;
               Some (if r < 0 then - 1 else 0, c) }))"

definition free_proxy_config :: int where
  "free_proxy_config = 0"

definition free_config :: int where
  "free_config = (let ret = free_proxy_config in 0)"

subsection \<open>What a successful reading leaves\<close>

definition nonneg_config :: "proxy_config \<Rightarrow> bool" where
  "nonneg_config c \<longleftrightarrow> 0 \<le> listen_port c \<and> 0 \<le> child_count c \<and> 0 \<le> log_level c \<and> 0 \<le> workq_parallelism c \<and>
     0 \<le> workq_thread_timeout c \<and> 0 \<le> workq_length c \<and> 0 \<le> ip_transparency c"

lemma get_proxy_config_ok:
  assumes "get_proxy_config lib (Some fp) (Some sec) c = Some (r, c')"
  shows "r = 0 \<and> nonneg_config c' \<and> listen_ip c' = strncpy LISTEN_IP_SIZE ''0.0.0.0'' \<and>
    (\<exists>str. GetStrConf lib fp sec ''ListenIP'' = Some str) \<and>
    (0 \<le> GetIntConf lib fp sec ''ChildCount'' \<longrightarrow> child_count c' = GetIntConf lib fp sec ''ChildCount'') \<and>
    (0 \<le> GetIntConf lib fp sec ''ListenPort'' \<longrightarrow> listen_port c' = GetIntConf lib fp sec ''ListenPort'')"
  using assms by (auto simp: get_proxy_config_def nonneg_config_def Let_def split: option.splits)

text \<open>
  A successful reading leaves every numeric setting non-negative, keeps the configured port and
  number of children when they are non-negative (no upper bound is applied to either), and fills
  the listen address inside its array of 16 characters; but the test on the configured
  address is inverted: the address is always 0.0.0.0 whatever was configured.
\<close>

theorem get_config_bounds:
  assumes "get_config lib (Some f) c = Some (0, c')" and "jsf_conf_load lib f = (r, Some fp)"
  shows "nonneg_config c' \<and> length (listen_ip c') = LISTEN_IP_SIZE \<and> listen_ip c' = strncpy LISTEN_IP_SIZE ''0.0.0.0'' \<and>
    (0 \<le> GetIntConf lib fp ''PROXY'' ''ChildCount'' \<longrightarrow> child_count c' = GetIntConf lib fp ''PROXY'' ''ChildCount'') \<and>
    (0 \<le> GetIntConf lib fp ''PROXY'' ''ListenPort'' \<longrightarrow> listen_port c' = GetIntConf lib fp ''PROXY'' ''ListenPort'')"
proof -
  have "\<exists>q. get_proxy_config lib (Some fp) (Some ''PROXY'') c = Some (q, c')"
    using assms by (auto simp: get_config_def PROXY_SECTION_NAME_def elim!: bind_SomeE split: if_splits)
  then show ?thesis using get_proxy_config_ok [of lib fp "''PROXY''" c]
    by (auto simp: strncpy_def LISTEN_IP_SIZE_def)
qed

definition sample_conf :: "nat jsf_conf" where
  "sample_conf = \<lparr>jsf_conf_load = (\<lambda>f. (0, Some 7)), GetStrConf = (\<lambda>fp sec key. Some ''10.0.0.1''),
     GetIntConf = (\<lambda>fp sec key. if key = ''ChildCount'' then 40 else - 1)\<rparr>"

definition no_config :: proxy_config where
  "no_config = \<lparr>listen_ip = replicate 16 (CHR 0x00), listen_port = 0, log_level = 0, child_count = 0,
     workq_parallelism = 0, workq_thread_timeout = 0, workq_length = 0, ip_transparency = 0\<rparr>"

definition sample_config :: proxy_config where
  "sample_config = \<lparr>listen_ip = strncpy 16 ''0.0.0.0'', listen_port = 9001, log_level = 4, child_count = 40,
     workq_parallelism = 25, workq_thread_timeout = 10, workq_length = 0, ip_transparency = 0\<rparr>"

lemma sample_get_config: "get_config sample_conf (Some ''p.conf'') no_config = Some (0, sample_config)"
  by (simp add: get_config_def get_proxy_config_def sample_conf_def no_config_def sample_config_def Let_def
    LISTEN_IP_SIZE_def PROXY_SECTION_NAME_def)

theorem get_config_bounds_witness:
  "get_config sample_conf (Some ''p.conf'') no_config = Some (0, sample_config) \<and>
   nonneg_config sample_config \<and> child_count sample_config = 40 \<and>
   listen_ip sample_config = strncpy LISTEN_IP_SIZE ''0.0.0.0''"
  using get_config_bounds [OF sample_get_config, of 0 7] sample_get_config by (simp add: sample_conf_def)

text \<open>
  When the listen address is missing the program copies from a null pointer.
\<close>

lemma missing_address_crashes:
  "GetStrConf lib fp sec ''ListenIP'' = None \<Longrightarrow> get_proxy_config lib (Some fp) (Some sec) c = None"
  by (simp add: get_proxy_config_def)

end
