(* ===== verification/Proxy_Child.thy ===== *)
theory Proxy_Child
  imports Posix Proxy_Config
begin

section \<open>The parent process of the proxy\<close>

text \<open>
  Models \<open>create_multiple_child\<close> and \<open>start_child\<close> of
  \<open>src/src/networking/himproxy/proxy_old/proxy_core.c\<close>, \<open>wait_for_child\<close> and \<open>handle_child_exit\<close> of
  \<open>proxy_main.c\<close> and \<open>proxy_signal_handler.c\<close>, followed in the parent process: the child branch of
  \<open>start_child\<close> ends in \<open>_exit\<close> and does not return here. The table of children is an array of
  \<open>MAX_CHILD\<close> entries; an index outside it is undefined behaviour and gives \<open>None\<close>. The state records
  the signals sent with \<open>kill\<close>, the installed handlers and the signals raised.

  The lemmas show what the table holds after start-up, which child is restarted, and what the
  signal handler does, including two errors: a failed fork makes the handler signal every
  process of the user, and a configured count above 16 makes it read outside the table.
\<close>

definition MAX_CHILD :: nat where
  "MAX_CHILD = 16"

record child_os = os +
  g_child_table :: "int list"
  g_active_child_count :: int
  g_proxy_config :: proxy_config
  g_server_sock :: int
  kills :: "(int \<times> int) list"
  handlers :: "int \<rightharpoonup> string"
  raised :: "int list"

subsection \<open>System calls on processes\<close>

definition sys_fork :: "'a os_scheme \<Rightarrow> (int \<times> 'a os_scheme) option" where
  "sys_fork s = do {
     (r, s) \<leftarrow> sys_next s;
     case r of Fail e \<Rightarrow> Some (- 1, s\<lparr>os_errno := e\<rparr>)
     | Ok n \<Rightarrow> if n = 0 then None else Some (int n, s)
     | _ \<Rightarrow> None }"

text \<open>\<open>waitpid\<close>: the process and its status, two answers.\<close>

definition sys_waitpid :: "'a os_scheme \<Rightarrow> (int \<times> int \<times> 'a os_scheme) option" where
  "sys_waitpid s = do {
     (r, s) \<leftarrow> sys_next s;
     case r of Fail e \<Rightarrow> Some (- 1, 0, s\<lparr>os_errno := e\<rparr>)
     | Ok pid \<Rightarrow> do {
         (r, s) \<leftarrow> sys_next s;
         case r of Ok status \<Rightarrow> Some (int pid, int status, s) | _ \<Rightarrow> None }
     | _ \<Rightarrow> None }"

definition sys_kill :: "int \<Rightarrow> int \<Rightarrow> 'a child_os_scheme \<Rightarrow> (int \<times> 'a child_os_scheme) option" where
  "sys_kill pid signum s = sys_zero (s\<lparr>kills := kills s @ [(pid, signum)]\<rparr>)"

subsection \<open>Starting children\<close>

definition set_pid :: "int \<Rightarrow> int \<Rightarrow> 'a child_os_scheme \<Rightarrow> 'a child_os_scheme option" where
  "set_pid index pid s =
     (if 0 \<le> index \<and> nat index < length (g_child_table s)
      then Some (s\<lparr>g_child_table := (g_child_table s)[nat index := pid]\<rparr>) else None)"

definition get_pid :: "int \<Rightarrow> 'a child_os_scheme \<Rightarrow> int option" where
  "get_pid index s =
     (if 0 \<le> index \<and> nat index < length (g_child_table s) then Some (g_child_table s ! nat index) else None)"

definition start_child :: "int \<Rightarrow> 'a child_os_scheme \<Rightarrow> (int \<times> 'a child_os_scheme) option" where
  "start_child index s = do {
     (pid, s) \<leftarrow> sys_fork s;
     s \<leftarrow> set_pid index (if pid < 0 then - 1 else pid) s;
     Some (pid, s) }"

function create_loop :: "int \<Rightarrow> int \<Rightarrow> int \<Rightarrow> 'a child_os_scheme \<Rightarrow> (int \<times> 'a child_os_scheme) option" where
  "create_loop num_child i count s =
     (if i < num_child then do {
        (pid, s) \<leftarrow> start_child i s;
        if pid \<noteq> 0
        then create_loop num_child (i + 1) (count + 1) (s\<lparr>g_active_child_count := g_active_child_count s + 1\<rparr>)
        else create_loop num_child (i + 1) count s }
      else Some (count, s))"
  by pat_completeness auto
termination
  by (relation "measure (\<lambda>(n, i, c, s). nat (n - i))") auto

declare create_loop.simps [simp del]

definition create_multiple_child :: "int \<Rightarrow> 'a child_os_scheme \<Rightarrow> 'a child_os_scheme option" where
  "create_multiple_child num_child s = do {
     let num_child = (if num_child \<le> 0 then 1 else if num_child > int MAX_CHILD then int MAX_CHILD else num_child);
     (count, s) \<leftarrow> create_loop num_child 0 0 s;
     Some s }"

subsection \<open>Waiting for children\<close>

text \<open>The loops run over the configured count, which no operation changes.\<close>

function child_exit_loop :: "int \<Rightarrow> int \<Rightarrow> int \<Rightarrow> 'a child_os_scheme \<Rightarrow> 'a child_os_scheme option" where
  "child_exit_loop n pid i s =
     (if i < n then do {
        p \<leftarrow> get_pid i s;
        s \<leftarrow> (if pid = p then map_option snd (start_child i s) else Some s);
        child_exit_loop n pid (i + 1) s }
      else Some s)"
  by pat_completeness auto
termination
  by (relation "measure (\<lambda>(n, p, i, s). nat (n - i))") auto

declare child_exit_loop.simps [simp del]

definition handle_child_exit :: "int \<Rightarrow> 'a child_os_scheme \<Rightarrow> 'a child_os_scheme option" where
  "handle_child_exit pid s = child_exit_loop (child_count (g_proxy_config s)) pid 0 s"

lemma proc_fuel:
  "sys_fork s = Some (i, s') \<Longrightarrow> fuel s' < fuel s"
  "sys_waitpid s = Some (i, st, s') \<Longrightarrow> fuel s' < fuel s"
  by (auto simp: sys_fork_def sys_waitpid_def sys_next_def elim!: bind_SomeE split: list.splits reply.splits if_splits)

lemma start_child_fuel: "start_child i s = Some (p, s') \<Longrightarrow> fuel s' < fuel s"
  by (auto simp: start_child_def set_pid_def elim!: bind_SomeE split: if_splits dest!: proc_fuel)

lemma child_exit_fuel: "child_exit_loop n pid i s = Some s' \<Longrightarrow> fuel s' \<le> fuel s"
proof (induction n pid i s arbitrary: s' rule: child_exit_loop.induct)
  case (1 n pid i s)
  show ?case
  proof (cases "i < n")
    case True
    then obtain p t where p: "get_pid i s = Some p"
      and t: "(if pid = p then map_option snd (start_child i s) else Some s) = Some t"
      and rest: "child_exit_loop n pid (i + 1) t = Some s'"
      using 1(2) by (subst (asm) child_exit_loop.simps) (auto elim!: bind_SomeE)
    have "fuel t \<le> fuel s" using t by (auto split: if_splits dest!: start_child_fuel)
    then show ?thesis using 1(1) [OF True p t rest] by linarith
  next
    case False
    then show ?thesis using 1(2) by (subst (asm) child_exit_loop.simps) simp
  qed
qed

function wait_for_child :: "'a child_os_scheme \<Rightarrow> (int \<times> 'a child_os_scheme) option" where
  "wait_for_child s =
     (if g_active_child_count s > 0 then do {
        (pid, status, s1) \<leftarrow> sys_waitpid s;
        if pid < 0 then (if os_errno s1 = EINTR then wait_for_child s1 else Some (0, s1))
        else if status > 0 then do { s2 \<leftarrow> handle_child_exit pid s1; wait_for_child s2 }
        else wait_for_child (s1\<lparr>g_active_child_count := g_active_child_count s1 - 1\<rparr>) }
      else Some (0, s))"
  by pat_completeness auto
termination
  by (relation "measure fuel") (auto simp: handle_child_exit_def dest!: proc_fuel child_exit_fuel)

declare wait_for_child.simps [simp del]

subsection \<open>Signals\<close>

definition SIGCHLD :: int where
  "SIGCHLD = 17"

definition signums :: "int list" where
  "signums = [1, 2, 3, 4, 5, 6, 8, 10, 11, 12, 13, 14, 17, 18, 20, 21, 22]"

definition register_signal_handler :: "int \<Rightarrow> string \<Rightarrow> 'a child_os_scheme \<Rightarrow> (int \<times> 'a child_os_scheme) option" where
  "register_signal_handler signum handler s = do {
     (ret, s) \<leftarrow> sys_zero s;
     if ret < 0 then Some (- 1, s) else Some (ret, s\<lparr>handlers := (handlers s)(signum \<mapsto> handler)\<rparr>) }"

fun register_loop :: "int list \<Rightarrow> string \<Rightarrow> 'a child_os_scheme \<Rightarrow> 'a child_os_scheme option" where
  "register_loop [] handler s = Some s"
| "register_loop (n # ns) handler s = do {
     (_, s) \<leftarrow> register_signal_handler n handler s;
     register_loop ns handler s }"

definition register_all_signal_handler :: "string \<Rightarrow> 'a child_os_scheme \<Rightarrow> (int \<times> 'a child_os_scheme) option" where
  "register_all_signal_handler handler s = do {
     s \<leftarrow> register_loop signums handler s;
     Some (0, s) }"

function kill_loop :: "int \<Rightarrow> int \<Rightarrow> int \<Rightarrow> int \<Rightarrow> 'a child_os_scheme \<Rightarrow> (int \<times> 'a child_os_scheme) option" where
  "kill_loop n signum i ret s =
     (if i < n then do {
        p \<leftarrow> get_pid i s;
        (ret, s) \<leftarrow> sys_kill p signum s;
        kill_loop n signum (i + 1) (if ret < 0 then - 1 else ret) s }
      else Some (ret, s))"
  by pat_completeness auto
termination
  by (relation "measure (\<lambda>(n, g, i, r, s). nat (n - i))") auto

declare kill_loop.simps [simp del]

definition kill_all_children :: "int \<Rightarrow> 'a child_os_scheme \<Rightarrow> (int \<times> 'a child_os_scheme) option" where
  "kill_all_children signum s = kill_loop (child_count (g_proxy_config s)) signum 0 0 s"

definition proxy_parent_cleanup :: "'a child_os_scheme \<Rightarrow> 'a child_os_scheme" where
  "proxy_parent_cleanup s = sys_close (g_server_sock s) s"

definition parent_signal_handler :: "int \<Rightarrow> 'a child_os_scheme \<Rightarrow> 'a child_os_scheme option" where
  "parent_signal_handler signum s = do {
     s \<leftarrow> (if signum = SIGCHLD then Some s
          else do { (_, s) \<leftarrow> kill_all_children signum s; Some (proxy_parent_cleanup s) });
     Some (s\<lparr>handlers := (handlers s)(signum := None), raised := raised s @ [signum]\<rparr>) }"

subsection \<open>The table after start-up\<close>

text \<open>An answer to \<open>fork\<close> and the entry it leads to.\<close>

fun fork_answer :: "reply \<Rightarrow> bool" where
  "fork_answer (Fail e) = True" | "fork_answer (Ok n) = (n \<noteq> 0)" | "fork_answer _ = False"

fun fork_entry :: "reply \<Rightarrow> int" where
  "fork_entry (Ok n) = int n" | "fork_entry _ = - 1"

lemma start_child_effect:
  assumes "replies s = r # rest" "fork_answer r" "i < length (g_child_table s)"
  shows "\<exists>s'. start_child (int i) s = Some (fork_entry r, s') \<and> replies s' = rest \<and>
    g_child_table s' = (g_child_table s)[i := fork_entry r] \<and> g_active_child_count s' = g_active_child_count s \<and>
    g_proxy_config s' = g_proxy_config s \<and> kills s' = kills s"
  using assms by (cases r) (auto simp: start_child_def sys_fork_def sys_next_def set_pid_def)

lemma create_loop_effect:
  "replies s = rs @ rest \<Longrightarrow> list_all fork_answer rs \<Longrightarrow> i + length rs \<le> length (g_child_table s) \<Longrightarrow>
   \<exists>s'. create_loop (int (i + length rs)) (int i) c s = Some (c + int (length rs), s') \<and> replies s' = rest \<and>
     g_child_table s' = take i (g_child_table s) @ map fork_entry rs @ drop (i + length rs) (g_child_table s) \<and>
     g_active_child_count s' = g_active_child_count s + int (length rs) \<and> g_proxy_config s' = g_proxy_config s \<and>
     kills s' = kills s"
proof (induction rs arbitrary: i c s)
  case Nil
  then show ?case by (subst create_loop.simps) simp
next
  case (Cons r rs)
  obtain s1 where s1: "start_child (int i) s = Some (fork_entry r, s1)" "replies s1 = rs @ rest"
    "g_child_table s1 = (g_child_table s)[i := fork_entry r]" "g_active_child_count s1 = g_active_child_count s"
    "g_proxy_config s1 = g_proxy_config s" "kills s1 = kills s"
    using start_child_effect [of s r "rs @ rest" i] Cons.prems by auto
  let ?s = "s1\<lparr>g_active_child_count := g_active_child_count s1 + 1\<rparr>"
  have nz: "fork_entry r \<noteq> 0" using Cons.prems(2) by (cases r) auto
  have len: "Suc i + length rs \<le> length (g_child_table ?s)" using Cons.prems(3) s1(3) by simp
  obtain s' where s': "create_loop (int (Suc i + length rs)) (int (Suc i)) (c + 1) ?s =
      Some (c + 1 + int (length rs), s')" "replies s' = rest"
    "g_child_table s' = take (Suc i) (g_child_table ?s) @ map fork_entry rs @ drop (Suc i + length rs) (g_child_table ?s)"
    "g_active_child_count s' = g_active_child_count ?s + int (length rs)" "g_proxy_config s' = g_proxy_config ?s"
    "kills s' = kills ?s"
    using Cons.IH [of ?s "Suc i" "c + 1"] len s1(2) Cons.prems(2) by auto
  have "create_loop (int (i + length (r # rs))) (int i) c s = Some (c + int (length (r # rs)), s')"
    using s'(1) s1(1) nz by (subst create_loop.simps) (simp add: ac_simps)
  moreover have "g_child_table s' = take i (g_child_table s) @ map fork_entry (r # rs) @ drop (i + length (r # rs)) (g_child_table s)"
    using s'(3) s1(3) len by (simp add: take_Suc_conv_app_nth)
  ultimately show ?case using s'(2,4,5,6) s1(4-6) by auto
qed

definition clamp_children :: "int \<Rightarrow> nat" where
  "clamp_children n = (if n \<le> 0 then 1 else if n > int MAX_CHILD then MAX_CHILD else nat n)"

lemma create_multiple_child_effect:
  assumes "length (g_child_table s) = MAX_CHILD" and "replies s = rs @ rest" and "list_all fork_answer rs"
    and "length rs = clamp_children n"
  shows "\<exists>s'. create_multiple_child n s = Some s' \<and> replies s' = rest \<and>
    g_child_table s' = map fork_entry rs @ drop (length rs) (g_child_table s) \<and>
    g_active_child_count s' = g_active_child_count s + int (length rs) \<and> g_proxy_config s' = g_proxy_config s \<and>
    kills s' = kills s"
proof -
  have le: "0 + length rs \<le> length (g_child_table s)"
    using assms(1,4) by (auto simp: clamp_children_def MAX_CHILD_def)
  have num: "(if n \<le> 0 then 1 else if n > int MAX_CHILD then int MAX_CHILD else n) = int (0 + length rs)"
    using assms(4) by (auto simp: clamp_children_def)
  show ?thesis
    using create_loop_effect [OF assms(2,3) le, of 0] unfolding create_multiple_child_def Let_def num by auto
qed

subsection \<open>Restarting\<close>

text \<open>The entries with the identifier of the process that exited are replaced, in order, by the results of the calls of \<open>fork\<close>.\<close>

fun refill :: "int \<Rightarrow> int list \<Rightarrow> reply list \<Rightarrow> int list" where
  "refill pid [] rs = []"
| "refill pid (x # xs) rs = (if x = pid then fork_entry (hd rs) # refill pid xs (tl rs) else x # refill pid xs rs)"

lemma refill_unknown: "pid \<notin> set xs \<Longrightarrow> refill pid xs rs = xs"
  by (induction xs) auto

lemma child_exit_loop_refills:
  "n \<le> length (g_child_table s) \<Longrightarrow> i \<le> n \<Longrightarrow> replies s = rs @ rest \<Longrightarrow> list_all fork_answer rs \<Longrightarrow>
   length rs = count_list (take (n - i) (drop i (g_child_table s))) pid \<Longrightarrow>
   \<exists>s'. child_exit_loop (int n) pid (int i) s = Some s' \<and> replies s' = rest \<and>
     g_child_table s' = take i (g_child_table s) @ refill pid (take (n - i) (drop i (g_child_table s))) rs @ drop n (g_child_table s) \<and>
     g_active_child_count s' = g_active_child_count s \<and> kills s' = kills s \<and> (rs = [] \<longrightarrow> s' = s)"
proof (induction "n - i" arbitrary: i s rs)
  case 0
  then show ?case by (subst child_exit_loop.simps) simp
next
  case (Suc m)
  let ?t = "g_child_table s"
  have lt: "i < n" "m = n - Suc i" "i < length ?t" using Suc.hyps(2) Suc.prems(1) by linarith+
  have split: "take (n - i) (drop i ?t) = ?t ! i # take (n - Suc i) (drop (Suc i) ?t)"
    using lt by (simp add: Cons_nth_drop_Suc [symmetric] Suc_diff_Suc [symmetric])
  show ?case
  proof (cases "?t ! i = pid")
    case True
    then obtain r rs' where rs: "rs = r # rs'" using Suc.prems(5) split by (cases rs) auto
    obtain s1 where s1: "start_child (int i) s = Some (fork_entry r, s1)" "replies s1 = rs' @ rest"
      "g_child_table s1 = ?t[i := fork_entry r]" "g_active_child_count s1 = g_active_child_count s" "kills s1 = kills s"
      using start_child_effect [of s r "rs' @ rest" i] Suc.prems(3,4) rs lt(3) by auto
    obtain s' where s': "child_exit_loop (int n) pid (int (Suc i)) s1 = Some s'" "replies s' = rest"
      "g_child_table s' = take (Suc i) (g_child_table s1) @ refill pid (take (n - Suc i) (drop (Suc i) (g_child_table s1))) rs' @
        drop n (g_child_table s1)" "g_active_child_count s' = g_active_child_count s1" "kills s' = kills s1"
      using Suc.hyps(1) [of "Suc i" s1 rs'] lt Suc.prems s1(2,3) rs split True by auto
    have "take (Suc i) (g_child_table s1) = take i ?t @ [fork_entry r]" using lt(3) s1(3) by (simp add: take_Suc_conv_app_nth)
    moreover have "drop (Suc i) (g_child_table s1) = drop (Suc i) ?t" "drop n (g_child_table s1) = drop n ?t" using s1(3) lt(1) by simp_all
    ultimately show ?thesis using s1 s' lt rs True split
      by (subst child_exit_loop.simps) (simp add: get_pid_def add.commute)
  next
    case False
    obtain s' where s': "child_exit_loop (int n) pid (int (Suc i)) s = Some s'" "replies s' = rest"
      "g_child_table s' = take (Suc i) ?t @ refill pid (take (n - Suc i) (drop (Suc i) ?t)) rs @ drop n ?t"
      "g_active_child_count s' = g_active_child_count s" "kills s' = kills s" "rs = [] \<longrightarrow> s' = s"
      using Suc.hyps(1) [of "Suc i" s rs] lt Suc.prems split False by auto
    have "take (Suc i) ?t = take i ?t @ [?t ! i]" using lt(3) by (simp add: take_Suc_conv_app_nth)
    then show ?thesis using s' lt False split
      by (subst child_exit_loop.simps) (simp add: get_pid_def add.commute)
  qed
qed

lemma child_exit_outside:
  assumes "length (g_child_table s) < n" "i \<le> length (g_child_table s)" "pid \<notin> set (g_child_table s)"
  shows "child_exit_loop (int n) pid (int i) s = None"
  using assms(2)
proof (induction "length (g_child_table s) - i" arbitrary: i)
  case 0
  then show ?case using assms(1) by (subst child_exit_loop.simps) (simp add: get_pid_def)
next
  case (Suc m)
  then have lt: "i < length (g_child_table s)" "m = length (g_child_table s) - Suc i" by linarith+
  then have "child_exit_loop (int n) pid (int (Suc i)) s = None" using Suc.hyps(1) [of "Suc i"] by simp
  moreover have "g_child_table s ! i \<noteq> pid" using assms(3) lt by auto
  ultimately show ?case using lt assms(1)
    by (subst child_exit_loop.simps) (simp add: get_pid_def add.commute)
qed

text \<open>
  C28: handling the exit of a process. When the configured number of children is not above the size of the table,
  each entry among that many with the identifier of the process is replaced, in order, by the result of a new \<open>fork\<close> (-1 when it fails), no other entry
  is touched and nobody is signalled; for a process that is not there nothing changes at all. When the configured number is above the size of the
  table and the process is not in it, the loop reads outside the table.
\<close>

theorem child_exit_restarts:
  assumes "n = nat (child_count (g_proxy_config s))" and "replies s = rs @ rest" and "list_all fork_answer rs"
    and "length rs = count_list (take n (g_child_table s)) pid"
  shows "(n \<le> length (g_child_table s) \<longrightarrow> (\<exists>s'. handle_child_exit pid s = Some s' \<and> replies s' = rest \<and>
      g_child_table s' = refill pid (take n (g_child_table s)) rs @ drop n (g_child_table s) \<and>
      g_active_child_count s' = g_active_child_count s \<and> kills s' = kills s \<and>
      (pid \<notin> set (take n (g_child_table s)) \<longrightarrow> s' = s))) \<and>
    (length (g_child_table s) < n \<and> pid \<notin> set (g_child_table s) \<longrightarrow> handle_child_exit pid s = None)"
proof (cases "0 \<le> child_count (g_proxy_config s)")
  case True
  then have c: "child_count (g_proxy_config s) = int n" using assms(1) by simp
  have "rs = []" if "pid \<notin> set (take n (g_child_table s))" using that assms(4) by (simp add: count_list_0_iff)
  then show ?thesis
    using child_exit_loop_refills [of n s 0 rs rest pid] child_exit_outside [of s n 0 pid] assms(2-4) c
    by (auto simp: handle_child_exit_def)
next
  case False
  then have "handle_child_exit pid s = Some s" "n = 0" using assms(1) by (simp_all add: handle_child_exit_def child_exit_loop.simps)
  then show ?thesis using assms(2,4) by simp
qed

lemma kill_loop_outside:
  assumes "length (g_child_table s) < n" "i \<le> length (g_child_table s)"
  shows "kill_loop (int n) signum (int i) ret s = None"
  using assms
proof (induction "length (g_child_table s) - i" arbitrary: i ret s)
  case 0
  then show ?case by (subst kill_loop.simps) (simp add: get_pid_def)
next
  case (Suc m)
  then have lt: "i < length (g_child_table s)" "m = length (g_child_table s) - Suc i" by linarith+
  show ?case
  proof (cases "sys_kill (g_child_table s ! i) signum s")
    case None
    then show ?thesis using lt Suc.prems(1) by (subst kill_loop.simps) (simp add: get_pid_def)
  next
    case (Some p)
    obtain q t where p: "p = (q, t)" by fastforce
    then have "g_child_table t = g_child_table s" using Some by (auto simp: sys_kill_def elim!: sys_zeroE)
    then have "kill_loop (int n) signum (int (Suc i)) (if q < 0 then - 1 else q) t = None"
      using Suc.hyps(1) [of t "Suc i"] lt Suc.prems(1) by simp
    then show ?thesis using Some p lt Suc.prems(1)
      by (subst kill_loop.simps) (simp add: get_pid_def add.commute)
  qed
qed

text \<open>
  With a configured count above the size of the table (\<open>create_multiple_child\<close> caps the number of
  children, the loops over the table do not), handling the exit of an unknown process and the signal
  handler read outside the table.
\<close>

theorem child_table_overrun:
  assumes "length (g_child_table s) = MAX_CHILD" and "int MAX_CHILD < child_count (g_proxy_config s)"
    and "pid \<notin> set (g_child_table s)" and "signum \<noteq> SIGCHLD"
  shows "handle_child_exit pid s = None \<and> parent_signal_handler signum s = None"
proof -
  obtain n where n: "child_count (g_proxy_config s) = int n" "length (g_child_table s) < n"
    using assms(1,2) by (metis nat_0_le nat_less_iff int_nat_eq le_less_trans of_nat_0_le_iff of_nat_less_iff order_less_imp_le)
  have "handle_child_exit pid s = None"
    using child_exit_outside [OF n(2) _ assms(3), of 0] n(1) by (simp add: handle_child_exit_def)
  moreover have "kill_all_children signum s = None"
    using kill_loop_outside [OF n(2), of 0 signum 0] n(1) by (simp add: kill_all_children_def)
  ultimately show ?thesis using assms(4) by (simp add: parent_signal_handler_def)
qed

subsection \<open>The signal handler\<close>

fun kill_answer :: "reply \<Rightarrow> bool" where
  "kill_answer (Fail e) = True" | "kill_answer (Ok n) = True" | "kill_answer _ = False"

lemma kill_loop_effect:
  "replies s = rs @ rest \<Longrightarrow> list_all kill_answer rs \<Longrightarrow> i + length rs \<le> length (g_child_table s) \<Longrightarrow>
   \<exists>r s'. kill_loop (int (i + length rs)) signum (int i) ret s = Some (r, s') \<and> g_server_sock s' = g_server_sock s \<and>
     kills s' = kills s @ map (\<lambda>p. (p, signum)) (take (length rs) (drop i (g_child_table s))) \<and> fds s' = fds s \<and>
     handlers s' = handlers s \<and> raised s' = raised s"
proof (induction rs arbitrary: i ret s)
  case Nil
  then show ?case by (subst kill_loop.simps) simp
next
  case (Cons a rs)
  let ?p = "g_child_table s ! i"
  obtain q t where t: "sys_kill ?p signum s = Some (q, t)" "replies t = rs @ rest"
    "g_child_table t = g_child_table s" "kills t = kills s @ [(?p, signum)]" "fds t = fds s"
    "handlers t = handlers s" "raised t = raised s" "g_server_sock t = g_server_sock s"
    using Cons.prems(1,2) by (cases a) (auto simp: sys_kill_def sys_zero_def sys_next_def)
  have len: "Suc i + length rs \<le> length (g_child_table t)" using Cons.prems(3) t(3) by simp
  obtain r s' where s': "kill_loop (int (Suc i + length rs)) signum (int (Suc i)) (if q < 0 then - 1 else q) t = Some (r, s')"
    "kills s' = kills t @ map (\<lambda>p. (p, signum)) (take (length rs) (drop (Suc i) (g_child_table t)))" "fds s' = fds t"
    "handlers s' = handlers t" "raised s' = raised t" "g_server_sock s' = g_server_sock t"
    using Cons.IH [of t "Suc i" "if q < 0 then - 1 else q"] len t(2) Cons.prems(2) by auto
  have "kill_loop (int (i + length (a # rs))) signum (int i) ret s = Some (r, s')"
    using s'(1) t(1) Cons.prems(3) by (subst kill_loop.simps) (simp add: get_pid_def ac_simps)
  moreover have "take (length (a # rs)) (drop i (g_child_table s)) = ?p # take (length rs) (drop (Suc i) (g_child_table s))"
    using Cons.prems(3) by (simp add: Cons_nth_drop_Suc [symmetric])
  ultimately show ?case using s'(2-6) t(3-8) by auto
qed

text \<open>
  A signal other than \<open>SIGCHLD\<close> is passed on to the number in every entry of the table up to the
  configured count; so when a \<open>fork\<close> had failed at start-up, the signal goes to process -1, that is, to
  every process of the user. The listening socket is closed and the signal raised again with
  the default action.
\<close>

theorem failed_fork_kills_everyone:
  assumes "length (g_child_table s) = MAX_CHILD" and "replies s = rs @ ks" and "list_all fork_answer rs"
    and "0 < child_count (g_proxy_config s)" and "child_count (g_proxy_config s) \<le> int MAX_CHILD" and "length rs = nat (child_count (g_proxy_config s))"
    and "list_all kill_answer ks" and "length ks = length rs" and "signum \<noteq> SIGCHLD"
  shows "\<exists>s1 s2. create_multiple_child (child_count (g_proxy_config s)) s = Some s1 \<and> parent_signal_handler signum s1 = Some s2 \<and>
    kills s2 = kills s @ map (\<lambda>r. (fork_entry r, signum)) rs \<and> raised s2 = raised s1 @ [signum] \<and>
    g_server_sock s1 \<notin> fds s2 \<and> (Fail e \<in> set rs \<longrightarrow> (- 1, signum) \<in> set (kills s2))"
proof -
  have "length rs = clamp_children (child_count (g_proxy_config s))" using assms(4-6) by (simp add: clamp_children_def)
  then obtain s1 where s1: "create_multiple_child (child_count (g_proxy_config s)) s = Some s1" "replies s1 = ks"
    "g_child_table s1 = map fork_entry rs @ drop (length rs) (g_child_table s)" "g_proxy_config s1 = g_proxy_config s"
    "kills s1 = kills s"
    using create_multiple_child_effect [OF assms(1-3), of "child_count (g_proxy_config s)"] by auto
  have n: "child_count (g_proxy_config s1) = int (0 + length ks)" using s1(4) assms(4,6,8) by simp
  have "0 + length ks \<le> length (g_child_table s1)" using s1(3) assms(1,5,6,8) by simp
  then obtain r t where t: "kill_all_children signum s1 = Some (r, t)"
    "kills t = kills s1 @ map (\<lambda>p. (p, signum)) (take (length ks) (g_child_table s1))" "raised t = raised s1"
    "g_server_sock t = g_server_sock s1"
    using kill_loop_effect [of s1 ks "[]" 0 signum 0] s1(2) assms(7) n by (auto simp: kill_all_children_def)
  have "take (length ks) (g_child_table s1) = map fork_entry rs" using s1(3) assms(8) by simp
  then have k: "kills t = kills s @ map (\<lambda>r. (fork_entry r, signum)) rs" using t(2) s1(5) by (simp add: comp_def)
  let ?s2 = "(proxy_parent_cleanup t)\<lparr>handlers := (handlers (proxy_parent_cleanup t))(signum := None),
    raised := raised t @ [signum]\<rparr>"
  have "parent_signal_handler signum s1 = Some ?s2"
    using t(1) assms(9) by (simp add: parent_signal_handler_def proxy_parent_cleanup_def sys_close_def)
  moreover have "kills ?s2 = kills t" "g_server_sock s1 \<notin> fds ?s2"
    using t(4) by (simp_all add: proxy_parent_cleanup_def sys_close_def)
  moreover have "Fail e \<in> set rs \<longrightarrow> (- 1, signum) \<in> set (kills ?s2)"
    using k calculation(2) by (force simp: image_iff)
  ultimately show ?thesis using s1(1) k t(3) by auto
qed


definition child_proc :: "int list \<Rightarrow> int \<Rightarrow> reply list \<Rightarrow> child_os" where
  "child_proc tab n rs = \<lparr>replies = rs, os_errno = EOTHER 0, fds = {3}, fdflags = (\<lambda>_. 2), sent = (\<lambda>_. []),
     rcvd = (\<lambda>_. []), closed = [], g_child_table = tab, g_active_child_count = 0,
     g_proxy_config = no_config\<lparr>child_count := n\<rparr>, g_server_sock = 3, kills = [], handlers = Map.empty, raised = []\<rparr>"

theorem child_exit_restarts_witness:
  "(\<exists>s'. handle_child_exit 101 (child_proc ([100, 101, 102] @ replicate 13 0) 3 [Ok 200]) = Some s' \<and>
    g_child_table s' = [100, 200, 102] @ replicate 13 0) \<and>
   handle_child_exit 9 (child_proc (replicate 16 5) 17 []) = None"
  using child_exit_restarts [of 3 "child_proc ([100, 101, 102] @ replicate 13 0) 3 [Ok 200]" "[Ok 200]" "[]" 101]
    child_exit_restarts [of 17 "child_proc (replicate 16 5) 17 []" "[]" "[]" 9]
  by (auto simp: child_proc_def numeral_3_eq_3 count_list_0_iff)

theorem child_table_overrun_witness:
  "handle_child_exit 9 (child_proc (replicate 16 5) 17 []) = None \<and>
   parent_signal_handler 2 (child_proc (replicate 16 5) 17 []) = None"
  using child_table_overrun [of "child_proc (replicate 16 5) 17 []" 9 2]
  by (simp add: child_proc_def MAX_CHILD_def SIGCHLD_def)

theorem failed_fork_kills_everyone_witness:
  "\<exists>s1 s2. create_multiple_child 2 (child_proc (replicate 16 0) 2 [Ok 100, Fail EAGAIN, Ok 0, Ok 0]) = Some s1 \<and>
    parent_signal_handler 2 s1 = Some s2 \<and> kills s2 = [(100, 2), (- 1, 2)]"
  using failed_fork_kills_everyone [of "child_proc (replicate 16 0) 2 [Ok 100, Fail EAGAIN, Ok 0, Ok 0]"
      "[Ok 100, Fail EAGAIN]" "[Ok 0, Ok 0]" 2 EAGAIN]
  by (auto simp: child_proc_def MAX_CHILD_def SIGCHLD_def)

end
