(* ===== verification/Proxy_Request.thy ===== *)
theory Proxy_Request
  imports Proxy_Net Proxy_Child
begin

section \<open>Requests of the HTTP proxy\<close>

text \<open>
  Models \<open>src/src/networking/himproxy/proxy_old/proxy_request_handler.c\<close> and \<open>free_proxy_info\<close> of
  \<open>proxy_core.c\<close>. The state is that of the child process, which
  extends the state of \<open>Proxy_Child\<close> it inherits by a heap. The heap holds character buffers (\<open>blocks\<close>; a byte is \<open>None\<close> while it is not
  initialised), request nodes and connections. A use of an object that is not allocated, a read
  of an uninitialised byte, a write outside a buffer and an overflow of \<open>int\<close> are undefined
  behaviour and give \<open>None\<close>. The answer of the kernel to \<open>realloc\<close> decides whether the buffer
  moves. The HTTP parser is outside the sources and a parameter, the record \<open>http_lib\<close>.

  The lemmas show that received bytes are stored in order inside the buffer, that requests
  become consecutive nodes of the list, what is released at the end of a connection, that a
  malformed request makes the parser loop forever, and that queued requests point into a
  buffer that the next reception may have moved.
\<close>

record http_request_info =
  header_length :: int
  headers_list :: addr

record http_lib =
  http_parse_request :: "u8 list \<Rightarrow> http_request_info option \<Rightarrow> int \<times> http_request_info option"
  http_request_info_free :: "http_request_info option \<Rightarrow> int"

record proxy_req_info =
  req_buf :: "addr \<times> nat"
  req_buf_len :: int
  host :: cptr
  dest_ip :: cptr
  http_info :: "http_request_info option"
  req_next :: cptr

record proxy_info =
  client_sock :: int
  client_addr :: "nat \<times> nat"
  client_buf :: cptr
  client_buf_size :: int
  client_buf_curr_len :: int
  client_buf_parsed_len :: int
  curr_req :: cptr
  last_req :: cptr
  os_sock :: int

record proxy_os = child_os +
  blocks :: "addr \<rightharpoonup> u8 option list"
  req_infos :: "addr \<rightharpoonup> proxy_req_info"
  infos :: "addr \<rightharpoonup> proxy_info"

definition REQUEST_BUF_SIZE :: int where
  "REQUEST_BUF_SIZE = 8192"

definition REALLOC_LIMIT :: int where
  "REALLOC_LIMIT = 128"

definition INT_MAX :: int where
  "INT_MAX = 2 ^ 31 - 1"

subsection \<open>Memory\<close>

text \<open>
  \<open>realloc\<close>: on success the answer is the address of the block with the new size, the old one
  or a fresh one; the old bytes are kept and the others are not initialised.
\<close>

definition sys_realloc :: "cptr \<Rightarrow> nat \<Rightarrow> 'a proxy_os_scheme \<Rightarrow> (cptr \<times> 'a proxy_os_scheme) option" where
  "sys_realloc p n s = do {
     (r, s) \<leftarrow> sys_next s;
     case r of Fail e \<Rightarrow> Some (None, s\<lparr>os_errno := e\<rparr>)
     | Ok a \<Rightarrow>
         (case p of
            None \<Rightarrow>
              if a \<in> dom (blocks s) then None
              else Some (Some a, s\<lparr>blocks := (blocks s)(a \<mapsto> replicate n None)\<rparr>)
          | Some b \<Rightarrow> do {
              old \<leftarrow> blocks s b;
              if a \<noteq> b \<and> a \<in> dom (blocks s) then None
              else Some (Some a, s\<lparr>blocks := (blocks s)(b := None, a \<mapsto> take n (old @ replicate n None))\<rparr>) })
     | _ \<Rightarrow> None }"

definition free_block :: "cptr \<Rightarrow> 'a proxy_os_scheme \<Rightarrow> 'a proxy_os_scheme option" where
  "free_block p s =
     (case p of None \<Rightarrow> Some s
      | Some b \<Rightarrow> if b \<in> dom (blocks s) then Some (s\<lparr>blocks := (blocks s)(b := None)\<rparr>) else None)"

text \<open>The bytes of a range of a buffer, which must be allocated and initialised.\<close>

definition read_bytes :: "addr \<Rightarrow> nat \<Rightarrow> int \<Rightarrow> 'a proxy_os_scheme \<Rightarrow> u8 list option" where
  "read_bytes b off len s = do {
     bytes \<leftarrow> blocks s b;
     if len < 0 \<or> off + nat len > length bytes then None
     else those (take (nat len) (drop off bytes)) }"

text \<open>
  \<open>recv\<close> into a range of a buffer. Here the answer \<open>Data w\<close> stands for the bytes that are waiting, of which the call takes as many as it asked for, so that
  an answer is possible whatever the length asked for, and asking for more than the buffer holds is seen.
\<close>

definition sys_recv_upto :: "int \<Rightarrow> nat \<Rightarrow> 'a os_scheme \<Rightarrow> (int \<times> u8 list \<times> 'a os_scheme) option" where
  "sys_recv_upto fd len s = do {
     (r, s) \<leftarrow> sys_next s;
     case r of Fail e \<Rightarrow> Some (- 1, [], s\<lparr>os_errno := e\<rparr>)
     | Data w \<Rightarrow>
         Some (int (length (take len w)), take len w, s\<lparr>rcvd := (rcvd s)(fd := rcvd s fd @ take len w)\<rparr>)
     | _ \<Rightarrow> None }"

lemma sys_recv_uptoE:
  assumes "sys_recv_upto fd len s = Some (i, bs, s')"
  obtains (fail) rs e where "replies s = Fail e # rs" "i = - 1" "bs = []" "s' = s\<lparr>replies := rs, os_errno := e\<rparr>"
  | (ok) rs w where "replies s = Data w # rs" "bs = take len w" "i = int (length bs)"
      "s' = s\<lparr>replies := rs, rcvd := (rcvd s)(fd := rcvd s fd @ bs)\<rparr>"
  using assms by (auto simp: sys_recv_upto_def sys_next_def Let_def split: list.splits reply.splits)

definition recv_into ::
  "int \<Rightarrow> addr \<Rightarrow> nat \<Rightarrow> int \<Rightarrow> 'a proxy_os_scheme \<Rightarrow> (int \<times> 'a proxy_os_scheme) option" where
  "recv_into fd b off len s =
     (if len < 0 then None
      else do {
        (ret, bs, s) \<leftarrow> sys_recv_upto fd (nat len) s;
        old \<leftarrow> blocks s b;
        if off + length bs > length old then None
        else Some (ret, s\<lparr>blocks := (blocks s)(b \<mapsto> take off old @ map Some bs @ drop (off + length bs) old)\<rparr>) })"

subsection \<open>Receiving\<close>

text \<open>The second result is the new value of \<open>*rem_len\<close>.\<close>

definition alloc_client_buf ::
  "cptr \<Rightarrow> int \<Rightarrow> 'a proxy_os_scheme \<Rightarrow> (int \<times> int \<times> 'a proxy_os_scheme) option" where
  "alloc_client_buf proxy_info rem_len s =
     (case proxy_info of None \<Rightarrow> Some (- 1, rem_len, s)
      | Some a \<Rightarrow> do {
          p \<leftarrow> infos s a;
          (p, rem_len) \<leftarrow>
            (if client_buf_size p = 0
             then Some (p\<lparr>client_buf_size := REQUEST_BUF_SIZE\<rparr>, REQUEST_BUF_SIZE)
             else if rem_len < REALLOC_LIMIT \<and> client_buf p \<noteq> None
             then (if client_buf_size p * 2 > INT_MAX then None
                   else Some (p\<lparr>client_buf_size := client_buf_size p * 2\<rparr>,
                              client_buf_size p * 2 - client_buf_curr_len p))
             else Some (p, rem_len));
          let s = s\<lparr>infos := (infos s)(a \<mapsto> p)\<rparr>;
          (tmp, s) \<leftarrow> sys_realloc (client_buf p) (nat (client_buf_size p)) s;
          case tmp of None \<Rightarrow> Some (- 1, rem_len, s)
          | Some b \<Rightarrow> Some (0, rem_len, s\<lparr>infos := (infos s)(a \<mapsto> p\<lparr>client_buf := Some b\<rparr>)\<rparr>) })"

lemma sys_realloc_fuel: "sys_realloc p n s = Some (q, s') \<Longrightarrow> fuel s' < fuel s"
  by (auto simp: sys_realloc_def sys_next_def split: list.splits reply.splits option.splits if_splits
    elim!: bind_SomeE)

lemma alloc_client_buf_fuel: "alloc_client_buf (Some a) rem s = Some (r, rem', s') \<Longrightarrow> fuel s' < fuel s"
  by (auto simp: alloc_client_buf_def Let_def elim!: bind_SomeE split: option.splits dest!: sys_realloc_fuel)

lemma recv_into_fuel: "recv_into fd b off len s = Some (r, s') \<Longrightarrow> fuel s' < fuel s"
  by (auto simp: recv_into_def elim!: bind_SomeE sys_recv_uptoE split: if_splits)

function recv_client_loop :: "addr \<Rightarrow> 'a proxy_os_scheme \<Rightarrow> (int \<times> 'a proxy_os_scheme) option" where
  "recv_client_loop a s = do {
     p \<leftarrow> infos s a;
     let rem_len = client_buf_size p - client_buf_curr_len p;
     (ret, rem_len, s1) \<leftarrow> alloc_client_buf (Some a) rem_len s;
     if ret < 0 then Some (- 1, s1)
     else do {
       p \<leftarrow> infos s1 a;
       b \<leftarrow> client_buf p;
       (ret, s2) \<leftarrow> recv_into (client_sock p) b (nat (client_buf_curr_len p)) rem_len s1;
       if ret < 0 then
         (if os_errno s2 = EINTR then recv_client_loop a s2
          else if os_errno s2 = EAGAIN then Some (1, s2)
          else Some (ret, s2))
       else if ret = 0 then Some (0, s2)
       else recv_client_loop a
              (s2\<lparr>infos := (infos s2)(a \<mapsto> p\<lparr>client_buf_curr_len := client_buf_curr_len p + ret\<rparr>)\<rparr>) } }"
  by pat_completeness auto
termination
  by (relation "measure (\<lambda>(a, s). fuel s)") (auto dest!: alloc_client_buf_fuel recv_into_fuel)

declare recv_client_loop.simps [simp del]

definition recv_client_data :: "cptr \<Rightarrow> 'a proxy_os_scheme \<Rightarrow> (int \<times> 'a proxy_os_scheme) option" where
  "recv_client_data proxy_info s =
     (case proxy_info of None \<Rightarrow> Some (- 1, s) | Some a \<Rightarrow> recv_client_loop a s)"

subsection \<open>The list of requests\<close>

definition sys_calloc_req :: "'a proxy_os_scheme \<Rightarrow> (cptr \<times> 'a proxy_os_scheme) option" where
  "sys_calloc_req s = do {
     (p, s) \<leftarrow> sys_malloc s;
     case p of None \<Rightarrow> Some (None, s)
     | Some t \<Rightarrow> if t \<in> dom (req_infos s) then None else Some (Some t, s) }"

text \<open>
  The pointers \<open>head\<close> and \<open>last\<close> are the addresses of fields of the connection; their values are
  arguments and results. The buffer of the request is a block and an offset.
\<close>

definition proxy_request_list_add ::
  "cptr \<Rightarrow> cptr \<Rightarrow> (addr \<times> nat) option \<Rightarrow> int \<Rightarrow> http_request_info option \<Rightarrow> 'a proxy_os_scheme \<Rightarrow>
   (int \<times> cptr \<times> cptr \<times> 'a proxy_os_scheme) option" where
  "proxy_request_list_add head tail buf buf_len info s =
     (case (buf, info) of
        (Some rb, Some i) \<Rightarrow> do {
          (tmp, s) \<leftarrow> sys_calloc_req s;
          case tmp of None \<Rightarrow> Some (- 1, head, tail, s)
          | Some t \<Rightarrow> do {
              let s = s\<lparr>req_infos := (req_infos s)(t \<mapsto>
                \<lparr>req_buf = rb, req_buf_len = buf_len, host = None, dest_ip = None, http_info = Some i, req_next = None\<rparr>)\<rparr>;
              if head = None then Some (0, Some t, Some t, s)
              else do {
                l \<leftarrow> tail;
                n \<leftarrow> req_infos s l;
                Some (0, head, Some t, s\<lparr>req_infos := (req_infos s)(l \<mapsto> n\<lparr>req_next := Some t\<rparr>)\<rparr>) } } }
      | _ \<Rightarrow> Some (- 1, head, tail, s))"

definition add_to_request_list ::
  "cptr \<Rightarrow> http_request_info option \<Rightarrow> 'a proxy_os_scheme \<Rightarrow> (int \<times> 'a proxy_os_scheme) option" where
  "add_to_request_list proxy_info info s =
     (case (proxy_info, info) of
        (Some a, Some i) \<Rightarrow> do {
          p \<leftarrow> infos s a;
          let buf = map_option (\<lambda>b. (b, nat (client_buf_parsed_len p))) (client_buf p);
          (ret, head, tail, s) \<leftarrow> proxy_request_list_add (curr_req p) (last_req p) buf (header_length i) (Some i) s;
          let s = s\<lparr>infos := (infos s)(a \<mapsto> p\<lparr>curr_req := head, last_req := tail\<rparr>)\<rparr>;
          Some (if ret < 0 then - 1 else ret, s) }
      | _ \<Rightarrow> Some (- 1, s))"

definition handle_request ::
  "cptr \<Rightarrow> http_request_info option \<Rightarrow> 'a proxy_os_scheme \<Rightarrow> (int \<times> 'a proxy_os_scheme) option" where
  "handle_request proxy_info info s =
     (case (proxy_info, info) of
        (Some a, Some i) \<Rightarrow> do {
          (ret, s) \<leftarrow> add_to_request_list proxy_info info s;
          if ret < 0 then Some (- 1, s)
          else do {
            p \<leftarrow> infos s a;
            Some (0, s\<lparr>infos := (infos s)(a \<mapsto>
              p\<lparr>client_buf_parsed_len := client_buf_parsed_len p + header_length i\<rparr>)\<rparr>) } }
      | _ \<Rightarrow> Some (- 1, s))"

text \<open>Printing reads the bytes of every request in the list.\<close>

partial_function (option) proxy_request_list_print :: "cptr \<Rightarrow> 'a proxy_os_scheme \<Rightarrow> int option" where
  "proxy_request_list_print head s =
     (case head of None \<Rightarrow> Some 0
      | Some t \<Rightarrow> do {
          n \<leftarrow> req_infos s t;
          _ \<leftarrow> read_bytes (fst (req_buf n)) (snd (req_buf n)) (req_buf_len n) s;
          proxy_request_list_print (req_next n) s })"

subsection \<open>Parsing\<close>

text \<open>
  One turn of the loop of \<open>parse_request_buffer\<close>: \<open>Inl\<close> goes on with the local pointer to the
  parsed request and the state, \<open>Inr\<close> leaves the loop with a result.
\<close>

definition parse_turn ::
  "http_lib \<Rightarrow> addr \<Rightarrow> http_request_info option \<times> 'a proxy_os_scheme \<Rightarrow>
   (http_request_info option \<times> 'a proxy_os_scheme + int \<times> 'a proxy_os_scheme) option" where
  "parse_turn lib a = (\<lambda>(info, s). do {
     p \<leftarrow> infos s a;
     b \<leftarrow> client_buf p;
     bs \<leftarrow> read_bytes b (nat (client_buf_parsed_len p)) (client_buf_curr_len p - client_buf_parsed_len p) s;
     let (ret, info) = http_parse_request lib bs info;
     if ret < 0 then Some (Inl (info, s))
     else if ret = 0 then do {
       (_, s) \<leftarrow> handle_request (Some a) info s;
       Some (Inl (info, s)) }
     else Some (Inr (ret, s)) })"

partial_function (option) parse_loop ::
  "http_lib \<Rightarrow> addr \<Rightarrow> http_request_info option \<times> 'a proxy_os_scheme \<Rightarrow> (int \<times> 'a proxy_os_scheme) option" where
  "parse_loop lib a c = do {
     r \<leftarrow> parse_turn lib a c;
     case r of Inl c \<Rightarrow> parse_loop lib a c | Inr res \<Rightarrow> Some res }"

definition parse_request_buffer ::
  "http_lib \<Rightarrow> cptr \<Rightarrow> 'a proxy_os_scheme \<Rightarrow> (int \<times> 'a proxy_os_scheme) option" where
  "parse_request_buffer lib proxy_info s =
     (case proxy_info of None \<Rightarrow> Some (- 1, s) | Some a \<Rightarrow> parse_loop lib a (None, s))"

subsection \<open>Releasing\<close>

definition free_proxy_req_info ::
  "http_lib \<Rightarrow> addr \<Rightarrow> 'a proxy_os_scheme \<Rightarrow> (int \<times> 'a proxy_os_scheme) option" where
  "free_proxy_req_info lib t s = do {
     n \<leftarrow> req_infos s t;
     s \<leftarrow> free_block (host n) s;
     let n = n\<lparr>host := None\<rparr>;
     s \<leftarrow> free_block (dest_ip n) s;
     let n = n\<lparr>host := None\<rparr>;
     let ret = (if http_request_info_free lib (http_info n) < 0 then - 1 else 0);
     Some (ret, s\<lparr>req_infos := (req_infos s)(t := None)\<rparr>) }"

text \<open>The loop of \<open>free_proxy_req_list\<close>; \<open>ret |= rv\<close> makes the result -1 after any failure.\<close>

partial_function (option) free_req_loop ::
  "http_lib \<Rightarrow> cptr \<Rightarrow> int \<Rightarrow> 'a proxy_os_scheme \<Rightarrow> (int \<times> 'a proxy_os_scheme) option" where
  "free_req_loop lib cur ret s =
     (case cur of None \<Rightarrow> Some (ret, s)
      | Some t \<Rightarrow> do {
          n \<leftarrow> req_infos s t;
          (rv, s') \<leftarrow> free_proxy_req_info lib t s;
          free_req_loop lib (req_next n) (if rv < 0 then - 1 else ret) s' })"

definition free_proxy_req_list ::
  "http_lib \<Rightarrow> cptr \<Rightarrow> 'a proxy_os_scheme \<Rightarrow> (int \<times> 'a proxy_os_scheme) option" where
  "free_proxy_req_list lib head s = free_req_loop lib head 0 s"

definition free_proxy_info ::
  "http_lib \<Rightarrow> addr \<Rightarrow> 'a proxy_os_scheme \<Rightarrow> (int \<times> 'a proxy_os_scheme) option" where
  "free_proxy_info lib a s = do {
     p \<leftarrow> infos s a;
     s \<leftarrow> free_block (client_buf p) s;
     let s = s\<lparr>infos := (infos s)(a \<mapsto> p\<lparr>client_buf := None\<rparr>)\<rparr>;
     (ret, s) \<leftarrow> free_proxy_req_list lib (curr_req p) s;
     Some (ret, s\<lparr>infos := (infos s)(a := None)\<rparr>) }"

definition receive_parse_request :: "http_lib \<Rightarrow> cptr \<Rightarrow> 'a proxy_os_scheme \<Rightarrow> 'a proxy_os_scheme option" where
  "receive_parse_request lib arg s =
     (case arg of None \<Rightarrow> Some s
      | Some a \<Rightarrow> do {
          let cleanup = (\<lambda>s. do {
            p \<leftarrow> infos s a;
            (_, s) \<leftarrow> free_proxy_info lib a (sys_close (client_sock p) s);
            Some s });
          (ret, s) \<leftarrow> recv_client_data (Some a) s;
          if ret < 0 then cleanup s
          else if ret = 0 then cleanup s
          else do {
            (ret, s) \<leftarrow> parse_request_buffer lib (Some a) s;
            if ret < 0 then cleanup s
            else do {
              p \<leftarrow> infos s a;
              _ \<leftarrow> proxy_request_list_print (curr_req p) s;
              Some s } } })"

subsection \<open>Received bytes are stored in order\<close>

text \<open>\<open>buf_ok p h bs\<close>: the buffer of the connection has the size recorded for it and starts with \<open>bs\<close>.\<close>

definition buf_ok :: "proxy_info \<Rightarrow> (addr \<rightharpoonup> u8 option list) \<Rightarrow> u8 list \<Rightarrow> bool" where
  "buf_ok p h bs \<longleftrightarrow> client_buf_curr_len p = int (length bs) \<and>
     (case client_buf p of
        None \<Rightarrow> client_buf_size p = 0 \<and> bs = []
      | Some b \<Rightarrow>
          (case h b of None \<Rightarrow> False
           | Some bytes \<Rightarrow> REQUEST_BUF_SIZE \<le> client_buf_size p \<and> int (length bytes) = client_buf_size p \<and>
               (\<exists>junk. bytes = map Some bs @ junk)))"

definition moves :: "proxy_info \<Rightarrow> proxy_info \<Rightarrow> bool" where
  "moves p p' \<longleftrightarrow> p' = p\<lparr>client_buf := client_buf p', client_buf_size := client_buf_size p',
     client_buf_curr_len := client_buf_curr_len p'\<rparr>"

lemma moves_refl [simp]: "moves p p"
  by (simp add: moves_def)

lemma moves_trans: "moves p q \<Longrightarrow> moves q r \<Longrightarrow> moves p r"
  by (cases p; cases q; cases r) (simp add: moves_def)

lemma moves_keeps:
  assumes "moves p p'"
  shows "client_sock p' = client_sock p" "client_buf_parsed_len p' = client_buf_parsed_len p"
    "curr_req p' = curr_req p" "last_req p' = last_req p"
  using assms by (cases p; cases p'; simp add: moves_def)+

text \<open>
  What the kernel may answer to the calls of a reception, when the memory blocks \<open>D\<close> are allocated beside the buffer: \<open>realloc\<close> fails, or returns an address that is
  not in use; \<open>recv\<close> finds bytes waiting (none at the end of the stream), or fails. An interrupted call and received
  bytes go on with another turn.
\<close>

fun recv_answers :: "addr set \<Rightarrow> reply list \<Rightarrow> bool" where
  "recv_answers D (Fail e # rs) = True"
| "recv_answers D (Ok b # Data w # rs) \<longleftrightarrow> b \<notin> D \<and> (w = [] \<or> recv_answers D rs)"
| "recv_answers D (Ok b # Fail e # rs) \<longleftrightarrow> b \<notin> D \<and> (e = EINTR \<longrightarrow> recv_answers D rs)"
| "recv_answers D rs = False"

text \<open>The result such answers lead to, and the number of bytes they offer.\<close>

fun recv_result :: "reply list \<Rightarrow> int" where
  "recv_result (Ok b # Data w # rs) = (if w = [] then 0 else recv_result rs)"
| "recv_result (Ok b # Fail e # rs) = (if e = EINTR then recv_result rs else if e = EAGAIN then 1 else - 1)"
| "recv_result rs = - 1"

definition offered :: "reply list \<Rightarrow> nat" where
  "offered rs = sum_list (map (\<lambda>r. case r of Data w \<Rightarrow> length w | _ \<Rightarrow> 0) rs)"

lemma offered_simps [simp]:
  "offered [] = 0" "offered (Ok b # rs) = offered rs" "offered (Fail e # rs) = offered rs" "offered (Data w # rs) = length w + offered rs"
  by (simp_all add: offered_def)

text \<open>The allocated blocks are the buffer of the connection and \<open>D\<close>.\<close>

definition owns_buf :: "addr set \<Rightarrow> proxy_info \<Rightarrow> (addr \<rightharpoonup> u8 option list) \<Rightarrow> bool" where
  "owns_buf D p h \<longleftrightarrow> dom h = D \<union> set_option (client_buf p) \<and> D \<inter> set_option (client_buf p) = {}"

text \<open>The bytes are stored; unlike in \<open>buf_ok\<close> the recorded size may be too large, as a failed \<open>realloc\<close> leaves it.\<close>

definition buf_holds :: "proxy_info \<Rightarrow> (addr \<rightharpoonup> u8 option list) \<Rightarrow> u8 list \<Rightarrow> bool" where
  "buf_holds p h bs \<longleftrightarrow> client_buf_curr_len p = int (length bs) \<and>
     (case client_buf p of None \<Rightarrow> bs = [] | Some b \<Rightarrow> (\<exists>junk. h b = Some (map Some bs @ junk)))"

lemma buf_ok_holds: "buf_ok p h bs \<Longrightarrow> buf_holds p h bs"
  by (auto simp: buf_ok_def buf_holds_def split: option.splits)

definition grown :: "proxy_info \<Rightarrow> proxy_info" where
  "grown p = (if client_buf_size p = 0 then p\<lparr>client_buf_size := REQUEST_BUF_SIZE\<rparr>
    else if client_buf_size p - client_buf_curr_len p < REALLOC_LIMIT \<and> client_buf p \<noteq> None
    then p\<lparr>client_buf_size := client_buf_size p * 2\<rparr> else p)"

lemma grown_room:
  assumes "buf_ok p h bs"
  shows "client_buf (grown p) = client_buf p" "moves p (grown p)" "client_buf_curr_len (grown p) = client_buf_curr_len p"
    "client_buf_size p \<le> client_buf_size (grown p)" "REQUEST_BUF_SIZE \<le> client_buf_size (grown p)"
    "REALLOC_LIMIT \<le> client_buf_size (grown p) - client_buf_curr_len (grown p)"
  using assms by (auto simp: grown_def moves_def buf_ok_def REQUEST_BUF_SIZE_def REALLOC_LIMIT_def split: option.splits)

lemma alloc_client_buf_eq:
  assumes "infos s a = Some p" "buf_ok p h bs" "length bs + 128 \<le> 2 ^ 30"
  shows "alloc_client_buf (Some a) (client_buf_size p - client_buf_curr_len p) s = do {
    (tmp, s) \<leftarrow> sys_realloc (client_buf p) (nat (client_buf_size (grown p))) (s\<lparr>infos := (infos s)(a \<mapsto> grown p)\<rparr>);
    case tmp of None \<Rightarrow> Some (- 1, client_buf_size (grown p) - client_buf_curr_len p, s)
    | Some b \<Rightarrow> Some (0, client_buf_size (grown p) - client_buf_curr_len p,
        s\<lparr>infos := (infos s)(a \<mapsto> (grown p)\<lparr>client_buf := Some b\<rparr>)\<rparr>) }"
proof -
  have "client_buf_size p * 2 \<le> INT_MAX" if "client_buf_size p - client_buf_curr_len p < REALLOC_LIMIT"
    using that assms(2,3) by (simp add: buf_ok_def REALLOC_LIMIT_def INT_MAX_def)
  moreover have "client_buf_size p = 0 \<Longrightarrow> client_buf_curr_len p = 0"
    using assms(2) by (auto simp: buf_ok_def REQUEST_BUF_SIZE_def split: option.splits)
  ultimately show ?thesis using assms(1)
    by (cases "client_buf_size p = 0"; cases "client_buf_size p - client_buf_curr_len p < REALLOC_LIMIT \<and> client_buf p \<noteq> None")
      (auto simp: alloc_client_buf_def grown_def Let_def cong: option.case_cong)
qed

lemma alloc_fails:
  assumes "infos s a = Some p" "buf_ok p (blocks s) bs" "length bs + 128 \<le> 2 ^ 30" "replies s = Fail e # rs"
  shows "alloc_client_buf (Some a) (client_buf_size p - client_buf_curr_len p) s =
    Some (- 1, client_buf_size (grown p) - client_buf_curr_len p,
      s\<lparr>replies := rs, os_errno := e, infos := (infos s)(a \<mapsto> grown p)\<rparr>)"
  using assms(4) by (simp add: alloc_client_buf_eq [OF assms(1-3)] sys_realloc_def sys_next_def)

text \<open>After a successful \<open>realloc\<close> the buffer is where it says, with room for at least 128 bytes.\<close>

lemma alloc_succeeds:
  assumes "infos s a = Some p" "buf_ok p (blocks s) bs" "length bs + 128 \<le> 2 ^ 30" "replies s = Ok c # rs"
    and "owns_buf D p (blocks s)" "c \<notin> D"
  defines "q \<equiv> (grown p)\<lparr>client_buf := Some c\<rparr>"
  shows "\<exists>h. alloc_client_buf (Some a) (client_buf_size p - client_buf_curr_len p) s =
      Some (0, client_buf_size q - client_buf_curr_len q, s\<lparr>replies := rs, blocks := h, infos := (infos s)(a \<mapsto> q)\<rparr>) \<and>
    buf_ok q h bs \<and> owns_buf D q h \<and> h |` D = blocks s |` D"
proof (cases "client_buf p")
  case None
  let ?h = "(blocks s)(c \<mapsto> replicate (nat (client_buf_size (grown p))) None)"
  have bs: "bs = []" using None assms(2) by (auto simp: buf_ok_def)
  have "alloc_client_buf (Some a) (client_buf_size p - client_buf_curr_len p) s =
      Some (0, client_buf_size q - client_buf_curr_len q, s\<lparr>replies := rs, blocks := ?h, infos := (infos s)(a \<mapsto> q)\<rparr>)"
    using None assms(4-6) grown_room(3) [OF assms(2)]
    by (auto simp: alloc_client_buf_eq [OF assms(1-3)] sys_realloc_def sys_next_def owns_buf_def q_def)
  moreover have "buf_ok q ?h bs"
    using bs grown_room(3,5) [OF assms(2)] assms(2) by (simp add: q_def buf_ok_def REQUEST_BUF_SIZE_def)
  moreover have "owns_buf D q ?h" "?h |` D = blocks s |` D"
    using None assms(5,6) by (auto simp: owns_buf_def q_def restrict_map_def fun_eq_iff)
  ultimately show ?thesis by blast
next
  case (Some b)
  obtain junk where b: "blocks s b = Some (map Some bs @ junk)" "int (length (map Some bs @ junk)) = client_buf_size p"
    using Some assms(2) by (auto simp: buf_ok_def split: option.splits)
  let ?n = "nat (client_buf_size (grown p))"
  let ?new = "take ?n ((map Some bs @ junk) @ replicate ?n None)"
  let ?h = "(blocks s)(b := None, c \<mapsto> ?new)"
  have "c = b \<or> blocks s c = None" using Some assms(5,6) by (auto simp: owns_buf_def)
  then have "alloc_client_buf (Some a) (client_buf_size p - client_buf_curr_len p) s =
      Some (0, client_buf_size q - client_buf_curr_len q, s\<lparr>replies := rs, blocks := ?h, infos := (infos s)(a \<mapsto> q)\<rparr>)"
    using Some b(1) assms(4) grown_room(3) [OF assms(2)]
    by (auto simp: alloc_client_buf_eq [OF assms(1-3)] sys_realloc_def sys_next_def q_def domIff)
  moreover have "length (map Some bs @ junk) \<le> ?n" using b(2) grown_room(4) [OF assms(2)] by linarith
  then have "buf_ok q ?h bs"
    using grown_room(3,5) [OF assms(2)] assms(2) by (auto simp: q_def buf_ok_def REQUEST_BUF_SIZE_def)
  moreover have "owns_buf D q ?h" "?h |` D = blocks s |` D"
    using Some assms(5,6) by (auto simp: owns_buf_def q_def restrict_map_def fun_eq_iff)
  ultimately show ?thesis by blast
qed

lemma recv_into_fails:
  assumes "client_buf p = Some b" "buf_ok p (blocks s) bs" "replies s = Fail e # rs"
  shows "recv_into fd b (nat (client_buf_curr_len p)) (client_buf_size p - client_buf_curr_len p) s =
    Some (- 1, s\<lparr>replies := rs, os_errno := e\<rparr>)"
proof -
  obtain old where "blocks s b = Some old" "int (length old) = client_buf_size p" "client_buf_curr_len p = int (length bs)" "length bs \<le> length old"
    using assms(1,2) by (auto simp: buf_ok_def split: option.splits)
  then show ?thesis using assms(3) by (auto simp: recv_into_def sys_recv_upto_def sys_next_def fun_upd_idem)
qed

text \<open>Asked for the room left, \<open>recv\<close> stores what it takes behind the bytes already there, inside the buffer.\<close>

lemma recv_into_stores:
  assumes "client_buf p = Some b" "buf_ok p (blocks s) bs" "replies s = Data w # rs"
  defines "d \<equiv> take (nat (client_buf_size p - client_buf_curr_len p)) w"
  shows "\<exists>bl. recv_into fd b (nat (client_buf_curr_len p)) (client_buf_size p - client_buf_curr_len p) s =
      Some (int (length d), s\<lparr>replies := rs, rcvd := (rcvd s)(fd := rcvd s fd @ d), blocks := (blocks s)(b \<mapsto> bl)\<rparr>) \<and>
    buf_ok (p\<lparr>client_buf_curr_len := client_buf_curr_len p + int (length d)\<rparr>) ((blocks s)(b \<mapsto> bl)) (bs @ d)"
proof -
  obtain junk where b: "blocks s b = Some (map Some bs @ junk)" "int (length (map Some bs @ junk)) = client_buf_size p"
    "client_buf_curr_len p = int (length bs)" "REQUEST_BUF_SIZE \<le> client_buf_size p"
    using assms(1,2) by (auto simp: buf_ok_def split: option.splits)
  have room: "nat (client_buf_size p - client_buf_curr_len p) = length junk" using b(2,3) by simp
  then have d: "d = take (length junk) w" "length d \<le> length junk" by (simp_all add: d_def)
  let ?bl = "map Some bs @ map Some d @ drop (length d) junk"
  have "recv_into fd b (nat (client_buf_curr_len p)) (client_buf_size p - client_buf_curr_len p) s =
      Some (int (length d), s\<lparr>replies := rs, rcvd := (rcvd s)(fd := rcvd s fd @ d), blocks := (blocks s)(b \<mapsto> ?bl)\<rparr>)"
    using assms(3) b room d(2) by (simp add: recv_into_def sys_recv_upto_def sys_next_def d(1))
  moreover have "buf_ok (p\<lparr>client_buf_curr_len := client_buf_curr_len p + int (length d)\<rparr>) ((blocks s)(b \<mapsto> ?bl)) (bs @ d)"
    using assms(1) b d(2) by (auto simp: buf_ok_def)
  ultimately show ?thesis by blast
qed

text \<open>
  \<open>received D a s p s' p' d\<close>: between the two states the connection \<open>a\<close> has received \<open>d\<close>; only its buffer, its record, the
  answers and the error number have changed.
\<close>

definition received ::
  "addr set \<Rightarrow> addr \<Rightarrow> 'a proxy_os_scheme \<Rightarrow> proxy_info \<Rightarrow> 'a proxy_os_scheme \<Rightarrow> proxy_info \<Rightarrow> u8 list \<Rightarrow> bool" where
  "received D a s p s' p' d \<longleftrightarrow> moves p p' \<and> owns_buf D p' (blocks s') \<and> blocks s' |` D = blocks s |` D \<and>
     s' = s\<lparr>replies := replies s', os_errno := os_errno s', rcvd := (rcvd s)(client_sock p := rcvd s (client_sock p) @ d),
       blocks := blocks s', infos := (infos s)(a \<mapsto> p')\<rparr>"

lemma receivedD:
  assumes "received D a s p s' p' d"
  shows "infos s' a = Some p'" "moves p p'" "owns_buf D p' (blocks s')" "blocks s' |` D = blocks s |` D"
    "infos s' = (infos s)(a \<mapsto> p')" "rcvd s' = (rcvd s)(client_sock p := rcvd s (client_sock p) @ d)"
    "req_infos s' = req_infos s" "fds s' = fds s" "closed s' = closed s" "proxy_os.more s' = proxy_os.more s"
proof -
  have eq: "s' = s\<lparr>replies := replies s', os_errno := os_errno s', rcvd := (rcvd s)(client_sock p := rcvd s (client_sock p) @ d),
       blocks := blocks s', infos := (infos s)(a \<mapsto> p')\<rparr>"
    and "moves p p'" "owns_buf D p' (blocks s')" "blocks s' |` D = blocks s |` D"
    using assms by (simp_all add: received_def)
  then show "moves p p'" "owns_buf D p' (blocks s')" "blocks s' |` D = blocks s |` D" by blast+
  show "infos s' a = Some p'" by (subst eq) simp
  show "infos s' = (infos s)(a \<mapsto> p')" by (subst eq) simp
  show "rcvd s' = (rcvd s)(client_sock p := rcvd s (client_sock p) @ d)" by (subst eq) simp
  show "req_infos s' = req_infos s" by (subst eq) simp
  show "fds s' = fds s" by (subst eq) simp
  show "closed s' = closed s" by (subst eq) simp
  show "proxy_os.more s' = proxy_os.more s" by (subst eq) simp
qed

lemma received_trans:
  assumes "received D a s p t q d" "received D a t q u r e"
  shows "received D a s p u r (d @ e)"
proof -
  have "client_sock q = client_sock p" using assms(1) moves_keeps(1) by (auto simp: received_def)
  moreover have "infos t = (infos s)(a \<mapsto> q)" "rcvd t = (rcvd s)(client_sock p := rcvd s (client_sock p) @ d)"
    using receivedD [OF assms(1)] by auto
  ultimately show ?thesis
    using assms by (cases s; cases t; cases u) (auto simp: received_def fun_eq_iff intro: moves_trans)
qed

lemma recv_client_loop_total:
  "recv_answers D rs \<Longrightarrow> replies s = rs \<Longrightarrow> infos s a = Some p \<Longrightarrow> buf_ok p (blocks s) bs \<Longrightarrow> owns_buf D p (blocks s) \<Longrightarrow>
   length bs + offered rs + 128 \<le> 2 ^ 30 \<Longrightarrow>
   \<exists>s' p' d. recv_client_loop a s = Some (recv_result rs, s') \<and> received D a s p s' p' d \<and>
     buf_holds p' (blocks s') (bs @ d) \<and> (0 \<le> recv_result rs \<longrightarrow> buf_ok p' (blocks s') (bs @ d))"
proof (induction D rs arbitrary: s p bs rule: recv_answers.induct)
  case (1 D e rs)
  let ?s = "s\<lparr>replies := rs, os_errno := e, infos := (infos s)(a \<mapsto> grown p)\<rparr>"
  have "recv_client_loop a s = Some (- 1, ?s)"
    using "1.prems" alloc_fails [OF "1.prems"(3,4), of e rs] by (subst recv_client_loop.simps) simp
  moreover have "received D a s p ?s (grown p) []"
    using "1.prems"(5) grown_room(1,2) [OF "1.prems"(4)] by (simp add: received_def owns_buf_def)
  moreover have "buf_holds (grown p) (blocks ?s) (bs @ [])"
    using buf_ok_holds [OF "1.prems"(4)] grown_room(1,3) [OF "1.prems"(4)] by (simp add: buf_holds_def)
  ultimately show ?case by (intro exI [of _ ?s] exI [of _ "grown p"] exI [of _ "[]"]) simp
next
  case (2 D c w rs)
  let ?q = "(grown p)\<lparr>client_buf := Some c\<rparr>"
  let ?len = "client_buf_size ?q - client_buf_curr_len ?q"
  obtain h where al: "alloc_client_buf (Some a) (client_buf_size p - client_buf_curr_len p) s =
      Some (0, ?len, s\<lparr>replies := Data w # rs, blocks := h, infos := (infos s)(a \<mapsto> ?q)\<rparr>)"
    and h: "buf_ok ?q h bs" "owns_buf D ?q h" "h |` D = blocks s |` D"
    using alloc_succeeds [OF "2.prems"(3,4) _ "2.prems"(2,5)] "2.prems"(1,6) by auto
  let ?s1 = "s\<lparr>replies := Data w # rs, blocks := h, infos := (infos s)(a \<mapsto> ?q)\<rparr>"
  let ?d = "take (nat ?len) w"
  have mv: "moves p ?q" using grown_room(2) [OF "2.prems"(4)] by (rule moves_trans) (simp add: moves_def)
  have sock: "client_sock ?q = client_sock p" using moves_keeps(1) [OF mv] .
  obtain bl where rv: "recv_into (client_sock ?q) c (nat (client_buf_curr_len ?q)) ?len ?s1 =
      Some (int (length ?d), ?s1\<lparr>replies := rs, rcvd := (rcvd s)(client_sock p := rcvd s (client_sock p) @ ?d), blocks := h(c \<mapsto> bl)\<rparr>)"
    and bl: "buf_ok (?q\<lparr>client_buf_curr_len := client_buf_curr_len ?q + int (length ?d)\<rparr>) (h(c \<mapsto> bl)) (bs @ ?d)"
    using recv_into_stores [of ?q c ?s1 bs w rs "client_sock ?q"] h(1) sock by auto
  let ?s2 = "?s1\<lparr>replies := rs, rcvd := (rcvd s)(client_sock p := rcvd s (client_sock p) @ ?d), blocks := h(c \<mapsto> bl)\<rparr>"
  let ?q2 = "?q\<lparr>client_buf_curr_len := client_buf_curr_len ?q + int (length ?d)\<rparr>"
  let ?s3 = "?s2\<lparr>infos := (infos s)(a \<mapsto> ?q2)\<rparr>"
  have c: "c \<notin> D" using "2.prems"(1) by simp
  have "h(c \<mapsto> bl) |` D = h |` D" using c by (auto simp: restrict_map_def fun_eq_iff)
  then have own: "owns_buf D ?q2 (h(c \<mapsto> bl))" "h(c \<mapsto> bl) |` D = blocks s |` D"
    using h(2,3) by (auto simp: owns_buf_def)
  have mv2: "moves p ?q2" using mv by (rule moves_trans) (simp add: moves_def)
  have step: "received D a s p ?s3 ?q2 ?d" using own mv2 by (simp add: received_def)
  have room: "0 < nat ?len" using grown_room(6) [OF "2.prems"(4)] by (simp add: REALLOC_LIMIT_def)
  show ?case
  proof (cases "w = []")
    case True
    then have "recv_client_loop a s = Some (0, ?s2)"
      using "2.prems"(3) al rv by (subst recv_client_loop.simps) simp
    moreover have "?s2 = ?s3" using True by simp
    ultimately have "recv_client_loop a s = Some (recv_result (Ok c # Data w # rs), ?s3)" using True by simp
    moreover have "buf_ok ?q2 (blocks ?s3) (bs @ ?d)" using bl by (simp del: fun_upd_apply)
    ultimately show ?thesis using step buf_ok_holds by blast
  next
    case False
    then have "0 < int (length ?d)" using room by simp
    then have rec: "recv_client_loop a s = recv_client_loop a ?s3"
      using "2.prems"(3) al rv by (subst recv_client_loop.simps) (simp add: min_def)
    have pre: "recv_answers D rs" "replies ?s3 = rs" "infos ?s3 a = Some ?q2" "buf_ok ?q2 (blocks ?s3) (bs @ ?d)"
      "owns_buf D ?q2 (blocks ?s3)" "length (bs @ ?d) + offered rs + 128 \<le> 2 ^ 30"
      using False "2.prems"(1,6) bl own(1) by (simp_all del: fun_upd_apply) (simp add: min_def)
    obtain s' p' d where "recv_client_loop a ?s3 = Some (recv_result rs, s')" "received D a ?s3 ?q2 s' p' d"
      "buf_holds p' (blocks s') ((bs @ ?d) @ d)" "0 \<le> recv_result rs \<longrightarrow> buf_ok p' (blocks s') ((bs @ ?d) @ d)"
      using "2.IH" [OF pre] by blast
    then show ?thesis using rec received_trans [OF step] False
      by (intro exI [of _ s'] exI [of _ p'] exI [of _ "?d @ d"]) simp
  qed
next
  case (3 D c e rs)
  let ?q = "(grown p)\<lparr>client_buf := Some c\<rparr>"
  let ?len = "client_buf_size ?q - client_buf_curr_len ?q"
  obtain h where al: "alloc_client_buf (Some a) (client_buf_size p - client_buf_curr_len p) s =
      Some (0, ?len, s\<lparr>replies := Fail e # rs, blocks := h, infos := (infos s)(a \<mapsto> ?q)\<rparr>)"
    and h: "buf_ok ?q h bs" "owns_buf D ?q h" "h |` D = blocks s |` D"
    using alloc_succeeds [OF "3.prems"(3,4) _ "3.prems"(2,5)] "3.prems"(1,6) by auto
  let ?s1 = "s\<lparr>replies := Fail e # rs, blocks := h, infos := (infos s)(a \<mapsto> ?q)\<rparr>"
  let ?s2 = "?s1\<lparr>replies := rs, os_errno := e\<rparr>"
  have mv: "moves p ?q" using grown_room(2) [OF "3.prems"(4)] by (rule moves_trans) (simp add: moves_def)
  have rv: "recv_into (client_sock ?q) c (nat (client_buf_curr_len ?q)) ?len ?s1 = Some (- 1, ?s2)"
    using recv_into_fails [of ?q c ?s1 bs e rs "client_sock ?q"] h(1) by auto
  have step: "received D a s p ?s2 ?q []" using h mv by (simp add: received_def)
  show ?case
  proof (cases "e = EINTR")
    case True
    then have rec: "recv_client_loop a s = recv_client_loop a ?s2"
      using "3.prems"(3) al rv by (subst recv_client_loop.simps) simp
    obtain s' p' d where "recv_client_loop a ?s2 = Some (recv_result rs, s')" "received D a ?s2 ?q s' p' d"
      "buf_holds p' (blocks s') (bs @ d)" "0 \<le> recv_result rs \<longrightarrow> buf_ok p' (blocks s') (bs @ d)"
      using "3.IH" [of ?s2 ?q bs] True "3.prems"(1,6) h(1,2) by auto
    then show ?thesis using rec received_trans [OF step] True
      by (intro exI [of _ s'] exI [of _ p'] exI [of _ d]) simp
  next
    case False
    then have "recv_client_loop a s = Some (if e = EAGAIN then 1 else - 1, ?s2)"
      using "3.prems"(3) al rv by (subst recv_client_loop.simps) simp
    then show ?thesis using step h(1) False buf_ok_holds [OF h(1)]
      by (intro exI [of _ ?s2] exI [of _ ?q] exI [of _ "[]"]) simp
  qed
qed simp_all

text \<open>
  C22: for every sequence of answers that the kernel can give to a reception, with a buffer below 1 GB, the
  reception returns, with the result the answers call for, and never writes outside the buffer: however many bytes are waiting, those taken are stored behind the bytes already there, in order,
  inside a block of the recorded size of at least 8192 bytes, and counted. This holds too when the buffer is new, is moved, or is doubled; when
  \<open>realloc\<close> fails the bytes received before are still there. Every other block and every other field of the connection and of the
  state is kept.
\<close>

theorem recv_client_data_stores:
  assumes "infos s a = Some p" and "buf_ok p (blocks s) bs" and "owns_buf D p (blocks s)"
    and "recv_answers D (replies s)" and "length bs + offered (replies s) + 128 \<le> 2 ^ 30"
  shows "\<exists>s' p' d. recv_client_data (Some a) s = Some (recv_result (replies s), s') \<and> received D a s p s' p' d \<and>
    buf_holds p' (blocks s') (bs @ d) \<and> (0 \<le> recv_result (replies s) \<longrightarrow> buf_ok p' (blocks s') (bs @ d))"
  using recv_client_loop_total [OF assms(4) refl assms(1-3)] assms(5) by (simp add: recv_client_data_def)

definition new_conn :: "int \<Rightarrow> proxy_info" where
  "new_conn fd = \<lparr>client_sock = fd, client_addr = (0, 0), client_buf = None, client_buf_size = 0,
     client_buf_curr_len = 0, client_buf_parsed_len = 0, curr_req = None, last_req = None, os_sock = 0\<rparr>"

definition proxy_state :: "(addr \<rightharpoonup> proxy_info) \<Rightarrow> reply list \<Rightarrow> proxy_os" where
  "proxy_state is rs = \<lparr>replies = rs, os_errno = EOTHER 0, fds = {3, 9}, fdflags = (\<lambda>_. 2), sent = (\<lambda>_. []),
     rcvd = (\<lambda>_. []), closed = [], g_child_table = replicate 16 0, g_active_child_count = 0, g_proxy_config = no_config,
     g_server_sock = 3, kills = [], handlers = Map.empty, raised = [], blocks = Map.empty, req_infos = Map.empty, infos = is\<rparr>"

text \<open>Bytes, an interruption, a buffer that moves, and nothing more for now.\<close>

theorem recv_client_data_stores_witness:
  "\<exists>s' p' d. recv_client_data (Some 1) (proxy_state [1 \<mapsto> new_conn 9]
      [Ok 50, Data [71, 69], Ok 50, Fail EINTR, Ok 60, Fail EAGAIN]) = Some (1, s') \<and>
    infos s' 1 = Some p' \<and> buf_ok p' (blocks s') d \<and> rcvd s' 9 = d"
proof -
  let ?s = "proxy_state [1 \<mapsto> new_conn 9] [Ok 50, Data [71, 69], Ok 50, Fail EINTR, Ok 60, Fail EAGAIN]"
  have "infos ?s 1 = Some (new_conn 9)" "buf_ok (new_conn 9) (blocks ?s) []" "owns_buf {} (new_conn 9) (blocks ?s)"
    "recv_answers {} (replies ?s)" "length ([] :: u8 list) + offered (replies ?s) + 128 \<le> 2 ^ 30" "recv_result (replies ?s) = 1"
    "client_sock (new_conn 9) = 9" "rcvd ?s 9 = []"
    by (simp_all add: proxy_state_def new_conn_def buf_ok_def owns_buf_def)
  then obtain s' p' d where "recv_client_data (Some 1) ?s = Some (1, s')" "received {} 1 ?s (new_conn 9) s' p' d" "buf_ok p' (blocks s') d"
    using recv_client_data_stores [of ?s 1 "new_conn 9" "[]" "{}"] by auto
  then show ?thesis using receivedD(1,6) [of "{}" 1 ?s "new_conn 9" s' p' d] \<open>client_sock (new_conn 9) = 9\<close> \<open>rcvd ?s 9 = []\<close> by auto
qed

subsection \<open>Requests become consecutive nodes of the list\<close>

fun list_at :: "(addr \<rightharpoonup> proxy_req_info) \<Rightarrow> cptr \<Rightarrow> addr list \<Rightarrow> bool" where
  "list_at h p [] \<longleftrightarrow> p = None"
| "list_at h p (t # ts) \<longleftrightarrow> p = Some t \<and> (case h t of None \<Rightarrow> False | Some n \<Rightarrow> list_at h (req_next n) ts)"

definition queue_ok :: "proxy_info \<Rightarrow> (addr \<rightharpoonup> proxy_req_info) \<Rightarrow> addr list \<Rightarrow> bool" where
  "queue_ok p h ts \<longleftrightarrow> list_at h (curr_req p) ts \<and> distinct ts \<and> (ts \<noteq> [] \<longrightarrow> last_req p = Some (last ts))"

text \<open>The part of the buffer a node stands for, and the parts a list of parsed headers stands for.\<close>

definition req_slice :: "(addr \<rightharpoonup> proxy_req_info) \<Rightarrow> addr \<Rightarrow> (addr \<times> nat) \<times> int" where
  "req_slice h t = (case h t of None \<Rightarrow> ((0, 0), 0) | Some n \<Rightarrow> (req_buf n, req_buf_len n))"

fun slices :: "addr \<Rightarrow> nat \<Rightarrow> http_request_info list \<Rightarrow> ((addr \<times> nat) \<times> int) list" where
  "slices b off [] = []"
| "slices b off (i # is) = ((b, off), header_length i) # slices b (off + nat (header_length i)) is"

lemma list_at_dom: "list_at h p ts \<Longrightarrow> t \<in> set ts \<Longrightarrow> t \<in> dom h"
  by (induction h p ts rule: list_at.induct) (auto split: option.splits)

lemma list_at_cong: "list_at h p ts \<Longrightarrow> \<forall>t\<in>set ts. h' t = h t \<Longrightarrow> list_at h' p ts"
  by (induction h p ts rule: list_at.induct) (auto split: option.splits)

lemma list_at_snoc:
  assumes "list_at h p (ts @ [l])" "distinct (ts @ [l])" "h l = Some n" "h t = None" "req_next m = None"
  shows "list_at (h(t \<mapsto> m, l \<mapsto> n\<lparr>req_next := Some t\<rparr>)) p (ts @ [l, t])"
  using assms
proof (induction ts arbitrary: p)
  case Nil
  then show ?case by auto
next
  case (Cons u ts)
  then have u: "p = Some u" "u \<noteq> l" "u \<noteq> t" by (auto split: option.splits)
  obtain k where k: "h u = Some k" "list_at h (req_next k) (ts @ [l])" using Cons.prems(1) by (auto split: option.splits)
  then show ?case using Cons.IH [OF k(2)] Cons.prems u by simp
qed

lemma request_list_add_appends:
  assumes "list_at (req_infos s) hd0 ts" "distinct ts" "ts \<noteq> [] \<longrightarrow> lst = Some (last ts)"
    and "replies s = Ok t # rest" "req_infos s t = None"
  shows "\<exists>hd' s'. proxy_request_list_add hd0 lst (Some rb) len (Some i) s = Some (0, hd', Some t, s') \<and>
    replies s' = rest \<and> infos s' = infos s \<and> blocks s' = blocks s \<and> list_at (req_infos s') hd' (ts @ [t]) \<and>
    map (req_slice (req_infos s')) (ts @ [t]) = map (req_slice (req_infos s)) ts @ [(rb, len)] \<and>
    dom (req_infos s') = insert t (dom (req_infos s))"
proof (cases ts rule: rev_cases)
  case Nil
  then show ?thesis using assms
    by (auto simp: proxy_request_list_add_def sys_calloc_req_def sys_malloc_def sys_next_def Let_def req_slice_def domIff)
next
  case (snoc us l)
  obtain n where n: "req_infos s l = Some n"
    using list_at_dom [OF assms(1)] snoc by auto
  have hd: "hd0 \<noteq> None" using assms(1) snoc by (cases us) auto
  have lt: "l \<noteq> t" "t \<notin> set us" using n assms(5) list_at_dom [OF assms(1)] snoc by auto
  let ?m = "\<lparr>req_buf = rb, req_buf_len = len, host = None, dest_ip = None, http_info = Some i, req_next = None\<rparr>"
  let ?h = "(req_infos s)(t \<mapsto> ?m, l \<mapsto> n\<lparr>req_next := Some t\<rparr>)"
  have "list_at ?h hd0 (us @ [l, t])"
    using list_at_snoc [of "req_infos s" hd0 us l n t ?m] assms(1,2,5) snoc n by simp
  moreover have "map (req_slice ?h) (us @ [l, t]) = map (req_slice (req_infos s)) ts @ [(rb, len)]"
    using lt n snoc assms(2) by (auto simp: req_slice_def)
  ultimately show ?thesis using hd assms(3-5) snoc n lt
    by (auto simp: proxy_request_list_add_def sys_calloc_req_def sys_malloc_def sys_next_def Let_def domIff)
qed

text \<open>What handling a parsed request changes.\<close>

lemma handle_request_appends:
  assumes "infos s a = Some p" "client_buf p = Some b" "0 \<le> client_buf_parsed_len p" "queue_ok p (req_infos s) ts"
    and "replies s = Ok t # rest" "req_infos s t = None"
  shows "\<exists>p' s'. handle_request (Some a) (Some i) s = Some (0, s') \<and> replies s' = rest \<and> blocks s' = blocks s \<and>
    infos s' a = Some p' \<and> client_buf p' = Some b \<and> client_buf_curr_len p' = client_buf_curr_len p \<and>
    client_buf_size p' = client_buf_size p \<and>
    client_buf_parsed_len p' = client_buf_parsed_len p + header_length i \<and> queue_ok p' (req_infos s') (ts @ [t]) \<and>
    map (req_slice (req_infos s')) (ts @ [t]) =
      map (req_slice (req_infos s)) ts @ [((b, nat (client_buf_parsed_len p)), header_length i)] \<and>
    dom (req_infos s') = insert t (dom (req_infos s))"
proof -
  let ?rb = "(b, nat (client_buf_parsed_len p))"
  obtain hd' s1 where s1: "proxy_request_list_add (curr_req p) (last_req p) (Some ?rb) (header_length i) (Some i) s =
      Some (0, hd', Some t, s1)" "replies s1 = rest" "infos s1 = infos s" "blocks s1 = blocks s"
    "list_at (req_infos s1) hd' (ts @ [t])"
    "map (req_slice (req_infos s1)) (ts @ [t]) = map (req_slice (req_infos s)) ts @ [(?rb, header_length i)]"
    "dom (req_infos s1) = insert t (dom (req_infos s))"
    using request_list_add_appends [of s "curr_req p" ts "last_req p" t rest ?rb "header_length i" i] assms(4-6)
    by (auto simp: queue_ok_def)
  have "t \<notin> set ts" using assms(4,6) list_at_dom [of "req_infos s" "curr_req p" ts t] by (auto simp: queue_ok_def)
  then show ?thesis using s1 assms(1,2,4)
    by (auto simp: handle_request_def add_to_request_list_def Let_def queue_ok_def)
qed

subsection \<open>The parsing loop\<close>

text \<open>
  \<open>splits lib bs is\<close>: the parser finds the complete requests \<open>is\<close> at the start of \<open>bs\<close>, one after the
  other, and then reports that the rest is not complete.
\<close>

inductive splits :: "http_lib \<Rightarrow> u8 list \<Rightarrow> http_request_info list \<Rightarrow> bool" for lib where
  splits_done: "\<forall>info. 0 < fst (http_parse_request lib bs info) \<Longrightarrow> splits lib bs []"
| splits_more: "\<forall>info. http_parse_request lib bs info = (0, Some i) \<Longrightarrow> 0 < header_length i \<Longrightarrow>
    nat (header_length i) \<le> length bs \<Longrightarrow> splits lib (drop (nat (header_length i)) bs) is \<Longrightarrow> splits lib bs (i # is)"

lemma read_rest:
  assumes "client_buf p = Some b" "buf_ok p (blocks s) bs" "0 \<le> client_buf_parsed_len p"
    "client_buf_parsed_len p \<le> int (length bs)"
  shows "read_bytes b (nat (client_buf_parsed_len p)) (client_buf_curr_len p - client_buf_parsed_len p) s =
    Some (drop (nat (client_buf_parsed_len p)) bs)"
proof -
  let ?k = "nat (client_buf_parsed_len p)"
  obtain bytes junk where b: "blocks s b = Some bytes" "bytes = map Some bs @ junk" "client_buf_curr_len p = int (length bs)"
    using assms(1,2) by (auto simp: buf_ok_def split: option.splits)
  have k: "?k \<le> length bs" "nat (client_buf_curr_len p - client_buf_parsed_len p) = length bs - ?k"
    using assms(3,4) b(3) by linarith+
  have "take (length bs - ?k) (drop ?k bytes) = map Some (drop ?k bs)" using b(2) k(1) by (simp add: drop_map)
  then show ?thesis using b k assms(4) by (simp add: read_bytes_def those_map_Some)
qed

lemma parse_loop_appends:
  "splits lib rest_bs is \<Longrightarrow> infos s a = Some p \<Longrightarrow> client_buf p = Some b \<Longrightarrow> buf_ok p (blocks s) bs \<Longrightarrow>
   0 \<le> client_buf_parsed_len p \<Longrightarrow> client_buf_parsed_len p \<le> int (length bs) \<Longrightarrow>
   rest_bs = drop (nat (client_buf_parsed_len p)) bs \<Longrightarrow> queue_ok p (req_infos s) ts \<Longrightarrow>
   replies s = map Ok us @ rest \<Longrightarrow> length us = length is \<Longrightarrow> distinct us \<Longrightarrow> set us \<inter> dom (req_infos s) = {} \<Longrightarrow>
   \<exists>r p' s'. parse_loop lib a (info, s) = Some (r, s') \<and> 0 < r \<and> replies s' = rest \<and> infos s' a = Some p' \<and>
     buf_ok p' (blocks s') bs \<and> queue_ok p' (req_infos s') (ts @ us) \<and>
     client_buf_parsed_len p' = client_buf_parsed_len p + (\<Sum>i\<leftarrow>is. header_length i) \<and>
     map (req_slice (req_infos s')) (ts @ us) =
       map (req_slice (req_infos s)) ts @ slices b (nat (client_buf_parsed_len p)) is"
proof (induction arbitrary: s p ts us info rule: splits.induct)
  case (splits_done bs')
  obtain r i where r: "http_parse_request lib bs' info = (r, i)" "0 < r"
    using splits_done.hyps by (metis prod.collapse)
  have "parse_turn lib a (info, s) = Some (Inr (r, s))"
    using r splits_done.prems(1-6) read_rest [of p b s bs] by (simp add: parse_turn_def)
  then have "parse_loop lib a (info, s) = Some (r, s)"
    by (subst parse_loop.simps) simp
  then show ?case using splits_done.prems r(2) by auto
next
  case (splits_more bs' i "is")
  obtain t us' where us: "us = t # us'" using splits_more.prems(9) by (cases us) auto
  let ?k = "client_buf_parsed_len p"
  have t: "req_infos s t = None" using splits_more.prems(11) us by (auto simp: domIff)
  obtain p1 s1 where s1: "handle_request (Some a) (Some i) s = Some (0, s1)" "replies s1 = map Ok us' @ rest"
    "blocks s1 = blocks s" "infos s1 a = Some p1" "client_buf p1 = Some b"
    "client_buf_curr_len p1 = client_buf_curr_len p" "client_buf_size p1 = client_buf_size p"
    "client_buf_parsed_len p1 = ?k + header_length i" "queue_ok p1 (req_infos s1) (ts @ [t])"
    "map (req_slice (req_infos s1)) (ts @ [t]) = map (req_slice (req_infos s)) ts @ [((b, nat ?k), header_length i)]"
    "dom (req_infos s1) = insert t (dom (req_infos s))"
    using handle_request_appends [OF splits_more.prems(1,2,4,7) _ t, of "map Ok us' @ rest" i]
      splits_more.prems(8) us by auto
  have turn: "parse_turn lib a (info, s) = Some (Inl (Some i, s1))"
    using splits_more.hyps(1) splits_more.prems(1-6) read_rest [of p b s bs] s1(1) by (simp add: parse_turn_def Let_def)
  have ok1: "buf_ok p1 (blocks s1) bs" using splits_more.prems(2,3) s1(3,5-7)
    by (simp add: buf_ok_def split: option.splits)
  have len: "?k + header_length i \<le> int (length bs)"
    using splits_more.hyps(2,3) splits_more.prems(4-6) by auto
  have dr: "drop (nat (header_length i)) bs' = drop (nat (client_buf_parsed_len p1)) bs"
    using splits_more.hyps(2) splits_more.prems(4,6) s1(8) by (simp add: nat_add_distrib add.commute)
  obtain r p' s' where s': "parse_loop lib a (Some i, s1) = Some (r, s')" "0 < r" "replies s' = rest"
    "infos s' a = Some p'" "buf_ok p' (blocks s') bs" "queue_ok p' (req_infos s') ((ts @ [t]) @ us')"
    "client_buf_parsed_len p' = client_buf_parsed_len p1 + (\<Sum>i\<leftarrow>is. header_length i)"
    "map (req_slice (req_infos s')) ((ts @ [t]) @ us') =
       map (req_slice (req_infos s1)) (ts @ [t]) @ slices b (nat (client_buf_parsed_len p1)) is"
    using splits_more.IH [OF s1(4,5) ok1 _ _ dr s1(9,2), of "Some i"] splits_more.hyps(2) splits_more.prems(4,9,10,11) us s1(8,11) len
    by auto
  have "parse_loop lib a (info, s) = Some (r, s')" using turn s'(1) by (subst parse_loop.simps) simp
  then show ?case using s' s1(8,10) us splits_more.hyps(2) splits_more.prems(4) by (auto simp: nat_add_distrib)
qed


text \<open>
  C23: when the received bytes hold complete requests followed by an incomplete one and the allocations succeed, parsing returns,
  and the list of requests has grown at its end by one node per request, in order, each standing for
  the next part of the buffer; the recorded parsed length is the end of the last one.
\<close>

theorem parse_appends_requests:
  assumes "splits lib (drop (nat (client_buf_parsed_len p)) bs) is" and "infos s a = Some p" and "client_buf p = Some b"
    and "buf_ok p (blocks s) bs" and "0 \<le> client_buf_parsed_len p" and "client_buf_parsed_len p \<le> int (length bs)"
    and "queue_ok p (req_infos s) ts" and "replies s = map Ok us @ rest" and "length us = length is"
    and "distinct us" and "set us \<inter> dom (req_infos s) = {}"
  shows "\<exists>r p' s'. parse_request_buffer lib (Some a) s = Some (r, s') \<and> 0 < r \<and> infos s' a = Some p' \<and>
    buf_ok p' (blocks s') bs \<and> queue_ok p' (req_infos s') (ts @ us) \<and>
    client_buf_parsed_len p' = client_buf_parsed_len p + (\<Sum>i\<leftarrow>is. header_length i) \<and>
    map (req_slice (req_infos s')) (ts @ us) =
      map (req_slice (req_infos s)) ts @ slices b (nat (client_buf_parsed_len p)) is"
  using parse_loop_appends [OF assms(1-6) refl assms(7-11), of None]
  unfolding parse_request_buffer_def by auto

text \<open>A parser for the examples: every four bytes are a request, a leading zero byte is an error.\<close>

definition four_lib :: http_lib where
  "four_lib = \<lparr>http_parse_request = (\<lambda>bs info.
     if bs \<noteq> [] \<and> hd bs = 0 then (- 1, info)
     else if length bs < 4 then (1, info) else (0, Some \<lparr>header_length = 4, headers_list = 0\<rparr>)),
     http_request_info_free = (\<lambda>_. 0)\<rparr>"

definition full_conn :: "u8 list \<Rightarrow> proxy_info" where
  "full_conn bs = (new_conn 9)\<lparr>client_buf := Some 50, client_buf_size := 8192, client_buf_curr_len := int (length bs)\<rparr>"

definition full_state :: "u8 list \<Rightarrow> reply list \<Rightarrow> proxy_os" where
  "full_state bs rs = (proxy_state [1 \<mapsto> full_conn bs] rs)
     \<lparr>blocks := [50 \<mapsto> map Some bs @ replicate (8192 - length bs) None]\<rparr>"

lemma full_state_fields [simp]:
  "replies (full_state bs rs) = rs" "req_infos (full_state bs rs) = Map.empty"
  "infos (full_state bs rs) = [1 \<mapsto> full_conn bs]" "client_buf (full_conn bs) = Some 50"
  "client_buf_parsed_len (full_conn bs) = 0" "curr_req (full_conn bs) = None" "last_req (full_conn bs) = None"
  by (simp_all add: full_state_def proxy_state_def full_conn_def new_conn_def)

lemma full_conn_ok: "length bs \<le> 8192 \<Longrightarrow> buf_ok (full_conn bs) (blocks (full_state bs rs)) bs"
  by (auto simp: buf_ok_def full_conn_def full_state_def REQUEST_BUF_SIZE_def)

lemma four_splits: "splits four_lib [1, 2, 3, 4, 5] [\<lparr>header_length = 4, headers_list = 0\<rparr>]"
  by (rule splits_more) (auto simp: four_lib_def intro!: splits_done)

theorem parse_appends_requests_witness:
  "\<exists>r p' s'. parse_request_buffer four_lib (Some 1) (full_state [1, 2, 3, 4, 5] [Ok 70]) = Some (r, s') \<and>
    infos s' 1 = Some p' \<and> queue_ok p' (req_infos s') [70] \<and> client_buf_parsed_len p' = 4 \<and>
    req_slice (req_infos s') 70 = ((50, 0), 4)"
  using parse_appends_requests [of four_lib "full_conn [1, 2, 3, 4, 5]" "[1, 2, 3, 4, 5]"
      "[\<lparr>header_length = 4, headers_list = 0\<rparr>]" "full_state [1, 2, 3, 4, 5] [Ok 70]" 1 50 "[]" "[70]" "[]"]
    four_splits full_conn_ok [of "[1, 2, 3, 4, 5]" "[Ok 70]"] by (auto simp: queue_ok_def)

text \<open>
  C25: a malformed request makes the parser loop forever: the turn of the loop that sees it leaves the
  state as it is and goes on, so \<open>parse_request_buffer\<close> returns no result.
\<close>

theorem parse_error_never_returns:
  assumes "infos s a = Some p" and "client_buf p = Some b" and "buf_ok p (blocks s) bs"
    and "0 \<le> client_buf_parsed_len p" and "client_buf_parsed_len p \<le> int (length bs)"
    and "\<forall>info. fst (http_parse_request lib (drop (nat (client_buf_parsed_len p)) bs) info) < 0"
  shows "(\<forall>info. \<exists>info'. parse_turn lib a (info, s) = Some (Inl (info', s))) \<and>
    parse_request_buffer lib (Some a) s = None"
proof -
  have turn: "\<exists>info'. parse_turn lib a (info, s) = Some (Inl (info', s))" for info
    using assms read_rest [OF assms(2,3,4,5)] by (cases "http_parse_request lib (drop (nat (client_buf_parsed_len p)) bs) info")
      (auto simp: parse_turn_def dest: spec [of _ info])
  have "lib' = lib \<longrightarrow> a' = a \<longrightarrow> (\<forall>info. c \<noteq> (info, s))" if "parse_loop lib' a' c = Some y" for lib' a' c y
  proof (rule parse_loop.raw_induct [OF _ that], intro impI allI notI)
    fix loop lib' a' c y info
    assume IH: "\<And>lib' a' c y. loop lib' a' c = Some y \<Longrightarrow> lib' = lib \<longrightarrow> a' = a \<longrightarrow> (\<forall>info. c \<noteq> (info, s))"
      and body: "do { r \<leftarrow> parse_turn lib' a' c; case r of Inl c \<Rightarrow> loop lib' a' c | Inr res \<Rightarrow> Some res } = Some y"
      and eq: "lib' = lib" "a' = a" "c = (info, s)"
    obtain info' where "parse_turn lib a (info, s) = Some (Inl (info', s))" using turn by blast
    then have "loop lib a (info', s) = Some y" using body eq by simp
    then show False using IH by blast
  qed
  then have "parse_loop lib a (None, s) \<noteq> Some y" for y by blast
  then have "parse_loop lib a (None, s) = None" by (cases "parse_loop lib a (None, s)") blast+
  then show ?thesis using turn by (simp add: parse_request_buffer_def)
qed


theorem parse_error_never_returns_witness:
  "parse_request_buffer four_lib (Some 1) (full_state [0] []) = None"
  using parse_error_never_returns [of "full_state [0] []" 1 "full_conn [0]" 50 "[0]" four_lib]
    full_conn_ok [of "[0]" "[]"] by (simp add: four_lib_def)

subsection \<open>Queued requests and the moving buffer\<close>

text \<open>
  C26: the nodes of the list point into the receive buffer, and every reception reallocates it: when
  the block moves, the next printing of the list reads memory that has been freed.
\<close>

theorem queued_request_dangles:
  assumes "infos s a = Some p" and "client_buf p = Some b" and "curr_req p = Some t" and "req_infos s t = Some n"
    and "fst (req_buf n) = b" and "buf_ok p (blocks s) bs" and "replies s = Ok c # Fail EAGAIN # rest"
    and "blocks s c = None" and "length bs + 128 \<le> nat (client_buf_size p)"
  shows "\<exists>s' p'. recv_client_data (Some a) s = Some (1, s') \<and> infos s' a = Some p' \<and> curr_req p' = Some t \<and>
    blocks s' b = None \<and> proxy_request_list_print (curr_req p') s' = None"
proof -
  let ?n = "nat (client_buf_size p)"
  obtain old where old: "blocks s b = Some old" "client_buf_curr_len p = int (length bs)" "0 < client_buf_size p"
    "int (length old) = client_buf_size p"
    using assms(2,6) by (auto simp: buf_ok_def REQUEST_BUF_SIZE_def split: option.splits)
  have bc: "b \<noteq> c" using old(1) assms(8) by auto
  let ?p = "p\<lparr>client_buf := Some c\<rparr>"
  let ?s1 = "s\<lparr>replies := Fail EAGAIN # rest, infos := (infos s)(a \<mapsto> ?p),
    blocks := (blocks s)(b := None, c \<mapsto> take ?n (old @ replicate ?n None))\<rparr>"
  have al: "alloc_client_buf (Some a) (client_buf_size p - client_buf_curr_len p) s =
      Some (0, client_buf_size p - client_buf_curr_len p, ?s1)"
    using assms(1,2,7,8,9) old by (auto simp: alloc_client_buf_def sys_realloc_def sys_next_def domIff REALLOC_LIMIT_def)
  let ?s2 = "?s1\<lparr>replies := rest, os_errno := EAGAIN\<rparr>"
  have rv: "recv_into (client_sock ?p) c (nat (client_buf_curr_len ?p)) (client_buf_size p - client_buf_curr_len p) ?s1 =
      Some (- 1, ?s2)"
    using assms(9) old by (auto simp: recv_into_def sys_recv_upto_def sys_next_def fun_upd_idem)
  have "recv_client_data (Some a) s = Some (1, ?s2)"
    using assms(1) al rv by (simp add: recv_client_data_def recv_client_loop.simps)
  moreover have "proxy_request_list_print (Some t) ?s2 = None"
    using assms(4,5) bc by (subst proxy_request_list_print.simps) (simp add: read_bytes_def)
  ultimately show ?thesis using assms(3) bc by (intro exI [of _ ?s2] exI [of _ ?p]) simp
qed

definition queued_state :: proxy_os where
  "queued_state = (full_state [1, 2, 3, 4, 5] [Ok 60, Fail EAGAIN])
     \<lparr>infos := [1 \<mapsto> (full_conn [1, 2, 3, 4, 5])\<lparr>curr_req := Some 70, last_req := Some 70\<rparr>],
      req_infos := [70 \<mapsto> \<lparr>req_buf = (50, 0), req_buf_len = 4, host = None, dest_ip = None,
        http_info = None, req_next = None\<rparr>]\<rparr>"

theorem queued_request_dangles_witness:
  "\<exists>s' p'. recv_client_data (Some 1) queued_state = Some (1, s') \<and> infos s' 1 = Some p' \<and>
    curr_req p' = Some 70 \<and> proxy_request_list_print (curr_req p') s' = None"
proof -
  let ?p = "(full_conn [1, 2, 3, 4, 5])\<lparr>curr_req := Some 70, last_req := Some 70\<rparr>"
  have "buf_ok ?p (blocks queued_state) [1, 2, 3, 4, 5]"
    by (simp add: buf_ok_def queued_state_def full_state_def full_conn_def REQUEST_BUF_SIZE_def)
  moreover have "client_buf_size ?p = 8192" "blocks queued_state 60 = None"
    by (simp_all add: full_conn_def queued_state_def full_state_def)
  ultimately show ?thesis
    using queued_request_dangles [of queued_state 1 ?p 50 70 _ "[1, 2, 3, 4, 5]" 60 "[]"]
    by (auto simp: queued_state_def)
qed

subsection \<open>The end of a connection\<close>

text \<open>
  The blocks a connection owns: its buffer, and the names in its request nodes \<open>ts\<close>.
\<close>

definition opt_list :: "'b option \<Rightarrow> 'b list" where
  "opt_list x = (case x of None \<Rightarrow> [] | Some b \<Rightarrow> [b])"

lemma set_opt_list [simp]: "set (opt_list x) = set_option x" "distinct (opt_list x)"
  by (cases x; simp add: opt_list_def)+

definition node_names :: "proxy_req_info option \<Rightarrow> addr list" where
  "node_names n = (case n of None \<Rightarrow> [] | Some n \<Rightarrow> opt_list (host n) @ opt_list (dest_ip n))"

definition names_of :: "(addr \<rightharpoonup> proxy_req_info) \<Rightarrow> addr list \<Rightarrow> addr list" where
  "names_of h ts = concat (map (\<lambda>t. node_names (h t)) ts)"

definition conn_blocks :: "'a proxy_os_scheme \<Rightarrow> addr \<Rightarrow> addr list \<Rightarrow> addr list" where
  "conn_blocks s a ts = (case infos s a of None \<Rightarrow> [] | Some p \<Rightarrow> opt_list (client_buf p) @ names_of (req_infos s) ts)"

text \<open>A connection whose request list has the nodes \<open>ts\<close> and whose blocks are allocated, each owned once.\<close>

definition conn_ok :: "'a proxy_os_scheme \<Rightarrow> addr \<Rightarrow> addr list \<Rightarrow> bool" where
  "conn_ok s a ts \<longleftrightarrow> (\<exists>p. infos s a = Some p \<and> queue_ok p (req_infos s) ts) \<and>
     distinct (conn_blocks s a ts) \<and> set (conn_blocks s a ts) \<subseteq> dom (blocks s)"

lemma names_of_cong: "(\<And>t. t \<in> set ts \<Longrightarrow> h' t = h t) \<Longrightarrow> names_of h' ts = names_of h ts"
  by (auto simp: names_of_def intro!: arg_cong [of _ _ concat] map_cong)

lemma restrict_blocks: "(m |` (- A)) |` (- B) = m |` (- (A \<union> B))"
  by (auto simp: restrict_map_def fun_eq_iff)

lemma restrict_all [simp]: "m |` UNIV = m"
  by (simp add: restrict_map_def)

lemma free_block_restrict:
  "set_option x \<subseteq> dom (blocks s) \<Longrightarrow> free_block x s = Some (s\<lparr>blocks := blocks s |` (- set_option x)\<rparr>)"
  by (cases x) (auto simp: free_block_def restrict_map_def fun_upd_def fun_eq_iff domIff intro!: arg_cong [of _ _ Some] proxy_os.equality)

lemma free_proxy_req_info_all:
  assumes "req_infos s t = Some n" "distinct (node_names (Some n))" "set (node_names (Some n)) \<subseteq> dom (blocks s)"
  shows "\<exists>q. free_proxy_req_info lib t s =
    Some (q, s\<lparr>blocks := blocks s |` (- set (node_names (Some n))), req_infos := (req_infos s)(t := None)\<rparr>)"
proof -
  have h: "set_option (host n) \<subseteq> dom (blocks s)" "set_option (dest_ip n) \<subseteq> dom (blocks s |` (- set_option (host n)))"
    using assms(2,3) by (auto simp: node_names_def)
  have f: "free_block (host n) s = Some (s\<lparr>blocks := blocks s |` (- set_option (host n))\<rparr>)"
    using free_block_restrict [OF h(1)] .
  have g: "free_block (dest_ip n) (s\<lparr>blocks := blocks s |` (- set_option (host n))\<rparr>) =
      Some (s\<lparr>blocks := blocks s |` (- set (node_names (Some n)))\<rparr>)"
    using free_block_restrict [of "dest_ip n" "s\<lparr>blocks := blocks s |` (- set_option (host n))\<rparr>"] h(2)
    by (simp add: restrict_blocks node_names_def)
  show ?thesis using assms(1) f g by (simp add: free_proxy_req_info_def Let_def)
qed

lemma free_req_loop_all:
  "list_at (req_infos s) cur ts \<Longrightarrow> distinct ts \<Longrightarrow> distinct (names_of (req_infos s) ts) \<Longrightarrow>
   set (names_of (req_infos s) ts) \<subseteq> dom (blocks s) \<Longrightarrow>
   \<exists>r. free_req_loop lib cur ret s = Some (r, s\<lparr>blocks := blocks s |` (- set (names_of (req_infos s) ts)),
     req_infos := req_infos s |` (- set ts)\<rparr>)"
proof (induction ts arbitrary: cur ret s)
  case Nil
  then show ?case by (subst free_req_loop.simps) (simp add: names_of_def)
next
  case (Cons t ts)
  obtain n where n: "cur = Some t" "req_infos s t = Some n" "list_at (req_infos s) (req_next n) ts"
    using Cons.prems(1) by (auto split: option.splits)
  let ?A = "set (node_names (Some n))" and ?B = "set (names_of (req_infos s) ts)"
  have d: "distinct (node_names (Some n))" "distinct (names_of (req_infos s) ts)" "?A \<inter> ?B = {}" "?A \<subseteq> dom (blocks s)" "?B \<subseteq> dom (blocks s)"
    using Cons.prems(3,4) n(2) by (auto simp: names_of_def)
  let ?s = "s\<lparr>blocks := blocks s |` (- ?A), req_infos := (req_infos s)(t := None)\<rparr>"
  obtain q where q: "free_proxy_req_info lib t s = Some (q, ?s)"
    using free_proxy_req_info_all [OF n(2) d(1,4)] by blast
  have same: "names_of (req_infos ?s) ts = names_of (req_infos s) ts"
    using Cons.prems(2) by (auto intro!: names_of_cong)
  have l: "list_at (req_infos ?s) (req_next n) ts" using n(3) Cons.prems(2) by (auto intro: list_at_cong)
  have sub: "?B \<subseteq> dom (blocks ?s)" using d(3,5) by auto
  obtain r where "free_req_loop lib (req_next n) (if q < 0 then - 1 else ret) ?s =
      Some (r, ?s\<lparr>blocks := blocks ?s |` (- ?B), req_infos := req_infos ?s |` (- set ts)\<rparr>)"
    using Cons.IH [OF l _ _ sub [folded same]] Cons.prems(2) d(2) same by (metis distinct.simps(2))
  moreover have "blocks ?s |` (- ?B) = blocks s |` (- set (names_of (req_infos s) (t # ts)))"
    using n(2) by (simp add: restrict_blocks names_of_def)
  moreover have "req_infos ?s |` (- set ts) = req_infos s |` (- set (t # ts))" by (auto simp: restrict_map_def)
  ultimately have "free_req_loop lib cur ret s = Some (r, s\<lparr>blocks := blocks s |` (- set (names_of (req_infos s) (t # ts))),
      req_infos := req_infos s |` (- set (t # ts))\<rparr>)"
    using n(1,2) q by (subst free_req_loop.simps) simp
  then show ?case by blast
qed

text \<open>Releasing a connection frees what it owns and nothing else.\<close>

lemma free_proxy_info_all:
  assumes "conn_ok s a ts"
  shows "\<exists>r. free_proxy_info lib a s = Some (r, s\<lparr>blocks := blocks s |` (- set (conn_blocks s a ts)), infos := (infos s)(a := None),
    req_infos := req_infos s |` (- set ts)\<rparr>)"
proof -
  obtain p where p: "infos s a = Some p" "queue_ok p (req_infos s) ts" using assms by (auto simp: conn_ok_def)
  have d: "set_option (client_buf p) \<subseteq> dom (blocks s)" "distinct (names_of (req_infos s) ts)"
    "set (names_of (req_infos s) ts) \<subseteq> dom (blocks s |` (- set_option (client_buf p)))"
    using assms p(1) by (auto simp: conn_ok_def conn_blocks_def)
  let ?s = "s\<lparr>blocks := blocks s |` (- set_option (client_buf p)), infos := (infos s)(a \<mapsto> p\<lparr>client_buf := None\<rparr>)\<rparr>"
  obtain r where "free_req_loop lib (curr_req p) 0 ?s = Some (r, ?s\<lparr>blocks := blocks ?s |` (- set (names_of (req_infos s) ts)),
      req_infos := req_infos s |` (- set ts)\<rparr>)"
    using free_req_loop_all [of ?s "curr_req p" ts lib 0] p(2) d(2,3) by (auto simp: queue_ok_def)
  then show ?thesis using p(1) free_block_restrict [OF d(1)]
    by (simp add: free_proxy_info_def free_proxy_req_list_def conn_blocks_def restrict_blocks)
qed

lemma queue_ok_moves: "moves p p' \<Longrightarrow> queue_ok p h ts \<Longrightarrow> queue_ok p' h ts"
  by (simp add: queue_ok_def moves_keeps)

text \<open>A reception moves the buffer of a connection, which owns the new one and its names.\<close>

lemma received_conn_ok:
  assumes "conn_ok s a ts" and "infos s a = Some p" and "D = dom (blocks s) - set_option (client_buf p)"
    and "received D a s p s' p' d"
  shows "conn_ok s' a ts \<and> blocks s' |` (- set (conn_blocks s' a ts)) = blocks s |` (- set (conn_blocks s a ts))"
proof -
  note rd = receivedD [OF assms(4)]
  let ?N = "set (names_of (req_infos s) ts)"
  have own: "dom (blocks s') = D \<union> set_option (client_buf p')" "D \<inter> set_option (client_buf p') = {}"
    using rd(3) by (auto simp: owns_buf_def)
  have c: "conn_blocks s a ts = opt_list (client_buf p) @ names_of (req_infos s) ts"
    "conn_blocks s' a ts = opt_list (client_buf p') @ names_of (req_infos s) ts"
    using assms(2) rd(1,7) by (simp_all add: conn_blocks_def)
  have N: "?N \<subseteq> D" "distinct (names_of (req_infos s) ts)" using assms(1,3) c(1) by (auto simp: conn_ok_def)
  have "queue_ok p' (req_infos s') ts" using assms(1,2) rd(2,7) queue_ok_moves by (auto simp: conn_ok_def)
  then have ok: "conn_ok s' a ts" using rd(1) N own c(2) by (auto simp: conn_ok_def)
  have "(blocks s' |` (- set (conn_blocks s' a ts))) x = (blocks s |` (- set (conn_blocks s a ts))) x" for x
  proof (cases "x \<in> D")
    case True
    then have "blocks s' x = blocks s x" using fun_cong [OF rd(4), of x] by simp
    moreover have "x \<notin> set_option (client_buf p')" "x \<notin> set_option (client_buf p)" using True own(2) assms(3) by auto
    ultimately show ?thesis by (simp add: c restrict_map_def)
  next
    case False
    then have "blocks s' x = None \<or> x \<in> set_option (client_buf p')" "blocks s x = None \<or> x \<in> set_option (client_buf p)"
      using own(1) assms(3) by (auto simp: domIff)
    then show ?thesis by (auto simp: c restrict_map_def)
  qed
  then show ?thesis using ok by blast
qed

lemma connection_end:
  assumes "conn_ok s a ts" and "infos s a = Some p" and "buf_ok p (blocks s) bs"
    and "D = dom (blocks s) - set_option (client_buf p)" and "recv_answers D (replies s)"
    and "length bs + offered (replies s) + 128 \<le> 2 ^ 30" and "recv_result (replies s) \<le> 0"
  shows "\<exists>s'. receive_parse_request lib (Some a) s = Some s' \<and> closed s' = closed s @ [client_sock p] \<and>
    fds s' = fds s - {client_sock p} \<and> infos s' = (infos s)(a := None) \<and>
    blocks s' = blocks s |` (- set (conn_blocks s a ts)) \<and> req_infos s' = req_infos s |` (- set ts) \<and>
    proxy_os.more s' = proxy_os.more s"
proof -
  have own: "owns_buf D p (blocks s)"
    using assms(1,2,4) by (auto simp: owns_buf_def conn_ok_def conn_blocks_def)
  obtain s1 p1 d where r: "recv_client_loop a s = Some (recv_result (replies s), s1)" "received D a s p s1 p1 d"
    using recv_client_loop_total [OF assms(5) refl assms(2,3) own assms(6)] by blast
  note rd = receivedD [OF r(2)]
  let ?s2 = "sys_close (client_sock p1) s1"
  have k: "infos ?s2 = infos s1" "blocks ?s2 = blocks s1" "req_infos ?s2 = req_infos s1" "proxy_os.more ?s2 = proxy_os.more s1"
    by (simp_all add: sys_close_def)
  have cb: "conn_blocks ?s2 a ts = conn_blocks s1 a ts" by (simp add: conn_blocks_def k cong: option.case_cong)
  have "conn_ok ?s2 a ts" "blocks s1 |` (- set (conn_blocks ?s2 a ts)) = blocks s |` (- set (conn_blocks s a ts))"
    using received_conn_ok [OF assms(1,2,4) r(2)] cb k(1-3) by (simp_all add: conn_ok_def)
  then obtain q where "free_proxy_info lib a ?s2 = Some (q, ?s2\<lparr>blocks := blocks s |` (- set (conn_blocks s a ts)),
      infos := (infos s1)(a := None), req_infos := req_infos s1 |` (- set ts)\<rparr>)"
    using free_proxy_info_all [of ?s2 a ts lib] k by auto
  then show ?thesis
    using r(1) rd moves_keeps(1) [OF rd(2)] k(4) assms(7)
    by (simp add: receive_parse_request_def recv_client_data_def)
qed

text \<open>
  C24: a connection that ends, because the client closes or because receiving or reallocating fails, is released completely. For
  every sequence of answers of the kernel that ends the reception so, after any number of bytes and moves of the buffer, with the buffer below 1 GB, handling
  the connection closes the client's socket and frees the connection, its buffer, every queued request and the names the requests
  hold, and nothing else: all other blocks, requests, connections and descriptors are as before.
\<close>

theorem client_close_releases:
  assumes "conn_ok s a ts" and "infos s a = Some p" and "buf_ok p (blocks s) bs"
    and "recv_answers (dom (blocks s) - set_option (client_buf p)) (replies s)"
    and "length bs + offered (replies s) + 128 \<le> 2 ^ 30" and "recv_result (replies s) \<le> 0"
  shows "\<exists>s'. receive_parse_request lib (Some a) s = Some s' \<and> closed s' = closed s @ [client_sock p] \<and>
    fds s' = fds s - {client_sock p} \<and> infos s' = (infos s)(a := None) \<and>
    blocks s' = blocks s |` (- set (conn_blocks s a ts)) \<and> req_infos s' = req_infos s |` (- set ts)"
  using connection_end [OF assms(1-3) refl assms(4-6), of lib] by blast

text \<open>A byte, a buffer that moves, and the end of the stream, with a request in the list.\<close>

theorem client_close_releases_witness:
  "\<exists>s'. receive_parse_request four_lib (Some 1) (queued_state\<lparr>replies := [Ok 50, Data [6], Ok 60, Data []]\<rparr>) = Some s' \<and>
    closed s' = [9] \<and> infos s' = Map.empty \<and> blocks s' = Map.empty \<and> req_infos s' = Map.empty"
proof -
  let ?p = "(full_conn [1, 2, 3, 4, 5])\<lparr>curr_req := Some 70, last_req := Some 70\<rparr>"
  let ?s = "queued_state\<lparr>replies := [Ok 50, Data [6], Ok 60, Data []]\<rparr>"
  have f: "client_sock ?p = 9" "closed ?s = []" "client_buf ?p = Some 50" "infos ?s = [1 \<mapsto> ?p]" "dom (blocks ?s) = {50}"
    "dom (req_infos ?s) = {70}" "replies ?s = [Ok 50, Data [6], Ok 60, Data []]"
    by (simp_all add: full_conn_def queued_state_def full_state_def new_conn_def proxy_state_def)
  have n: "conn_blocks ?s 1 [70] = [50]"
    by (simp add: conn_blocks_def f(3,4) opt_list_def names_of_def node_names_def queued_state_def)
  have "conn_ok ?s 1 [70]" using f(4,5) n by (simp add: conn_ok_def queue_ok_def queued_state_def)
  moreover have "buf_ok ?p (blocks ?s) [1, 2, 3, 4, 5]"
    by (simp add: buf_ok_def queued_state_def full_state_def full_conn_def REQUEST_BUF_SIZE_def)
  ultimately obtain s' where s': "receive_parse_request four_lib (Some 1) ?s = Some s'" "closed s' = [9]" "infos s' = (infos ?s)(1 := None)"
    "blocks s' = blocks ?s |` (- {50})" "req_infos s' = req_infos ?s |` (- {70})"
    using client_close_releases [of ?s 1 "[70]" ?p "[1, 2, 3, 4, 5]" four_lib] f n by auto
  moreover have "blocks ?s |` (- {50}) = Map.empty" "req_infos ?s |` (- {70}) = Map.empty"
    using f(5,6) by (auto simp: restrict_map_def fun_eq_iff)
  ultimately show ?thesis using f(4) by auto
qed

end
