(* ===== verification/Proxy_Poller.thy ===== *)
theory Proxy_Poller
  imports Proxy_Request
begin

section \<open>The poller and the life of a child of the HTTP proxy\<close>

text \<open>
  Models \<open>src/src/networking/himproxy/proxy_old/proxy_poller.c\<close>, the child's part of \<open>proxy_core.c\<close>
  (\<open>start_proxy\<close>, \<open>add_to_request_poller\<close>, \<open>intialize_proxy\<close>, \<open>init_workq\<close>, \<open>proxy_child_cleanup\<close>) and
  \<open>child_signal_handler\<close> of \<open>proxy_signal_handler.c\<close>. The state adds the two pollers, the registrations
  made with \<open>epoll_ctl\<close>, the entries handed to the work queues, the running poller threads and the
  arrays of events. The work queue library is outside the sources; like the kernel it answers
  each call with success or failure. \<open>epoll_wait\<close> answers with the events of each registered
  open descriptor, and those without an event are not reported.

  The lemmas show which connections a child registers and closes, that events are dispatched in order,
  that a failure to start a poller thread goes unnoticed, that an error event frees a
  connection that is still in the work queue, and that a connection queued twice is used by the second worker after the
  first has freed it.
\<close>

datatype epflag = EPOLLIN | EPOLLPRI | EPOLLOUT | EPOLLET

record poller_info =
  epoll_fd :: int
  workq :: "nat option"
  events :: cptr
  poller_id :: nat
  poller_routine :: "string option"

record registration =
  reg_epoll :: int
  reg_fd :: int
  reg_flags :: "epflag list"
  reg_data :: addr

record poll_os = proxy_os +
  g_client_poller_info :: poller_info
  g_os_poller_info :: poller_info
  watched :: "registration list"
  queued :: "(nat \<times> addr) list"
  threads :: "nat set"
  arrays :: "addr set"
  started_queues :: "(nat \<times> string) list"

definition EPOLL_MAX_EVENTS :: nat where
  "EPOLL_MAX_EVENTS = 10000"

definition EVENT_IN :: int where
  "EVENT_IN = 0"

definition EVENT_OUT :: int where
  "EVENT_OUT = 1"

definition EVENT_INOUT :: int where
  "EVENT_INOUT = 2"

subsection \<open>Library calls\<close>

text \<open>\<open>pthread_create\<close> and its kin return 0 or a positive error number.\<close>

definition sys_pthread_create :: "'a poll_os_scheme \<Rightarrow> (int \<times> nat \<times> 'a poll_os_scheme) option" where
  "sys_pthread_create s = do {
     (r, s) \<leftarrow> sys_next s;
     case r of Fail e \<Rightarrow> Some (11, 0, s)
     | Ok t \<Rightarrow> if t \<in> threads s then None else Some (0, t, s\<lparr>threads := insert t (threads s)\<rparr>)
     | _ \<Rightarrow> None }"

definition sys_pthread :: "'a os_scheme \<Rightarrow> (int \<times> 'a os_scheme) option" where
  "sys_pthread s = do {
     (r, s) \<leftarrow> sys_next s;
     case r of Fail e \<Rightarrow> Some (3, s) | Ok _ \<Rightarrow> Some (0, s) | _ \<Rightarrow> None }"

definition sys_calloc_events :: "'a poll_os_scheme \<Rightarrow> (cptr \<times> 'a poll_os_scheme) option" where
  "sys_calloc_events s = do {
     (p, s) \<leftarrow> sys_malloc s;
     case p of None \<Rightarrow> Some (None, s)
     | Some a \<Rightarrow> if a \<in> arrays s then None else Some (Some a, s\<lparr>arrays := insert a (arrays s)\<rparr>) }"

definition free_events :: "cptr \<Rightarrow> 'a poll_os_scheme \<Rightarrow> 'a poll_os_scheme option" where
  "free_events p s =
     (case p of None \<Rightarrow> Some s
      | Some a \<Rightarrow> if a \<in> arrays s then Some (s\<lparr>arrays := arrays s - {a}\<rparr>) else None)"

definition sys_epoll_wait ::
  "int \<Rightarrow> nat \<Rightarrow> 'a poll_os_scheme \<Rightarrow> (int \<times> (addr \<times> pollflag list) list \<times> 'a poll_os_scheme) option" where
  "sys_epoll_wait ep maxev s = do {
     (r, s) \<leftarrow> sys_next s;
     case r of Fail e \<Rightarrow> Some (- 1, [], s\<lparr>os_errno := e\<rparr>)
     | Polled revs \<Rightarrow> do {
         let regs = filter (\<lambda>g. reg_epoll g = ep \<and> reg_fd g \<in> fds s) (watched s);
         if length revs \<noteq> length regs then None
         else do {
           let evs = take maxev (filter (\<lambda>e. snd e \<noteq> []) (zip (map reg_data regs) revs));
           Some (int (length evs), evs, s) } }
     | _ \<Rightarrow> None }"

subsection \<open>The poller\<close>

definition create_poller_thread ::
  "poller_info option \<Rightarrow> 'a poll_os_scheme \<Rightarrow> (int \<times> poller_info option \<times> 'a poll_os_scheme) option" where
  "create_poller_thread poller s =
     (case poller of None \<Rightarrow> Some (- 1, None, s)
      | Some p \<Rightarrow> do {
          let p = (if poller_routine p = None then p\<lparr>poller_routine := Some ''proxy_default_poller''\<rparr> else p);
          (r, t, s) \<leftarrow> sys_pthread_create s;
          let p = (if r = 0 then p\<lparr>poller_id := t\<rparr> else p);
          if r < 0 then Some (- 1, Some p, s) else Some (0, Some p, s) })"

definition init_poller ::
  "poller_info option \<Rightarrow> 'a poll_os_scheme \<Rightarrow> (int \<times> poller_info option \<times> 'a poll_os_scheme) option" where
  "init_poller poller s =
     (case poller of None \<Rightarrow> Some (- 1, None, s)
      | Some p \<Rightarrow> do {
          (fd, s) \<leftarrow> sys_newfd s;
          let p = p\<lparr>epoll_fd := fd\<rparr>;
          if fd < 0 then Some (- 1, Some p, s)
          else do {
            (ev, s) \<leftarrow> sys_calloc_events s;
            let p = p\<lparr>events := ev\<rparr>;
            if ev = None then Some (- 1, Some p, sys_close (epoll_fd p) s)
            else do {
              (r, q, s) \<leftarrow> create_poller_thread (Some p) s;
              p \<leftarrow> q;
              if r < 0 then do {
                let s = sys_close (epoll_fd p) s;
                s \<leftarrow> free_events (events p) s;
                Some (- 1, Some (p\<lparr>events := None\<rparr>), s) }
              else Some (0, Some p, s) } } })"

definition destroy_poller ::
  "poller_info option \<Rightarrow> 'a poll_os_scheme \<Rightarrow> (int \<times> poller_info option \<times> 'a poll_os_scheme) option" where
  "destroy_poller poller s =
     (case poller of None \<Rightarrow> Some (- 1, None, s)
      | Some p \<Rightarrow> do {
          let s = sys_close (epoll_fd p) s;
          s \<leftarrow> free_events (events p) s;
          let p = p\<lparr>events := None\<rparr>;
          (ret, s) \<leftarrow> sys_pthread s;
          if ret \<noteq> 0 then Some (- 1, Some p, s)
          else do {
            (ret, s) \<leftarrow> sys_pthread s;
            if ret \<noteq> 0 then Some (- 1, Some p, s)
            else Some (0, Some p, s\<lparr>threads := threads s - {poller_id p}\<rparr>) } })"

definition add_to_poller ::
  "int \<Rightarrow> int \<Rightarrow> int \<Rightarrow> addr \<Rightarrow> 'a poll_os_scheme \<Rightarrow> (int \<times> 'a poll_os_scheme) option" where
  "add_to_poller ep fd event_flag data s =
     (let evs = (if event_flag = EVENT_IN then Some [EPOLLIN, EPOLLPRI, EPOLLET]
                 else if event_flag = EVENT_OUT then Some [EPOLLOUT, EPOLLET]
                 else if event_flag = EVENT_INOUT then Some [EPOLLIN, EPOLLPRI, EPOLLOUT, EPOLLET]
                 else None)
      in case evs of None \<Rightarrow> Some (- 1, s)
         | Some fl \<Rightarrow> do {
             (ret, s) \<leftarrow> sys_fdcall ep s;
             if ret < 0 then Some (ret, s)
             else Some (ret, s\<lparr>watched := watched s @
               [\<lparr>reg_epoll = ep, reg_fd = fd, reg_flags = fl, reg_data = data\<rparr>]\<rparr>) })"

definition WorkQAdd :: "nat \<Rightarrow> addr \<Rightarrow> 'a poll_os_scheme \<Rightarrow> (int \<times> 'a poll_os_scheme) option" where
  "WorkQAdd wq a s = do {
     (ret, s) \<leftarrow> sys_zero s;
     if ret \<noteq> 0 then Some (ret, s) else Some (0, s\<lparr>queued := queued s @ [(wq, a)]\<rparr>) }"

text \<open>One event: an error closes and frees the connection, anything else goes to the work queue.\<close>

fun handle_events_loop ::
  "http_lib \<Rightarrow> nat \<Rightarrow> (addr \<times> pollflag list) list \<Rightarrow> 'a poll_os_scheme \<Rightarrow> 'a poll_os_scheme option" where
  "handle_events_loop lib wq [] s = Some s"
| "handle_events_loop lib wq ((a, fl) # evs) s = do {
     p \<leftarrow> infos s a;
     s \<leftarrow> (if POLLERR \<in> set fl \<or> POLLHUP \<in> set fl
          then map_option snd (free_proxy_info lib a (sys_close (client_sock p) s))
          else map_option snd (WorkQAdd wq a s));
     handle_events_loop lib wq evs s }"

definition handle_epoll_events ::
  "http_lib \<Rightarrow> (addr \<times> pollflag list) list option \<Rightarrow> int \<Rightarrow> nat option \<Rightarrow> 'a poll_os_scheme \<Rightarrow>
   (int \<times> 'a poll_os_scheme) option" where
  "handle_epoll_events lib evs num_events wq s =
     (case (evs, wq) of
        (Some es, Some w) \<Rightarrow> do {
          s \<leftarrow> (if nat num_events > length es then None else handle_events_loop lib w (take (nat num_events) es) s);
          Some (0, s) }
      | _ \<Rightarrow> Some (- 1, s))"

text \<open>The loop ends only with the process, when waiting fails for another reason than a signal.\<close>

partial_function (option) default_poller_loop :: "http_lib \<Rightarrow> poller_info \<Rightarrow> 'a poll_os_scheme \<Rightarrow> 'a poll_os_scheme option" where
  "default_poller_loop lib p s = do {
     (ret, evs, s) \<leftarrow> sys_epoll_wait (epoll_fd p) EPOLL_MAX_EVENTS s;
     if ret < 0 then (if os_errno s = EINTR then default_poller_loop lib p s else Some s)
     else do {
       (_, s) \<leftarrow> handle_epoll_events lib (if events p = None then None else Some evs) ret (workq p) s;
       default_poller_loop lib p s } }"

definition proxy_default_poller :: "http_lib \<Rightarrow> poller_info option \<Rightarrow> 'a poll_os_scheme \<Rightarrow> 'a poll_os_scheme option" where
  "proxy_default_poller lib arg s =
     (case arg of None \<Rightarrow> Some s | Some p \<Rightarrow> default_poller_loop lib p s)"

subsection \<open>The child process\<close>

definition zero_conn :: proxy_info where
  "zero_conn = \<lparr>client_sock = 0, client_addr = (0, 0), client_buf = None, client_buf_size = 0,
     client_buf_curr_len = 0, client_buf_parsed_len = 0, curr_req = None, last_req = None, os_sock = 0\<rparr>"

text \<open>The result of \<open>calloc\<close> for the connection is used without a test.\<close>

definition add_to_request_poller ::
  "http_lib \<Rightarrow> int \<Rightarrow> nat \<times> nat \<Rightarrow> 'a poll_os_scheme \<Rightarrow> (int \<times> 'a poll_os_scheme) option" where
  "add_to_request_poller lib sock peer s = do {
     (r, s) \<leftarrow> proxy_set_socket_non_blocking (Some sock) s;
     if r < 0 then Some (- 1, s)
     else do {
       (_, s) \<leftarrow> sys_fdcall sock s;
       (p, s) \<leftarrow> sys_malloc s;
       a \<leftarrow> p;
       if a \<in> dom (infos s) then None
       else do {
         let s = s\<lparr>infos := (infos s)(a \<mapsto> zero_conn\<lparr>client_sock := sock, client_addr := peer\<rparr>)\<rparr>;
         (r, s) \<leftarrow> add_to_poller (epoll_fd (g_client_poller_info s)) sock EVENT_IN a s;
         if r < 0 then do { (_, s) \<leftarrow> free_proxy_info lib a s; Some (- 1, s) }
         else Some (0, s) } } }"

text \<open>\<open>WorkQInit\<close> starts a queue whose entries are handled by the named routine.\<close>

definition WorkQInit :: "nat \<Rightarrow> string \<Rightarrow> 'a poll_os_scheme \<Rightarrow> (int \<times> 'a poll_os_scheme) option" where
  "WorkQInit wq routine s = do {
     (ret, s) \<leftarrow> sys_zero s;
     if ret \<noteq> 0 then Some (ret, s) else Some (0, s\<lparr>started_queues := started_queues s @ [(wq, routine)]\<rparr>) }"

definition g_parse_request_workq :: nat where "g_parse_request_workq = 0"
definition g_forward_request_workq :: nat where "g_forward_request_workq = 1"
definition g_parse_response_workq :: nat where "g_parse_response_workq = 2"

definition init_workq :: "'a poll_os_scheme \<Rightarrow> (int \<times> 'a poll_os_scheme) option" where
  "init_workq s = do {
     (r, s) \<leftarrow> WorkQInit g_parse_request_workq ''receive_parse_request'' s;
     if r \<noteq> 0 then Some (- 1, s)
     else do {
       (r, s) \<leftarrow> WorkQInit g_forward_request_workq ''forward_request'' s;
       if r \<noteq> 0 then Some (- 1, s)
       else do {
         (r, s) \<leftarrow> WorkQInit g_parse_response_workq ''receive_parse_response'' s;
         if r \<noteq> 0 then Some (- 1, s) else Some (0, s) } } }"

definition intialize_proxy :: "'a poll_os_scheme \<Rightarrow> (int \<times> 'a poll_os_scheme) option" where
  "intialize_proxy s = do {
     (r, s) \<leftarrow> init_workq s;
     if r < 0 then Some (- 1, s)
     else do {
       let s = s\<lparr>g_client_poller_info := (g_client_poller_info s)
         \<lparr>workq := Some g_parse_request_workq, poller_routine := Some ''proxy_default_poller''\<rparr>\<rparr>;
       let s = s\<lparr>g_os_poller_info := (g_os_poller_info s)
         \<lparr>workq := Some g_parse_response_workq, poller_routine := Some ''proxy_default_poller''\<rparr>\<rparr>;
       (r, q, s) \<leftarrow> init_poller (Some (g_client_poller_info s)) s;
       p \<leftarrow> q;
       let s = s\<lparr>g_client_poller_info := p\<rparr>;
       if r < 0 then Some (- 1, s)
       else do {
         (r, q, s) \<leftarrow> init_poller (Some (g_os_poller_info s)) s;
         p \<leftarrow> q;
         let s = s\<lparr>g_os_poller_info := p\<rparr>;
         if r < 0 then Some (- 1, s) else Some (0, s) } } }"

text \<open>The accept loop; the peer address is whatever the kernel reports. It ends with \<open>_exit\<close>.\<close>

partial_function (option) accept_loop :: "http_lib \<Rightarrow> nat \<times> nat \<Rightarrow> 'a poll_os_scheme \<Rightarrow> 'a poll_os_scheme option" where
  "accept_loop lib peer s = do {
     (sock, s) \<leftarrow> sys_newfd s;
     if sock < 0 then (if os_errno s = EINTR then accept_loop lib peer s else Some s)
     else do {
       (r, s) \<leftarrow> add_to_request_poller lib sock peer s;
       accept_loop lib peer (if r < 0 then sys_close sock s else s) } }"

definition start_proxy :: "http_lib \<Rightarrow> nat \<times> nat \<Rightarrow> 'a poll_os_scheme \<Rightarrow> 'a poll_os_scheme option" where
  "start_proxy lib peer s = do {
     (r, s) \<leftarrow> register_all_signal_handler ''child_signal_handler'' s;
     if r < 0 then Some s
     else do {
       (r, s) \<leftarrow> intialize_proxy s;
       if r < 0 then Some s else accept_loop lib peer s } }"

definition proxy_child_cleanup :: "'a poll_os_scheme \<Rightarrow> (int \<times> 'a poll_os_scheme) option" where
  "proxy_child_cleanup s = do {
     let s = sys_close (g_server_sock s) s;
     (_, q, s) \<leftarrow> destroy_poller (Some (g_client_poller_info s)) s;
     p \<leftarrow> q;
     let s = s\<lparr>g_client_poller_info := p\<rparr>;
     (_, q, s) \<leftarrow> destroy_poller (Some (g_os_poller_info s)) s;
     p \<leftarrow> q;
     let s = s\<lparr>g_os_poller_info := p\<rparr>;
     Some (0, s) }"

definition child_signal_handler :: "int \<Rightarrow> 'a poll_os_scheme \<Rightarrow> 'a poll_os_scheme option" where
  "child_signal_handler signum s = do {
     (_, s) \<leftarrow> proxy_child_cleanup s;
     Some (s\<lparr>handlers := (handlers s)(signum := None), raised := raised s @ [signum]\<rparr>) }"

subsection \<open>Releasing touches only the heap\<close>

lemma free_block_frame: "free_block p s = Some s' \<Longrightarrow> \<exists>bl. s' = s\<lparr>blocks := bl\<rparr>"
  by (auto simp: free_block_def split: option.splits if_splits intro: exI [of _ "blocks s"])

lemma free_req_info_frame: "free_proxy_req_info lib t s = Some (r, s') \<Longrightarrow> \<exists>bl rq. s' = s\<lparr>blocks := bl, req_infos := rq\<rparr>"
  by (auto simp: free_proxy_req_info_def Let_def elim!: bind_SomeE dest!: free_block_frame) blast

lemma free_req_loop_frame:
  assumes "free_req_loop lib cur ret s = Some y"
  shows "\<exists>bl rq. snd y = s\<lparr>blocks := bl, req_infos := rq\<rparr>"
proof (rule free_req_loop.raw_induct [OF _ assms])
  fix loop lib cur ret s y
  assume 1: "\<And>lib cur ret s y. loop lib cur ret s = Some y \<Longrightarrow> \<exists>bl rq. snd y = s\<lparr>blocks := bl, req_infos := rq\<rparr>"
    "(case cur of None \<Rightarrow> Some (ret, s) | Some t \<Rightarrow> do { n \<leftarrow> req_infos s t; (rv, s') \<leftarrow> free_proxy_req_info lib t s;
       loop lib (req_next n) (if rv < 0 then - 1 else ret) s' }) = Some y"
  show "\<exists>bl rq. snd y = s\<lparr>blocks := bl, req_infos := rq\<rparr>"
  proof (cases cur)
    case None
    then show ?thesis using 1(2) by (intro exI [of _ "blocks s"] exI [of _ "req_infos s"]) auto
  next
    case (Some t)
    then obtain n rv s1 where n: "req_infos s t = Some n" "free_proxy_req_info lib t s = Some (rv, s1)"
      "loop lib (req_next n) (if rv < 0 then - 1 else ret) s1 = Some y"
      using 1(2) by (auto elim!: bind_SomeE)
    obtain bl rq where "s1 = s\<lparr>blocks := bl, req_infos := rq\<rparr>" using free_req_info_frame [OF n(2)] by blast
    then show ?thesis using 1(1) [OF n(3)] by auto
  qed
qed

lemma free_proxy_info_frame:
  assumes "free_proxy_info lib a s = Some (r, s')"
  shows "\<exists>bl rq. s' = s\<lparr>blocks := bl, req_infos := rq, infos := (infos s)(a := None)\<rparr>"
  using assms
  by (auto simp: free_proxy_info_def free_proxy_req_list_def Let_def elim!: bind_SomeE
    dest!: free_block_frame free_req_loop_frame) blast

subsection \<open>Dispatching events\<close>

definition is_error :: "addr \<times> pollflag list \<Rightarrow> bool" where
  "is_error e \<longleftrightarrow> POLLERR \<in> set (snd e) \<or> POLLHUP \<in> set (snd e)"

text \<open>
  The connections with events own disjoint parts of the heap; \<open>T a\<close> are the request nodes of the connection \<open>a\<close>.
\<close>

definition conns_ok :: "'a proxy_os_scheme \<Rightarrow> (addr \<Rightarrow> addr list) \<Rightarrow> addr list \<Rightarrow> bool" where
  "conns_ok s T as \<longleftrightarrow> distinct as \<and> list_all (\<lambda>a. conn_ok s a (T a)) as \<and> distinct (concat (map T as)) \<and>
     distinct (concat (map (\<lambda>a. conn_blocks s a (T a)) as))"

lemma conn_ok_frame:
  assumes "conn_ok s a ts" "infos s' a = infos s a" "\<And>t. t \<in> set ts \<Longrightarrow> req_infos s' t = req_infos s t"
    and "set (conn_blocks s a ts) \<subseteq> dom (blocks s')"
  shows "conn_ok s' a ts \<and> conn_blocks s' a ts = conn_blocks s a ts"
proof -
  obtain p where p: "infos s a = Some p" "queue_ok p (req_infos s) ts" using assms(1) by (auto simp: conn_ok_def)
  have n: "names_of (req_infos s') ts = names_of (req_infos s) ts" using assms(3) by (rule names_of_cong)
  have c: "conn_blocks s' a ts = conn_blocks s a ts" using assms(2) p(1) n by (simp add: conn_blocks_def)
  have "list_at (req_infos s') (curr_req p) ts" using p(2) assms(3) by (auto simp: queue_ok_def intro: list_at_cong)
  then have "queue_ok p (req_infos s') ts" using p(2) by (simp add: queue_ok_def)
  then show ?thesis using assms(1,2,4) p(1) c by (simp add: conn_ok_def)
qed

lemma conns_ok_tl:
  assumes "conns_ok s T (a # as)"
    and "infos s' = (infos s)(a := None) \<or> infos s' = infos s"
    and "\<And>t. t \<notin> set (T a) \<Longrightarrow> req_infos s' t = req_infos s t"
    and "dom (blocks s) - set (conn_blocks s a (T a)) \<subseteq> dom (blocks s')"
  shows "conns_ok s' T as \<and> (\<forall>b\<in>set as. conn_blocks s' b (T b) = conn_blocks s b (T b) \<and> infos s' b = infos s b)"
proof -
  have each: "conn_ok s' b (T b) \<and> conn_blocks s' b (T b) = conn_blocks s b (T b) \<and> infos s' b = infos s b" if "b \<in> set as" for b
  proof -
    have ab: "b \<noteq> a" "set (T b) \<inter> set (T a) = {}" "set (conn_blocks s b (T b)) \<inter> set (conn_blocks s a (T a)) = {}" "conn_ok s b (T b)"
      using assms(1) that by (auto simp: conns_ok_def list_all_iff)
    have i: "infos s' b = infos s b" using assms(2) ab(1) by auto
    have "set (conn_blocks s b (T b)) \<subseteq> dom (blocks s')" using ab(3,4) assms(4) unfolding conn_ok_def by blast
    then show ?thesis using conn_ok_frame [of s b "T b" s'] ab(2,4) assms(3) i by blast
  qed
  then have m: "map (\<lambda>b. conn_blocks s' b (T b)) as = map (\<lambda>b. conn_blocks s b (T b)) as" by simp
  show ?thesis using assms(1) each unfolding conns_ok_def m list_all_iff by simp
qed

text \<open>What the work queue answers to the entries offered to it, and the entries it has accepted.\<close>

fun queue_answer :: "reply \<Rightarrow> bool" where
  "queue_answer (Ok n) = True" | "queue_answer (Fail e) = True" | "queue_answer _ = False"

fun accepted :: "reply \<Rightarrow> bool" where
  "accepted (Ok n) = True" | "accepted _ = False"

definition entries :: "nat \<Rightarrow> (addr \<times> pollflag list) list \<Rightarrow> reply list \<Rightarrow> (nat \<times> addr) list" where
  "entries w evs rs = map (\<lambda>(e, r). (w, fst e)) (filter (\<lambda>(e, r). accepted r) (zip (filter (\<lambda>e. \<not> is_error e) evs) rs))"

text \<open>The blocks and the nodes of the connections with an error.\<close>

definition error_conns :: "(addr \<times> pollflag list) list \<Rightarrow> addr list" where
  "error_conns evs = map fst (filter is_error evs)"

lemma error_event_effect:
  assumes "conns_ok s T (map fst ((a, fl) # evs))" "is_error (a, fl)" "infos s a = Some p"
  shows "\<exists>s1. handle_events_loop lib w ((a, fl) # evs) s = handle_events_loop lib w evs s1 \<and>
    closed s1 = closed s @ [client_sock p] \<and> fds s1 = fds s - {client_sock p} \<and> queued s1 = queued s \<and> replies s1 = replies s \<and>
    infos s1 = (infos s)(a := None) \<and> blocks s1 = blocks s |` (- set (conn_blocks s a (T a))) \<and>
    req_infos s1 = req_infos s |` (- set (T a))"
proof -
  let ?s = "sys_close (client_sock p) s"
  have k: "infos ?s = infos s" "blocks ?s = blocks s" "req_infos ?s = req_infos s" "queued ?s = queued s" by (simp_all add: sys_close_def)
  have "conn_ok s a (T a)" using assms(1) by (simp add: conns_ok_def)
  then have "conn_ok ?s a (T a) \<and> conn_blocks ?s a (T a) = conn_blocks s a (T a)"
    using conn_ok_frame [of s a "T a" ?s] k by (simp add: conn_ok_def)
  then obtain r where f: "free_proxy_info lib a ?s = Some (r, ?s\<lparr>blocks := blocks s |` (- set (conn_blocks s a (T a))),
      infos := (infos s)(a := None), req_infos := req_infos s |` (- set (T a))\<rparr>)"
    using free_proxy_info_all [of ?s a "T a" lib] k by auto
  show ?thesis
    by (rule exI [of _ "?s\<lparr>blocks := blocks s |` (- set (conn_blocks s a (T a))), infos := (infos s)(a := None),
        req_infos := req_infos s |` (- set (T a))\<rparr>"])
      (use assms(2,3) f k in \<open>simp add: is_error_def\<close>)
qed

lemma queue_event_effect:
  assumes "infos s a = Some p" "\<not> is_error (a, fl)" "replies s = r # rs" "queue_answer r"
  shows "\<exists>s1 err. handle_events_loop lib w ((a, fl) # evs) s = handle_events_loop lib w evs s1 \<and>
    s1 = s\<lparr>replies := rs, os_errno := err, queued := queued s @ (if accepted r then [(w, a)] else [])\<rparr>"
  using assms by (cases r) (auto simp: is_error_def WorkQAdd_def sys_zero_def sys_next_def
      intro!: exI [of _ "os_errno s"] exI arg_cong [of _ _ "handle_events_loop lib w evs"] poll_os.equality)

lemma handle_events_loop_dispatches:
  "conns_ok s T (map fst evs) \<Longrightarrow> replies s = rs @ rest \<Longrightarrow> list_all queue_answer rs \<Longrightarrow>
   length rs = length (filter (\<lambda>e. \<not> is_error e) evs) \<Longrightarrow>
   \<exists>s'. handle_events_loop lib w evs s = Some s' \<and> replies s' = rest \<and> queued s' = queued s @ entries w evs rs \<and>
     closed s' = closed s @ map (\<lambda>a. client_sock (the (infos s a))) (error_conns evs) \<and>
     fds s' = fds s - (\<lambda>a. client_sock (the (infos s a))) ` set (error_conns evs) \<and>
     infos s' = infos s |` (- set (error_conns evs)) \<and>
     blocks s' = blocks s |` (- (\<Union>a\<in>set (error_conns evs). set (conn_blocks s a (T a)))) \<and>
     req_infos s' = req_infos s |` (- (\<Union>a\<in>set (error_conns evs). set (T a)))"
proof (induction evs arbitrary: s rs)
  case Nil
  then show ?case by (simp add: entries_def error_conns_def)
next
  case (Cons e evs)
  obtain a fl where e: "e = (a, fl)" by fastforce
  obtain p where p: "infos s a = Some p" using Cons.prems(1) e by (auto simp: conns_ok_def conn_ok_def)
  have sub: "set (error_conns evs) \<subseteq> set (map fst evs)" by (auto simp: error_conns_def)
  have anew: "a \<notin> set (map fst evs)" using Cons.prems(1) e by (simp add: conns_ok_def)
  show ?case
  proof (cases "is_error e")
    case True
    obtain s1 where s1: "handle_events_loop lib w (e # evs) s = handle_events_loop lib w evs s1"
      "closed s1 = closed s @ [client_sock p]" "fds s1 = fds s - {client_sock p}" "queued s1 = queued s" "replies s1 = replies s"
      "infos s1 = (infos s)(a := None)" "blocks s1 = blocks s |` (- set (conn_blocks s a (T a)))"
      "req_infos s1 = req_infos s |` (- set (T a))"
      using error_event_effect [of s T a fl evs p lib w] Cons.prems(1) True p e by auto
    have tl: "conns_ok s1 T (map fst evs)" "\<forall>b\<in>set (map fst evs). conn_blocks s1 b (T b) = conn_blocks s b (T b) \<and> infos s1 b = infos s b"
    proof -
      have "dom (blocks s) - set (conn_blocks s a (T a)) \<subseteq> dom (blocks s1)" using s1(7) by auto
      then have "conns_ok s1 T (map fst evs) \<and> (\<forall>b\<in>set (map fst evs). conn_blocks s1 b (T b) = conn_blocks s b (T b) \<and> infos s1 b = infos s b)"
        using conns_ok_tl [of s T a "map fst evs" s1] Cons.prems(1) s1(6,8) e by simp
      then show "conns_ok s1 T (map fst evs)" "\<forall>b\<in>set (map fst evs). conn_blocks s1 b (T b) = conn_blocks s b (T b) \<and> infos s1 b = infos s b" by blast+
    qed
    obtain s' where s': "handle_events_loop lib w evs s1 = Some s'" "replies s' = rest" "queued s' = queued s1 @ entries w evs rs"
      "closed s' = closed s1 @ map (\<lambda>a. client_sock (the (infos s1 a))) (error_conns evs)"
      "fds s' = fds s1 - (\<lambda>a. client_sock (the (infos s1 a))) ` set (error_conns evs)"
      "infos s' = infos s1 |` (- set (error_conns evs))"
      "blocks s' = blocks s1 |` (- (\<Union>a\<in>set (error_conns evs). set (conn_blocks s1 a (T a))))"
      "req_infos s' = req_infos s1 |` (- (\<Union>a\<in>set (error_conns evs). set (T a)))"
      using Cons.IH [OF tl(1), of rs] Cons.prems(2-4) True s1(5) by auto
    have ek: "conn_blocks s1 b (T b) = conn_blocks s b (T b)" "infos s1 b = infos s b" if "b \<in> set (error_conns evs)" for b
      using tl(2) sub that by blast+
    have same: "map (\<lambda>a. client_sock (the (infos s1 a))) (error_conns evs) = map (\<lambda>a. client_sock (the (infos s a))) (error_conns evs)"
      "(\<lambda>a. client_sock (the (infos s1 a))) ` set (error_conns evs) = (\<lambda>a. client_sock (the (infos s a))) ` set (error_conns evs)"
      "(\<Union>a\<in>set (error_conns evs). set (conn_blocks s1 a (T a))) = (\<Union>a\<in>set (error_conns evs). set (conn_blocks s a (T a)))"
      using ek by simp_all
    have ec: "error_conns (e # evs) = a # error_conns evs" "entries w (e # evs) rs = entries w evs rs"
      using True e by (simp_all add: error_conns_def entries_def)
    have "infos s1 |` (- set (error_conns evs)) = infos s |` (- set (error_conns (e # evs)))"
      using s1(6) ec(1) by (auto simp: restrict_map_def)
    then show ?thesis using s1 s' p ec same by (auto simp: restrict_blocks)
  next
    case False
    then obtain r rs' where rs: "rs = r # rs'" using Cons.prems(4) by (cases rs) auto
    let ?n = "if accepted r then [(w, a)] else []"
    obtain s1 err where s1: "handle_events_loop lib w (e # evs) s = handle_events_loop lib w evs s1"
      "s1 = s\<lparr>replies := rs' @ rest, os_errno := err, queued := queued s @ ?n\<rparr>"
      using queue_event_effect [of s a p fl r "rs' @ rest" lib w evs] Cons.prems(2,3) False p rs e by auto
    have k: "infos s1 = infos s" "blocks s1 = blocks s" "req_infos s1 = req_infos s" "closed s1 = closed s" "fds s1 = fds s"
      "queued s1 = queued s @ ?n" "replies s1 = rs' @ rest"
      using s1(2) by simp_all
    have cb: "conn_blocks s1 b ts = conn_blocks s b ts" for b ts by (simp add: conn_blocks_def k(1,3) cong: option.case_cong)
    have tl: "conns_ok s1 T (map fst evs)" using conns_ok_tl [of s T a "map fst evs" s1] Cons.prems(1) k(1-3) e by auto
    obtain s' where s': "handle_events_loop lib w evs s1 = Some s'" "replies s' = rest" "queued s' = queued s1 @ entries w evs rs'"
      "closed s' = closed s1 @ map (\<lambda>a. client_sock (the (infos s1 a))) (error_conns evs)"
      "fds s' = fds s1 - (\<lambda>a. client_sock (the (infos s1 a))) ` set (error_conns evs)"
      "infos s' = infos s1 |` (- set (error_conns evs))"
      "blocks s' = blocks s1 |` (- (\<Union>a\<in>set (error_conns evs). set (conn_blocks s1 a (T a))))"
      "req_infos s' = req_infos s1 |` (- (\<Union>a\<in>set (error_conns evs). set (T a)))"
      using Cons.IH [OF tl k(7)] Cons.prems(3,4) False rs by auto
    have "error_conns (e # evs) = error_conns evs" "entries w (e # evs) rs = ?n @ entries w evs rs'"
      using False rs e by (simp_all add: error_conns_def entries_def)
    then show ?thesis using s1(1) s' k cb by simp
  qed
qed

text \<open>
  C27: the events reported for distinct connections, whatever they have received and queued, are handled in order. Those without an error are offered
  to the work queue, one entry each, and the entries the work queue accepts are appended to it; a refused one is dropped. Those with an error close their socket and
  release their connection: its buffer, its request nodes and the names in them are freed, and
  the other connections, blocks, nodes and descriptors are kept.
\<close>

theorem epoll_events_dispatched:
  assumes "conns_ok s T (map fst evs)" and "replies s = rs @ rest" and "list_all queue_answer rs"
    and "length rs = length (filter (\<lambda>e. \<not> is_error e) evs)"
  shows "\<exists>s'. handle_epoll_events lib (Some evs) (int (length evs)) (Some w) s = Some (0, s') \<and>
     queued s' = queued s @ entries w evs rs \<and>
     closed s' = closed s @ map (\<lambda>a. client_sock (the (infos s a))) (error_conns evs) \<and>
     fds s' = fds s - (\<lambda>a. client_sock (the (infos s a))) ` set (error_conns evs) \<and>
     infos s' = infos s |` (- set (error_conns evs)) \<and>
     blocks s' = blocks s |` (- (\<Union>a\<in>set (error_conns evs). set (conn_blocks s a (T a)))) \<and>
     req_infos s' = req_infos s |` (- (\<Union>a\<in>set (error_conns evs). set (T a)))"
  using handle_events_loop_dispatches [OF assms, of lib w] by (auto simp: handle_epoll_events_def)

text \<open>
  An error event on a connection whose earlier event is still waiting in the work queue frees the
  connection and leaves the entry: the worker that takes it uses freed memory.
\<close>

theorem error_event_frees_queued:
  assumes "handle_epoll_events lib (Some [(a, fl)]) 1 (Some w) s = Some (r, s')"
    and "POLLERR \<in> set fl \<or> POLLHUP \<in> set fl" and "(w, a) \<in> set (queued s)"
  shows "(w, a) \<in> set (queued s') \<and> infos s' a = None \<and> receive_parse_request lib (Some a) s' = None"
proof -
  obtain p q where "infos s a = Some p" "free_proxy_info lib a (sys_close (client_sock p) s) = Some (q, s')"
    using assms(1,2) by (auto simp: handle_epoll_events_def elim!: bind_SomeE)
  then obtain bl rq where "s' = (sys_close (client_sock p) s)\<lparr>blocks := bl, req_infos := rq,
      infos := (infos (sys_close (client_sock p) s))(a := None)\<rparr>"
    using free_proxy_info_frame by blast
  then have "queued s' = queued s" "infos s' a = None" by (simp_all add: sys_close_def)
  then show ?thesis using assms(3)
    by (simp add: receive_parse_request_def recv_client_data_def recv_client_loop.simps)
qed

subsection \<open>Starting the poller\<close>

text \<open>
  \<open>pthread_create\<close> reports a failure with a positive number, which the test for a negative
  one misses: the poller counts as started although no thread runs.
\<close>

lemma poller_thread_failure_unnoticed:
  assumes "replies s = Ok n # Ok ev # Fail e # rest" and "int n \<notin> fds s" and "ev \<notin> arrays s"
  shows "\<exists>p' s'. init_poller (Some p) s = Some (0, Some p', s') \<and> threads s' = threads s \<and> epoll_fd p' = int n"
  using assms by (simp add: init_poller_def create_poller_thread_def sys_newfd_def sys_next_def
    sys_calloc_events_def sys_malloc_def sys_pthread_create_def Let_def)


definition poll_state :: "(addr \<rightharpoonup> proxy_info) \<Rightarrow> (nat \<times> addr) list \<Rightarrow> reply list \<Rightarrow> poll_os" where
  "poll_state is qs rs = proxy_os.extend (proxy_state is rs)
     (poll_os.fields \<lparr>epoll_fd = 4, workq = Some 0, events = Some 1, poller_id = 0, poller_routine = None\<rparr>
       \<lparr>epoll_fd = 5, workq = Some 2, events = Some 2, poller_id = 1, poller_routine = None\<rparr> [] qs {0, 1} {1, 2} [])"

lemma poll_state_fields [simp]:
  "infos (poll_state is qs rs) = is" "queued (poll_state is qs rs) = qs" "replies (poll_state is qs rs) = rs"
  "closed (poll_state is qs rs) = []"
  by (simp_all add: poll_state_def proxy_os.defs poll_os.defs proxy_state_def)

theorem epoll_events_dispatched_witness:
  "\<exists>s'. handle_epoll_events four_lib (Some [(1, [POLLIN]), (2, [POLLHUP])]) 2 (Some 0)
      ((poll_state [1 \<mapsto> new_conn 9, 2 \<mapsto> (new_conn 10)\<lparr>client_buf := Some 50\<rparr>] [] [Ok 0])\<lparr>blocks := [50 \<mapsto> []]\<rparr>) = Some (0, s') \<and>
    queued s' = [(0, 1)] \<and> closed s' = [10] \<and> infos s' 2 = None \<and> blocks s' = Map.empty"
proof -
  let ?s = "(poll_state [1 \<mapsto> new_conn 9, 2 \<mapsto> (new_conn 10)\<lparr>client_buf := Some 50\<rparr>] [] [Ok 0])\<lparr>blocks := [50 \<mapsto> []]\<rparr>"
  let ?evs = "[(1, [POLLIN]), (2, [POLLHUP])]"
  have c: "conn_blocks ?s 1 [] = []" "conn_blocks ?s 2 [] = [50]"
    by (simp_all add: conn_blocks_def opt_list_def names_of_def new_conn_def)
  have "conns_ok ?s (\<lambda>_. []) (map fst ?evs)" using c by (simp add: conns_ok_def conn_ok_def queue_ok_def new_conn_def)
  moreover have "error_conns ?evs = [2]" "entries 0 ?evs [Ok 0] = [(0, 1)]" "length (filter (\<lambda>e. \<not> is_error e) ?evs) = 1"
    by (simp_all add: error_conns_def entries_def is_error_def)
  moreover have "[50 \<mapsto> []] |` (- {50}) = Map.empty" by (auto simp: restrict_map_def)
  ultimately show ?thesis
    using epoll_events_dispatched [of ?s "\<lambda>_. []" ?evs "[Ok 0]" "[]" four_lib 0] c(2) by (auto simp: new_conn_def)
qed

theorem error_event_frees_queued_witness:
  "\<exists>s'. handle_epoll_events four_lib (Some [(1, [POLLERR])]) 1 (Some 0) (poll_state [1 \<mapsto> new_conn 9] [(0, 1)] []) =
      Some (0, s') \<and> (0, 1) \<in> set (queued s') \<and> receive_parse_request four_lib (Some 1) s' = None"
proof -
  let ?s = "poll_state [1 \<mapsto> new_conn 9] [(0, 1)] []"
  have "infos (sys_close 9 ?s) = [1 \<mapsto> new_conn 9]" by (simp add: sys_close_def)
  then have "\<exists>s'. handle_epoll_events four_lib (Some [(1, [POLLERR])]) 1 (Some 0) ?s = Some (0, s')"
    by (simp add: handle_epoll_events_def new_conn_def free_proxy_info_def free_block_def
      free_proxy_req_list_def free_req_loop.simps)
  then show ?thesis using error_event_frees_queued [of four_lib 1 "[POLLERR]" 0 ?s 0] by auto
qed

subsection \<open>Two entries of one connection\<close>

text \<open>
  Nothing keeps the poller from queueing a connection again while its first entry waits. A worker takes the first entry of the
  queue; the answers of the kernel to its calls are \<open>rs\<close>.
\<close>

definition worker_turn :: "http_lib \<Rightarrow> reply list \<Rightarrow> 'a poll_os_scheme \<Rightarrow> 'a poll_os_scheme option" where
  "worker_turn lib rs s = (case queued s of [] \<Rightarrow> None
     | (w, a) # q \<Rightarrow> receive_parse_request lib (Some a) (s\<lparr>queued := q, replies := rs\<rparr>))"

text \<open>A worker that reads a byte and then finds the connection closed releases it and leaves the rest of the queue.\<close>

lemma close_new_connection:
  assumes p: "infos s a = Some p" "client_buf p = None" "client_buf_size p = 0" "client_buf_curr_len p = 0" "curr_req p = None"
    and r: "replies s = Ok b # Data [c] # Ok b # Data [] # rest" and b: "blocks s b = None"
  shows "\<exists>s'. receive_parse_request lib (Some a) s = Some s' \<and> infos s' = (infos s)(a := None) \<and> queued s' = queued s \<and>
    closed s' = closed s @ [client_sock p] \<and> blocks s' = blocks s"
proof -
  have d: "b \<notin> dom (blocks s)" using b by auto
  show ?thesis
    using p r b d
    by (simp add: receive_parse_request_def recv_client_data_def recv_client_loop.simps alloc_client_buf_def sys_realloc_def
        sys_next_def recv_into_def sys_recv_upto_def REQUEST_BUF_SIZE_def REALLOC_LIMIT_def free_proxy_info_def free_block_def
        free_proxy_req_list_def free_req_loop.simps sys_close_def fun_upd_idem)
qed

text \<open>
  A client connects, sends a byte and closes: two calls of \<open>epoll_wait\<close> report an event before a worker runs, the first worker releases the connection, and
  the second entry is left to a worker that uses freed memory.
\<close>

lemma second_entry_dangles:
  assumes p: "infos s a = Some p" "client_buf p = None" "client_buf_size p = 0" "client_buf_curr_len p = 0" "curr_req p = None"
    and r: "replies s = [Ok n, Ok m]" and q: "queued s = []" and b: "blocks s b = None"
  shows "\<exists>s0 s1 s2. handle_epoll_events lib (Some [(a, [POLLIN])]) 1 (Some w) s = Some (0, s0) \<and>
    handle_epoll_events lib (Some [(a, [POLLIN])]) 1 (Some w) s0 = Some (0, s1) \<and>
    worker_turn lib [Ok b, Data [c], Ok b, Data []] s1 = Some s2 \<and> queued s2 = [(w, a)] \<and> infos s2 a = None \<and>
    (\<forall>rs. worker_turn lib rs s2 = None)"
proof -
  define s1 where "s1 = s\<lparr>replies := [], queued := [(w, a), (w, a)]\<rparr>"
  have h: "\<exists>s0. handle_epoll_events lib (Some [(a, [POLLIN])]) 1 (Some w) s = Some (0, s0) \<and>
      handle_epoll_events lib (Some [(a, [POLLIN])]) 1 (Some w) s0 = Some (0, s1)"
    using p(1) r q by (simp add: handle_epoll_events_def WorkQAdd_def sys_zero_def sys_next_def s1_def)
  have "infos (s1\<lparr>queued := [(w, a)], replies := [Ok b, Data [c], Ok b, Data []]\<rparr>) a = Some p"
    "replies (s1\<lparr>queued := [(w, a)], replies := [Ok b, Data [c], Ok b, Data []]\<rparr>) = [Ok b, Data [c], Ok b, Data []]"
    "blocks (s1\<lparr>queued := [(w, a)], replies := [Ok b, Data [c], Ok b, Data []]\<rparr>) b = None"
    using p(1) b by (simp_all add: s1_def)
  from close_new_connection [OF this(1) p(2-5) this(2,3), of lib]
  obtain s2 where s2: "receive_parse_request lib (Some a) (s1\<lparr>queued := [(w, a)], replies := [Ok b, Data [c], Ok b, Data []]\<rparr>) = Some s2"
      "infos s2 a = None" "queued s2 = [(w, a)]"
    by auto
  moreover have "worker_turn lib rs s2 = None" for rs
    using s2(2,3) by (simp add: worker_turn_def receive_parse_request_def recv_client_data_def recv_client_loop.simps)
  moreover have "worker_turn lib [Ok b, Data [c], Ok b, Data []] s1 = Some s2" using s2(1) by (simp add: worker_turn_def s1_def)
  ultimately show ?thesis using h by blast
qed

end
