(* ===== verification/Sproxy_Core.thy ===== *)
theory Sproxy_Core
  imports Sproxy_Net
begin

section \<open>The splicing proxy\<close>

text \<open>
  Models \<open>sproxy_splice.c\<close>, \<open>sproxy_core.c\<close> and \<open>sproxy_main.c\<close> of
  \<open>src/src/networking/splice/sp_trans_proxy/src\<close>. A tunnel copies what the client sends through a
  buffer and moves what the origin server sends through a pipe with \<open>splice\<close>. The process state is
  extended with the bytes in the pipe of the tunnel, the heap of \<open>Proxy_Info\<close> structures and the
  contents of the work queue; the queue library is not in the repository, so adding to it is a
  parameter.

  The lemmas show that every byte is forwarded once and in order, which bytes can be lost when a
  tunnel ends, and which descriptors are closed.
\<close>

record Proxy_Info =
  client_socket :: int
  client_ip :: string
  client_port :: int
  os_socket :: int

record sp_os = os +
  pipe_buf :: "u8 list"
  infos :: "addr \<rightharpoonup> Proxy_Info"
  tunnel_workq :: "addr list"

definition MAX_LENGTH :: nat where
  "MAX_LENGTH = 8192"

subsection \<open>Splicing\<close>

text \<open>\<open>splice\<close> from a socket into the pipe and from the pipe into a socket.\<close>

definition sys_splice_in :: "int \<Rightarrow> nat \<Rightarrow> 'a sp_os_scheme \<Rightarrow> (int \<times> 'a sp_os_scheme) option" where
  "sys_splice_in fd len s = do {
     (n, bs, s) \<leftarrow> sys_recv fd len s;
     Some (n, s\<lparr>pipe_buf := pipe_buf s @ bs\<rparr>) }"

definition sys_splice_out :: "int \<Rightarrow> nat \<Rightarrow> 'a sp_os_scheme \<Rightarrow> (int \<times> 'a sp_os_scheme) option" where
  "sys_splice_out fd len s = do {
     (n, s) \<leftarrow> sys_send fd (take len (pipe_buf s)) s;
     Some (n, s\<lparr>pipe_buf := drop (nat n) (pipe_buf s)\<rparr>) }"

function splice_with_poll :: "int \<Rightarrow> nat \<Rightarrow> 'a sp_os_scheme \<Rightarrow> (int \<times> 'a sp_os_scheme) option" where
  "splice_with_poll fd_out len s = do {
     (ret, revents, s') \<leftarrow> sys_poll 1 s;
     if ret < 0 then
       (if os_errno s' = EINTR then splice_with_poll fd_out len s' else Some (- 1, s'))
     else if ret = 0 then Some (- 1, s')
     else if POLLOUT \<in> set (concat revents) then do {
       (ret, s'') \<leftarrow> sys_splice_out fd_out len s';
       if ret < 0 then Some (- 1, s'') else Some (ret, s'') }
     else splice_with_poll fd_out len s' }"
  by pat_completeness auto
termination
  by (relation "measure (\<lambda>(fd, n, s). fuel s)") (auto dest: sys_fuel)

declare splice_with_poll.simps [simp del]

lemma splice_fuel:
  "sys_splice_in fd len s = Some (i, s') \<Longrightarrow> fuel s' < fuel s"
  "sys_splice_out fd len s = Some (i, s') \<Longrightarrow> fuel s' < fuel s"
  by (auto simp: sys_splice_in_def sys_splice_out_def elim!: bind_SomeE dest!: sys_fuel)

lemma splice_with_poll_fuel: "splice_with_poll fd len s = Some (i, s') \<Longrightarrow> fuel s' < fuel s"
proof (induction fd len s arbitrary: i s' rule: splice_with_poll.induct)
  case (1 fd len s)
  then obtain r revs t where t: "sys_poll 1 s = Some (r, revs, t)"
    by (subst (asm) (3) splice_with_poll.simps) (auto elim!: bind_SomeE)
  then have "fuel t < fuel s" by (rule sys_fuel)
  with t show ?case using 1
    by (subst (asm) (3) splice_with_poll.simps)
      (fastforce elim!: bind_SomeE split: if_splits dest: splice_fuel(2))
qed

text \<open>The loop of \<open>make_splice\<close>; the pipe is the one of the tunnel.\<close>

function make_splice_loop :: "int \<Rightarrow> int \<Rightarrow> nat \<Rightarrow> 'a sp_os_scheme \<Rightarrow> (int \<times> 'a sp_os_scheme) option" where
  "make_splice_loop fd_in fd_out len s = do {
     (ret, s') \<leftarrow> sys_splice_in fd_in len s;
     if ret < 0 then Some (if os_errno s' = EAGAIN then 1 else - 1, s')
     else if ret = 0 then Some (0, s')
     else do {
       (ret, s'') \<leftarrow> splice_with_poll fd_out len s';
       if ret < 0 then Some (- 1, s'')
       else if ret = 0 then Some (0, s'')
       else make_splice_loop fd_in fd_out len s'' } }"
  by pat_completeness auto
termination
  by (relation "measure (\<lambda>(a, b, n, s). fuel s)")
    (auto dest!: splice_fuel splice_with_poll_fuel)

declare make_splice_loop.simps [simp del]

definition make_splice ::
    "int \<Rightarrow> int \<Rightarrow> (int \<times> int) option \<Rightarrow> nat \<Rightarrow> 'a sp_os_scheme \<Rightarrow> (int \<times> 'a sp_os_scheme) option" where
  "make_splice fd_in fd_out pipefd_arr len s =
     (if pipefd_arr = NULL then Some (- 1, s) else make_splice_loop fd_in fd_out len s)"

subsection \<open>The tunnel\<close>

lemma send_result_fuel:
  "send_with_poll_loop sock buf n s = Some (i, s') \<Longrightarrow> fuel s' \<le> fuel s"
proof (induction "fuel s" arbitrary: n s i s' rule: less_induct)
  case less
  then show ?case
    by (subst (asm) (2) send_with_poll_loop.simps)
      (auto elim!: bind_SomeE split: if_splits dest!: sys_fuel less.hyps [rotated])
qed

lemma send_with_poll_fuel: "tcp_send_data_with_poll sock buf n s = Some (i, s') \<Longrightarrow> fuel s' \<le> fuel s"
  by (auto simp: tcp_send_data_with_poll_def dest: send_result_fuel split: if_splits)

text \<open>
  \<open>recv\<close> fills the start of the local array of \<open>MAX_LENGTH\<close> bytes; the bytes received are all that is
  read from it.
\<close>

function proxy_recv_and_send :: "int \<Rightarrow> int \<Rightarrow> 'a sp_os_scheme \<Rightarrow> (int \<times> 'a sp_os_scheme) option" where
  "proxy_recv_and_send recv_sock send_sock s = do {
     (ret, buf, s') \<leftarrow> sys_recv recv_sock MAX_LENGTH s;
     if ret < 0 then Some (if os_errno s' = EAGAIN then 1 else - 1, s')
     else if ret = 0 then Some (0, s')
     else do {
       (ret, s'') \<leftarrow> tcp_send_data_with_poll send_sock buf ret s';
       if ret < 0 then Some (ret, s'')
       else proxy_recv_and_send recv_sock send_sock s'' } }"
  by pat_completeness auto
termination
  by (relation "measure (\<lambda>(a, b, s). fuel s)") (auto dest!: sys_fuel send_with_poll_fuel)

declare proxy_recv_and_send.simps [simp del]

lemma recv_and_send_fuel: "proxy_recv_and_send a b s = Some (i, s') \<Longrightarrow> fuel s' < fuel s"
proof (induction "fuel s" arbitrary: s i s' rule: less_induct)
  case less
  then show ?case
    by (subst (asm) (2) proxy_recv_and_send.simps)
      (auto elim!: bind_SomeE split: if_splits dest!: sys_fuel send_with_poll_fuel less.hyps [rotated])
qed

lemma make_splice_loop_fuel: "make_splice_loop a b len s = Some (i, s') \<Longrightarrow> fuel s' < fuel s"
proof (induction "fuel s" arbitrary: s i s' rule: less_induct)
  case less
  then show ?case
    by (subst (asm) (2) make_splice_loop.simps)
      (auto elim!: bind_SomeE split: if_splits dest!: splice_fuel splice_with_poll_fuel less.hyps [rotated])
qed

lemma make_splice_fuel: "make_splice a b (Some p) len s = Some (i, s') \<Longrightarrow> fuel s' < fuel s"
  by (simp add: make_splice_def make_splice_loop_fuel)

abbreviation readable :: "pollflag list \<Rightarrow> bool" where
  "readable revents \<equiv> POLLIN \<in> set revents \<or> POLLPRI \<in> set revents"

function poll_and_tunnel_loop ::
    "int \<Rightarrow> int \<Rightarrow> int \<times> int \<Rightarrow> nat \<Rightarrow> 'a sp_os_scheme \<Rightarrow> (int \<times> 'a sp_os_scheme) option" where
  "poll_and_tunnel_loop client_sock os_sock pipefd_arr g_splice_size s = do {
     (ret, revents, s') \<leftarrow> sys_poll 2 s;
     if ret < 0 then Some (- 1, s')
     else if ret = 0 then Some (- 1, s')
     else if readable (revents ! 0) then do {
       (ret, s'') \<leftarrow> proxy_recv_and_send client_sock os_sock s';
       if ret < 0 then Some (- 1, s'')
       else if ret = 0 then Some (0, s'')
       else poll_and_tunnel_loop client_sock os_sock pipefd_arr g_splice_size s'' }
     else if readable (revents ! 1) then do {
       (ret, s'') \<leftarrow> make_splice os_sock client_sock (Some pipefd_arr) g_splice_size s';
       if ret < 0 then Some (- 1, s'')
       else if ret = 0 then Some (0, s'')
       else poll_and_tunnel_loop client_sock os_sock pipefd_arr g_splice_size s'' }
     else poll_and_tunnel_loop client_sock os_sock pipefd_arr g_splice_size s' }"
  by pat_completeness auto
termination
  by (relation "measure (\<lambda>(a, b, p, n, s). fuel s)")
    (auto dest!: sys_fuel recv_and_send_fuel make_splice_fuel)

declare poll_and_tunnel_loop.simps [simp del]

definition proxy_poll_and_tunnel ::
    "int \<Rightarrow> int \<Rightarrow> nat \<Rightarrow> 'a sp_os_scheme \<Rightarrow> (int \<times> 'a sp_os_scheme) option" where
  "proxy_poll_and_tunnel client_sock os_sock g_splice_size s = do {
     (ret, p0, p1, s) \<leftarrow> sys_pipe s;
     if ret \<noteq> 0 then Some (- 1, s)
     else do {
       (ret, s) \<leftarrow> poll_and_tunnel_loop client_sock os_sock (p0, p1) g_splice_size (s\<lparr>pipe_buf := []\<rparr>);
       Some (ret, sys_close p1 (sys_close p0 s)) } }"

text \<open>
  A null argument is logged and then dereferenced. After the tunnel, \<open>ret > 0\<close> would leave the
  server socket open.
\<close>

definition tunnel_label1 :: "addr \<Rightarrow> int \<Rightarrow> 'a sp_os_scheme \<Rightarrow> 'a sp_os_scheme" where
  "tunnel_label1 p client_sock s = (let s = sys_close client_sock s in s\<lparr>infos := (infos s)(p := None)\<rparr>)"

definition tunnel_label :: "addr \<Rightarrow> int \<Rightarrow> int \<Rightarrow> 'a sp_os_scheme \<Rightarrow> 'a sp_os_scheme" where
  "tunnel_label p client_sock os_sock s =
     (let s = sys_close os_sock (sys_close client_sock s) in s\<lparr>infos := (infos s)(p := None)\<rparr>)"

definition tunnel_the_request ::
    "string \<Rightarrow> int \<Rightarrow> nat \<Rightarrow> cptr \<Rightarrow> 'a sp_os_scheme \<Rightarrow> 'a sp_os_scheme option" where
  "tunnel_the_request g_dest_ip g_dest_port g_splice_size arg s = do {
     p \<leftarrow> arg;
     proxy_info \<leftarrow> infos s p;
     (ret, sock, s) \<leftarrow> tcp_transparent_connect_to_server (Some g_dest_ip) g_dest_port
        (Some (os_socket proxy_info)) (Some (client_ip proxy_info)) (client_port proxy_info) s;
     if ret \<noteq> 0 then Some (tunnel_label1 p (client_socket proxy_info) s)
     else do {
       sock \<leftarrow> sock;
       (ret, s) \<leftarrow> set_socket_non_blocking sock s;
       if ret < 0 then Some (tunnel_label p (client_socket proxy_info) sock s)
       else do {
         (ret, s) \<leftarrow> proxy_poll_and_tunnel (client_socket proxy_info) sock g_splice_size s;
         if ret < 0 then Some (tunnel_label p (client_socket proxy_info) sock s)
         else if ret = 0 then Some (tunnel_label p (client_socket proxy_info) sock s)
         else Some (tunnel_label1 p (client_socket proxy_info) s) } } }"

text \<open>
  The proxy without transparency (\<open>sp_exp\<close>) differs in these two functions: it connects plainly, and
  it tests the pointer it stores the socket through.
\<close>

definition sp_exp_tcp_connect_to_server ::
    "string option \<Rightarrow> int \<Rightarrow> int option \<Rightarrow> 'a os_scheme \<Rightarrow> (int \<times> int option \<times> 'a os_scheme) option" where
  "sp_exp_tcp_connect_to_server server_ip server_port local_socket s =
     (if server_ip = None \<or> server_port < 0 \<or> server_port > 65535 \<or> local_socket = None
      then Some (- 1, local_socket, s)
      else do {
        (sock, s) \<leftarrow> sys_newfd s;
        if sock < 0 then Some (- 1, local_socket, s)
        else do {
          (a, s) \<leftarrow> sys_aton s;
          if a = 0 then Some (- 1, local_socket, s)
          else do {
            (ret, s) \<leftarrow> sys_fdcall sock s;
            if ret < 0 then Some (- 1, local_socket, s) else Some (0, Some sock, s) } } })"

definition sp_exp_tunnel_the_request ::
    "string \<Rightarrow> int \<Rightarrow> nat \<Rightarrow> cptr \<Rightarrow> 'a sp_os_scheme \<Rightarrow> 'a sp_os_scheme option" where
  "sp_exp_tunnel_the_request g_dest_ip g_dest_port g_splice_size arg s = do {
     p \<leftarrow> arg;
     proxy_info \<leftarrow> infos s p;
     (ret, sock, s) \<leftarrow> sp_exp_tcp_connect_to_server (Some g_dest_ip) g_dest_port (Some (os_socket proxy_info)) s;
     if ret \<noteq> 0 then Some (tunnel_label1 p (client_socket proxy_info) s)
     else do {
       sock \<leftarrow> sock;
       (ret, s) \<leftarrow> set_socket_non_blocking sock s;
       if ret < 0 then Some (tunnel_label p (client_socket proxy_info) sock s)
       else do {
         (ret, s) \<leftarrow> proxy_poll_and_tunnel (client_socket proxy_info) sock g_splice_size s;
         if ret < 0 then Some (tunnel_label p (client_socket proxy_info) sock s)
         else if ret = 0 then Some (tunnel_label p (client_socket proxy_info) sock s)
         else Some (tunnel_label1 p (client_socket proxy_info) s) } } }"

subsection \<open>The main program\<close>

text \<open>
  The library call \<open>WorkQAdd\<close> is a parameter: given the entries waiting in the queue it answers 0 when
  it takes the new one.
\<close>

definition accept_one ::
    "(addr list \<Rightarrow> int) \<Rightarrow> (string \<times> int) \<Rightarrow> 'a sp_os_scheme \<Rightarrow> 'a sp_os_scheme option" where
  "accept_one WorkQAdd client_address s = do {
     (fd, s) \<leftarrow> sys_newfd s;
     if fd < 0 then Some s
     else do {
       (ret, s) \<leftarrow> set_socket_non_blocking fd s;
       if ret < 0 then Some (sys_close fd s)
       else do {
         (_, s) \<leftarrow> sys_zero s;
         (p, s) \<leftarrow> sys_malloc s;
         case p of NULL \<Rightarrow> None
         | Some a \<Rightarrow>
             if a \<in> dom (infos s) then None
             else do {
               let s = s\<lparr>infos := (infos s)(a \<mapsto> \<lparr>client_socket = fd, client_ip = fst client_address,
                           client_port = snd client_address, os_socket = 0\<rparr>)\<rparr>;
               if WorkQAdd (tunnel_workq s) \<noteq> 0 then Some s
               else Some (s\<lparr>tunnel_workq := tunnel_workq s @ [a]\<rparr>) } } } }"

definition handle_signal :: "int \<Rightarrow> 'a os_scheme \<Rightarrow> 'a os_scheme" where
  "handle_signal g_server_socket s = sys_close g_server_socket s"

subsection \<open>Every byte is forwarded once, in order\<close>

text \<open>
  \<open>fwd c d lost s s'\<close>: between the states data came in on the client socket \<open>c\<close> and on the server
  socket \<open>d\<close>; what came from the client was sent to the server except for \<open>lost\<close> at its end, and
  what came from the server was sent to the client or is in the pipe. Nothing else was sent,
  received or closed.
\<close>

definition fwd :: "int \<Rightarrow> int \<Rightarrow> u8 list \<Rightarrow> 'a sp_os_scheme \<Rightarrow> 'a sp_os_scheme \<Rightarrow> bool" where
  "fwd c d lost s s' \<longleftrightarrow> (\<exists>dc dd.
     rcvd s' = (rcvd s)(c := rcvd s c @ dc, d := rcvd s d @ dd) \<and>
     sent s' d @ lost = sent s d @ dc \<and> sent s' c @ pipe_buf s' = sent s c @ pipe_buf s @ dd \<and>
     (\<forall>x. x \<noteq> c \<longrightarrow> x \<noteq> d \<longrightarrow> sent s' x = sent s x)) \<and>
     fds s' = fds s \<and> closed s' = closed s \<and> infos s' = infos s"

lemma fwd_refl: "fwd c d [] s s"
  by (auto simp: fwd_def intro!: exI [of _ "[]"])

lemma fwd_trans:
  assumes ne: "c \<noteq> d" and "fwd c d [] s t" and "fwd c d lost t u"
  shows "fwd c d lost s u"
proof -
  obtain dc dd where 1: "rcvd t = (rcvd s)(c := rcvd s c @ dc, d := rcvd s d @ dd)"
    "sent t d = sent s d @ dc" "sent t c @ pipe_buf t = sent s c @ pipe_buf s @ dd"
    "\<forall>x. x \<noteq> c \<longrightarrow> x \<noteq> d \<longrightarrow> sent t x = sent s x" "fds t = fds s" "closed t = closed s" "infos t = infos s"
    using assms(2) by (auto simp: fwd_def)
  obtain ec ed where 2: "rcvd u = (rcvd t)(c := rcvd t c @ ec, d := rcvd t d @ ed)"
    "sent u d @ lost = sent t d @ ec" "sent u c @ pipe_buf u = sent t c @ pipe_buf t @ ed"
    "\<forall>x. x \<noteq> c \<longrightarrow> x \<noteq> d \<longrightarrow> sent u x = sent t x" "fds u = fds t" "closed u = closed t" "infos u = infos t"
    using assms(3) by (auto simp: fwd_def)
  have "rcvd u = (rcvd s)(c := rcvd s c @ dc @ ec, d := rcvd s d @ dd @ ed)"
    using 1(1) 2(1) ne by (simp add: fun_upd_twist)
  moreover have "sent u d @ lost = sent s d @ dc @ ec" using 1(2) 2(2) by simp
  moreover have "sent u c @ pipe_buf u = sent s c @ pipe_buf s @ dd @ ed"
    using 1(3) 2(3) by (metis append.assoc)
  ultimately show ?thesis using 1(4-7) 2(4-7) unfolding fwd_def by metis
qed

lemma more_sp:
  "os.more s' = os.more s \<Longrightarrow> pipe_buf s' = pipe_buf s \<and> infos s' = infos s \<and> tunnel_workq s' = tunnel_workq s"
  by (cases s; cases s') simp

lemma fwd_poll: "sys_poll n s = Some (i, revs, s') \<Longrightarrow> fwd c d [] s s'"
  by (auto simp: fwd_def elim!: sys_pollE intro!: exI [of _ "[]"])

lemma fwd_recv_then_send:
  assumes ne: "c \<noteq> d" and "sys_recv c n s = Some (i, buf, t)" and "sends d e t u" and "e @ lost = buf"
  shows "fwd c d lost s u"
proof -
  have "rcvd t = (rcvd s)(c := rcvd s c @ buf)" "sent t = sent s" "fds t = fds s" "closed t = closed s"
    "os.more t = os.more s"
    using assms(2) by (auto elim!: sys_recvE)
  moreover have "rcvd u = rcvd t" "sent u = (sent t)(d := sent t d @ e)" "fds u = fds t" "closed u = closed t"
    "os.more u = os.more t"
    using sends_fields [OF assms(3)] by auto
  ultimately show ?thesis
    using assms(4) ne more_sp [of u s]
    by (auto simp: fwd_def intro!: exI [of _ buf] exI [of _ "[]"])
qed

lemma fwd_recv_nothing: "c \<noteq> d \<Longrightarrow> sys_recv c n s = Some (i, buf, t) \<Longrightarrow> i \<le> 0 \<Longrightarrow> fwd c d [] s t"
  using fwd_recv_then_send [of c d n s i buf t "[]" t "[]"] sends_refl [of d t] by (auto elim!: sys_recvE)

lemma recv_and_send_fwd:
  assumes ne: "c \<noteq> d"
  shows "proxy_recv_and_send c d s = Some (r, s') \<Longrightarrow>
    r \<le> 1 \<and> (\<exists>lost. fwd c d lost s s' \<and> (0 \<le> r \<longrightarrow> lost = []))"
proof (induction "fuel s" arbitrary: s r s' rule: less_induct)
  case less
  obtain i buf t where t: "sys_recv c MAX_LENGTH s = Some (i, buf, t)"
    and rest: "(if i < 0 then Some (if os_errno t = EAGAIN then 1 else - 1, t)
      else if i = 0 then Some (0, t)
      else do {
        (ret, s'') \<leftarrow> tcp_send_data_with_poll d buf i t;
        if ret < 0 then Some (ret, s'') else proxy_recv_and_send c d s'' }) = Some (r, s')"
    using less.prems by (subst (asm) proxy_recv_and_send.simps) (auto elim!: bind_SomeE)
  show ?case
  proof (cases "i \<le> 0")
    case True
    then show ?thesis using rest fwd_recv_nothing [OF ne t] by (auto split: if_splits)
  next
    case False
    then have i: "i = int (length buf)" using t by (auto elim!: sys_recvE)
    obtain j u where u: "tcp_send_data_with_poll d buf i t = Some (j, u)"
      and rest2: "(if j < 0 then Some (j, u) else proxy_recv_and_send c d u) = Some (r, s')"
      using rest False by (auto elim!: bind_SomeE)
    have res: "send_result d buf 0 t j u" using send_with_poll_result [of d buf "length buf" t j u] u i by simp
    show ?thesis
    proof (cases "j < 0")
      case True
      then obtain k where "sends d (take k buf) t u" "j = - 1" using res by (auto simp: send_result_def)
      then have "fwd c d (drop k buf) s u" by (intro fwd_recv_then_send [OF ne t]) auto
      then show ?thesis using rest2 True \<open>j = - 1\<close> by auto
    next
      case pos: False
      then have "sends d buf t u" using res by (auto simp: send_result_def)
      then have 1: "fwd c d [] s u" by (intro fwd_recv_then_send [OF ne t]) auto
      have "fuel u < fuel s" using sys_fuel(7) [OF t] send_with_poll_fuel [OF u] by linarith
      then show ?thesis using less.hyps [of u r s'] rest2 pos fwd_trans [OF ne 1] by auto
    qed
  qed
qed

lemma splice_in_fwd: "c \<noteq> d \<Longrightarrow> sys_splice_in d n s = Some (i, s') \<Longrightarrow> fwd c d [] s s'"
  by (auto simp: sys_splice_in_def fwd_def elim!: bind_SomeE sys_recvE)

lemma splice_out_fwd: "c \<noteq> d \<Longrightarrow> sys_splice_out c n s = Some (i, s') \<Longrightarrow> fwd c d [] s s'"
  by (auto simp: sys_splice_out_def fwd_def min_def elim!: bind_SomeE sys_sendE intro!: exI [of _ "[]"]
      split: if_splits)

lemma splice_with_poll_fwd:
  assumes ne: "c \<noteq> d"
  shows "splice_with_poll c n s = Some (r, s') \<Longrightarrow> fwd c d [] s s'"
proof (induction "fuel s" arbitrary: s r s' rule: less_induct)
  case less
  obtain i revs t where t: "sys_poll 1 s = Some (i, revs, t)"
    and rest: "(if i < 0 then (if os_errno t = EINTR then splice_with_poll c n t else Some (- 1, t))
      else if i = 0 then Some (- 1, t)
      else if POLLOUT \<in> set (concat revs) then do {
        (ret, s'') \<leftarrow> sys_splice_out c n t;
        if ret < 0 then Some (- 1, s'') else Some (ret, s'') }
      else splice_with_poll c n t) = Some (r, s')"
    using less.prems by (subst (asm) splice_with_poll.simps) (auto elim!: bind_SomeE)
  have q: "fwd c d [] s t" using fwd_poll [OF t] .
  have "fwd c d [] t s'" using rest less.hyps [OF sys_fuel(6) [OF t]] splice_out_fwd [OF ne] fwd_refl
    by (auto split: if_splits elim!: bind_SomeE)
  then show ?case by (rule fwd_trans [OF ne q])
qed

lemma make_splice_fwd:
  assumes ne: "c \<noteq> d"
  shows "make_splice_loop d c n s = Some (r, s') \<Longrightarrow> r \<le> 1 \<and> fwd c d [] s s'"
proof (induction "fuel s" arbitrary: s r s' rule: less_induct)
  case less
  obtain i t where t: "sys_splice_in d n s = Some (i, t)"
    and rest: "(if i < 0 then Some (if os_errno t = EAGAIN then 1 else - 1, t)
      else if i = 0 then Some (0, t)
      else do {
        (ret, s'') \<leftarrow> splice_with_poll c n t;
        if ret < 0 then Some (- 1, s'') else if ret = 0 then Some (0, s'') else make_splice_loop d c n s'' }) = Some (r, s')"
    using less.prems by (subst (asm) make_splice_loop.simps) (auto elim!: bind_SomeE)
  have q: "fwd c d [] s t" using splice_in_fwd [OF ne t] .
  show ?case
  proof (cases "i \<le> 0")
    case True
    then show ?thesis using rest q by (auto split: if_splits)
  next
    case False
    then obtain j u where u: "splice_with_poll c n t = Some (j, u)"
      and rest2: "(if j < 0 then Some (- 1, u) else if j = 0 then Some (0, u) else make_splice_loop d c n u) = Some (r, s')"
      using rest by (auto elim!: bind_SomeE)
    have su: "fwd c d [] s u" using fwd_trans [OF ne q splice_with_poll_fwd [OF ne u]] .
    have "fuel u < fuel s" using splice_fuel(1) [OF t] splice_with_poll_fuel [OF u] by linarith
    then show ?thesis using rest2 less.hyps [of u r s'] su fwd_trans [OF ne su] by (auto split: if_splits)
  qed
qed

lemma tunnel_loop_fwd:
  assumes ne: "c \<noteq> d"
  shows "poll_and_tunnel_loop c d p n s = Some (r, s') \<Longrightarrow>
    r \<le> 0 \<and> (\<exists>lost. fwd c d lost s s' \<and> (r = 0 \<longrightarrow> lost = []))"
proof (induction "fuel s" arbitrary: s r s' rule: less_induct)
  case less
  obtain i revs t where t: "sys_poll 2 s = Some (i, revs, t)"
    and rest: "(if i < 0 then Some (- 1, t)
      else if i = 0 then Some (- 1, t)
      else if readable (revs ! 0) then do {
        (ret, s'') \<leftarrow> proxy_recv_and_send c d t;
        if ret < 0 then Some (- 1, s'') else if ret = 0 then Some (0, s'')
        else poll_and_tunnel_loop c d p n s'' }
      else if readable (revs ! 1) then do {
        (ret, s'') \<leftarrow> make_splice d c (Some p) n t;
        if ret < 0 then Some (- 1, s'') else if ret = 0 then Some (0, s'')
        else poll_and_tunnel_loop c d p n s'' }
      else poll_and_tunnel_loop c d p n t) = Some (r, s')"
    using less.prems by (subst (asm) poll_and_tunnel_loop.simps) (auto elim!: bind_SomeE)
  have q: "fwd c d [] s t" using fwd_poll [OF t] .
  have ft: "fuel t < fuel s" using sys_fuel(6) [OF t] .
  have "r \<le> 0 \<and> (\<exists>lost. fwd c d lost t s' \<and> (r = 0 \<longrightarrow> lost = []))"
  proof -
    consider (stop) "i \<le> 0" | (client) "0 < i" "readable (revs ! 0)"
      | (server) "0 < i" "\<not> readable (revs ! 0)" "readable (revs ! 1)"
      | (neither) "0 < i" "\<not> readable (revs ! 0)" "\<not> readable (revs ! 1)" by linarith
    then show ?thesis
    proof cases
      case stop
      then show ?thesis using rest fwd_refl by (auto split: if_splits)
    next
      case client
      then obtain j u where u: "proxy_recv_and_send c d t = Some (j, u)"
        and rest2: "(if j < 0 then Some (- 1, u) else if j = 0 then Some (0, u)
          else poll_and_tunnel_loop c d p n u) = Some (r, s')"
        using rest by (auto elim!: bind_SomeE)
      obtain lost where tu: "fwd c d lost t u" "0 \<le> j \<longrightarrow> lost = []" using recv_and_send_fwd [OF ne u] by blast
      have "fuel u < fuel s" using recv_and_send_fuel [OF u] ft by linarith
      then show ?thesis using rest2 less.hyps [of u r s'] tu fwd_trans [OF ne, of t u]
        by (auto split: if_splits)
    next
      case server
      then obtain j u where u: "make_splice d c (Some p) n t = Some (j, u)"
        and rest2: "(if j < 0 then Some (- 1, u) else if j = 0 then Some (0, u)
          else poll_and_tunnel_loop c d p n u) = Some (r, s')"
        using rest by (auto elim!: bind_SomeE)
      have tu: "fwd c d [] t u" using make_splice_fwd [OF ne, of n t j u] u by (simp add: make_splice_def)
      have "fuel u < fuel s" using make_splice_fuel [OF u] ft by linarith
      then show ?thesis using rest2 less.hyps [of u r s'] tu fwd_trans [OF ne, of t u]
        by (auto split: if_splits)
    next
      case neither
      then show ?thesis using rest less.hyps [OF ft, of r s'] by auto
    qed
  qed
  then show ?case using fwd_trans [OF ne q] by blast
qed

lemma tunnel_effect:
  assumes "proxy_poll_and_tunnel c d n s = Some (r, s')" and "c \<noteq> d"
  shows "r \<le> 0 \<and> fds s' = fds s \<and> infos s' = infos s \<and>
    (\<exists>dc dd lost stuck. rcvd s' = (rcvd s)(c := rcvd s c @ dc, d := rcvd s d @ dd) \<and>
      sent s' d @ lost = sent s d @ dc \<and> sent s' c @ stuck = sent s c @ dd \<and> (r = 0 \<longrightarrow> lost = []))"
proof -
  obtain i p0 p1 t where t: "sys_pipe s = Some (i, p0, p1, t)"
    and rest: "(if i \<noteq> 0 then Some (- 1, t) else do {
       (ret, s) \<leftarrow> poll_and_tunnel_loop c d (p0, p1) n (t\<lparr>pipe_buf := []\<rparr>);
       Some (ret, sys_close p1 (sys_close p0 s)) }) = Some (r, s')"
    using assms(1) by (auto simp: proxy_poll_and_tunnel_def elim!: bind_SomeE)
  from t show ?thesis
  proof (cases rule: sys_pipeE)
    case (fail rs e)
    then show ?thesis using rest by (auto intro!: exI [of _ "[]"])
  next
    case (ok rs)
    obtain u where u: "poll_and_tunnel_loop c d (p0, p1) n (t\<lparr>pipe_buf := []\<rparr>) = Some (r, u)"
      and s': "s' = sys_close p1 (sys_close p0 u)"
      using rest ok(1) by (auto elim!: bind_SomeE)
    obtain lost where r: "r \<le> 0" and f: "fwd c d lost (t\<lparr>pipe_buf := []\<rparr>) u" and l: "r = 0 \<longrightarrow> lost = []"
      using tunnel_loop_fwd [OF assms(2) u] by blast
    have "fds s' = fds s" "infos s' = infos s"
      using ok f s' by (auto simp: fwd_def sys_close_def)
    moreover obtain dc dd where "rcvd s' = (rcvd s)(c := rcvd s c @ dc, d := rcvd s d @ dd)"
      "sent s' d @ lost = sent s d @ dc" "sent s' c @ pipe_buf u = sent s c @ dd"
      using ok f s' by (auto simp: fwd_def)
    ultimately show ?thesis using r l by blast
  qed
qed

text \<open>
  C20: when a tunnel ends, what the client sent has been passed to the server in order up to a last part
  \<open>lost\<close>, which is empty when the tunnel ended because a side closed; what the server sent has been passed
  to the client in order up to a last part \<open>stuck\<close>; the pipe is closed and the result is never
  positive.
\<close>

theorem tunnel_faithful:
  assumes "proxy_poll_and_tunnel c d n s = Some (r, s')" and "c \<noteq> d"
  shows "r \<le> 0 \<and> fds s' = fds s \<and> infos s' = infos s \<and>
    (\<exists>dc dd lost stuck. rcvd s' = (rcvd s)(c := rcvd s c @ dc, d := rcvd s d @ dd) \<and>
      sent s' d @ lost = sent s d @ dc \<and> sent s' c @ stuck = sent s c @ dd \<and> (r = 0 \<longrightarrow> lost = []))"
  using assms by (rule tunnel_effect)

subsection \<open>What a handled request leaves open\<close>

text \<open>
  Both proxies connect to the server with a function of their own and go on alike. What they rely on is that a
  connection either fails, keeping the client socket open, or yields one new descriptor; the
  requests of both are shown to close everything from these laws.
\<close>

locale server_connector =
  fixes connect :: "Proxy_Info \<Rightarrow> 'a sp_os_scheme \<Rightarrow> (int \<times> int option \<times> 'a sp_os_scheme) option"
  assumes connect_keeps: "connect pi s = Some (r, l, t) \<Longrightarrow> infos t = infos s \<and> (r = 0 \<or> r = - 1)"
    and connect_new: "connect pi s = Some (0, l, t) \<Longrightarrow>
      \<exists>sock. l = Some sock \<and> sock \<notin> fds s \<and> fds t = insert sock (fds s)"
begin

lemma request_closes:
  assumes info: "infos s p = Some pi" and c: "client_socket pi \<in> fds s" and con: "connect pi s = Some (r, l, t)"
    and go: "(if r \<noteq> 0 then Some (tunnel_label1 p (client_socket pi) t)
     else do {
       sock \<leftarrow> l;
       (ret, s) \<leftarrow> set_socket_non_blocking sock t;
       if ret < 0 then Some (tunnel_label p (client_socket pi) sock s)
       else do {
         (ret, s) \<leftarrow> proxy_poll_and_tunnel (client_socket pi) sock n s;
         if ret < 0 then Some (tunnel_label p (client_socket pi) sock s)
         else if ret = 0 then Some (tunnel_label p (client_socket pi) sock s)
         else Some (tunnel_label1 p (client_socket pi) s) } }) = Some s'"
  shows "infos s' = (infos s)(p := None) \<and> client_socket pi \<notin> fds s' \<and>
    (r = 0 \<longrightarrow> fds s' = fds s - {client_socket pi})"
proof (cases "r = 0")
  case False
  then show ?thesis using go connect_keeps [OF con] by (auto simp: tunnel_label1_def Let_def sys_close_def)
next
  case True
  obtain sock where sock: "l = Some sock" "sock \<notin> fds s" "fds t = insert sock (fds s)"
    using connect_new con True by blast
  obtain j u where u: "set_socket_non_blocking sock t = Some (j, u)"
    and rest: "(if j < 0 then Some (tunnel_label p (client_socket pi) sock u)
      else do {
       (ret, s) \<leftarrow> proxy_poll_and_tunnel (client_socket pi) sock n u;
       if ret < 0 then Some (tunnel_label p (client_socket pi) sock s)
       else if ret = 0 then Some (tunnel_label p (client_socket pi) sock s)
       else Some (tunnel_label1 p (client_socket pi) s) }) = Some s'"
    using go True sock(1) by (auto elim!: bind_SomeE)
  have ut: "fds u = fds t" "infos u = infos t"
    using u unfolding set_socket_non_blocking_def
    by (auto elim!: bind_SomeE sys_getflE sys_setflE split: if_splits)
  have ne: "client_socket pi \<noteq> sock" using c sock(2) by auto
  obtain v where v: "s' = tunnel_label p (client_socket pi) sock v" "fds v = fds u" "infos v = infos u"
  proof (cases "j < 0")
    case True
    then show ?thesis using that [of u] rest by simp
  next
    case False
    then obtain k v where k: "proxy_poll_and_tunnel (client_socket pi) sock n u = Some (k, v)"
      and rest2: "(if k < 0 then Some (tunnel_label p (client_socket pi) sock v)
       else if k = 0 then Some (tunnel_label p (client_socket pi) sock v)
       else Some (tunnel_label1 p (client_socket pi) v)) = Some s'"
      using rest by (auto elim!: bind_SomeE)
    have "k \<le> 0" "fds v = fds u" "infos v = infos u" using tunnel_effect [OF k ne] by auto
    then show ?thesis using that [of v] rest2 by (auto split: if_splits)
  qed
  then show ?thesis using ut sock connect_keeps [OF con] ne c by (auto simp: tunnel_label_def sys_close_def Let_def)
qed

end

interpretation transparent: server_connector
  "\<lambda>pi. tcp_transparent_connect_to_server (Some ip) port (Some (os_socket pi)) (Some (client_ip pi)) (client_port pi)"
  for ip port
  by unfold_locales (auto simp: tcp_transparent_connect_to_server_def elim!: bind_SomeE sysE split: if_splits option.splits)

interpretation plain: server_connector
  "\<lambda>pi. sp_exp_tcp_connect_to_server (Some ip) port (Some (os_socket pi))" for ip port
  by unfold_locales (auto simp: sp_exp_tcp_connect_to_server_def elim!: bind_SomeE sysE split: if_splits option.splits)

text \<open>
  \<open>tunnel_the_request\<close> frees its argument and closes the client socket in every case; once the
  server is connected it also closes the server socket, whatever happens in the tunnel.
\<close>

theorem tunnel_request_closes:
  assumes run: "tunnel_the_request ip port n (Some p) s = Some s'" and info: "infos s p = Some pi"
    and c: "client_socket pi \<in> fds s"
    and con: "tcp_transparent_connect_to_server (Some ip) port (Some (os_socket pi)) (Some (client_ip pi))
      (client_port pi) s = Some (r, l, t)"
  shows "infos s' = (infos s)(p := None) \<and> client_socket pi \<notin> fds s' \<and>
    (r = 0 \<longrightarrow> fds s' = fds s - {client_socket pi})"
  using transparent.request_closes [OF info c con, of n s'] run info con by (simp add: tunnel_the_request_def)

text \<open>The same holds of the proxy without transparency.\<close>

lemma sp_exp_request_closes:
  assumes run: "sp_exp_tunnel_the_request ip port n (Some p) s = Some s'" and info: "infos s p = Some pi"
    and c: "client_socket pi \<in> fds s"
    and con: "sp_exp_tcp_connect_to_server (Some ip) port (Some (os_socket pi)) s = Some (r, l, t)"
  shows "infos s' = (infos s)(p := None) \<and> client_socket pi \<notin> fds s' \<and>
    (r = 0 \<longrightarrow> fds s' = fds s - {client_socket pi})"
  using plain.request_closes [OF info c con, of n s'] run info con by (simp add: sp_exp_tunnel_the_request_def)

text \<open>Given a pointer to store the socket through, the two plain connections are the same function.\<close>

lemma sp_exp_connect_same: "sp_exp_tcp_connect_to_server ip port (Some v) s = tcp_connect_to_server ip port (Some v) s"
  unfolding sp_exp_tcp_connect_to_server_def tcp_connect_to_server_def option.case by simp

lemma accept_full_queue_keeps:
  assumes "accept_one add ca s = Some s'" and "\<And>q. add q \<noteq> 0"
  shows "tunnel_workq s' = tunnel_workq s"
  using assms unfolding accept_one_def set_socket_non_blocking_def
  by (auto simp: sys_close_def elim!: bind_SomeE sys_newfdE sys_getflE sys_setflE sys_zeroE sys_mallocE split: if_splits option.splits)

definition sp_boot :: "reply list \<Rightarrow> int set \<Rightarrow> sp_os" where
  "sp_boot rs open_fds = \<lparr>replies = rs, os_errno = EOTHER 0, fds = open_fds, fdflags = (\<lambda>_. 2), sent = (\<lambda>_. []),
     rcvd = (\<lambda>_. []), closed = [], pipe_buf = [],
     infos = [8 \<mapsto> \<lparr>client_socket = 3, client_ip = ''10.0.0.2'', client_port = 7, os_socket = 0\<rparr>], tunnel_workq = []\<rparr>"

lemmas sp_eval = proxy_poll_and_tunnel_def poll_and_tunnel_loop.simps proxy_recv_and_send.simps
  make_splice_def make_splice_loop.simps splice_with_poll.simps sys_splice_in_def sys_splice_out_def
  tcp_send_data_with_poll_def send_with_poll_loop.simps sys_pipe_def sys_newfd_def sys_poll_def sys_recv_def
  sys_send_def sys_next_def sp_boot_def MAX_LENGTH_def

text \<open>
  Bytes can be lost although nobody failed: the server sends three bytes, the client's socket takes
  one of them, the next \<open>splice\<close> into the pipe would block, and then the client closes: the
  tunnel ends normally with two bytes left in the pipe, although the socket could take them.
\<close>

theorem tunnel_short_splice_loses:
  "\<exists>s'. proxy_poll_and_tunnel 3 4 100 (sp_boot [Ok 5, Ok 6, Polled [[], [POLLIN]], Data [1, 2, 3],
      Polled [[POLLOUT]], Ok 1, Fail EAGAIN, Polled [[POLLIN], []], Data []] {3, 4}) = Some (0, s') \<and>
    rcvd s' 4 = [1, 2, 3] \<and> sent s' 3 = [1]"
  by (simp add: sp_eval)

theorem tunnel_faithful_witness:
  "\<exists>r s' lost. proxy_poll_and_tunnel 3 4 100 (sp_boot [Ok 5, Ok 6, Polled [[POLLIN], []], Data [1, 2],
      Polled [[POLLOUT]], Ok 1, Polled [[POLLOUT]], Ok 1, Data []] {3, 4}) = Some (r, s') \<and>
    r = 0 \<and> sent s' 4 @ lost = [1, 2] \<and> lost = [] \<and> fds s' = {3, 4}"
proof -
  let ?s = "sp_boot [Ok 5, Ok 6, Polled [[POLLIN], []], Data [1, 2],
      Polled [[POLLOUT]], Ok 1, Polled [[POLLOUT]], Ok 1, Data []] {3, 4}"
  obtain s' where run: "proxy_poll_and_tunnel 3 4 100 ?s = Some (0, s')" "rcvd s' 3 = [1, 2]"
    by (simp add: sp_eval)
  then show ?thesis using tunnel_faithful [OF run(1)] by (auto simp: sp_boot_def)
qed

theorem tunnel_request_closes_witness:
  "\<exists>s'. tunnel_the_request ''10.0.0.1'' 80 100 (Some 8)
      (sp_boot [Ok 4, Ok 0, Ok 0, Ok 1, Ok 0, Ok 1, Ok 0, Fail ENOMEM] {3}) = Some s' \<and> fds s' = {} \<and> infos s' = Map.empty"
proof -
  let ?s = "sp_boot [Ok 4, Ok 0, Ok 0, Ok 1, Ok 0, Ok 1, Ok 0, Fail ENOMEM] {3}"
  let ?i = "\<lparr>client_socket = 3, client_ip = ''10.0.0.2'', client_port = 7, os_socket = 0\<rparr>"
  obtain t where con: "tcp_transparent_connect_to_server (Some ''10.0.0.1'') 80 (Some (os_socket ?i))
      (Some (client_ip ?i)) (client_port ?i) ?s = Some (0, Some 4, t)"
    by (simp add: tcp_transparent_connect_to_server_def sys_newfd_def sys_fdcall_def sys_zero_def sys_aton_def
        sys_next_def sp_boot_def)
  obtain s' where run: "tunnel_the_request ''10.0.0.1'' 80 100 (Some 8) ?s = Some s'"
    by (simp add: tunnel_the_request_def tcp_transparent_connect_to_server_def sys_newfd_def sys_fdcall_def sys_zero_def
        sys_aton_def sys_next_def sp_boot_def set_socket_non_blocking_def sys_getfl_def)
  have i: "infos ?s 8 = Some ?i" and c: "client_socket ?i \<in> fds ?s" by (simp_all add: sp_boot_def)
  show ?thesis using tunnel_request_closes [OF run i c con] run by (simp add: sp_boot_def)
qed

end
