(* ===== verification/Event_Server.thy ===== *)
theory Event_Server
  imports Posix
begin

section \<open>The libevent server\<close>

text \<open>
  Models \<open>src/src/networking/server/server.c\<close>: a server whose callbacks answer every client with a fixed
  response. The event library is outside the sources; like the kernel it answers each call with success or failure.
  The state adds the connections (\<open>conn_info\<close>) and the events: their descriptor, what they wait
  for and whether they are added. Freeing or using an object that is not allocated gives \<open>None\<close>.
  The text of the response is an argument, and logging is left out.

  The lemmas follow a connection from its acceptance to its end: its events, what is
  sent, what is released, and the connection that leaks when it cannot be added.
\<close>

datatype ev_kind = EV_READ | EV_WRITE

record event =
  ev_fd :: int
  ev_kind :: ev_kind
  ev_added :: bool

record conn_info =
  ev_read :: addr
  ev_write :: addr

record event_os = os +
  conns :: "addr \<rightharpoonup> conn_info"
  evs :: "addr \<rightharpoonup> event"

definition CONN_BUF_SIZE :: nat where
  "CONN_BUF_SIZE = 8192"

subsection \<open>The event library\<close>

definition event_new :: "int \<Rightarrow> ev_kind \<Rightarrow> 'a event_os_scheme \<Rightarrow> (cptr \<times> 'a event_os_scheme) option" where
  "event_new fd k s = do {
     (p, s) \<leftarrow> sys_malloc s;
     case p of None \<Rightarrow> Some (None, s)
     | Some e \<Rightarrow> if e \<in> dom (evs s) then None
                 else Some (Some e, s\<lparr>evs := (evs s)(e \<mapsto> \<lparr>ev_fd = fd, ev_kind = k, ev_added = False\<rparr>)\<rparr>) }"

definition event_free :: "addr \<Rightarrow> 'a event_os_scheme \<Rightarrow> 'a event_os_scheme option" where
  "event_free e s = (if e \<in> dom (evs s) then Some (s\<lparr>evs := (evs s)(e := None)\<rparr>) else None)"

definition event_add :: "addr \<Rightarrow> 'a event_os_scheme \<Rightarrow> (int \<times> 'a event_os_scheme) option" where
  "event_add e s = do {
     v \<leftarrow> evs s e;
     (r, s) \<leftarrow> sys_zero s;
     if r \<noteq> 0 then Some (r, s) else Some (0, s\<lparr>evs := (evs s)(e \<mapsto> v\<lparr>ev_added := True\<rparr>)\<rparr>) }"

definition event_del :: "addr \<Rightarrow> 'a event_os_scheme \<Rightarrow> 'a event_os_scheme option" where
  "event_del e s = do {
     v \<leftarrow> evs s e;
     Some (s\<lparr>evs := (evs s)(e \<mapsto> v\<lparr>ev_added := False\<rparr>)\<rparr>) }"

subsection \<open>Connections\<close>

definition conn_info_new :: "int \<Rightarrow> 'a event_os_scheme \<Rightarrow> (cptr \<times> 'a event_os_scheme) option" where
  "conn_info_new fd s = do {
     (c, s) \<leftarrow> sys_malloc s;
     case c of None \<Rightarrow> Some (None, s)
     | Some c \<Rightarrow>
         if c \<in> dom (conns s) then None
         else do {
           (r, s) \<leftarrow> event_new fd EV_READ s;
           case r of None \<Rightarrow> Some (None, s)
           | Some r \<Rightarrow> do {
               (w, s) \<leftarrow> event_new fd EV_WRITE s;
               case w of None \<Rightarrow> do { s \<leftarrow> event_free r s; Some (None, s) }
               | Some w \<Rightarrow> Some (Some c, s\<lparr>conns := (conns s)(c \<mapsto> \<lparr>ev_read = r, ev_write = w\<rparr>)\<rparr>) } } }"

definition conn_info_free :: "addr \<Rightarrow> 'a event_os_scheme \<Rightarrow> 'a event_os_scheme option" where
  "conn_info_free c s = do {
     i \<leftarrow> conns s c;
     s \<leftarrow> event_free (ev_read i) s;
     s \<leftarrow> event_free (ev_write i) s;
     Some (s\<lparr>conns := (conns s)(c := None)\<rparr>) }"

subsection \<open>Callbacks\<close>

text \<open>The result of \<open>send\<close> is not looked at.\<close>

definition cli_send_cb :: "u8 list \<Rightarrow> int \<Rightarrow> addr \<Rightarrow> 'a event_os_scheme \<Rightarrow> 'a event_os_scheme option" where
  "cli_send_cb resp fd c s = do {
     (_, s) \<leftarrow> sys_send fd resp s;
     i \<leftarrow> conns s c;
     event_del (ev_write i) s }"

lemma event_add_fuel: "event_add e s = Some (r, s') \<Longrightarrow> fuel s' < fuel s"
  by (auto simp: event_add_def elim!: bind_SomeE split: if_splits dest!: sys_fuel)

text \<open>The loop: \<open>None\<close> for the bytes when adding the event failed, else the last result of \<open>recv\<close>.\<close>

function cli_recv_loop :: "int \<Rightarrow> addr \<Rightarrow> 'a event_os_scheme \<Rightarrow> (int option \<times> 'a event_os_scheme) option" where
  "cli_recv_loop fd c s = do {
     i \<leftarrow> conns s c;
     (bytes, _, s1) \<leftarrow> sys_recv fd CONN_BUF_SIZE s;
     if bytes \<le> 0 then Some (Some bytes, s1)
     else do {
       (r, s2) \<leftarrow> event_add (ev_write i) s1;
       if r \<noteq> 0 then Some (None, s2) else cli_recv_loop fd c s2 } }"
  by pat_completeness auto
termination
  by (relation "measure (\<lambda>(fd, c, s). fuel s)") (auto dest!: sys_fuel event_add_fuel)

declare cli_recv_loop.simps [simp del]

definition cli_recv_cb :: "int \<Rightarrow> addr \<Rightarrow> 'a event_os_scheme \<Rightarrow> 'a event_os_scheme option" where
  "cli_recv_cb fd c s = do {
     (b, s) \<leftarrow> cli_recv_loop fd c s;
     case b of
       None \<Rightarrow> do { s \<leftarrow> conn_info_free c s; Some (sys_close fd s) }
     | Some bytes \<Rightarrow>
         if bytes = 0 then do { s \<leftarrow> conn_info_free c s; Some (sys_close fd s) } else Some s }"

definition srvr_accept_cb :: "'a event_os_scheme \<Rightarrow> 'a event_os_scheme option" where
  "srvr_accept_cb s = do {
     (sock, s) \<leftarrow> sys_newfd s;
     if sock < 0 then Some s
     else do {
       (r, s) \<leftarrow> sys_setfl sock O_NONBLOCK s;
       if r < 0 then Some (sys_close sock s)
       else do {
         (c, s) \<leftarrow> conn_info_new sock s;
         case c of None \<Rightarrow> Some (sys_close sock s)
         | Some c \<Rightarrow> do {
             i \<leftarrow> conns s c;
             (r, s) \<leftarrow> event_add (ev_read i) s;
             if r \<noteq> 0 then Some (sys_close sock s) else Some s } } } }"

text \<open>
  Start-up: the result is the exit status when the server cannot start, and \<open>None\<close> inside when it has
  entered the event loop. The result of \<open>inet_aton\<close> is not looked at.
\<close>

definition run_server :: "'a event_os_scheme \<Rightarrow> (int option \<times> 'a event_os_scheme) option" where
  "run_server s = do {
     (base, s) \<leftarrow> sys_malloc s;
     if base = None then Some (Some 1, s)
     else do {
       (sock, s) \<leftarrow> sys_newfd s;
       if sock < 0 then Some (Some 1, s)
       else do {
         (_, s) \<leftarrow> sys_zero s;
         (r, s) \<leftarrow> sys_setfl sock O_NONBLOCK s;
         if r < 0 then Some (Some 1, s)
         else do {
           (_, s) \<leftarrow> sys_aton s;
           (r, s) \<leftarrow> sys_zero s;
           if r < 0 then Some (Some 1, s)
           else do {
             (r, s) \<leftarrow> sys_zero s;
             if r < 0 then Some (Some 1, s)
             else do {
               (e, s) \<leftarrow> event_new sock EV_READ s;
               case e of None \<Rightarrow> Some (Some 1, s)
               | Some e \<Rightarrow> do {
                   (r, s) \<leftarrow> event_add e s;
                   if r < 0 then Some (Some 1, s) else Some (None, s) } } } } } } }"

subsection \<open>The life of a connection\<close>

text \<open>A connection on \<open>fd\<close> with its two events; the reading one is added.\<close>

definition conn_ok :: "'a event_os_scheme \<Rightarrow> int \<Rightarrow> addr \<Rightarrow> conn_info \<Rightarrow> bool" where
  "conn_ok s fd c i \<longleftrightarrow> conns s c = Some i \<and> ev_read i \<noteq> ev_write i \<and> fd \<in> fds s \<and>
     evs s (ev_read i) = Some \<lparr>ev_fd = fd, ev_kind = EV_READ, ev_added = True\<rparr> \<and>
     (\<exists>b. evs s (ev_write i) = Some \<lparr>ev_fd = fd, ev_kind = EV_WRITE, ev_added = b\<rparr>)"

lemma accept_creates:
  assumes "replies s = [Ok n, Ok 0, Ok c, Ok r, Ok w, Ok 0] @ rest" "int n \<notin> fds s" "conns s c = None"
    "evs s r = None" "evs s w = None" "r \<noteq> w"
  shows "\<exists>s'. srvr_accept_cb s = Some s' \<and> conn_ok s' (int n) c \<lparr>ev_read = r, ev_write = w\<rparr> \<and> replies s' = rest"
  using assms by (auto simp: srvr_accept_cb_def conn_info_new_def event_new_def event_add_def sys_newfd_def sys_setfl_def
    sys_malloc_def sys_zero_def sys_next_def conn_ok_def domIff)

text \<open>
  When the client closes, the callback releases the connection and both its events and closes the
  descriptor once; when data arrived and there is no more for now, the connection stays with its
  writing event added, and the next writing event sends (a prefix of) the response once.
\<close>

theorem event_conn_life:
  assumes "conn_ok s fd c i"
  shows "(replies s = Data [] # rest \<longrightarrow> (\<exists>s'. cli_recv_cb fd c s = Some s' \<and> conns s' = (conns s)(c := None) \<and>
      evs s' = (evs s)(ev_read i := None, ev_write i := None) \<and> fds s' = fds s - {fd} \<and> closed s' = closed s @ [fd])) \<and>
    (replies s = Data d # Ok 0 # Fail EAGAIN # Ok n # rest \<longrightarrow> d \<noteq> [] \<longrightarrow> length d \<le> CONN_BUF_SIZE \<longrightarrow> n \<le> length resp \<longrightarrow>
      (\<exists>s1 s2. cli_recv_cb fd c s = Some s1 \<and> conn_ok s1 fd c i \<and> sent s1 = sent s \<and>
        evs s1 (ev_write i) = Some \<lparr>ev_fd = fd, ev_kind = EV_WRITE, ev_added = True\<rparr> \<and>
        cli_send_cb resp fd c s1 = Some s2 \<and> conn_ok s2 fd c i \<and> sent s2 fd = sent s fd @ take n resp \<and>
        evs s2 (ev_write i) = Some \<lparr>ev_fd = fd, ev_kind = EV_WRITE, ev_added = False\<rparr>))"
proof (intro conjI impI)
  assume "replies s = Data [] # rest"
  then show "\<exists>s'. cli_recv_cb fd c s = Some s' \<and> conns s' = (conns s)(c := None) \<and>
      evs s' = (evs s)(ev_read i := None, ev_write i := None) \<and> fds s' = fds s - {fd} \<and> closed s' = closed s @ [fd]"
    using assms by (auto simp: cli_recv_cb_def cli_recv_loop.simps sys_recv_def sys_next_def conn_info_free_def
      event_free_def conn_ok_def sys_close_def)
next
  assume r: "replies s = Data d # Ok 0 # Fail EAGAIN # Ok n # rest" and d: "d \<noteq> []" "length d \<le> CONN_BUF_SIZE" "n \<le> length resp"
  obtain b where i: "conns s c = Some i" "evs s (ev_write i) = Some \<lparr>ev_fd = fd, ev_kind = EV_WRITE, ev_added = b\<rparr>"
    using assms by (auto simp: conn_ok_def)
  let ?s1 = "s\<lparr>rcvd := (rcvd s)(fd := rcvd s fd @ d), evs := (evs s)(ev_write i \<mapsto> \<lparr>ev_fd = fd, ev_kind = EV_WRITE, ev_added = True\<rparr>),
    replies := Ok n # rest, os_errno := EAGAIN\<rparr>"
  have 1: "cli_recv_cb fd c s = Some ?s1"
    using r d i by (simp add: cli_recv_cb_def cli_recv_loop.simps sys_recv_def sys_next_def event_add_def sys_zero_def)
  let ?s2 = "?s1\<lparr>replies := rest, sent := (sent s)(fd := sent s fd @ take n resp),
    evs := (evs s)(ev_write i \<mapsto> \<lparr>ev_fd = fd, ev_kind = EV_WRITE, ev_added = False\<rparr>)\<rparr>"
  have 2: "cli_send_cb resp fd c ?s1 = Some ?s2"
    using d i by (simp add: cli_send_cb_def sys_send_def sys_next_def event_del_def)
  show "\<exists>s1 s2. cli_recv_cb fd c s = Some s1 \<and> conn_ok s1 fd c i \<and> sent s1 = sent s \<and>
        evs s1 (ev_write i) = Some \<lparr>ev_fd = fd, ev_kind = EV_WRITE, ev_added = True\<rparr> \<and>
        cli_send_cb resp fd c s1 = Some s2 \<and> conn_ok s2 fd c i \<and> sent s2 fd = sent s fd @ take n resp \<and>
        evs s2 (ev_write i) = Some \<lparr>ev_fd = fd, ev_kind = EV_WRITE, ev_added = False\<rparr>"
    by (rule exI [of _ ?s1], rule exI [of _ ?s2]) (use 1 2 assms in \<open>auto simp: conn_ok_def\<close>)
qed

text \<open>A connection whose reading event cannot be added is not released, although its socket is closed.\<close>

lemma accept_leaks:
  assumes "replies s = [Ok n, Ok 0, Ok c, Ok r, Ok w, Fail e] @ rest" "int n \<notin> fds s" "conns s c = None"
    "evs s r = None" "evs s w = None" "r \<noteq> w"
  shows "\<exists>s'. srvr_accept_cb s = Some s' \<and> int n \<notin> fds s' \<and> conns s' c \<noteq> None \<and> evs s' r \<noteq> None \<and> evs s' w \<noteq> None"
  using assms by (auto simp: srvr_accept_cb_def conn_info_new_def event_new_def event_add_def sys_newfd_def sys_setfl_def
    sys_malloc_def sys_zero_def sys_next_def sys_close_def domIff)

end
