(* ===== verification/Start_Up.thy ===== *)
theory Start_Up
  imports Proxy_Main Sproxy_Core Event_Server
begin

section \<open>Command lines and start-up of the servers\<close>

text \<open>
  Models the command lines of three servers: \<open>parse_command_line_arguments\<close> of the HTTP proxy's
  \<open>proxy_main.c\<close>, the first part of \<open>main\<close> and \<open>init_workq\<close> of the splicing proxy's \<open>sproxy_main.c\<close>, and
  \<open>main\<close> and \<open>print_log\<close> of the libevent server \<open>networking/server/server.c\<close>. The arguments are those after the
  name of the program. Texts that are only printed are left out.

  The lemmas show which configuration file the HTTP proxy opens, when a long argument makes a
  program read outside an array, what the splicing proxy has set up when it starts to accept
  connections, and which messages a log level shows.
\<close>

subsection \<open>The HTTP proxy\<close>

fun parse_arguments_loop :: "optres list \<Rightarrow> string \<Rightarrow> string" where
  "parse_arguments_loop [] conf_file = conf_file"
| "parse_arguments_loop (Opt c optarg # os) conf_file =
     parse_arguments_loop os (if c = CHR ''c'' then strncpy 32 optarg else conf_file)"
| "parse_arguments_loop (_ # os) conf_file = parse_arguments_loop os conf_file"

definition parse_command_line_arguments :: "string list \<Rightarrow> string \<Rightarrow> string" where
  "parse_command_line_arguments argv conf_file = parse_arguments_loop (getopt '':c:vh'' argv) conf_file"

definition proxy_program :: "'fp jsf_conf \<Rightarrow> string list \<Rightarrow> 'a child_os_scheme \<Rightarrow> (int \<times> 'a child_os_scheme) option" where
  "proxy_program lib argv s = do {
     let conf_file = parse_command_line_arguments argv (replicate 32 NUL);
     f \<leftarrow> cstring conf_file;
     proxy_main lib f s }"

text \<open>
  The program runs with the file named by the option, unless the name has 32 characters or more, which leaves
  the array without its end; without the option the name is empty.
\<close>

lemma proxy_program_file:
  assumes "NUL \<notin> set f"
  shows "proxy_program lib [''-c'', f] s = (if length f < 32 then proxy_main lib f s else None)"
    and "proxy_program lib [] s = proxy_main lib [] s"
  using assms by (simp_all add: proxy_program_def parse_command_line_arguments_def cstring_strncpy Let_def) (simp add: cstring_def)

subsection \<open>The splicing proxy\<close>

record sproxy_args =
  arg_bind_ip :: string
  arg_bind_port :: int
  g_dest_ip :: string
  g_dest_port :: int
  g_splice_size :: int
  arg_log_level :: int

definition sproxy_args_of :: "string list \<Rightarrow> sproxy_args option" where
  "sproxy_args_of argv = do {
     port \<leftarrow> atoi (argv ! 1);
     dport \<leftarrow> atoi (argv ! 3);
     size \<leftarrow> atoi (argv ! 4);
     level \<leftarrow> atoi (argv ! 5);
     Some \<lparr>arg_bind_ip = strncpy 16 (argv ! 0), arg_bind_port = port, g_dest_ip = strncpy 16 (argv ! 2),
       g_dest_port = dport, g_splice_size = size, arg_log_level = level\<rparr> }"

text \<open>\<open>WorkQInit\<close> is outside the sources; its result is a parameter.\<close>

definition sproxy_init_workq :: "int \<Rightarrow> int" where
  "sproxy_init_workq WorkQInit_ret = (if WorkQInit_ret \<noteq> 0 then - 1 else 0)"

text \<open>
  Everything before the accept loop: an exit status, or the settings and the listening socket.
\<close>

definition sproxy_start ::
  "int \<Rightarrow> string list \<Rightarrow> 'a os_scheme \<Rightarrow> ((int + sproxy_args \<times> int) \<times> 'a os_scheme) option" where
  "sproxy_start WorkQInit_ret argv s =
     (if length argv < 6 then Some (Inl 1, s)
      else do {
        g \<leftarrow> sproxy_args_of argv;
        if sproxy_init_workq WorkQInit_ret \<noteq> 0 then Some (Inl 1, s)
        else do {
          ip \<leftarrow> cstring (arg_bind_ip g);
          (ret, sock, s) \<leftarrow> tcp_bind_and_listen (Some ip) (arg_bind_port g) (Some 0) s;
          fd \<leftarrow> sock;
          if ret \<noteq> 0 then Some (Inl 1, s) else Some (Inr (g, fd), s) } })"

text \<open>
  When the accept loop is reached, the queue is initialised, the port is a port number, and the listening
  socket is the one descriptor that was opened.
\<close>

lemma sproxy_start_ready:
  assumes "sproxy_start q argv s = Some (Inr (g, fd), s')"
  shows "q = 0" "6 \<le> length argv" "0 \<le> arg_bind_port g \<and> arg_bind_port g \<le> 65535" "length (g_dest_ip g) = 16"
    "fd \<notin> fds s" "fds s' = insert fd (fds s)" "0 \<le> fd"
proof -
  obtain ip where b: "tcp_bind_and_listen (Some ip) (arg_bind_port g) (Some 0) s = Some (0, Some fd, s')"
    and g: "sproxy_args_of argv = Some g"
    using assms by (auto simp: sproxy_start_def elim!: bind_SomeE split: if_splits)
  show "q = 0" "6 \<le> length argv"
    using assms by (auto simp: sproxy_start_def sproxy_init_workq_def elim!: bind_SomeE split: if_splits)
  show "length (g_dest_ip g) = 16" using g by (auto simp: sproxy_args_of_def elim!: bind_SomeE)
  show "0 \<le> arg_bind_port g \<and> arg_bind_port g \<le> 65535" "fd \<notin> fds s" "fds s' = insert fd (fds s)" "0 \<le> fd"
    using b by (auto simp: tcp_bind_and_listen_def elim!: bind_SomeE sys_newfdE sys_fdcallE sys_atonE split: if_splits)
qed

subsection \<open>The libevent server\<close>

definition LOG_LEVEL_MAX :: int where
  "LOG_LEVEL_MAX = 4"

definition clamp_sev :: "int \<Rightarrow> int" where
  "clamp_sev g_sev = (if g_sev > LOG_LEVEL_MAX then LOG_LEVEL_MAX - 1 else g_sev)"

text \<open>The prefix printed before a message, \<open>None\<close> when it is suppressed.\<close>

definition print_log :: "int \<Rightarrow> int \<Rightarrow> string option" where
  "print_log g_sev sev =
     (if sev > g_sev then None
      else if sev = 0 then Some ''CRIT:: ''
      else if sev = 1 then Some ''ERR:: ''
      else if sev = 2 then Some ''INFO:: ''
      else if sev = 3 then Some ''DEBUG:: ''
      else None)"

text \<open>The first component of the result is \<open>g_sev\<close>, the second an exit status.\<close>

definition event_server_main :: "string list \<Rightarrow> 'a event_os_scheme \<Rightarrow> (int \<times> int option \<times> 'a event_os_scheme) option" where
  "event_server_main argv s =
     (if length argv < 3 then Some (0, Some 1, s)
      else do {
        sev \<leftarrow> atoi (argv ! 0);
        port \<leftarrow> atoi (argv ! 2);
        (r, s) \<leftarrow> run_server s;
        Some (clamp_sev sev, r, s) })"

text \<open>
  The clamp lets the level \<open>LOG_LEVEL_MAX\<close> itself pass, without an effect: at this and every higher level
  all messages are shown.
\<close>

lemma print_log_levels:
  "print_log (clamp_sev g) sev \<noteq> None \<longleftrightarrow> 0 \<le> sev \<and> sev \<le> 3 \<and> sev \<le> g"
  by (auto simp: print_log_def clamp_sev_def LOG_LEVEL_MAX_def)

lemma event_server_log_level:
  "3 \<le> length argv \<Longrightarrow> event_server_main argv s = Some (g, r, s') \<Longrightarrow>
   \<exists>sev. atoi (argv ! 0) = Some sev \<and> run_server s = Some (r, s') \<and> (\<forall>l. print_log g l \<noteq> None \<longleftrightarrow> 0 \<le> l \<and> l \<le> 3 \<and> l \<le> sev)"
  by (auto simp: event_server_main_def print_log_levels simp del: not_None_eq elim!: bind_SomeE)

end
