(* ===== verification/Mongo_Api.thy ===== *)
theory Mongo_Api
  imports Tpt_Prelude
begin

section \<open>The MongoDB client library\<close>

text \<open>
  Models \<open>src/src/mongo_api/mongo_api.c\<close>. The driver (\<open>mongoc\<close>) is outside the sources and a parameter: the record \<open>mongoc\<close>
  of its functions, over a state of an arbitrary type. Nothing is assumed of it; it may fail any call. The
  state of the library is that of the driver, the contexts it has allocated, and the calls it has
  made with their results (\<open>events\<close>), which is what the lemmas talk about. Using a context that is not
  allocated is undefined and gives \<open>None\<close>.

  The lemmas show that the parameters of a pool are always made sensible, that every
  operation uses only what it holds and gives back what it took on every path, that it reports success exactly
  when the driver accepted its request, that a failed query is reported as an absent document, that a client goes back to the pool before what was
  made from it is destroyed, and that the connection string lacks a separator.
\<close>

datatype mongoc_flags = MONGOC_INSERT_NONE | MONGOC_REMOVE_NONE | MONGOC_UPDATE_MULTI_UPDATE | MONGOC_QUERY_NONE

record 'd mongoc =
  mongoc_uri_new :: "string \<Rightarrow> 'd \<Rightarrow> cptr \<times> 'd"
  mongoc_uri_destroy :: "addr \<Rightarrow> 'd \<Rightarrow> 'd"
  mongoc_client_pool_new :: "addr \<Rightarrow> 'd \<Rightarrow> cptr \<times> 'd"
  mongoc_client_pool_destroy :: "addr \<Rightarrow> 'd \<Rightarrow> 'd"
  mongoc_client_pool_pop :: "addr \<Rightarrow> 'd \<Rightarrow> cptr \<times> 'd"
  mongoc_client_pool_push :: "addr \<Rightarrow> addr \<Rightarrow> 'd \<Rightarrow> 'd"
  mongoc_client_get_collection :: "addr \<Rightarrow> string \<Rightarrow> string \<Rightarrow> 'd \<Rightarrow> cptr \<times> 'd"
  mongoc_collection_destroy :: "addr \<Rightarrow> 'd \<Rightarrow> 'd"
  mongoc_collection_insert :: "addr \<Rightarrow> mongoc_flags \<Rightarrow> addr \<Rightarrow> 'd \<Rightarrow> bool \<times> 'd"
  mongoc_collection_remove :: "addr \<Rightarrow> mongoc_flags \<Rightarrow> addr \<Rightarrow> 'd \<Rightarrow> bool \<times> 'd"
  mongoc_collection_create_index :: "addr \<Rightarrow> addr \<Rightarrow> int \<Rightarrow> 'd \<Rightarrow> bool \<times> 'd"
  mongoc_collection_update :: "addr \<Rightarrow> mongoc_flags \<Rightarrow> addr \<Rightarrow> addr \<Rightarrow> 'd \<Rightarrow> bool \<times> 'd"
  mongoc_collection_find :: "addr \<Rightarrow> mongoc_flags \<Rightarrow> addr \<Rightarrow> 'd \<Rightarrow> cptr \<times> 'd"
  mongoc_cursor_next :: "addr \<Rightarrow> 'd \<Rightarrow> bool \<times> 'd"
  mongoc_cursor_destroy :: "addr \<Rightarrow> 'd \<Rightarrow> 'd"
  ctx_malloc :: "'d \<Rightarrow> cptr \<times> 'd"

text \<open>The calls of the driver with their arguments and results.\<close>

datatype mongo_event =
    UriNew string cptr
  | UriDestroy addr
  | PoolNew addr cptr
  | PoolDestroy addr
  | PoolPop addr cptr
  | PoolPush addr addr
  | GetCollection addr string string cptr
  | CollectionDestroy addr
  | CollectionInsert addr mongoc_flags addr bool
  | CollectionRemove addr mongoc_flags addr bool
  | CollectionCreateIndex addr addr int bool
  | CollectionUpdate addr mongoc_flags addr addr bool
  | CollectionFind addr mongoc_flags addr cptr
  | CursorNext addr bool
  | CursorDestroy addr

record 'd mongo_st =
  drv :: 'd
  ctxs :: "addr \<rightharpoonup> addr"
  events :: "mongo_event list"

text \<open>A call with a result, and a call without.\<close>

definition asks :: "('d \<Rightarrow> 'r \<times> 'd) \<Rightarrow> ('r \<Rightarrow> mongo_event) \<Rightarrow> 'd mongo_st \<Rightarrow> 'r \<times> 'd mongo_st" where
  "asks f e s = (let (r, d) = f (drv s) in (r, s\<lparr>drv := d, events := events s @ [e r]\<rparr>))"

definition tells :: "('d \<Rightarrow> 'd) \<Rightarrow> mongo_event \<Rightarrow> 'd mongo_st \<Rightarrow> 'd mongo_st" where
  "tells f e s = s\<lparr>drv := f (drv s), events := events s @ [e]\<rparr>"

definition pool_pop :: "'d mongoc \<Rightarrow> addr \<Rightarrow> 'd mongo_st \<Rightarrow> cptr \<times> 'd mongo_st" where
  "pool_pop M pool = asks (mongoc_client_pool_pop M pool) (PoolPop pool)"

definition pool_push :: "'d mongoc \<Rightarrow> addr \<Rightarrow> addr \<Rightarrow> 'd mongo_st \<Rightarrow> 'd mongo_st" where
  "pool_push M pool c = tells (mongoc_client_pool_push M pool c) (PoolPush pool c)"

definition get_collection :: "'d mongoc \<Rightarrow> addr \<Rightarrow> string \<Rightarrow> string \<Rightarrow> 'd mongo_st \<Rightarrow> cptr \<times> 'd mongo_st" where
  "get_collection M c db cn = asks (mongoc_client_get_collection M c db cn) (GetCollection c db cn)"

definition coll_destroy :: "'d mongoc \<Rightarrow> addr \<Rightarrow> 'd mongo_st \<Rightarrow> 'd mongo_st" where
  "coll_destroy M k = tells (mongoc_collection_destroy M k) (CollectionDestroy k)"

definition MONGO_ERR_NULL_PARAMS :: int where "MONGO_ERR_NULL_PARAMS = - 2000"
definition MONGO_ERR_MEM_ALLOC :: int where "MONGO_ERR_MEM_ALLOC = - 1999"
definition MONGO_ERR_POOL_PARAMS :: int where "MONGO_ERR_POOL_PARAMS = - 1998"
definition MONGO_ERR_URI_NEW :: int where "MONGO_ERR_URI_NEW = - 1997"
definition MONGO_ERR_POOL_NEW :: int where "MONGO_ERR_POOL_NEW = - 1996"
definition MONGO_ERR_POOL_POP :: int where "MONGO_ERR_POOL_POP = - 1995"
definition MONGO_ERR_COLL_GET :: int where "MONGO_ERR_COLL_GET = - 1994"
definition MONGO_ERR_COLL_FIND :: int where "MONGO_ERR_COLL_FIND = - 1993"
definition MONGO_ERR_COLL_INSERT :: int where "MONGO_ERR_COLL_INSERT = - 1992"
definition MONGO_ERR_COLL_REMOVE :: int where "MONGO_ERR_COLL_REMOVE = - 1991"
definition MONGO_ERR_COLL_UPDATE :: int where "MONGO_ERR_COLL_UPDATE = - 1990"
definition MONGO_ERR_TTL_INVALID :: int where "MONGO_ERR_TTL_INVALID = - 1989"
definition MONGO_ERR_COLL_INDEX_CREATE :: int where "MONGO_ERR_COLL_INDEX_CREATE = - 1988"

lemmas mongo_codes = MONGO_ERR_NULL_PARAMS_def MONGO_ERR_MEM_ALLOC_def MONGO_ERR_POOL_PARAMS_def
  MONGO_ERR_URI_NEW_def MONGO_ERR_POOL_NEW_def MONGO_ERR_POOL_POP_def MONGO_ERR_COLL_GET_def
  MONGO_ERR_COLL_FIND_def MONGO_ERR_COLL_INSERT_def MONGO_ERR_COLL_REMOVE_def MONGO_ERR_COLL_UPDATE_def
  MONGO_ERR_TTL_INVALID_def MONGO_ERR_COLL_INDEX_CREATE_def

definition mongo_err_msg :: "int \<Rightarrow> string option" where
  "mongo_err_msg code =
     (if code = MONGO_ERR_NULL_PARAMS then Some ''MONGO_ERR_NULL_PARAMS''
      else if code = MONGO_ERR_MEM_ALLOC then Some ''MONGO_ERR_MEM_ALLOC''
      else if code = MONGO_ERR_POOL_PARAMS then Some ''MONGO_ERR_POOL_PARAMS''
      else if code = MONGO_ERR_URI_NEW then Some ''MONGO_ERR_URI_NEW''
      else if code = MONGO_ERR_POOL_NEW then Some ''MONGO_ERR_POOL_NEW''
      else if code = MONGO_ERR_POOL_POP then Some ''MONGO_ERR_POOL_POP''
      else if code = MONGO_ERR_COLL_GET then Some ''MONGO_ERR_COLL_GET''
      else if code = MONGO_ERR_COLL_FIND then Some ''MONGO_ERR_COLL_FIND''
      else if code = MONGO_ERR_COLL_INSERT then Some ''MONGO_ERR_COLL_INSERT''
      else if code = MONGO_ERR_COLL_REMOVE then Some ''MONGO_ERR_COLL_REMOVE''
      else if code = MONGO_ERR_TTL_INVALID then Some ''MONGO_ERR_TTL_INVALID''
      else if code = MONGO_ERR_COLL_INDEX_CREATE then Some ''MONGO_ERR_COLL_INDEX_CREATE''
      else None)"

subsection \<open>The pool of contexts\<close>

definition mongo_check_pool_params ::
  "int option \<Rightarrow> int option \<Rightarrow> int option \<Rightarrow> int option \<Rightarrow> int \<times> int option \<times> int option \<times> int option \<times> int option" where
  "mongo_check_pool_params min_size max_size conn_timeout op_timeout =
     (case (min_size, max_size, conn_timeout, op_timeout) of
        (Some mn, Some mx, Some ct, Some ot) \<Rightarrow>
          (let mn = (if mn \<le> 0 then 1 else mn);
               mx = (if mx \<le> 0 then 10 else mx);
               mn = (if mn > mx then mx else mn);
               ct = (if ct \<le> 0 then 5000 else ct);
               ot = (if ot \<le> 0 then 5000 else ot)
           in (0, Some mn, Some mx, Some ct, Some ot))
      | _ \<Rightarrow> (MONGO_ERR_NULL_PARAMS, min_size, max_size, conn_timeout, op_timeout))"

text \<open>Decimal output of \<open>%d\<close>.\<close>

fun nat_str :: "nat \<Rightarrow> string" where
  "nat_str n = (if n < 10 then [''0123456789'' ! n] else nat_str (n div 10) @ [''0123456789'' ! (n mod 10)])"

declare nat_str.simps [simp del]

definition int_str :: "int \<Rightarrow> string" where
  "int_str i = (if i < 0 then CHR ''-'' # nat_str (nat (- i)) else nat_str (nat i))"

definition pool_uri :: "string \<Rightarrow> int \<Rightarrow> int \<Rightarrow> int \<Rightarrow> int \<Rightarrow> int \<Rightarrow> string" where
  "pool_uri ip port min_size max_size conn_timeout op_timeout = take 2047
     (''mongodb://'' @ ip @ '':'' @ int_str port @ ''/?minPoolSize='' @ int_str min_size @
      ''&maxPoolSize='' @ int_str max_size @ ''&connectTimeoutMS='' @ int_str conn_timeout @
      ''socketTimeoutMS='' @ int_str op_timeout)"

text \<open>The first argument is the pointer \<open>*mpool\<close>, \<open>None\<close> when \<open>mpool\<close> is null.\<close>

definition mongo_context_pool_init ::
  "'d mongoc \<Rightarrow> cptr option \<Rightarrow> string option \<Rightarrow> int \<Rightarrow> int \<Rightarrow> int \<Rightarrow> int \<Rightarrow> int \<Rightarrow> 'd mongo_st \<Rightarrow>
   (int \<times> cptr option \<times> 'd mongo_st) option" where
  "mongo_context_pool_init M mpool ip port min_size max_size conn_timeout op_timeout s =
     (case (mpool, ip) of
        (Some _, Some ip) \<Rightarrow>
          (case mongo_check_pool_params (Some min_size) (Some max_size) (Some conn_timeout) (Some op_timeout) of
             (r, Some mn, Some mx, Some ct, Some ot) \<Rightarrow>
               if r < 0 then Some (MONGO_ERR_POOL_PARAMS, mpool, s)
               else do {
                 let uri = pool_uri ip port mn mx ct ot;
                 let (u, s) = asks (mongoc_uri_new M uri) (UriNew uri) s;
                 case u of None \<Rightarrow> Some (MONGO_ERR_URI_NEW, mpool, s)
                 | Some u \<Rightarrow> do {
                     let (p, s) = asks (mongoc_client_pool_new M u) (PoolNew u) s;
                     case p of None \<Rightarrow> Some (MONGO_ERR_POOL_NEW, mpool, tells (mongoc_uri_destroy M u) (UriDestroy u) s)
                     | Some p \<Rightarrow> do {
                         let (c, d) = ctx_malloc M (drv s);
                         let s = s\<lparr>drv := d\<rparr>;
                         case c of None \<Rightarrow> do {
                             let s = tells (mongoc_uri_destroy M u) (UriDestroy u) s;
                             let s = tells (mongoc_client_pool_destroy M p) (PoolDestroy p) s;
                             Some (MONGO_ERR_MEM_ALLOC, Some None, s) }
                         | Some c \<Rightarrow>
                             if c \<in> dom (ctxs s) then None
                             else Some (0, Some (Some c),
                               tells (mongoc_uri_destroy M u) (UriDestroy u) (s\<lparr>ctxs := (ctxs s)(c \<mapsto> p)\<rparr>)) } } }
           | _ \<Rightarrow> None)
      | _ \<Rightarrow> Some (MONGO_ERR_NULL_PARAMS, mpool, s))"

definition mongo_context_pool_destroy ::
  "'d mongoc \<Rightarrow> cptr option \<Rightarrow> 'd mongo_st \<Rightarrow> (int \<times> cptr option \<times> 'd mongo_st) option" where
  "mongo_context_pool_destroy M mpool s =
     (case mpool of None \<Rightarrow> Some (MONGO_ERR_NULL_PARAMS, mpool, s)
      | Some q \<Rightarrow> do {
          c \<leftarrow> q;
          p \<leftarrow> ctxs s c;
          let s = tells (mongoc_client_pool_destroy M p) (PoolDestroy p) s;
          Some (0, Some None, s\<lparr>ctxs := (ctxs s)(c := None)\<rparr>) })"

subsection \<open>Operations on documents\<close>

definition mongo_insert_doc ::
  "'d mongoc \<Rightarrow> cptr \<Rightarrow> string option \<Rightarrow> string option \<Rightarrow> cptr \<Rightarrow> 'd mongo_st \<Rightarrow> (int \<times> 'd mongo_st) option" where
  "mongo_insert_doc M mpool db_name coll_name doc s =
     (if mpool = None \<or> db_name = None \<or> coll_name = None \<or> doc = None then Some (MONGO_ERR_NULL_PARAMS, s)
      else do {
        m \<leftarrow> mpool;
        pool \<leftarrow> ctxs s m;
        db \<leftarrow> db_name;
        cn \<leftarrow> coll_name;
        d \<leftarrow> doc;
        let (client, s) = pool_pop M pool s;
        case client of None \<Rightarrow> Some (MONGO_ERR_POOL_POP, s)
        | Some client \<Rightarrow> do {
            let (coll, s) = get_collection M client db cn s;
            case coll of None \<Rightarrow> do {
                let s = pool_push M pool client s;
                Some (MONGO_ERR_COLL_GET, s) }
            | Some coll \<Rightarrow> do {
                let (ok, s) = asks (mongoc_collection_insert M coll MONGOC_INSERT_NONE d) (CollectionInsert coll MONGOC_INSERT_NONE d) s;
                if \<not> ok then do {
                  let s = pool_push M pool client s;
                  let s = coll_destroy M coll s;
                  Some (MONGO_ERR_COLL_INSERT, s) }
                else do {
                  let s = pool_push M pool client s;
                  let s = coll_destroy M coll s;
                  Some (0, s) } } } })"

definition mongo_doc_remove ::
  "'d mongoc \<Rightarrow> cptr \<Rightarrow> string option \<Rightarrow> string option \<Rightarrow> cptr \<Rightarrow> 'd mongo_st \<Rightarrow> (int \<times> 'd mongo_st) option" where
  "mongo_doc_remove M mpool db_name coll_name query s =
     (if mpool = None \<or> db_name = None \<or> coll_name = None \<or> query = None then Some (MONGO_ERR_NULL_PARAMS, s)
      else do {
        m \<leftarrow> mpool;
        pool \<leftarrow> ctxs s m;
        db \<leftarrow> db_name;
        cn \<leftarrow> coll_name;
        q \<leftarrow> query;
        let (client, s) = pool_pop M pool s;
        case client of None \<Rightarrow> Some (MONGO_ERR_POOL_POP, s)
        | Some client \<Rightarrow> do {
            let (coll, s) = get_collection M client db cn s;
            case coll of None \<Rightarrow> do {
                let s = pool_push M pool client s;
                Some (MONGO_ERR_COLL_GET, s) }
            | Some coll \<Rightarrow> do {
                let (ok, s) = asks (mongoc_collection_remove M coll MONGOC_REMOVE_NONE q) (CollectionRemove coll MONGOC_REMOVE_NONE q) s;
                if \<not> ok then do {
                  let s = pool_push M pool client s;
                  let s = coll_destroy M coll s;
                  Some (MONGO_ERR_COLL_REMOVE, s) }
                else do {
                  let s = pool_push M pool client s;
                  let s = coll_destroy M coll s;
                  Some (0, s) } } } })"

text \<open>The index options are the defaults of the driver with the time to live.\<close>

definition mongo_coll_create_ttl_index ::
  "'d mongoc \<Rightarrow> cptr \<Rightarrow> string option \<Rightarrow> string option \<Rightarrow> cptr \<Rightarrow> int \<Rightarrow> 'd mongo_st \<Rightarrow> (int \<times> 'd mongo_st) option" where
  "mongo_coll_create_ttl_index M mpool db_name coll_name keys ttl s =
     (if mpool = None \<or> db_name = None \<or> coll_name = None \<or> keys = None then Some (MONGO_ERR_NULL_PARAMS, s)
      else if ttl < 0 then Some (MONGO_ERR_TTL_INVALID, s)
      else do {
        m \<leftarrow> mpool;
        pool \<leftarrow> ctxs s m;
        db \<leftarrow> db_name;
        cn \<leftarrow> coll_name;
        ks \<leftarrow> keys;
        let (client, s) = pool_pop M pool s;
        case client of None \<Rightarrow> Some (MONGO_ERR_POOL_POP, s)
        | Some client \<Rightarrow> do {
            let (coll, s) = get_collection M client db cn s;
            case coll of None \<Rightarrow> do {
                let s = pool_push M pool client s;
                Some (MONGO_ERR_COLL_GET, s) }
            | Some coll \<Rightarrow> do {
                let (ok, s) = asks (mongoc_collection_create_index M coll ks ttl) (CollectionCreateIndex coll ks ttl) s;
                if \<not> ok then do {
                  let s = pool_push M pool client s;
                  let s = coll_destroy M coll s;
                  Some (MONGO_ERR_COLL_INDEX_CREATE, s) }
                else do {
                  let s = pool_push M pool client s;
                  let s = coll_destroy M coll s;
                  Some (0, s) } } } })"

definition mongo_doc_update ::
  "'d mongoc \<Rightarrow> cptr \<Rightarrow> string option \<Rightarrow> string option \<Rightarrow> cptr \<Rightarrow> cptr \<Rightarrow> 'd mongo_st \<Rightarrow> (int \<times> 'd mongo_st) option" where
  "mongo_doc_update M mpool db_name coll_name query update s =
     (if mpool = None \<or> db_name = None \<or> coll_name = None \<or> query = None \<or> update = None then Some (MONGO_ERR_NULL_PARAMS, s)
      else do {
        m \<leftarrow> mpool;
        pool \<leftarrow> ctxs s m;
        db \<leftarrow> db_name;
        cn \<leftarrow> coll_name;
        q \<leftarrow> query;
        u \<leftarrow> update;
        let (client, s) = pool_pop M pool s;
        case client of None \<Rightarrow> Some (MONGO_ERR_POOL_POP, s)
        | Some client \<Rightarrow> do {
            let (coll, s) = get_collection M client db cn s;
            case coll of None \<Rightarrow> do {
                let s = pool_push M pool client s;
                Some (MONGO_ERR_COLL_GET, s) }
            | Some coll \<Rightarrow> do {
                let (ok, s) = asks (mongoc_collection_update M coll MONGOC_UPDATE_MULTI_UPDATE q u)
                  (CollectionUpdate coll MONGOC_UPDATE_MULTI_UPDATE q u) s;
                if \<not> ok then do {
                  let s = pool_push M pool client s;
                  let s = coll_destroy M coll s;
                  Some (MONGO_ERR_COLL_UPDATE, s) }
                else do {
                  let s = pool_push M pool client s;
                  let s = coll_destroy M coll s;
                  Some (0, s) } } } })"

text \<open>The pointer \<open>exists\<close> is the value behind it.\<close>

definition mongo_doc_exists ::
  "'d mongoc \<Rightarrow> cptr \<Rightarrow> string option \<Rightarrow> string option \<Rightarrow> cptr \<Rightarrow> bool option \<Rightarrow> 'd mongo_st \<Rightarrow>
   (int \<times> bool option \<times> 'd mongo_st) option" where
  "mongo_doc_exists M mpool db_name coll_name query exists s =
     (if mpool = None \<or> db_name = None \<or> coll_name = None \<or> query = None \<or> exists = None
      then Some (MONGO_ERR_NULL_PARAMS, exists, s)
      else do {
        m \<leftarrow> mpool;
        pool \<leftarrow> ctxs s m;
        db \<leftarrow> db_name;
        cn \<leftarrow> coll_name;
        q \<leftarrow> query;
        let (client, s) = pool_pop M pool s;
        case client of None \<Rightarrow> Some (MONGO_ERR_POOL_POP, exists, s)
        | Some client \<Rightarrow> do {
            let (coll, s) = get_collection M client db cn s;
            case coll of None \<Rightarrow> do {
                let s = pool_push M pool client s;
                Some (MONGO_ERR_COLL_GET, exists, s) }
            | Some coll \<Rightarrow> do {
                let (cursor, s) = asks (mongoc_collection_find M coll MONGOC_QUERY_NONE q) (CollectionFind coll MONGOC_QUERY_NONE q) s;
                case cursor of None \<Rightarrow> do {
                    let s = pool_push M pool client s;
                    let s = coll_destroy M coll s;
                    Some (MONGO_ERR_COLL_FIND, exists, s) }
                | Some cursor \<Rightarrow> do {
                    let (found, s) = asks (mongoc_cursor_next M cursor) (CursorNext cursor) s;
                    let exists = Some found;
                    let s = pool_push M pool client s;
                    let s = coll_destroy M coll s;
                    let s = tells (mongoc_cursor_destroy M cursor) (CursorDestroy cursor) s;
                    Some (0, exists, s) } } } })"

subsection \<open>Everything taken is given back\<close>

text \<open>
  What the library holds of the driver, and how a call changes it: a call that fails adds nothing, a call on an object needs it to
  be held, and giving an object back needs it too.
\<close>

datatype resource = Uri addr | Pool addr | Client addr addr | Coll addr | Cursor addr

definition needs :: "resource \<Rightarrow> resource list \<Rightarrow> resource list option" where
  "needs r h = (if r \<in> set h then Some h else None)"

definition gives :: "resource \<Rightarrow> resource list \<Rightarrow> resource list option" where
  "gives r h = (if r \<in> set h then Some (remove1 r h) else None)"

definition takes :: "(addr \<Rightarrow> resource) \<Rightarrow> cptr \<Rightarrow> resource list \<Rightarrow> resource list option" where
  "takes f p h = Some (case p of None \<Rightarrow> h | Some a \<Rightarrow> f a # h)"

fun account :: "mongo_event \<Rightarrow> resource list \<Rightarrow> resource list option" where
  "account (UriNew u p) h = takes Uri p h"
| "account (UriDestroy u) h = gives (Uri u) h"
| "account (PoolNew u p) h = Option.bind (needs (Uri u) h) (takes Pool p)"
| "account (PoolDestroy p) h = gives (Pool p) h"
| "account (PoolPop p c) h = takes (Client p) c h"
| "account (PoolPush p c) h = gives (Client p c) h"
| "account (GetCollection c db cn k) h =
     (if list_ex (\<lambda>r. case r of Client _ c' \<Rightarrow> c' = c | _ \<Rightarrow> False) h then takes Coll k h else None)"
| "account (CollectionDestroy k) h = gives (Coll k) h"
| "account (CollectionInsert k f d b) h = needs (Coll k) h"
| "account (CollectionRemove k f q b) h = needs (Coll k) h"
| "account (CollectionCreateIndex k ks ttl b) h = needs (Coll k) h"
| "account (CollectionUpdate k f q u b) h = needs (Coll k) h"
| "account (CollectionFind k f q c) h = Option.bind (needs (Coll k) h) (takes Cursor c)"
| "account (CursorNext c b) h = needs (Cursor c) h"
| "account (CursorDestroy c) h = gives (Cursor c) h"

fun settle :: "mongo_event list \<Rightarrow> resource list \<Rightarrow> resource list option" where
  "settle [] h = Some h"
| "settle (e # es) h = Option.bind (account e h) (settle es)"

fun is_request :: "mongo_event \<Rightarrow> bool" where
  "is_request (CollectionInsert k f d b) = True"
| "is_request (CollectionRemove k f q b) = True"
| "is_request (CollectionCreateIndex k ks ttl b) = True"
| "is_request (CollectionUpdate k f q u b) = True"
| "is_request (CollectionFind k f q c) = True"
| "is_request _ = False"

text \<open>
  \<open>op_done pool db cn req good r ev\<close>: an operation that made the calls \<open>ev\<close> and returned \<open>r\<close> used only what it held and holds nothing
  more at the end; it made no request but its own, \<open>req\<close>, at most once, on the collection \<open>cn\<close> of \<open>db\<close> obtained through a client of its
  pool; and it returned 0 exactly when that request was answered with a good result, else a negative code.
\<close>

definition op_done ::
  "addr \<Rightarrow> string \<Rightarrow> string \<Rightarrow> (addr \<Rightarrow> 'r \<Rightarrow> mongo_event) \<Rightarrow> ('r \<Rightarrow> bool) \<Rightarrow> int \<Rightarrow> mongo_event list \<Rightarrow> bool" where
  "op_done pool db cn req good r ev \<longleftrightarrow> (\<forall>h. settle ev h = Some h) \<and>
     ((\<exists>c k x. filter is_request ev = [req k x] \<and> PoolPop pool (Some c) \<in> set ev \<and> GetCollection c db cn (Some k) \<in> set ev \<and>
         (if good x then r = 0 else r < 0)) \<or>
      (filter is_request ev = [] \<and> r < 0))"

lemmas account_simps = takes_def gives_def needs_def
lemmas call_simps = asks_def tells_def pool_pop_def pool_push_def get_collection_def coll_destroy_def

text \<open>The part the four modifying operations share.\<close>

definition request_op ::
  "'d mongoc \<Rightarrow> addr \<Rightarrow> string \<Rightarrow> string \<Rightarrow> (addr \<Rightarrow> 'd \<Rightarrow> bool \<times> 'd) \<Rightarrow> (addr \<Rightarrow> bool \<Rightarrow> mongo_event) \<Rightarrow> int \<Rightarrow>
   'd mongo_st \<Rightarrow> int \<times> 'd mongo_st" where
  "request_op M pool db cn f req err s =
     (let (client, s) = pool_pop M pool s
      in case client of None \<Rightarrow> (MONGO_ERR_POOL_POP, s)
         | Some client \<Rightarrow>
             (let (coll, s) = get_collection M client db cn s
              in case coll of None \<Rightarrow> (MONGO_ERR_COLL_GET, pool_push M pool client s)
                 | Some coll \<Rightarrow>
                     (let (ok, s) = asks (f coll) (req coll) s
                      in (if ok then 0 else err, coll_destroy M coll (pool_push M pool client s)))))"

lemma modifying_ops:
  assumes "ctxs s m = Some pool"
  shows "mongo_insert_doc M (Some m) (Some db) (Some cn) (Some d) s =
      Some (request_op M pool db cn (\<lambda>k. mongoc_collection_insert M k MONGOC_INSERT_NONE d)
        (\<lambda>k. CollectionInsert k MONGOC_INSERT_NONE d) MONGO_ERR_COLL_INSERT s)"
    and "mongo_doc_remove M (Some m) (Some db) (Some cn) (Some q) s =
      Some (request_op M pool db cn (\<lambda>k. mongoc_collection_remove M k MONGOC_REMOVE_NONE q)
        (\<lambda>k. CollectionRemove k MONGOC_REMOVE_NONE q) MONGO_ERR_COLL_REMOVE s)"
    and "0 \<le> ttl \<Longrightarrow> mongo_coll_create_ttl_index M (Some m) (Some db) (Some cn) (Some ks) ttl s =
      Some (request_op M pool db cn (\<lambda>k. mongoc_collection_create_index M k ks ttl)
        (\<lambda>k. CollectionCreateIndex k ks ttl) MONGO_ERR_COLL_INDEX_CREATE s)"
    and "mongo_doc_update M (Some m) (Some db) (Some cn) (Some q) (Some u) s =
      Some (request_op M pool db cn (\<lambda>k. mongoc_collection_update M k MONGOC_UPDATE_MULTI_UPDATE q u)
        (\<lambda>k. CollectionUpdate k MONGOC_UPDATE_MULTI_UPDATE q u) MONGO_ERR_COLL_UPDATE s)"
  using assms
  by (simp_all add: mongo_insert_doc_def mongo_doc_remove_def mongo_coll_create_ttl_index_def mongo_doc_update_def
    request_op_def Let_def split: prod.splits option.splits)

lemma request_op_done:
  assumes "err < 0" and "\<And>k b h. account (req k b) h = needs (Coll k) h" and "\<And>k b. is_request (req k b)"
  shows "\<exists>r s' ev. request_op M pool db cn f req err s = (r, s') \<and> events s' = events s @ ev \<and> ctxs s' = ctxs s \<and>
    op_done pool db cn req id r ev"
proof -
  obtain c d1 where c: "mongoc_client_pool_pop M pool (drv s) = (c, d1)" by fastforce
  show ?thesis
  proof (cases c)
    case None
    then show ?thesis using c
      by (simp add: request_op_def call_simps op_done_def account_simps mongo_codes)
  next
    case (Some client)
    obtain k d2 where k: "mongoc_client_get_collection M client db cn d1 = (k, d2)" by fastforce
    show ?thesis
    proof (cases k)
      case None
      then show ?thesis using c k Some
        by (simp add: request_op_def call_simps op_done_def account_simps mongo_codes)
    next
      case (Some coll)
      obtain b d3 where "f coll d2 = (b, d3)" by fastforce
      then show ?thesis using c k Some \<open>c = Some client\<close> assms
        by (cases b) (auto simp: request_op_def call_simps op_done_def account_simps)
    qed
  qed
qed

lemma exists_done:
  assumes "ctxs s m = Some pool"
  shows "\<exists>r e' s' ev. mongo_doc_exists M (Some m) (Some db) (Some cn) (Some q) (Some e) s = Some (r, e', s') \<and>
    events s' = events s @ ev \<and> ctxs s' = ctxs s \<and>
    op_done pool db cn (\<lambda>k. CollectionFind k MONGOC_QUERY_NONE q) (\<lambda>c. c \<noteq> None) r ev \<and>
    (if r = 0 then \<exists>c x. CursorNext c x \<in> set ev \<and> e' = Some x else e' = Some e)"
proof -
  obtain c d1 where c: "mongoc_client_pool_pop M pool (drv s) = (c, d1)" by fastforce
  show ?thesis
  proof (cases c)
    case None
    then show ?thesis using c assms
      by (simp add: mongo_doc_exists_def call_simps op_done_def account_simps mongo_codes)
  next
    case (Some client)
    obtain k d2 where k: "mongoc_client_get_collection M client db cn d1 = (k, d2)" by fastforce
    show ?thesis
    proof (cases k)
      case None
      then show ?thesis using c k Some assms
        by (simp add: mongo_doc_exists_def call_simps op_done_def account_simps mongo_codes)
    next
      case (Some coll)
      obtain u d3 where u: "mongoc_collection_find M coll MONGOC_QUERY_NONE q d2 = (u, d3)" by fastforce
      show ?thesis
      proof (cases u)
        case None
        then show ?thesis using c k u Some \<open>c = Some client\<close> assms
          by (simp add: mongo_doc_exists_def call_simps op_done_def account_simps mongo_codes)
      next
        case (Some cursor)
        obtain b d4 where "mongoc_cursor_next M cursor d3 = (b, d4)" by fastforce
        then show ?thesis using c k u Some \<open>k = Some coll\<close> \<open>c = Some client\<close> assms
          by (simp add: mongo_doc_exists_def call_simps op_done_def account_simps)
      qed
    qed
  qed
qed

text \<open>
  C29: for every driver, whatever it answers, an operation on documents with a valid context returns; it used only objects that it
  held, and has given back the client it took from the pool and destroyed its collection and its cursor, on every path. It
  made at most one request, its own, on the collection it was asked for, and returns 0 exactly when the driver
  accepted the request (for \<open>mongo_doc_exists\<close>: gave a cursor), else a negative code; a negative time to live is refused without any
  call. \<open>mongo_doc_exists\<close> stores what \<open>mongoc_cursor_next\<close> answered when it returns 0, and stores nothing otherwise.
\<close>

theorem mongo_ops_balanced:
  assumes "ctxs s m = Some pool"
  shows "(\<exists>r s' ev. mongo_insert_doc M (Some m) (Some db) (Some cn) (Some d) s = Some (r, s') \<and> events s' = events s @ ev \<and>
      ctxs s' = ctxs s \<and> op_done pool db cn (\<lambda>k. CollectionInsert k MONGOC_INSERT_NONE d) id r ev) \<and>
    (\<exists>r s' ev. mongo_doc_remove M (Some m) (Some db) (Some cn) (Some q) s = Some (r, s') \<and> events s' = events s @ ev \<and>
      ctxs s' = ctxs s \<and> op_done pool db cn (\<lambda>k. CollectionRemove k MONGOC_REMOVE_NONE q) id r ev) \<and>
    (\<exists>r s' ev. mongo_coll_create_ttl_index M (Some m) (Some db) (Some cn) (Some ks) ttl s = Some (r, s') \<and>
      events s' = events s @ ev \<and> ctxs s' = ctxs s \<and>
      (if ttl < 0 then ev = [] \<and> r = MONGO_ERR_TTL_INVALID else op_done pool db cn (\<lambda>k. CollectionCreateIndex k ks ttl) id r ev)) \<and>
    (\<exists>r s' ev. mongo_doc_update M (Some m) (Some db) (Some cn) (Some q) (Some u) s = Some (r, s') \<and> events s' = events s @ ev \<and>
      ctxs s' = ctxs s \<and> op_done pool db cn (\<lambda>k. CollectionUpdate k MONGOC_UPDATE_MULTI_UPDATE q u) id r ev) \<and>
    (\<exists>r e' s' ev. mongo_doc_exists M (Some m) (Some db) (Some cn) (Some q) (Some e) s = Some (r, e', s') \<and>
      events s' = events s @ ev \<and> ctxs s' = ctxs s \<and>
      op_done pool db cn (\<lambda>k. CollectionFind k MONGOC_QUERY_NONE q) (\<lambda>c. c \<noteq> None) r ev \<and>
      (if r = 0 then \<exists>c x. CursorNext c x \<in> set ev \<and> e' = Some x else e' = Some e))"
proof (intro conjI)
  note req = request_op_done [of _ _ M pool db cn _ s]
  show "\<exists>r s' ev. mongo_insert_doc M (Some m) (Some db) (Some cn) (Some d) s = Some (r, s') \<and> events s' = events s @ ev \<and>
      ctxs s' = ctxs s \<and> op_done pool db cn (\<lambda>k. CollectionInsert k MONGOC_INSERT_NONE d) id r ev"
    unfolding modifying_ops(1) [OF assms] option.inject by (rule req) (simp_all add: mongo_codes)
  show "\<exists>r s' ev. mongo_doc_remove M (Some m) (Some db) (Some cn) (Some q) s = Some (r, s') \<and> events s' = events s @ ev \<and>
      ctxs s' = ctxs s \<and> op_done pool db cn (\<lambda>k. CollectionRemove k MONGOC_REMOVE_NONE q) id r ev"
    unfolding modifying_ops(2) [OF assms] option.inject by (rule req) (simp_all add: mongo_codes)
  show "\<exists>r s' ev. mongo_doc_update M (Some m) (Some db) (Some cn) (Some q) (Some u) s = Some (r, s') \<and> events s' = events s @ ev \<and>
      ctxs s' = ctxs s \<and> op_done pool db cn (\<lambda>k. CollectionUpdate k MONGOC_UPDATE_MULTI_UPDATE q u) id r ev"
    unfolding modifying_ops(4) [OF assms] option.inject by (rule req) (simp_all add: mongo_codes)
  show "\<exists>r s' ev. mongo_coll_create_ttl_index M (Some m) (Some db) (Some cn) (Some ks) ttl s = Some (r, s') \<and>
      events s' = events s @ ev \<and> ctxs s' = ctxs s \<and>
      (if ttl < 0 then ev = [] \<and> r = MONGO_ERR_TTL_INVALID else op_done pool db cn (\<lambda>k. CollectionCreateIndex k ks ttl) id r ev)"
  proof (cases "ttl < 0")
    case True
    then show ?thesis by (simp add: mongo_coll_create_ttl_index_def)
  next
    case False
    have "\<exists>r s' ev. request_op M pool db cn (\<lambda>k. mongoc_collection_create_index M k ks ttl) (\<lambda>k. CollectionCreateIndex k ks ttl)
        MONGO_ERR_COLL_INDEX_CREATE s = (r, s') \<and> events s' = events s @ ev \<and> ctxs s' = ctxs s \<and>
        op_done pool db cn (\<lambda>k. CollectionCreateIndex k ks ttl) id r ev"
      by (rule req) (simp_all add: mongo_codes)
    then show ?thesis using False modifying_ops(3) [OF assms, of ttl M db cn ks] by auto
  qed
qed (rule exists_done [OF assms])

text \<open>
  A driver for the examples: its state is the next address, every request succeeds and no query finds a document.
\<close>

definition counting_driver :: "nat mongoc" where
  "counting_driver = \<lparr>mongoc_uri_new = (\<lambda>_ n. (Some n, n + 1)), mongoc_uri_destroy = (\<lambda>_ n. n),
     mongoc_client_pool_new = (\<lambda>_ n. (Some n, n + 1)), mongoc_client_pool_destroy = (\<lambda>_ n. n),
     mongoc_client_pool_pop = (\<lambda>_ n. (Some n, n + 1)), mongoc_client_pool_push = (\<lambda>_ _ n. n),
     mongoc_client_get_collection = (\<lambda>_ _ _ n. (Some n, n + 1)), mongoc_collection_destroy = (\<lambda>_ n. n),
     mongoc_collection_insert = (\<lambda>_ _ _ n. (True, n)), mongoc_collection_remove = (\<lambda>_ _ _ n. (True, n)),
     mongoc_collection_create_index = (\<lambda>_ _ _ n. (True, n)), mongoc_collection_update = (\<lambda>_ _ _ _ n. (True, n)),
     mongoc_collection_find = (\<lambda>_ _ _ n. (Some n, n + 1)), mongoc_cursor_next = (\<lambda>_ n. (False, n)),
     mongoc_cursor_destroy = (\<lambda>_ n. n), ctx_malloc = (\<lambda>n. (Some n, n + 1))\<rparr>"

definition mongo_state :: "nat mongo_st" where
  "mongo_state = \<lparr>drv = 10, ctxs = [1 \<mapsto> 5], events = []\<rparr>"

theorem mongo_ops_balanced_witness:
  "\<exists>r s'. mongo_insert_doc counting_driver (Some 1) (Some ''d'') (Some ''c'') (Some 9) mongo_state = Some (r, s') \<and>
    op_done 5 ''d'' ''c'' (\<lambda>k. CollectionInsert k MONGOC_INSERT_NONE 9) id r (events s') \<and>
    events s' = [PoolPop 5 (Some 10), GetCollection 10 ''d'' ''c'' (Some 11), CollectionInsert 11 MONGOC_INSERT_NONE 9 True,
      PoolPush 5 10, CollectionDestroy 11]"
proof -
  have "ctxs mongo_state 1 = Some 5" "events mongo_state = []" by (simp_all add: mongo_state_def)
  then obtain r s' where "mongo_insert_doc counting_driver (Some 1) (Some ''d'') (Some ''c'') (Some 9) mongo_state = Some (r, s')"
    "op_done 5 ''d'' ''c'' (\<lambda>k. CollectionInsert k MONGOC_INSERT_NONE 9) id r (events s')"
    using mongo_ops_balanced [of mongo_state 1 5 counting_driver "''d''" "''c''" 9] by (metis append_Nil)
  moreover have "\<exists>s'. mongo_insert_doc counting_driver (Some 1) (Some ''d'') (Some ''c'') (Some 9) mongo_state = Some (0, s') \<and>
      events s' = [PoolPop 5 (Some 10), GetCollection 10 ''d'' ''c'' (Some 11), CollectionInsert 11 MONGOC_INSERT_NONE 9 True,
        PoolPush 5 10, CollectionDestroy 11]"
    by (simp add: mongo_insert_doc_def call_simps counting_driver_def mongo_state_def)
  ultimately show ?thesis by auto
qed

text \<open>
  Initialising a pool either succeeds with a new context whose pool was made from a connection string with
  sane parameters (at least one connection, no more at the start than at most, positive timeouts;
  sensible arguments are used as they are), holding the pool and nothing else, or fails with nothing kept.
\<close>

theorem mongo_pool_init_sane:
  assumes "mongo_context_pool_init M (Some q) (Some ip) port mn mx ct ot s = Some (r, q', s')"
  shows "\<exists>ev. events s' = events s @ ev \<and>
    (r < 0 \<and> (\<forall>h. settle ev h = Some h) \<and> ctxs s' = ctxs s \<or>
     r = 0 \<and> (\<exists>c p u mn' mx' ct' ot'. q' = Some (Some c) \<and> ctxs s' = (ctxs s)(c \<mapsto> p) \<and> (\<forall>h. settle ev h = Some (Pool p # h)) \<and>
       UriNew (pool_uri ip port mn' mx' ct' ot') (Some u) \<in> set ev \<and> PoolNew u (Some p) \<in> set ev \<and>
       0 < mn' \<and> mn' \<le> mx' \<and> 0 < ct' \<and> 0 < ot' \<and> (0 < mn \<longrightarrow> mn \<le> mx \<longrightarrow> mn' = mn \<and> mx' = mx)))"
proof -
  obtain mn' mx' ct' ot' where p: "mongo_check_pool_params (Some mn) (Some mx) (Some ct) (Some ot) =
      (0, Some mn', Some mx', Some ct', Some ot')" "0 < mn'" "mn' \<le> mx'" "0 < ct'" "0 < ot'"
    "0 < mn \<longrightarrow> mn \<le> mx \<longrightarrow> mn' = mn \<and> mx' = mx"
    by (auto simp: mongo_check_pool_params_def Let_def)
  let ?uri = "pool_uri ip port mn' mx' ct' ot'"
  obtain u d1 where u: "mongoc_uri_new M ?uri (drv s) = (u, d1)" by fastforce
  show ?thesis
  proof (cases u)
    case None
    then show ?thesis using assms u by (auto simp: mongo_context_pool_init_def p(1) call_simps account_simps mongo_codes)
  next
    case (Some a)
    obtain b d2 where b: "mongoc_client_pool_new M a d1 = (b, d2)" by fastforce
    show ?thesis
    proof (cases b)
      case None
      then show ?thesis using assms u b Some
        by (auto simp: mongo_context_pool_init_def p(1) call_simps account_simps mongo_codes)
    next
      case (Some pool)
      obtain c d3 where c: "ctx_malloc M d2 = (c, d3)" by fastforce
      show ?thesis
      proof (cases c)
        case None
        then show ?thesis using assms u b c Some \<open>u = Some a\<close>
          by (auto simp: mongo_context_pool_init_def p(1) call_simps account_simps mongo_codes)
      next
        case (Some x)
        have "q' = Some (Some x) \<and> ctxs s' = (ctxs s)(x \<mapsto> pool) \<and> r = 0 \<and>
            events s' = events s @ [UriNew ?uri (Some a), PoolNew a (Some pool), UriDestroy a]"
          using assms u b c Some \<open>u = Some a\<close> \<open>b = Some pool\<close>
          by (auto simp: mongo_context_pool_init_def p(1) call_simps Let_def split: if_splits)
        then show ?thesis using p(2-6)
          by (intro exI [of _ "[UriNew ?uri (Some a), PoolNew a (Some pool), UriDestroy a]"])
            (simp add: account_simps, blast)
      qed
    qed
  qed
qed

theorem mongo_pool_init_sane_witness:
  "\<exists>c s'. mongo_context_pool_init counting_driver (Some None) (Some ''h'') 27017 (- 3) 0 0 0 mongo_state = Some (0, Some (Some c), s') \<and>
    (\<exists>p. \<forall>h. settle (events s') h = Some (Pool p # h))"
proof -
  obtain c s' where "mongo_context_pool_init counting_driver (Some None) (Some ''h'') 27017 (- 3) 0 0 0 mongo_state = Some (0, Some (Some c), s')"
    by (simp add: mongo_context_pool_init_def mongo_check_pool_params_def counting_driver_def mongo_state_def call_simps)
  moreover have "events mongo_state = []" by (simp add: mongo_state_def)
  ultimately show ?thesis using mongo_pool_init_sane [of counting_driver None "''h''" 27017 "- 3" 0 0 0 mongo_state 0] by fastforce
qed

text \<open>
  A query that fails at the server makes \<open>mongoc_cursor_next\<close> answer no, like a query without a result: the failure is reported
  as success with an absent document. And the client is back in the pool, where another thread can take it, before the
  collection and the cursor made from it are destroyed.
\<close>

lemma failed_query_reported_absent:
  assumes "ctxs s m = Some pool" "mongoc_client_pool_pop M pool (drv s) = (Some c, d1)"
    "mongoc_client_get_collection M c db cn d1 = (Some k, d2)" "mongoc_collection_find M k MONGOC_QUERY_NONE q d2 = (Some u, d3)"
    "mongoc_cursor_next M u d3 = (False, d4)"
  shows "\<exists>s'. mongo_doc_exists M (Some m) (Some db) (Some cn) (Some q) (Some e) s = Some (0, Some False, s') \<and>
    events s' = events s @ [PoolPop pool (Some c), GetCollection c db cn (Some k), CollectionFind k MONGOC_QUERY_NONE q (Some u),
      CursorNext u False, PoolPush pool c, CollectionDestroy k, CursorDestroy u]"
  using assms by (simp add: mongo_doc_exists_def call_simps)

text \<open>
  The connection string has no separator before its last option, so the value of
  \<open>connectTimeoutMS\<close> runs into \<open>socketTimeoutMS\<close>; and the message of one error code is missing.
\<close>

lemma pool_uri_missing_separator:
  "pool_uri ''h'' 27017 1 10 5000 5000 =
   ''mongodb://h:27017/?minPoolSize=1&maxPoolSize=10&connectTimeoutMS=5000socketTimeoutMS=5000''"
  by (simp add: pool_uri_def int_str_def nat_str.simps)

lemma update_error_has_no_message: "mongo_err_msg MONGO_ERR_COLL_UPDATE = None"
  by (simp add: mongo_err_msg_def mongo_codes)

end
