(* ===== verification/Bson_Api.thy ===== *)
theory Bson_Api
  imports Posix
begin

section \<open>The BSON library\<close>

text \<open>
  Models \<open>src/src/serialization/bson_api/bson_api.c\<close>. The document library below it (\<open>libbson\<close>) is
  outside the sources: its documents are of an arbitrary type and its operations are a parameter, the record
  \<open>libbson\<close>. What the lemmas need of it is stated with them: that a document read back from its bytes
  is the document, and that a copy made element by element has the same elements. The
  heap holds the documents, the arrays of document pointers (an entry is \<open>None\<close> while it is not
  initialised) and byte buffers; an access outside an array, or to an object that is not allocated, is
  undefined behaviour and gives \<open>None\<close>. Allocation answers come from the environment; \<open>libbson\<close> itself
  aborts the program when it gets no memory, which is no execution to reason about.

  The lemmas show that reading a buffer returns exactly its documents in an array that
  is never overrun, that a corrupt buffer leaves nothing allocated, that documents survive
  writing and reading, and that a failed growth of the array crashes.
\<close>

definition BSON_SUCCESS :: int where "BSON_SUCCESS = 0"
definition BSON_ERR_NULL_PARAMS :: int where "BSON_ERR_NULL_PARAMS = - 2100"
definition BSON_ERR_CONTEXT_NEW :: int where "BSON_ERR_CONTEXT_NEW = - 2099"
definition BSON_ERR_MEM_ALLOC :: int where "BSON_ERR_MEM_ALLOC = - 2098"
definition BSON_ERR_CREAT_NEW :: int where "BSON_ERR_CREAT_NEW = - 2097"
definition BSON_ERR_CONVERT_JSON :: int where "BSON_ERR_CONVERT_JSON = - 2096"
definition BSON_ERR_APPEND_VAL :: int where "BSON_ERR_APPEND_VAL = - 2095"
definition BSON_ERR_WRITER_NEW :: int where "BSON_ERR_WRITER_NEW = - 2094"
definition BSON_ERR_WRITER_BEGIN :: int where "BSON_ERR_WRITER_BEGIN = - 2093"
definition BSON_ERR_INVALID_BUFLEN :: int where "BSON_ERR_INVALID_BUFLEN = - 2092"
definition BSON_ERR_READER_NEW :: int where "BSON_ERR_READER_NEW = - 2091"
definition BSON_ERR_READER_TELL :: int where "BSON_ERR_READER_TELL = - 2090"
definition BSON_ERR_READER_READ :: int where "BSON_ERR_READER_READ = - 2089"
definition BSON_ERR_ITER_INIT :: int where "BSON_ERR_ITER_INIT = - 2088"

lemmas bson_codes = BSON_SUCCESS_def BSON_ERR_NULL_PARAMS_def BSON_ERR_CONTEXT_NEW_def BSON_ERR_MEM_ALLOC_def BSON_ERR_CREAT_NEW_def BSON_ERR_CONVERT_JSON_def BSON_ERR_APPEND_VAL_def BSON_ERR_WRITER_NEW_def BSON_ERR_WRITER_BEGIN_def BSON_ERR_INVALID_BUFLEN_def BSON_ERR_READER_NEW_def BSON_ERR_READER_TELL_def BSON_ERR_READER_READ_def BSON_ERR_ITER_INIT_def

definition bson_err_msg :: "int \<Rightarrow> string option" where
  "bson_err_msg code =
     (if code = BSON_ERR_NULL_PARAMS then Some ''BSON_ERR_NULL_PARAMS''
      else if code = BSON_ERR_MEM_ALLOC then Some ''BSON_ERR_MEM_ALLOC''
      else if code = BSON_ERR_CONTEXT_NEW then Some ''BSON_ERR_CONTEXT_NEW''
      else if code = BSON_ERR_CREAT_NEW then Some ''BSON_ERR_CREAT_NEW''
      else if code = BSON_ERR_CONVERT_JSON then Some ''BSON_ERR_CONVERT_JSON''
      else if code = BSON_ERR_APPEND_VAL then Some ''BSON_ERR_APPEND_VAL''
      else if code = BSON_ERR_WRITER_NEW then Some ''BSON_ERR_WRITER_NEW''
      else if code = BSON_ERR_WRITER_BEGIN then Some ''BSON_ERR_WRITER_BEGIN''
      else if code = BSON_ERR_INVALID_BUFLEN then Some ''BSON_ERR_INVALID_BUFLEN''
      else if code = BSON_ERR_READER_NEW then Some ''BSON_ERR_READER_NEW''
      else if code = BSON_ERR_READER_TELL then Some ''BSON_ERR_READER_TELL''
      else if code = BSON_ERR_READER_READ then Some ''BSON_ERR_READER_READ''
      else if code = BSON_ERR_ITER_INIT then Some ''BSON_ERR_ITER_INIT''
      else None)"

text \<open>
  A value: its type and its contents. The string is the result of \<open>strdup\<close>, so it can be null; the double
  is its bit pattern.
\<close>

datatype bson_value =
    V_NONE
  | V_INT32 u32
  | V_INT64 u64
  | V_DOUBLE u64
  | V_UTF8 u32 "string option"
  | V_ARRAY "u8 list"
  | V_DOCUMENT "u8 list"

record 'd libbson =
  lib_empty :: 'd
  lib_append :: "'d \<Rightarrow> string \<Rightarrow> bson_value \<Rightarrow> 'd option"
  lib_iter :: "'d \<Rightarrow> (string \<times> bson_value) list option"
  lib_count_keys :: "'d \<Rightarrow> nat"
  lib_encode :: "'d \<Rightarrow> u8 list"
  lib_decode :: "u8 list \<Rightarrow> ('d \<times> nat) option"
  lib_from_data :: "u8 list \<Rightarrow> 'd option"
  lib_as_json :: "'d \<Rightarrow> string option"
  lib_uint32_to_string :: "nat \<Rightarrow> string"

record 'd bson_os = os +
  docs :: "addr \<rightharpoonup> 'd"
  doc_arrays :: "addr \<rightharpoonup> addr option list"
  byte_bufs :: "addr \<rightharpoonup> u8 list"

subsection \<open>Memory\<close>

text \<open>A new document; \<open>libbson\<close> does not return without memory.\<close>

definition new_doc :: "'d \<Rightarrow> ('d, 'a) bson_os_scheme \<Rightarrow> (addr \<times> ('d, 'a) bson_os_scheme) option" where
  "new_doc d s = do {
     (p, s) \<leftarrow> sys_malloc s;
     a \<leftarrow> p;
     if a \<in> dom (docs s) then None else Some (a, s\<lparr>docs := (docs s)(a \<mapsto> d)\<rparr>) }"

definition free_doc :: "addr \<Rightarrow> ('d, 'a) bson_os_scheme \<Rightarrow> ('d, 'a) bson_os_scheme option" where
  "free_doc a s = (if a \<in> dom (docs s) then Some (s\<lparr>docs := (docs s)(a := None)\<rparr>) else None)"

definition array_malloc :: "nat \<Rightarrow> ('d, 'a) bson_os_scheme \<Rightarrow> (cptr \<times> ('d, 'a) bson_os_scheme) option" where
  "array_malloc n s = do {
     (p, s) \<leftarrow> sys_malloc s;
     case p of None \<Rightarrow> Some (None, s)
     | Some a \<Rightarrow> if a \<in> dom (doc_arrays s) then None
                 else Some (Some a, s\<lparr>doc_arrays := (doc_arrays s)(a \<mapsto> replicate n None)\<rparr>) }"

text \<open>\<open>realloc\<close> of an array to \<open>n\<close> entries; to none frees it and returns a null pointer.\<close>

definition array_realloc :: "addr \<Rightarrow> nat \<Rightarrow> ('d, 'a) bson_os_scheme \<Rightarrow> (cptr \<times> ('d, 'a) bson_os_scheme) option" where
  "array_realloc b n s = do {
     old \<leftarrow> doc_arrays s b;
     if n = 0 then Some (None, s\<lparr>doc_arrays := (doc_arrays s)(b := None)\<rparr>)
     else do {
       (p, s) \<leftarrow> sys_malloc s;
       case p of None \<Rightarrow> Some (None, s)
       | Some a \<Rightarrow> if a \<noteq> b \<and> a \<in> dom (doc_arrays s) then None
                   else Some (Some a, s\<lparr>doc_arrays := (doc_arrays s)(b := None, a \<mapsto> take n (old @ replicate n None))\<rparr>) } }"

definition array_store :: "addr \<Rightarrow> nat \<Rightarrow> addr \<Rightarrow> ('d, 'a) bson_os_scheme \<Rightarrow> ('d, 'a) bson_os_scheme option" where
  "array_store b i p s = do {
     old \<leftarrow> doc_arrays s b;
     if i < length old then Some (s\<lparr>doc_arrays := (doc_arrays s)(b \<mapsto> old[i := Some p])\<rparr>) else None }"

text \<open>Freeing the first \<open>n\<close> documents of an array, and the array.\<close>

fun free_docs :: "addr option list \<Rightarrow> ('d, 'a) bson_os_scheme \<Rightarrow> ('d, 'a) bson_os_scheme option" where
  "free_docs [] s = Some s"
| "free_docs (p # ps) s = do { a \<leftarrow> p; s \<leftarrow> free_doc a s; free_docs ps s }"

definition free_doc_array :: "addr \<Rightarrow> nat \<Rightarrow> ('d, 'a) bson_os_scheme \<Rightarrow> ('d, 'a) bson_os_scheme option" where
  "free_doc_array b n s = do {
     old \<leftarrow> doc_arrays s b;
     if n > length old then None
     else do {
       s \<leftarrow> free_docs (take n old) s;
       Some (s\<lparr>doc_arrays := (doc_arrays s)(b := None)\<rparr>) } }"

subsection \<open>Values\<close>

text \<open>A pointer to a value is the value behind it; the setters return the new value.\<close>

definition bson_value_set_int32 :: "bson_value option \<Rightarrow> u32 \<Rightarrow> int \<times> bson_value option" where
  "bson_value_set_int32 val i32 =
     (case val of None \<Rightarrow> (BSON_ERR_NULL_PARAMS, None) | Some _ \<Rightarrow> (BSON_SUCCESS, Some (V_INT32 i32)))"

definition bson_value_set_int64 :: "bson_value option \<Rightarrow> u64 \<Rightarrow> int \<times> bson_value option" where
  "bson_value_set_int64 val i64 =
     (case val of None \<Rightarrow> (BSON_ERR_NULL_PARAMS, None) | Some _ \<Rightarrow> (BSON_SUCCESS, Some (V_INT64 i64)))"

definition bson_value_set_double :: "bson_value option \<Rightarrow> u64 \<Rightarrow> int \<times> bson_value option" where
  "bson_value_set_double val d =
     (case val of None \<Rightarrow> (BSON_ERR_NULL_PARAMS, None) | Some _ \<Rightarrow> (BSON_SUCCESS, Some (V_DOUBLE d)))"

definition bson_value_set_str ::
  "bson_value option \<Rightarrow> string option \<Rightarrow> 'a os_scheme \<Rightarrow> (int \<times> bson_value option \<times> 'a os_scheme) option" where
  "bson_value_set_str val str s =
     (case (val, str) of
        (Some _, Some c) \<Rightarrow> do {
          (p, s) \<leftarrow> sys_malloc s;
          Some (BSON_SUCCESS, Some (V_UTF8 (word_of_nat (length c)) (map_option (\<lambda>_. c) p)), s) }
      | _ \<Rightarrow> Some (BSON_ERR_NULL_PARAMS, val, s))"

subsection \<open>Writing\<close>

text \<open>The elements the iterator yields are appended one by one.\<close>

fun copy_loop :: "'d libbson \<Rightarrow> 'd \<Rightarrow> (string \<times> bson_value) list \<Rightarrow> int \<times> 'd" where
  "copy_loop lib dst [] = (BSON_SUCCESS, dst)"
| "copy_loop lib dst ((k, v) # es) =
     (case lib_append lib dst k v of None \<Rightarrow> (BSON_ERR_APPEND_VAL, dst) | Some dst' \<Rightarrow> copy_loop lib dst' es)"

definition bson_doc_copy_by_iter :: "'d libbson \<Rightarrow> 'd \<Rightarrow> 'd \<Rightarrow> int \<times> 'd" where
  "bson_doc_copy_by_iter lib dst src =
     (case lib_iter lib src of None \<Rightarrow> (BSON_ERR_ITER_INIT, dst) | Some es \<Rightarrow> copy_loop lib dst es)"

text \<open>
  The writer appends to the buffer \<open>b\<close> each document that is begun and ended; whether a
  document can be begun is an answer.
\<close>

fun bson_buffer_write ::
  "'d libbson \<Rightarrow> addr \<Rightarrow> addr list \<Rightarrow> ('d, 'a) bson_os_scheme \<Rightarrow> (int \<times> ('d, 'a) bson_os_scheme) option" where
  "bson_buffer_write lib b [] s = Some (BSON_SUCCESS, s)"
| "bson_buffer_write lib b (p # ps) s = do {
     (r, s) \<leftarrow> sys_zero s;
     if r < 0 then Some (BSON_ERR_WRITER_BEGIN, s)
     else do {
       src \<leftarrow> docs s p;
       bytes \<leftarrow> byte_bufs s b;
       let (ret, d) = bson_doc_copy_by_iter lib (lib_empty lib) src;
       let s = s\<lparr>byte_bufs := (byte_bufs s)(b \<mapsto> bytes @ lib_encode lib d)\<rparr>;
       if ret < 0 then Some (ret, s) else bson_buffer_write lib b ps s } }"

text \<open>
  The pointers \<open>buf\<close> and \<open>buf_len\<close> must not be null; the results are the values stored there.
\<close>

definition bson_write_to_buffer ::
  "'d libbson \<Rightarrow> cptr option \<Rightarrow> nat option \<Rightarrow> addr list option \<Rightarrow> ('d, 'a) bson_os_scheme \<Rightarrow>
   (int \<times> cptr option \<times> nat option \<times> ('d, 'a) bson_os_scheme) option" where
  "bson_write_to_buffer lib buf buf_len doc_arr s =
     (case (buf, buf_len, doc_arr) of
        (Some _, Some len0, Some ps) \<Rightarrow> do {
          (w, s) \<leftarrow> sys_malloc s;
          case w of None \<Rightarrow> Some (BSON_ERR_WRITER_NEW, buf, buf_len, s)
          | Some b \<Rightarrow> do {
              s \<leftarrow> (if b \<in> dom (byte_bufs s) then None else Some (s\<lparr>byte_bufs := (byte_bufs s)(b \<mapsto> [])\<rparr>));
              (ret, s) \<leftarrow> bson_buffer_write lib b ps s;
              if ret < 0 then Some (ret, Some None, Some len0, s\<lparr>byte_bufs := (byte_bufs s)(b := None)\<rparr>)
              else do {
                bytes \<leftarrow> byte_bufs s b;
                let len = length bytes;
                (tmp, s) \<leftarrow> sys_malloc s;
                case tmp of None \<Rightarrow>
                    Some (BSON_ERR_MEM_ALLOC, Some None, Some len, s\<lparr>byte_bufs := (byte_bufs s)(b := None)\<rparr>)
                | Some a \<Rightarrow>
                    if a \<noteq> b \<and> a \<in> dom (byte_bufs s) then None
                    else Some (ret, Some (Some a), Some len, s\<lparr>byte_bufs := (byte_bufs s)(b := None, a \<mapsto> bytes)\<rparr>) } } }
      | _ \<Rightarrow> Some (BSON_ERR_NULL_PARAMS, buf, buf_len, s))"

subsection \<open>Reading\<close>

definition BSON_ARRAY_SIZE :: nat where
  "BSON_ARRAY_SIZE = 4"

text \<open>
  The reader is the buffer and the offset reached. At the end of the buffer it reports the end; bytes that are
  no document give a null pointer without it.
\<close>

definition bson_reader_read :: "'d libbson \<Rightarrow> u8 list \<Rightarrow> nat \<Rightarrow> ('d \<times> nat) option \<times> bool" where
  "bson_reader_read lib buf off =
     (if length buf \<le> off then (None, True)
      else case lib_decode lib (drop off buf) of
             None \<Rightarrow> (None, False)
           | Some (d, n) \<Rightarrow> (Some (d, off + n), False))"

lemma new_doc_fuel: "new_doc d s = Some (a, s') \<Longrightarrow> fuel s' < fuel s"
  by (auto simp: new_doc_def elim!: bind_SomeE sys_mallocE split: if_splits)

lemma array_store_fuel: "array_store b i p s = Some s' \<Longrightarrow> fuel s' = fuel s"
  by (auto simp: array_store_def elim!: bind_SomeE split: if_splits)

lemma array_realloc_fuel: "array_realloc b n s = Some (p, s') \<Longrightarrow> fuel s' \<le> fuel s"
  by (auto simp: array_realloc_def elim!: bind_SomeE sys_mallocE split: if_splits option.splits)

text \<open>
  The loop of \<open>read_and_alloc_bson_array\<close> with the offset, the array, the number of documents and the
  size of the array; the results are the code, the end flag, the offset, the array and
  the number of documents. When the array cannot grow, the pointer to it is overwritten
  with the null pointer and then followed. The size is an \<open>int\<close>; doubling it out of its range is undefined.
\<close>

function read_array_loop ::
  "'d libbson \<Rightarrow> u8 list \<Rightarrow> nat \<Rightarrow> addr \<Rightarrow> nat \<Rightarrow> nat \<Rightarrow> ('d, 'a) bson_os_scheme \<Rightarrow>
   (int \<times> bool \<times> nat \<times> addr \<times> nat \<times> ('d, 'a) bson_os_scheme) option" where
  "read_array_loop lib buf off arr len arr_size s =
     (case bson_reader_read lib buf off of
        (None, eof) \<Rightarrow> Some (BSON_SUCCESS, eof, off, arr, len, s)
      | (Some (d, off'), _) \<Rightarrow> do {
          (p, s1) \<leftarrow> new_doc d s;
          s2 \<leftarrow> array_store arr len p s1;
          let len' = len + 1;
          if arr_size \<le> len' then
            (if int arr_size * 2 > 2 ^ 31 - 1 then None
             else do {
               (tmp, s3) \<leftarrow> array_realloc arr (arr_size * 2) s2;
               arr' \<leftarrow> tmp;
               read_array_loop lib buf off' arr' len' (arr_size * 2) s3 })
          else read_array_loop lib buf off' arr len' arr_size s2 })"
  by pat_completeness auto
termination
  by (relation "measure (\<lambda>(lib, buf, off, arr, len, arr_size, s). fuel s)")
    (auto dest!: new_doc_fuel array_store_fuel array_realloc_fuel)

declare read_array_loop.simps [simp del]

definition read_and_alloc_bson_array ::
  "'d libbson \<Rightarrow> u8 list \<Rightarrow> nat \<Rightarrow> ('d, 'a) bson_os_scheme \<Rightarrow>
   (int \<times> bool \<times> nat \<times> cptr \<times> nat \<times> ('d, 'a) bson_os_scheme) option" where
  "read_and_alloc_bson_array lib buf off s = do {
     (p, s) \<leftarrow> array_malloc BSON_ARRAY_SIZE s;
     case p of None \<Rightarrow> Some (BSON_ERR_MEM_ALLOC, False, off, None, 0, s)
     | Some arr \<Rightarrow> do {
         (r, eof, off, arr, len, s) \<leftarrow> read_array_loop lib buf off arr 0 BSON_ARRAY_SIZE s;
         Some (r, eof, off, Some arr, len, s) } }"

text \<open>\<open>bson_reader_tell\<close> is the offset of the reader, which is not negative.\<close>

definition get_parsed_len :: "nat \<Rightarrow> bool \<Rightarrow> nat \<Rightarrow> int \<times> nat" where
  "get_parsed_len off eof parsed_len = (if eof then (BSON_SUCCESS, off) else (BSON_ERR_READER_READ, parsed_len))"

text \<open>
  The results are the code and the values stored through the three pointers. The test \<open>buf_len < 0\<close> on an
  unsigned number is never true.
\<close>

definition bson_read_from_buffer ::
  "'d libbson \<Rightarrow> u8 list option \<Rightarrow> nat option \<Rightarrow> cptr option \<Rightarrow> nat option \<Rightarrow> ('d, 'a) bson_os_scheme \<Rightarrow>
   (int \<times> nat option \<times> cptr option \<times> nat option \<times> ('d, 'a) bson_os_scheme) option" where
  "bson_read_from_buffer lib buf parsed_len doc_arr arr_len s =
     (case (buf, parsed_len, doc_arr, arr_len) of
        (Some buf, Some pl, Some _, Some _) \<Rightarrow> do {
          (rd, s) \<leftarrow> sys_malloc s;
          if rd = None then Some (BSON_ERR_READER_NEW, parsed_len, doc_arr, arr_len, s)
          else do {
            (r, eof, off, p, len, s) \<leftarrow> read_and_alloc_bson_array lib buf 0 s;
            if r < 0 then Some (r, parsed_len, Some p, Some len, s)
            else do {
              arr \<leftarrow> p;
              let (r, pl) = get_parsed_len off eof pl;
              if r < 0 then do {
                s \<leftarrow> free_doc_array arr len s;
                Some (r, Some pl, Some None, Some len, s) }
              else do {
                (tmp, s) \<leftarrow> array_realloc arr len s;
                if tmp = None \<and> len \<noteq> 0 then do {
                  s \<leftarrow> free_doc_array arr len s;
                  Some (BSON_ERR_MEM_ALLOC, Some pl, Some None, Some len, s) }
                else Some (r, Some pl, Some tmp, Some len, s) } } } }
      | _ \<Rightarrow> Some (BSON_ERR_NULL_PARAMS, parsed_len, doc_arr, arr_len, s))"

subsection \<open>Documents and arrays as values\<close>

text \<open>
  \<open>if (bdoc == NULL)\<close> after the creation tests the caller's pointer again, not the new document,
  and is never true.
\<close>

fun append_elements ::
  "'d libbson \<Rightarrow> addr \<Rightarrow> (string \<times> bson_value) list \<Rightarrow> ('d, 'a) bson_os_scheme \<Rightarrow> (int \<times> ('d, 'a) bson_os_scheme) option" where
  "append_elements lib p [] s = Some (BSON_SUCCESS, s)"
| "append_elements lib p ((k, v) # es) s = do {
     d \<leftarrow> docs s p;
     case lib_append lib d k v of
       None \<Rightarrow> do { s \<leftarrow> free_doc p s; Some (BSON_ERR_APPEND_VAL, s) }
     | Some d' \<Rightarrow> append_elements lib p es (s\<lparr>docs := (docs s)(p \<mapsto> d')\<rparr>) }"

definition bson_doc_create ::
  "'d libbson \<Rightarrow> (string \<times> bson_value) list option \<Rightarrow> cptr option \<Rightarrow> ('d, 'a) bson_os_scheme \<Rightarrow>
   (int \<times> cptr option \<times> ('d, 'a) bson_os_scheme) option" where
  "bson_doc_create lib earr bdoc s =
     (case (earr, bdoc) of
        (Some es, Some _) \<Rightarrow> do {
          (p, s) \<leftarrow> new_doc (lib_empty lib) s;
          (ret, s) \<leftarrow> append_elements lib p es s;
          Some (ret, Some (Some p), s) }
      | _ \<Rightarrow> Some (BSON_ERR_NULL_PARAMS, bdoc, s))"

text \<open>The array has \<open>n\<close> elements; a key is the result of \<open>strdup\<close>.\<close>

fun fill_elements ::
  "nat \<Rightarrow> (string \<times> bson_value) list \<Rightarrow> 'a os_scheme \<Rightarrow> ((string option \<times> bson_value) list \<times> 'a os_scheme) option" where
  "fill_elements n [] s = Some ([], s)"
| "fill_elements n ((k, v) # es) s =
     (case n of 0 \<Rightarrow> None
      | Suc n \<Rightarrow> do {
          (p, s) \<leftarrow> sys_malloc s;
          (rest, s) \<leftarrow> fill_elements n es s;
          Some ((map_option (\<lambda>_. k) p, v) # rest, s) })"

definition bson_fill_element_array ::
  "'d libbson \<Rightarrow> nat \<Rightarrow> 'd \<Rightarrow> 'a os_scheme \<Rightarrow> (int \<times> (string option \<times> bson_value) list \<times> 'a os_scheme) option" where
  "bson_fill_element_array lib n d s =
     (case lib_iter lib d of None \<Rightarrow> Some (BSON_ERR_ITER_INIT, [], s)
      | Some es \<Rightarrow> do { (els, s) \<leftarrow> fill_elements n es s; Some (BSON_SUCCESS, els, s) })"

definition bson_doc_get_elements ::
  "'d libbson \<Rightarrow> cptr \<Rightarrow> bool \<Rightarrow> bool \<Rightarrow> ('d, 'a) bson_os_scheme \<Rightarrow>
   (int \<times> (string option \<times> bson_value) list \<times> nat \<times> ('d, 'a) bson_os_scheme) option" where
  "bson_doc_get_elements lib bdoc earr_null ecount_null s =
     (case bdoc of None \<Rightarrow> Some (BSON_ERR_NULL_PARAMS, [], 0, s)
      | Some p \<Rightarrow>
          if earr_null \<or> ecount_null then Some (BSON_ERR_NULL_PARAMS, [], 0, s)
          else do {
            d \<leftarrow> docs s p;
            let n = lib_count_keys lib d;
            if n = 0 then Some (BSON_SUCCESS, [], 0, s)
            else do {
              (q, s) \<leftarrow> sys_malloc s;
              if q = None then Some (BSON_ERR_MEM_ALLOC, [], n, s)
              else do {
                (r, els, s) \<leftarrow> bson_fill_element_array lib n d s;
                Some (r, els, n, s) } } })"

text \<open>The elements of an array value are a document with the keys 0, 1, and so on.\<close>

definition bson_value_set_array ::
  "'d libbson \<Rightarrow> bson_value option \<Rightarrow> bson_value list option \<Rightarrow> ('d, 'a) bson_os_scheme \<Rightarrow>
   (int \<times> bson_value option \<times> ('d, 'a) bson_os_scheme) option" where
  "bson_value_set_array lib val arr_vals s =
     (case (val, arr_vals) of
        (Some _, Some vs) \<Rightarrow> do {
          (doc, s) \<leftarrow> new_doc (lib_empty lib) s;
          (ret, s) \<leftarrow> append_elements lib doc (zip (map (lib_uint32_to_string lib) [0..<length vs]) vs) s;
          if ret < 0 then Some (ret, val, s)
          else do {
            (ret, buf, len, s) \<leftarrow> bson_write_to_buffer lib (Some None) (Some 0) (Some [doc]) s;
            if ret < 0 then do { s \<leftarrow> free_doc doc s; Some (ret, val, s) }
            else do {
              p \<leftarrow> buf;
              b \<leftarrow> p;
              bytes \<leftarrow> byte_bufs s b;
              s \<leftarrow> free_doc doc s;
              Some (ret, Some (V_ARRAY bytes), s) } } }
      | _ \<Rightarrow> Some (BSON_ERR_NULL_PARAMS, val, s))"

definition bson_value_set_doc ::
  "'d libbson \<Rightarrow> bson_value option \<Rightarrow> cptr \<Rightarrow> ('d, 'a) bson_os_scheme \<Rightarrow>
   (int \<times> bson_value option \<times> ('d, 'a) bson_os_scheme) option" where
  "bson_value_set_doc lib val doc s =
     (case (val, doc) of
        (Some _, Some d) \<Rightarrow> do {
          (ret, buf, len, s) \<leftarrow> bson_write_to_buffer lib (Some None) (Some 0) (Some [d]) s;
          if ret < 0 then Some (ret, val, s)
          else do {
            p \<leftarrow> buf;
            b \<leftarrow> p;
            bytes \<leftarrow> byte_bufs s b;
            Some (ret, Some (V_DOCUMENT bytes), s) } }
      | _ \<Rightarrow> Some (BSON_ERR_NULL_PARAMS, val, s))"

fun value_data :: "bson_value \<Rightarrow> u8 list option" where
  "value_data (V_ARRAY bs) = Some bs"
| "value_data (V_DOCUMENT bs) = Some bs"
| "value_data _ = None"

text \<open>
  Reading the document part of a value of another type is undefined. The results are the code, the
  array (\<open>None\<close> the null pointer) and its length.
\<close>

definition bson_value_get_array ::
  "'d libbson \<Rightarrow> bson_value option \<Rightarrow> bool \<Rightarrow> bool \<Rightarrow> 'a os_scheme \<Rightarrow>
   (int \<times> bson_value list option \<times> nat \<times> 'a os_scheme) option" where
  "bson_value_get_array lib val arr_null len_null s =
     (case val of None \<Rightarrow> Some (BSON_ERR_NULL_PARAMS, None, 0, s)
      | Some v \<Rightarrow>
          if arr_null \<or> len_null then Some (BSON_ERR_NULL_PARAMS, None, 0, s)
          else do {
            bytes \<leftarrow> value_data v;
            case lib_from_data lib bytes of None \<Rightarrow> Some (BSON_ERR_CREAT_NEW, None, 0, s)
            | Some d \<Rightarrow> do {
                let n = lib_count_keys lib d;
                if n = 0 then Some (BSON_SUCCESS, None, 0, s)
                else do {
                  (q, s) \<leftarrow> sys_malloc s;
                  if q = None then Some (BSON_ERR_MEM_ALLOC, None, n, s)
                  else case lib_iter lib d of
                         None \<Rightarrow> Some (BSON_ERR_ITER_INIT, None, n, s)
                       | Some es \<Rightarrow> if n < length es then None else Some (BSON_SUCCESS, Some (map snd es), n, s) } } })"

definition bson_value_get_doc ::
  "'d libbson \<Rightarrow> bson_value option \<Rightarrow> cptr option \<Rightarrow> ('d, 'a) bson_os_scheme \<Rightarrow>
   (int \<times> cptr option \<times> ('d, 'a) bson_os_scheme) option" where
  "bson_value_get_doc lib val bdoc s =
     (case (val, bdoc) of
        (Some v, Some _) \<Rightarrow> do {
          bytes \<leftarrow> value_data v;
          case lib_from_data lib bytes of None \<Rightarrow> Some (BSON_ERR_CREAT_NEW, Some None, s)
          | Some d \<Rightarrow> do {
              (p, s) \<leftarrow> new_doc d s;
              Some (BSON_SUCCESS, Some (Some p), s) } }
      | _ \<Rightarrow> Some (BSON_ERR_NULL_PARAMS, bdoc, s))"

definition bson_doc_destroy :: "cptr \<Rightarrow> ('d, 'a) bson_os_scheme \<Rightarrow> ('d, 'a) bson_os_scheme option" where
  "bson_doc_destroy bdoc s = (case bdoc of None \<Rightarrow> Some s | Some p \<Rightarrow> free_doc p s)"

definition bson_to_json ::
  "'d libbson \<Rightarrow> cptr \<Rightarrow> string option option \<Rightarrow> ('d, 'a) bson_os_scheme \<Rightarrow> (int \<times> string option option) option" where
  "bson_to_json lib bson json s =
     (case (bson, json) of
        (Some p, Some _) \<Rightarrow> do {
          d \<leftarrow> docs s p;
          let j = lib_as_json lib d;
          Some (if j = None then BSON_ERR_CONVERT_JSON else BSON_SUCCESS, Some j) }
      | _ \<Rightarrow> Some (BSON_ERR_NULL_PARAMS, json))"

subsection \<open>The array of documents is never overrun\<close>

text \<open>\<open>reads lib buf off ds fin eof\<close>: from \<open>off\<close> on the reader yields the documents \<open>ds\<close> and stops at \<open>fin\<close>.\<close>

inductive reads :: "'d libbson \<Rightarrow> u8 list \<Rightarrow> nat \<Rightarrow> 'd list \<Rightarrow> nat \<Rightarrow> bool \<Rightarrow> bool" for lib buf where
  reads_stop: "bson_reader_read lib buf off = (None, eof) \<Longrightarrow> reads lib buf off [] off eof"
| reads_doc: "bson_reader_read lib buf off = (Some (d, off'), e) \<Longrightarrow> reads lib buf off' ds fin eof \<Longrightarrow>
    reads lib buf off (d # ds) fin eof"

text \<open>The array has room for at least one more pointer and starts with \<open>ps\<close>.\<close>

definition arr_ok :: "('d, 'a) bson_os_scheme \<Rightarrow> addr \<Rightarrow> nat \<Rightarrow> addr list \<Rightarrow> bool" where
  "arr_ok s arr n ps \<longleftrightarrow> length ps < n \<and>
     (case doc_arrays s arr of None \<Rightarrow> False | Some ar \<Rightarrow> length ar = n \<and> (\<exists>junk. ar = map Some ps @ junk))"

definition fresh :: "addr list \<Rightarrow> ('d, 'a) bson_os_scheme \<Rightarrow> bool" where
  "fresh as s \<longleftrightarrow> distinct as \<and> set as \<inter> (dom (docs s) \<union> dom (doc_arrays s)) = {}"

lemma store_next:
  assumes "arr_ok s arr n ps" "replies s = map Ok (a # as)" "fresh (a # as) s"
  shows "\<exists>s1 s2 ar. new_doc d s = Some (a, s1) \<and> array_store arr (length ps) a s1 = Some s2 \<and>
    docs s2 = (docs s)(a \<mapsto> d) \<and> doc_arrays s2 = (doc_arrays s)(arr \<mapsto> ar) \<and> length ar = n \<and>
    (\<exists>junk. ar = map Some (ps @ [a]) @ junk) \<and> replies s2 = map Ok as"
proof -
  obtain ar junk where ar: "doc_arrays s arr = Some ar" "length ar = n" "ar = map Some ps @ junk" "length ps < n"
    using assms(1) by (auto simp: arr_ok_def split: option.splits)
  then obtain x junk' where "junk = x # junk'" by (cases junk) auto
  then have up: "ar[length ps := Some a] = map Some (ps @ [a]) @ junk'"
    using ar(3) list_update_length [of "map Some ps" x junk' "Some a"] by simp
  let ?s1 = "s\<lparr>replies := map Ok as, docs := (docs s)(a \<mapsto> d)\<rparr>"
  let ?s2 = "?s1\<lparr>doc_arrays := (doc_arrays s)(arr \<mapsto> ar[length ps := Some a])\<rparr>"
  have "docs s a = None" using assms(3) by (auto simp: fresh_def domIff)
  then have "new_doc d s = Some (a, ?s1)" "array_store arr (length ps) a ?s1 = Some ?s2"
    using assms(2) ar(1,2,4) by (simp_all add: new_doc_def array_store_def sys_malloc_def sys_next_def domIff)
  moreover have "length (ar[length ps := Some a]) = n" using ar(2) by simp
  moreover have "docs ?s2 = (docs s)(a \<mapsto> d)" "doc_arrays ?s2 = (doc_arrays s)(arr \<mapsto> ar[length ps := Some a])"
    "replies ?s2 = map Ok as" by simp_all
  ultimately show ?thesis using up by blast
qed

lemma read_turn:
  assumes "bson_reader_read lib buf off = (Some (d, off'), e)" "arr_ok s arr n ps"
    and "replies s = map Ok (a # b # as)" "fresh (a # b # as) s" "length ps + 1 < 2 ^ 30"
  shows "\<exists>arr' n' s' cs. read_array_loop lib buf off arr (length ps) n s = read_array_loop lib buf off' arr' (length (ps @ [a])) n' s' \<and>
    arr_ok s' arr' n' (ps @ [a]) \<and> docs s' = (docs s)(a \<mapsto> d) \<and>
    (doc_arrays s')(arr' := None) = (doc_arrays s)(arr := None) \<and> replies s' = map Ok cs \<and> fresh cs s' \<and>
    (cs = as \<or> cs = b # as)"
proof -
  obtain s1 s2 ar junk where s2: "new_doc d s = Some (a, s1)" "array_store arr (length ps) a s1 = Some s2"
    "docs s2 = (docs s)(a \<mapsto> d)" "doc_arrays s2 = (doc_arrays s)(arr \<mapsto> ar)" "length ar = n"
    "ar = map Some (ps @ [a]) @ junk" "replies s2 = map Ok (b # as)"
    using store_next [OF assms(2-4)] by metis
  have "arr \<in> dom (doc_arrays s)" using assms(2) by (auto simp: arr_ok_def split: option.splits)
  then have dom2: "dom (doc_arrays s2) = dom (doc_arrays s)" "b \<noteq> arr" using s2(4) assms(4) by (auto simp: fresh_def)
  have fr: "fresh (b # as) s2" using assms(4) s2(3) dom2(1) by (auto simp: fresh_def)
  show ?thesis
  proof (cases "n \<le> length ps + 1")
    case True
    let ?ar = "take (n * 2) (ar @ replicate (n * 2) None)"
    let ?s3 = "s2\<lparr>replies := map Ok as, doc_arrays := (doc_arrays s2)(arr := None, b \<mapsto> ?ar)\<rparr>"
    have bnew: "doc_arrays s2 b = None" using fr by (auto simp: fresh_def)
    have n0: "0 < n" using assms(2) by (auto simp: arr_ok_def)
    have small: "int n * 2 \<le> 2 ^ 31 - 1" using True assms(5) by simp
    have re: "array_realloc arr (n * 2) s2 = Some (Some b, ?s3)"
      using s2(4,7) bnew n0 by (auto simp: array_realloc_def sys_malloc_def sys_next_def domIff)
    have "read_array_loop lib buf off arr (length ps) n s = read_array_loop lib buf off' b (length (ps @ [a])) (n * 2) ?s3"
      using assms(1) s2(1,2) re True small by (subst read_array_loop.simps) simp
    moreover have "arr_ok ?s3 b (n * 2) (ps @ [a])"
      using s2(5,6) True assms(2) by (auto simp: arr_ok_def)
    moreover have "(doc_arrays ?s3)(b := None) = (doc_arrays s)(arr := None)"
      using s2(4) bnew dom2(2) by (auto simp: fun_eq_iff)
    moreover have "fresh as ?s3" using fr by (auto simp: fresh_def)
    ultimately show ?thesis using s2(3) by (intro exI [of _ b] exI [of _ "n * 2"] exI [of _ ?s3] exI [of _ as]) simp
  next
    case False
    have "read_array_loop lib buf off arr (length ps) n s = read_array_loop lib buf off' arr (length (ps @ [a])) n s2"
      using assms(1) s2(1,2) False by (subst read_array_loop.simps) simp
    moreover have "arr_ok s2 arr n (ps @ [a])" using False s2(4-6) by (auto simp: arr_ok_def)
    moreover have "(doc_arrays s2)(arr := None) = (doc_arrays s)(arr := None)" using s2(4) by simp
    ultimately show ?thesis using s2(3,7) fr by (intro exI [of _ arr] exI [of _ n] exI [of _ s2] exI [of _ "b # as"]) simp
  qed
qed

lemma read_array_loop_all:
  "reads lib buf off ds fin eof \<Longrightarrow> arr_ok s arr n ps \<Longrightarrow> replies s = map Ok as \<Longrightarrow> fresh as s \<Longrightarrow>
   2 * length ds \<le> length as \<Longrightarrow> length ps + length ds < 2 ^ 30 \<Longrightarrow>
   \<exists>arr' n' qs cs s'. read_array_loop lib buf off arr (length ps) n s =
       Some (BSON_SUCCESS, eof, fin, arr', length (ps @ qs), s') \<and> arr_ok s' arr' n' (ps @ qs) \<and>
     length qs = length ds \<and> distinct qs \<and> set qs \<inter> dom (docs s) = {} \<and> docs s' = (docs s)(qs [\<mapsto>] ds) \<and>
     (doc_arrays s')(arr' := None) = (doc_arrays s)(arr := None) \<and> replies s' = map Ok cs \<and> fresh cs s' \<and>
     length as \<le> length cs + 2 * length ds"
proof (induction arbitrary: s arr n ps as rule: reads.induct)
  case (reads_stop off eof)
  then show ?case
    by (subst read_array_loop.simps) (auto intro!: exI [of _ n] exI [of _ as])
next
  case (reads_doc off d off' e ds fin eof)
  obtain a b as' where as: "as = a # b # as'" using reads_doc.prems(4) by (cases as; cases "tl as") auto
  obtain arr1 n1 s1 cs1 where t: "read_array_loop lib buf off arr (length ps) n s = read_array_loop lib buf off' arr1 (length (ps @ [a])) n1 s1"
    "arr_ok s1 arr1 n1 (ps @ [a])" "docs s1 = (docs s)(a \<mapsto> d)"
    "(doc_arrays s1)(arr1 := None) = (doc_arrays s)(arr := None)" "replies s1 = map Ok cs1" "fresh cs1 s1"
    "cs1 = as' \<or> cs1 = b # as'"
    using read_turn [OF reads_doc.hyps(1) reads_doc.prems(1), of a b as'] reads_doc.prems(2,3,5) as by auto
  have len: "2 * length ds \<le> length cs1" using t(7) reads_doc.prems(4) as by auto
  obtain arr' n' qs cs s' where r: "read_array_loop lib buf off' arr1 (length (ps @ [a])) n1 s1 =
      Some (BSON_SUCCESS, eof, fin, arr', length ((ps @ [a]) @ qs), s')" "arr_ok s' arr' n' ((ps @ [a]) @ qs)"
    "length qs = length ds" "distinct qs" "set qs \<inter> dom (docs s1) = {}" "docs s' = (docs s1)(qs [\<mapsto>] ds)"
    "(doc_arrays s')(arr' := None) = (doc_arrays s1)(arr1 := None)" "replies s' = map Ok cs" "fresh cs s'"
    "length cs1 \<le> length cs + 2 * length ds"
    using reads_doc.IH [OF t(2,5,6) len] reads_doc.prems(5) by (auto simp del: fun_upd_apply)
  have "a \<notin> set qs" "a \<notin> dom (docs s)" using r(5) t(3) reads_doc.prems(3) as by (auto simp: fresh_def)
  then show ?case using r t as
    by (intro exI [of _ arr'] exI [of _ n'] exI [of _ "a # qs"] exI [of _ cs] exI [of _ s']) auto
qed


subsection \<open>Reading a buffer\<close>


lemma map_upds_restrict:
  "length qs = length ds \<Longrightarrow> set qs \<inter> dom m = {} \<Longrightarrow> (m(qs [\<mapsto>] ds)) |` (- set qs) = m"
  by (rule ext) (auto simp: restrict_map_def domIff disjoint_iff)

lemma map_upds_lookup:
  "length qs = length ds \<Longrightarrow> distinct qs \<Longrightarrow> map (m(qs [\<mapsto>] ds)) qs = map Some ds"
  by (induction qs ds arbitrary: m rule: list_induct2) auto

lemma read_and_alloc_all:
  assumes "reads lib buf 0 ds fin eof" "replies s = map Ok (a # as)" "fresh (a # as) s" "2 * length ds \<le> length as"
    and "length ds < 2 ^ 30"
  shows "\<exists>arr n qs cs s'. read_and_alloc_bson_array lib buf 0 s = Some (BSON_SUCCESS, eof, fin, Some arr, length qs, s') \<and>
    arr_ok s' arr n qs \<and> length qs = length ds \<and> distinct qs \<and> set qs \<inter> dom (docs s) = {} \<and>
    docs s' = (docs s)(qs [\<mapsto>] ds) \<and> (doc_arrays s')(arr := None) = doc_arrays s \<and> replies s' = map Ok cs \<and>
    fresh cs s' \<and> length as \<le> length cs + 2 * length ds"
proof -
  let ?s = "s\<lparr>replies := map Ok as, doc_arrays := (doc_arrays s)(a \<mapsto> replicate BSON_ARRAY_SIZE None)\<rparr>"
  have m: "array_malloc BSON_ARRAY_SIZE s = Some (Some a, ?s)" "doc_arrays s a = None"
    using assms(2,3) by (auto simp: array_malloc_def sys_malloc_def sys_next_def fresh_def domIff)
  have "arr_ok ?s a BSON_ARRAY_SIZE []" "fresh as ?s"
    using assms(3) by (auto simp: arr_ok_def BSON_ARRAY_SIZE_def fresh_def)
  then obtain arr n qs cs s' where r: "read_array_loop lib buf 0 a 0 BSON_ARRAY_SIZE ?s = Some (BSON_SUCCESS, eof, fin, arr, length qs, s')"
    "arr_ok s' arr n qs" "length qs = length ds" "distinct qs" "set qs \<inter> dom (docs s) = {}"
    "docs s' = (docs s)(qs [\<mapsto>] ds)" "(doc_arrays s')(arr := None) = (doc_arrays ?s)(a := None)" "replies s' = map Ok cs"
    "fresh cs s'" "length as \<le> length cs + 2 * length ds"
    using read_array_loop_all [OF assms(1), of ?s a BSON_ARRAY_SIZE "[]" as] assms(4,5) by auto
  have "(doc_arrays ?s)(a := None) = doc_arrays s" using m(2) by (simp add: fun_upd_idem)
  moreover have "read_and_alloc_bson_array lib buf 0 s = Some (BSON_SUCCESS, eof, fin, Some arr, length qs, s')"
    using r(1) m(1) by (simp add: read_and_alloc_bson_array_def)
  ultimately show ?thesis using r(2-10)
    by (intro exI [of _ arr] exI [of _ n] exI [of _ qs] exI [of _ cs] exI [of _ s']) simp
qed

lemma bson_read_documents:
  assumes "reads lib buf 0 ds fin True" and "replies s = map Ok as" and "fresh as s" and "2 * length ds + 3 \<le> length as"
    and "length ds < 2 ^ 30"
  shows "\<exists>q qs s'. bson_read_from_buffer lib (Some buf) (Some pl) (Some x) (Some y) s =
      Some (BSON_SUCCESS, Some fin, Some q, Some (length ds), s') \<and> length qs = length ds \<and> distinct qs \<and>
    map (docs s') qs = map Some ds \<and> docs s' |` (- set qs) = docs s \<and>
    (if ds = [] then q = None else \<exists>arr. q = Some arr \<and> doc_arrays s' arr = Some (map Some qs))"
proof -
  obtain a b as' where as: "as = a # b # as'" using assms(4) by (cases as; cases "tl as") auto
  let ?s = "s\<lparr>replies := map Ok (b # as')\<rparr>"
  have f: "fresh (b # as') ?s" using assms(3) as by (auto simp: fresh_def)
  have len: "2 * length ds \<le> length as'" using assms(4) as by simp
  obtain arr n qs cs s1 where r: "read_and_alloc_bson_array lib buf 0 ?s = Some (BSON_SUCCESS, True, fin, Some arr, length qs, s1)"
    "arr_ok s1 arr n qs" "length qs = length ds" "distinct qs" "set qs \<inter> dom (docs s) = {}"
    "docs s1 = (docs s)(qs [\<mapsto>] ds)" "replies s1 = map Ok cs" "fresh cs s1" "length as' \<le> length cs + 2 * length ds"
    using read_and_alloc_all [OF assms(1) _ f len assms(5)] by auto
  obtain c cs' where cs: "cs = c # cs'" using r(9) assms(4) as by (cases cs) auto
  obtain ar junk where ar: "doc_arrays s1 arr = Some ar" "ar = map Some qs @ junk"
    using r(2) by (auto simp: arr_ok_def split: option.splits)
  have c: "doc_arrays s1 c = None" using r(8) cs by (auto simp: fresh_def)
  let ?s2 = "if ds = [] then s1\<lparr>doc_arrays := (doc_arrays s1)(arr := None)\<rparr>
    else s1\<lparr>replies := map Ok cs', doc_arrays := (doc_arrays s1)(arr := None, c \<mapsto> map Some qs)\<rparr>"
  let ?q = "if ds = [] then None else Some c"
  have re: "array_realloc arr (length qs) s1 = Some (?q, ?s2)"
    using ar c r(3,7) cs by (auto simp: array_realloc_def sys_malloc_def sys_next_def domIff)
  have "bson_read_from_buffer lib (Some buf) (Some pl) (Some x) (Some y) s =
      Some (BSON_SUCCESS, Some fin, Some ?q, Some (length ds), ?s2)"
    using assms(2) as r(1,3) re
    by (auto simp: bson_read_from_buffer_def sys_malloc_def sys_next_def get_parsed_len_def bson_codes)
  moreover have "docs ?s2 = docs s1" by simp
  ultimately show ?thesis using r(3-6) map_upds_lookup [OF r(3,4)] map_upds_restrict [OF r(3,5)]
    by (intro exI [of _ ?q] exI [of _ qs] exI [of _ ?s2]) auto
qed

text \<open>
  C30: when every allocation succeeds, reading a buffer of fewer than 2 to the power of 30 complete documents returns them all: as
  many pointers as documents, to new copies in the order of the buffer, in an array of exactly that length (none for no
  documents), with the parsed length at the end of the buffer; the documents allocated before are kept. On the way the array is
  grown as needed, without overflow of its size, and is never overrun.
\<close>

theorem bson_read_all:
  assumes "reads lib buf 0 ds fin True" and "replies s = map Ok as" and "fresh as s" and "2 * length ds + 3 \<le> length as"
    and "length ds < 2 ^ 30"
  shows "\<exists>q qs s'. bson_read_from_buffer lib (Some buf) (Some pl) (Some x) (Some y) s =
      Some (BSON_SUCCESS, Some fin, Some q, Some (length ds), s') \<and> length qs = length ds \<and> distinct qs \<and>
    map (docs s') qs = map Some ds \<and> docs s' |` (- set qs) = docs s \<and>
    (if ds = [] then q = None else \<exists>arr. q = Some arr \<and> doc_arrays s' arr = Some (map Some qs))"
  using assms by (rule bson_read_documents)


subsection \<open>A failed growth\<close>

text \<open>When the full array cannot grow, the program follows the null pointer it has just stored.\<close>

lemma read_growth_failure_crashes:
  assumes "bson_reader_read lib buf off = (Some (d, off'), e)" "arr_ok s arr (length ps + 1) ps"
    and "replies s = Ok a # Fail err # rest" "a \<notin> dom (docs s)"
  shows "read_array_loop lib buf off arr (length ps) (length ps + 1) s = None"
proof -
  obtain ar where ar: "doc_arrays s arr = Some ar" "length ps < length ar"
    using assms(2) by (auto simp: arr_ok_def split: option.splits)
  have "new_doc d s = Some (a, s\<lparr>replies := Fail err # rest, docs := (docs s)(a \<mapsto> d)\<rparr>)"
    using assms(3,4) by (simp add: new_doc_def sys_malloc_def sys_next_def)
  then show ?thesis using ar assms(1)
    by (subst read_array_loop.simps) (simp add: array_store_def array_realloc_def sys_malloc_def sys_next_def)
qed

subsection \<open>Documents survive writing and reading\<close>

text \<open>What \<open>libbson\<close> documents of its encoding and of its iterator.\<close>

definition codec_ok :: "'d libbson \<Rightarrow> bool" where
  "codec_ok lib \<longleftrightarrow> (\<forall>d rest. lib_decode lib (lib_encode lib d @ rest) = Some (d, length (lib_encode lib d))) \<and>
     (\<forall>d. lib_encode lib d \<noteq> [])"

definition iter_ok :: "'d libbson \<Rightarrow> bool" where
  "iter_ok lib \<longleftrightarrow> lib_iter lib (lib_empty lib) = Some [] \<and>
     (\<forall>d es k v d'. lib_iter lib d = Some es \<longrightarrow> lib_append lib d k v = Some d' \<longrightarrow> lib_iter lib d' = Some (es @ [(k, v)]))"

definition copy_of :: "'d libbson \<Rightarrow> 'd \<Rightarrow> 'd" where
  "copy_of lib d = snd (bson_doc_copy_by_iter lib (lib_empty lib) d)"

definition copyable :: "'d libbson \<Rightarrow> 'd \<Rightarrow> bool" where
  "copyable lib d \<longleftrightarrow> fst (bson_doc_copy_by_iter lib (lib_empty lib) d) = BSON_SUCCESS"

lemma copy_loop_iter:
  "iter_ok lib \<Longrightarrow> lib_iter lib dst = Some es \<Longrightarrow> copy_loop lib dst fs = (BSON_SUCCESS, c) \<Longrightarrow>
   lib_iter lib c = Some (es @ fs)"
proof (induction fs arbitrary: dst es)
  case (Cons f fs)
  obtain k v where f: "f = (k, v)" by fastforce
  obtain dst' where "lib_append lib dst k v = Some dst'" "copy_loop lib dst' fs = (BSON_SUCCESS, c)"
    using Cons.prems(3) f by (auto simp: bson_codes split: option.splits)
  moreover have "lib_iter lib dst' = Some (es @ [(k, v)])"
    using Cons.prems(1,2) calculation(1) by (auto simp: iter_ok_def)
  ultimately show ?case using Cons.IH [of dst' "es @ [(k, v)]"] Cons.prems(1) f by simp
qed simp

lemma copy_same_elements:
  assumes "iter_ok lib" "copyable lib d"
  shows "lib_iter lib (copy_of lib d) = lib_iter lib d"
proof -
  obtain es where es: "lib_iter lib d = Some es" "copy_loop lib (lib_empty lib) es = (BSON_SUCCESS, copy_of lib d)"
    using assms(2) by (auto simp: copyable_def copy_of_def bson_doc_copy_by_iter_def bson_codes prod_eq_iff split: option.splits)
  have "lib_iter lib (lib_empty lib) = Some []" using assms(1) by (simp add: iter_ok_def)
  then show ?thesis using copy_loop_iter [OF assms(1) _ es(2)] es(1) by simp
qed

lemma buffer_write_all:
  "list_all2 (\<lambda>p d. docs s p = Some d) ps ds \<Longrightarrow> list_all (copyable lib) ds \<Longrightarrow> replies s = map Ok (zs @ as) \<Longrightarrow>
   length zs = length ps \<Longrightarrow> byte_bufs s b = Some bytes \<Longrightarrow>
   bson_buffer_write lib b ps s = Some (BSON_SUCCESS, s\<lparr>replies := map Ok as,
     byte_bufs := (byte_bufs s)(b \<mapsto> bytes @ concat (map (\<lambda>d. lib_encode lib (copy_of lib d)) ds))\<rparr>)"
proof (induction ps arbitrary: ds s zs bytes)
  case Nil
  then show ?case by (simp add: fun_upd_idem)
next
  case (Cons p ps)
  obtain d ds' where ds: "ds = d # ds'" "docs s p = Some d" "list_all2 (\<lambda>p d. docs s p = Some d) ps ds'"
    using Cons.prems(1) by (cases ds) auto
  obtain z zs' where zs: "zs = z # zs'" using Cons.prems(4) by (cases zs) auto
  let ?s = "s\<lparr>replies := map Ok (zs' @ as), byte_bufs := (byte_bufs s)(b \<mapsto> bytes @ lib_encode lib (copy_of lib d))\<rparr>"
  have cp: "bson_doc_copy_by_iter lib (lib_empty lib) d = (BSON_SUCCESS, copy_of lib d)"
    using Cons.prems(2) ds(1) by (auto simp: copyable_def copy_of_def prod_eq_iff)
  have e: "bson_buffer_write lib b (p # ps) s = bson_buffer_write lib b ps ?s"
    using ds(2) Cons.prems(3,5) cp zs by (simp add: sys_zero_def sys_next_def bson_codes)
  have "bson_buffer_write lib b ps ?s = Some (BSON_SUCCESS, ?s\<lparr>replies := map Ok as, byte_bufs := (byte_bufs ?s)(b \<mapsto>
      (bytes @ lib_encode lib (copy_of lib d)) @ concat (map (\<lambda>d. lib_encode lib (copy_of lib d)) ds'))\<rparr>)"
    by (rule Cons.IH [of _ _ zs']) (use Cons.prems zs ds in auto)
  then show ?case using e ds(1) by (simp del: bson_buffer_write.simps fun_upd_apply)
qed

lemma reads_encoded:
  assumes "codec_ok lib"
  shows "reads lib (pre @ concat (map (lib_encode lib) cs)) (length pre) cs (length (pre @ concat (map (lib_encode lib) cs))) True"
proof (induction cs arbitrary: pre)
  case Nil
  then show ?case by (auto intro: reads_stop simp: bson_reader_read_def)
next
  case (Cons c cs)
  let ?e = "lib_encode lib c"
  have "bson_reader_read lib (pre @ concat (map (lib_encode lib) (c # cs))) (length pre) = (Some (c, length (pre @ ?e)), False)"
    using assms by (auto simp: bson_reader_read_def codec_ok_def)
  then show ?case using Cons.IH [of "pre @ ?e"] by (auto intro: reads_doc)
qed


lemma write_to_buffer_all:
  assumes "list_all2 (\<lambda>p d. docs s p = Some d) ps ds" "list_all (copyable lib) ds" "replies s = map Ok (b # zs @ a # as)"
    and "length zs = length ps" "byte_bufs s b = None" "byte_bufs s a = None" "a \<noteq> b"
  shows "\<exists>bytes. bytes = concat (map (\<lambda>d. lib_encode lib (copy_of lib d)) ds) \<and>
    bson_write_to_buffer lib (Some x) (Some n) (Some ps) s = Some (BSON_SUCCESS, Some (Some a), Some (length bytes),
      s\<lparr>replies := map Ok as, byte_bufs := (byte_bufs s)(a \<mapsto> bytes)\<rparr>)"
proof -
  let ?bytes = "concat (map (\<lambda>d. lib_encode lib (copy_of lib d)) ds)"
  let ?s = "s\<lparr>replies := map Ok (zs @ a # as), byte_bufs := (byte_bufs s)(b \<mapsto> [])\<rparr>"
  have "bson_buffer_write lib b ps ?s = Some (BSON_SUCCESS, ?s\<lparr>replies := map Ok (a # as), byte_bufs := (byte_bufs ?s)(b \<mapsto> [] @ ?bytes)\<rparr>)"
    using buffer_write_all [of ?s ps ds lib zs "a # as" b "[]"] assms(1,2,4) by simp
  moreover have "(byte_bufs s)(b := None, a \<mapsto> ?bytes) = (byte_bufs s)(a \<mapsto> ?bytes)" using assms(5) by (auto simp: fun_eq_iff)
  ultimately show ?thesis using assms(3,5-7)
    by (simp add: bson_write_to_buffer_def sys_malloc_def sys_next_def domIff bson_codes)
qed

text \<open>
  C31: when every allocation succeeds, writing fewer than 2 to the power of 30 documents to a buffer and reading the buffer back
  returns an array of as many pointers, to documents that were not allocated before and that have, in the same order, the same elements as those written; the whole
  buffer is consumed.
\<close>

theorem bson_write_read_round_trip:
  assumes "codec_ok lib" and "iter_ok lib" and "list_all2 (\<lambda>p d. docs s p = Some d) ps ds" and "list_all (copyable lib) ds"
    and "replies s = map Ok (b # zs @ a # as)" and "length zs = length ps" and "fresh as s" and "2 * length ds + 3 \<le> length as"
    and "byte_bufs s b = None" and "byte_bufs s a = None" and "a \<noteq> b" and "length ds < 2 ^ 30"
  shows "\<exists>bytes s1 q qs s2. bson_write_to_buffer lib (Some x) (Some n) (Some ps) s =
      Some (BSON_SUCCESS, Some (Some a), Some (length bytes), s1) \<and> byte_bufs s1 a = Some bytes \<and>
    bson_read_from_buffer lib (Some bytes) (Some pl) (Some y) (Some m) s1 =
      Some (BSON_SUCCESS, Some (length bytes), Some q, Some (length ds), s2) \<and>
    (if ds = [] then q = None else \<exists>arr. q = Some arr \<and> doc_arrays s2 arr = Some (map Some qs)) \<and>
    distinct qs \<and> set qs \<inter> dom (docs s) = {} \<and>
    list_all2 (\<lambda>p d. \<exists>c. docs s2 p = Some c \<and> lib_iter lib c = lib_iter lib d) qs ds"
proof -
  let ?cs = "map (copy_of lib) ds"
  define bytes where "bytes = concat (map (lib_encode lib) ?cs)"
  define s1 where "s1 = s\<lparr>replies := map Ok as, byte_bufs := (byte_bufs s)(a \<mapsto> bytes)\<rparr>"
  have w: "bson_write_to_buffer lib (Some x) (Some n) (Some ps) s = Some (BSON_SUCCESS, Some (Some a), Some (length bytes), s1)"
    using write_to_buffer_all [OF assms(3-6,9-11), of x n] by (auto simp: bytes_def s1_def comp_def)
  have rd: "reads lib bytes 0 ?cs (length bytes) True"
    using reads_encoded [OF assms(1), of "[]" ?cs] by (simp add: bytes_def)
  have f: "fresh as s1" "replies s1 = map Ok as" "2 * length ?cs + 3 \<le> length as" "byte_bufs s1 a = Some bytes"
    using assms(7,8) by (simp_all add: fresh_def s1_def)
  obtain q qs s2 where r: "bson_read_from_buffer lib (Some bytes) (Some pl) (Some y) (Some m) s1 =
      Some (BSON_SUCCESS, Some (length bytes), Some q, Some (length ?cs), s2)" "length qs = length ?cs" "map (docs s2) qs = map Some ?cs"
    "distinct qs" "docs s2 |` (- set qs) = docs s1"
    "if ?cs = [] then q = None else \<exists>arr. q = Some arr \<and> doc_arrays s2 arr = Some (map Some qs)"
    using bson_read_documents [OF rd f(2,1,3), of pl y m] assms(12) by (metis length_map)
  have new: "set qs \<inter> dom (docs s) = {}" using r(5) by (force simp: s1_def restrict_map_def dest: fun_cong split: if_splits)
  have "list_all2 (\<lambda>p d. \<exists>c. docs s2 p = Some c \<and> lib_iter lib c = lib_iter lib d) qs ds"
    unfolding list_all2_conv_all_nth
  proof (intro conjI allI impI)
    show "length qs = length ds" using r(2) by simp
    fix i assume i: "i < length qs"
    then have "docs s2 (qs ! i) = Some (copy_of lib (ds ! i))"
      using r(2,3) by (metis length_map nth_map)
    moreover have "copyable lib (ds ! i)" using assms(4) i r(2) by (simp add: list_all_length)
    ultimately show "\<exists>c. docs s2 (qs ! i) = Some c \<and> lib_iter lib c = lib_iter lib (ds ! i)"
      using copy_same_elements [OF assms(2)] by blast
  qed
  then show ?thesis using w f(4) r(1,4,6) new by (auto split: if_splits)
qed


text \<open>
  A document library for the examples: a document is a byte, the number of its elements, which are all
  alike, and is encoded as a zero byte and itself.
\<close>

definition byte_lib :: "u8 libbson" where
  "byte_lib = \<lparr>lib_empty = 0,
     lib_append = (\<lambda>d k v. if k = ''k'' \<and> v = V_NONE \<and> d < 255 then Some (d + 1) else None),
     lib_iter = (\<lambda>d. Some (replicate (unat d) (''k'', V_NONE))), lib_count_keys = unat,
     lib_encode = (\<lambda>d. [0, d]), lib_decode = (\<lambda>bs. case bs of x # y # _ \<Rightarrow> if x = 0 then Some (y, 2) else None | _ \<Rightarrow> None),
     lib_from_data = (\<lambda>bs. None), lib_as_json = (\<lambda>d. None), lib_uint32_to_string = (\<lambda>n. [])\<rparr>"

definition bson_state :: "reply list \<Rightarrow> u8 bson_os" where
  "bson_state rs = \<lparr>replies = rs, os_errno = EOTHER 0, fds = {}, fdflags = (\<lambda>_. 0), sent = (\<lambda>_. []),
     rcvd = (\<lambda>_. []), closed = [], docs = Map.empty, doc_arrays = Map.empty, byte_bufs = Map.empty\<rparr>"

lemma byte_reads: "reads byte_lib [0, 1, 0, 2] 0 [1, 2] 4 True" "reads byte_lib [0, 1, 7] 0 [1] 2 False"
proof -
  have "reads byte_lib [0, 1, 0, 2] 4 [] 4 True" "reads byte_lib [0, 1, 7] 2 [] 2 False"
    by (auto intro!: reads_stop simp: bson_reader_read_def byte_lib_def)
  then show "reads byte_lib [0, 1, 0, 2] 0 [1, 2] 4 True" "reads byte_lib [0, 1, 7] 0 [1] 2 False"
    by (auto intro!: reads_doc simp: bson_reader_read_def byte_lib_def)
qed

theorem bson_read_all_witness:
  "\<exists>q qs s'. bson_read_from_buffer byte_lib (Some [0, 1, 0, 2]) (Some 0) (Some None) (Some 0) (bson_state (map Ok [10..<20])) =
      Some (BSON_SUCCESS, Some 4, Some q, Some (length [1, 2 :: u8]), s') \<and> map (docs s') qs = map Some [1, 2]"
proof -
  let ?s = "bson_state (map Ok [10..<20])"
  have "replies ?s = map Ok [10..<20]" "fresh [10..<20] ?s" "2 * length [1, 2 :: u8] + 3 \<le> length [10..<20]"
    by (simp_all add: bson_state_def fresh_def)
  moreover have "length [1, 2 :: u8] < 2 ^ 30" by simp
  ultimately show ?thesis using bson_read_all [OF byte_reads(1), of ?s "[10..<20]" 0 None 0] by blast
qed


lemma byte_lib_laws: "codec_ok byte_lib" "iter_ok byte_lib" "copyable byte_lib 1"
proof -
  show "codec_ok byte_lib" by (simp add: codec_ok_def byte_lib_def)
  have "unat (d + 1) = Suc (unat d)" if "d < 255" for d :: u8 using that by (rule unat_Suc_less)
  then show "iter_ok byte_lib" by (auto simp: iter_ok_def byte_lib_def replicate_append_same)
  show "copyable byte_lib 1" by (simp add: copyable_def bson_doc_copy_by_iter_def byte_lib_def bson_codes)
qed

theorem bson_write_read_round_trip_witness:
  "\<exists>bytes s1 q qs s2. bson_write_to_buffer byte_lib (Some None) (Some 0) (Some [5]) ((bson_state (map Ok [10..<20]))\<lparr>docs := [5 \<mapsto> 1]\<rparr>) =
      Some (BSON_SUCCESS, Some (Some 12), Some (length bytes), s1) \<and>
    bson_read_from_buffer byte_lib (Some bytes) (Some 0) (Some None) (Some 0) s1 =
      Some (BSON_SUCCESS, Some (length bytes), Some q, Some (length [1 :: u8]), s2) \<and>
    (\<exists>arr. q = Some arr \<and> doc_arrays s2 arr = Some (map Some qs)) \<and>
    list_all2 (\<lambda>p d. \<exists>c. docs s2 p = Some c \<and> lib_iter byte_lib c = lib_iter byte_lib d) qs [1]"
proof -
  let ?s = "(bson_state (map Ok [10..<20]))\<lparr>docs := [5 \<mapsto> 1]\<rparr>"
  have "list_all2 (\<lambda>p d. docs ?s p = Some d) [5] [1]" "replies ?s = map Ok (10 # [11] @ 12 # [13..<20])" "fresh [13..<20] ?s"
    "byte_bufs ?s 10 = None" "byte_bufs ?s 12 = None" "2 * length [1 :: u8] + 3 \<le> length [13..<20]"
    "length [11 :: nat] = length [5 :: nat]" "(12 :: nat) \<noteq> 10" "list_all (copyable byte_lib) [1]"
    using byte_lib_laws(3) by (simp_all add: bson_state_def fresh_def upt_conv_Cons)
  then show ?thesis
    using bson_write_read_round_trip [OF byte_lib_laws(1,2), of ?s "[5]" "[1]" 10 "[11]" 12 "[13..<20]" None 0 0 None 0]
    by simp blast
qed

end
