(* ===== verification/Epoll_Server.thy ===== *)
theory Epoll_Server
  imports Posix
begin

unbundle bit_operations_syntax

section \<open>The edge-triggered epoll server\<close>

text \<open>
  Models \<open>src/src/system/poller/epoll.c\<close>: a server that accepts connections and copies what the clients
  send to its standard output. The state adds the descriptors registered with \<open>epoll\<close>. A call of
  \<open>abort\<close> is the outcome \<open>Abort\<close>. The event loop never ends; it is the repetition of \<open>event_turn\<close>.

  The lemmas show that a turn copies what each ready client sent, in order, and closes exactly the clients
  that closed or failed, that every waiting connection is accepted, and where the source loses
  data: a short write, and a read interrupted by a signal.
\<close>

datatype outcome = Go | Abort

record epoll_os = os +
  interest :: "int list"

definition MAXEVENTS :: nat where
  "MAXEVENTS = 64"

text \<open>The addresses \<open>getaddrinfo\<close> found are tried in turn; \<open>None\<close> for the descriptor when none can be bound.\<close>

fun bind_loop :: "nat \<Rightarrow> 'a os_scheme \<Rightarrow> (int option \<times> 'a os_scheme) option" where
  "bind_loop 0 s = Some (None, s)"
| "bind_loop (Suc n) s = do {
     (sfd, s) \<leftarrow> sys_newfd s;
     if sfd = - 1 then bind_loop n s
     else do {
       (r, s) \<leftarrow> sys_zero s;
       if r = 0 then Some (Some sfd, s) else bind_loop n (sys_close sfd s) } }"

definition create_and_bind :: "'a os_scheme \<Rightarrow> (int \<times> 'a os_scheme) option" where
  "create_and_bind s = do {
     (r, s) \<leftarrow> sys_next s;
     case r of Fail e \<Rightarrow> Some (- 1, s)
     | Ok n \<Rightarrow> do {
         (rp, s) \<leftarrow> bind_loop n s;
         case rp of None \<Rightarrow> Some (- 1, s) | Some sfd \<Rightarrow> Some (sfd, s) }
     | _ \<Rightarrow> None }"

definition make_socket_non_blocking :: "int \<Rightarrow> 'a os_scheme \<Rightarrow> (int \<times> 'a os_scheme) option" where
  "make_socket_non_blocking sfd s = do {
     (flags, s) \<leftarrow> sys_getfl sfd s;
     if flags = - 1 then Some (- 1, s)
     else do {
       (r, s) \<leftarrow> sys_setfl sfd (word_of_int flags OR O_NONBLOCK) s;
       if r = - 1 then Some (- 1, s) else Some (0, s) } }"

definition epoll_ctl_add :: "int \<Rightarrow> 'a epoll_os_scheme \<Rightarrow> (int \<times> 'a epoll_os_scheme) option" where
  "epoll_ctl_add fd s = do {
     (r, s) \<leftarrow> sys_zero s;
     if r = - 1 then Some (- 1, s) else Some (0, s\<lparr>interest := interest s @ [fd]\<rparr>) }"

text \<open>The name of the peer is only printed: whether \<open>getnameinfo\<close> finds one is an answer without effect.\<close>

function accept_all :: "int \<Rightarrow> 'a epoll_os_scheme \<Rightarrow> (outcome \<times> 'a epoll_os_scheme) option" where
  "accept_all sfd s = do {
     (infd, s1) \<leftarrow> sys_newfd s;
     if infd = - 1 then Some (Go, s1)
     else do {
       (_, s2) \<leftarrow> sys_zero s1;
       (r, s3) \<leftarrow> make_socket_non_blocking infd s2;
       if r = - 1 then Some (Abort, s3)
       else do {
         (r, s4) \<leftarrow> epoll_ctl_add infd s3;
         if r = - 1 then Some (Abort, s4) else accept_all sfd s4 } } }"
  by pat_completeness auto
termination
  by (relation "measure (\<lambda>(sfd, s). fuel s)")
    (auto simp: make_socket_non_blocking_def epoll_ctl_add_def elim!: bind_SomeE split: if_splits dest!: sys_fuel)

text \<open>Copying what a client sent; the result says whether the connection is done.\<close>

function copy_client :: "int \<Rightarrow> 'a epoll_os_scheme \<Rightarrow> (outcome \<times> bool \<times> 'a epoll_os_scheme) option" where
  "copy_client fd s = do {
     (count, buf, s1) \<leftarrow> sys_recv fd 512 s;
     if count = - 1 then Some (Go, os_errno s1 \<noteq> EAGAIN, s1)
     else if count = 0 then Some (Go, True, s1)
     else do {
       (r, s2) \<leftarrow> sys_send 1 buf s1;
       if r = - 1 then Some (Abort, False, s2) else copy_client fd s2 } }"
  by pat_completeness auto
termination
  by (relation "measure (\<lambda>(fd, s). fuel s)") (auto dest!: sys_fuel)

declare accept_all.simps [simp del] copy_client.simps [simp del]

text \<open>Closing a descriptor takes it out of the set \<open>epoll\<close> watches.\<close>

definition close_fd :: "int \<Rightarrow> 'a epoll_os_scheme \<Rightarrow> 'a epoll_os_scheme" where
  "close_fd fd s = (sys_close fd s)\<lparr>interest := filter (\<lambda>x. x \<noteq> fd) (interest s)\<rparr>"

definition handle_event :: "int \<Rightarrow> int \<times> pollflag list \<Rightarrow> 'a epoll_os_scheme \<Rightarrow> (outcome \<times> 'a epoll_os_scheme) option" where
  "handle_event sfd e s =
     (case e of (fd, fl) \<Rightarrow>
        if POLLERR \<in> set fl \<or> POLLHUP \<in> set fl \<or> POLLIN \<notin> set fl then Some (Go, close_fd fd s)
        else if sfd = fd then accept_all sfd s
        else do {
          (r, is_done, s) \<leftarrow> copy_client fd s;
          if r = Abort then Some (Abort, s) else Some (Go, if is_done then close_fd fd s else s) })"

fun handle_all :: "int \<Rightarrow> (int \<times> pollflag list) list \<Rightarrow> 'a epoll_os_scheme \<Rightarrow> (outcome \<times> 'a epoll_os_scheme) option" where
  "handle_all sfd [] s = Some (Go, s)"
| "handle_all sfd (e # es) s = do {
     (r, s) \<leftarrow> handle_event sfd e s;
     if r = Abort then Some (Abort, s) else handle_all sfd es s }"

definition epoll_wait_fds :: "'a epoll_os_scheme \<Rightarrow> ((int \<times> pollflag list) list \<times> 'a epoll_os_scheme) option" where
  "epoll_wait_fds s = do {
     (r, s) \<leftarrow> sys_next s;
     case r of Fail e \<Rightarrow> Some ([], s\<lparr>os_errno := e\<rparr>)
     | Polled revs \<Rightarrow>
         if length revs = length (interest s)
         then Some (take MAXEVENTS (filter (\<lambda>e. snd e \<noteq> []) (zip (interest s) revs)), s) else None
     | _ \<Rightarrow> None }"

definition event_turn :: "int \<Rightarrow> 'a epoll_os_scheme \<Rightarrow> (outcome \<times> 'a epoll_os_scheme) option" where
  "event_turn sfd s = do {
     (evs, s) \<leftarrow> epoll_wait_fds s;
     handle_all sfd evs s }"

text \<open>Start-up: everything before the loop, with the listening socket.\<close>

definition server_start :: "'a epoll_os_scheme \<Rightarrow> (outcome \<times> int \<times> 'a epoll_os_scheme) option" where
  "server_start s = do {
     (sfd, s) \<leftarrow> create_and_bind s;
     if sfd = - 1 then Some (Abort, sfd, s)
     else do {
       (r, s) \<leftarrow> make_socket_non_blocking sfd s;
       if r = - 1 then Some (Abort, sfd, s)
       else do {
         (r, s) \<leftarrow> sys_zero s;
         if r = - 1 then Some (Abort, sfd, s)
         else do {
           (efd, s) \<leftarrow> sys_newfd s;
           if efd = - 1 then Some (Abort, sfd, s)
           else do {
             (r, s) \<leftarrow> epoll_ctl_add sfd s;
             if r = - 1 then Some (Abort, sfd, s) else Some (Go, sfd, s) } } } } }"

subsection \<open>Copying\<close>

text \<open>
  The answers when a client sends pieces and standard output takes some bytes of each: a pair is a piece and the number of
  its bytes that \<open>write\<close> takes. A piece is not empty and fits the buffer, and \<open>write\<close> takes at most the whole of it.
\<close>

fun copy_answers :: "(u8 list \<times> nat) list \<Rightarrow> reply list" where
  "copy_answers [] = []"
| "copy_answers ((d, k) # ds) = Data d # Ok k # copy_answers ds"

definition piece_ok :: "u8 list \<times> nat \<Rightarrow> bool" where
  "piece_ok p \<longleftrightarrow> fst p \<noteq> [] \<and> length (fst p) \<le> 512 \<and> snd p \<le> length (fst p)"

definition pieces_read :: "(u8 list \<times> nat) list \<Rightarrow> u8 list" where
  "pieces_read ds = concat (map fst ds)"

definition pieces_written :: "(u8 list \<times> nat) list \<Rightarrow> u8 list" where
  "pieces_written ds = concat (map (\<lambda>(d, k). take k d) ds)"

lemma copy_client_pieces:
  "replies s = copy_answers ds @ rs \<Longrightarrow> list_all piece_ok ds \<Longrightarrow> fd \<noteq> 1 \<Longrightarrow>
   copy_client fd s = copy_client fd (s\<lparr>replies := rs, sent := (sent s)(1 := sent s 1 @ pieces_written ds),
     rcvd := (rcvd s)(fd := rcvd s fd @ pieces_read ds)\<rparr>)"
proof (induction ds arbitrary: s)
  case Nil
  then have "s\<lparr>replies := rs\<rparr> = s" by simp
  then show ?case by (simp add: pieces_read_def pieces_written_def)
next
  case (Cons p ds)
  obtain d k where p: "p = (d, k)" by fastforce
  let ?s = "s\<lparr>rcvd := (rcvd s)(fd := rcvd s fd @ d), replies := copy_answers ds @ rs, sent := (sent s)(1 := sent s 1 @ take k d)\<rparr>"
  have "copy_client fd s = copy_client fd ?s"
    using Cons.prems(1,2) p by (subst copy_client.simps) (simp add: sys_recv_def sys_send_def sys_next_def piece_ok_def)
  also have "\<dots> = copy_client fd (?s\<lparr>replies := rs, sent := (sent ?s)(1 := sent ?s 1 @ pieces_written ds),
      rcvd := (rcvd ?s)(fd := rcvd ?s fd @ pieces_read ds)\<rparr>)"
    by (rule Cons.IH) (use Cons.prems(2,3) in simp_all)
  finally show ?case using p by (simp add: pieces_read_def pieces_written_def fun_upd_def cong: if_cong)
qed

text \<open>
  C33: on a readable event of a client the server reads everything the client has sent, in order, and passes each piece to
  \<open>write\<close> once: what reaches standard output is, in order, the part of each piece that its \<open>write\<close> took, which is everything when every
  \<open>write\<close> took the whole piece, and lacks the rest of a piece after a short write. The connection is kept, and nothing is closed, when there
  is nothing more to read for now; it is closed and no longer watched when the client closed or reading failed; and the
  program aborts when a write fails.
\<close>

theorem epoll_client_copied:
  assumes "replies s = copy_answers ds @ rs" and "list_all piece_ok ds"
    and "fd \<noteq> 1" and "fd \<noteq> sfd" and "POLLIN \<in> set fl" and "POLLERR \<notin> set fl" and "POLLHUP \<notin> set fl"
    and "rs = Fail e # rest \<or> rs = Data [] # rest \<or> rs = Data d # Fail e # rest" and "d \<noteq> []" and "length d \<le> 512"
  shows "\<exists>r s'. handle_event sfd (fd, fl) s = Some (r, s') \<and> replies s' = rest \<and>
    sent s' = (sent s)(1 := sent s 1 @ pieces_written ds) \<and>
    (list_all (\<lambda>(d, k). k = length d) ds \<longrightarrow> pieces_written ds = pieces_read ds) \<and>
    (if rs = Data d # Fail e # rest then r = Abort \<and> closed s' = closed s
     else r = Go \<and> rcvd s' = (rcvd s)(fd := rcvd s fd @ pieces_read ds) \<and>
       (if hd rs = Fail EAGAIN then fds s' = fds s \<and> interest s' = interest s \<and> closed s' = closed s
        else fds s' = fds s - {fd} \<and> interest s' = filter (\<lambda>x. x \<noteq> fd) (interest s) \<and> closed s' = closed s @ [fd]))"
proof -
  have whole: "pieces_written ds = pieces_read ds" if "list_all (\<lambda>(d, k). k = length d) ds"
    using that by (induction ds) (auto simp: pieces_written_def pieces_read_def)
  let ?s = "s\<lparr>replies := rs, sent := (sent s)(1 := sent s 1 @ pieces_written ds), rcvd := (rcvd s)(fd := rcvd s fd @ pieces_read ds)\<rparr>"
  have "copy_client fd s = copy_client fd ?s" using copy_client_pieces [OF assms(1,2,3)] .
  also have "\<dots> = (if rs = Data d # Fail e # rest
      then Some (Abort, False, ?s\<lparr>replies := rest, os_errno := e, rcvd := (rcvd ?s)(fd := rcvd ?s fd @ d)\<rparr>)
      else if rs = Data [] # rest then Some (Go, True, ?s\<lparr>replies := rest\<rparr>)
      else Some (Go, e \<noteq> EAGAIN, ?s\<lparr>replies := rest, os_errno := e\<rparr>))"
    using assms(8-10) by (subst copy_client.simps) (auto simp: sys_recv_def sys_send_def sys_next_def)
  finally show ?thesis using assms(4-10) whole by (auto simp: handle_event_def close_fd_def)
qed

definition epoll_state :: "int list \<Rightarrow> reply list \<Rightarrow> epoll_os" where
  "epoll_state ws rs = \<lparr>replies = rs, os_errno = EOTHER 0, fds = {3, 4, 9}, fdflags = (\<lambda>_. 2), sent = (\<lambda>_. []),
     rcvd = (\<lambda>_. []), closed = [], interest = ws\<rparr>"

theorem epoll_client_copied_witness:
  "\<exists>s'. handle_event 3 (9, [POLLIN]) (epoll_state [3, 9] [Data [1, 2], Ok 2, Data [3], Ok 1, Data []]) = Some (Go, s') \<and>
    sent s' 1 = [1, 2, 3] \<and> interest s' = [3]"
  using epoll_client_copied [of "epoll_state [3, 9] [Data [1, 2], Ok 2, Data [3], Ok 1, Data []]" "[([1, 2], 2), ([3], 1)]"
      "[Data []]" 9 3 "[POLLIN]" EAGAIN "[]" "[0]"]
  by (auto simp: epoll_state_def piece_ok_def pieces_written_def pieces_read_def)

subsection \<open>What is lost\<close>

text \<open>A short write loses the rest of the piece, and an interrupted read closes the connection.\<close>

lemma short_write_loses:
  assumes "replies s = [Data d, Ok n, Fail EAGAIN]" "d \<noteq> []" "length d \<le> 512" "n < length d" "fd \<noteq> 1"
  shows "\<exists>s'. copy_client fd s = Some (Go, False, s') \<and> sent s' 1 = sent s 1 @ take n d \<and> rcvd s' fd = rcvd s fd @ d"
  using assms by (simp add: copy_client.simps sys_recv_def sys_send_def sys_next_def)

lemma interrupted_read_closes:
  assumes "replies s = Fail EINTR # rest" "fd \<noteq> sfd"
  shows "\<exists>s'. handle_event sfd (fd, [POLLIN]) s = Some (Go, s') \<and> closed s' = closed s @ [fd]"
  using assms by (simp add: handle_event_def copy_client.simps sys_recv_def sys_next_def close_fd_def)

subsection \<open>Accepting\<close>

text \<open>The answers when the connections with the descriptors \<open>ns\<close> are waiting.\<close>

fun accept_answers :: "nat list \<Rightarrow> reply list" where
  "accept_answers [] = []"
| "accept_answers (n # ns) = [Ok n, Ok 0, Ok 0, Ok 0, Ok 0] @ accept_answers ns"

lemma accept_all_registers:
  "replies s = accept_answers ns @ Fail EAGAIN # rest \<Longrightarrow> distinct ns \<Longrightarrow> int ` set ns \<inter> fds s = {} \<Longrightarrow>
   \<forall>n\<in>set ns. sint (fdflags s (int n)) \<noteq> - 1 \<Longrightarrow>
   \<exists>s'. accept_all sfd s = Some (Go, s') \<and> replies s' = rest \<and> interest s' = interest s @ map int ns \<and>
     fds s' = fds s \<union> int ` set ns"
proof (induction ns arbitrary: s)
  case Nil
  then show ?case by (subst accept_all.simps) (simp add: sys_newfd_def sys_next_def)
next
  case (Cons n ns)
  let ?fl = "(fdflags s)(int n := fdflags s (int n) OR O_NONBLOCK)"
  let ?s = "s\<lparr>fds := insert (int n) (fds s), fdflags := ?fl, replies := accept_answers ns @ Fail EAGAIN # rest,
    interest := interest s @ [int n]\<rparr>"
  have "sint (fdflags s (int n)) \<noteq> - 1" using Cons.prems(4) by simp
  then have "accept_all sfd s = accept_all sfd ?s"
    using Cons.prems(1,3) by (subst accept_all.simps)
      (simp add: sys_newfd_def sys_zero_def sys_next_def make_socket_non_blocking_def sys_getfl_def sys_setfl_def epoll_ctl_add_def)
  moreover have "\<forall>n'\<in>set ns. sint (fdflags ?s (int n')) \<noteq> - 1" using Cons.prems(2,4) by auto
  moreover have "int n \<notin> int ` set ns" using Cons.prems(2) by auto
  ultimately show ?case using Cons.IH [of ?s] Cons.prems(2,3) by auto
qed

end
