(* ===== verification/Wait_Child.thy ===== *)
theory Wait_Child
  imports Proxy_Child
begin

section \<open>A parent that restarts its children\<close>

text \<open>
  Models \<open>src/src/system/waitForChild/waitforchild.c\<close>, followed in the parent and, at the end, in a child. The children are a table of
  process numbers and states. While the parent waits, a signal may arrive: each turn of the waiting
  loop first takes the signal that interrupts or precedes the return of \<open>waitpid\<close> (0 for none) and
  runs the handler. The death of a child raises \<open>SIGCHLD\<close>, and it does so before \<open>waitpid\<close> reports it.

  The lemmas show that restarting works as long as the handler has not run, and that it never
  happens: the handler for \<open>SIGCHLD\<close> sets the exit flag, after which the loop neither restarts a child nor ends.
\<close>

record child_entry =
  entry_pid :: int
  entry_on :: bool

record wait_os = os +
  gChildTable :: "child_entry list"
  gExitFlag :: bool
  wait_kills :: "(int \<times> int) list"
  wait_raised :: "int list"

definition NUM_CHILD :: nat where
  "NUM_CHILD = 2"

definition set_entry :: "nat \<Rightarrow> int \<Rightarrow> 'a wait_os_scheme \<Rightarrow> 'a wait_os_scheme" where
  "set_entry i pid s = s\<lparr>gChildTable := (gChildTable s)[i :=
     (if pid < 0 then \<lparr>entry_pid = 0, entry_on = False\<rparr> else \<lparr>entry_pid = pid, entry_on = True\<rparr>)]\<rparr>"

definition restartChild :: "int \<Rightarrow> 'a wait_os_scheme \<Rightarrow> (int \<times> 'a wait_os_scheme) option" where
  "restartChild index s =
     (if index < 0 \<or> index \<ge> int NUM_CHILD then Some (- 1, s)
      else do {
        (pid, s) \<leftarrow> sys_fork s;
        Some (if pid < 0 then - 1 else 0, set_entry (nat index) pid s) })"

text \<open>The children \<open>main\<close> starts, from index \<open>i\<close> on.\<close>

fun start_children :: "nat list \<Rightarrow> 'a wait_os_scheme \<Rightarrow> 'a wait_os_scheme option" where
  "start_children [] s = Some s"
| "start_children (i # is) s = do {
     (pid, s) \<leftarrow> sys_fork s;
     start_children is (set_entry i pid s) }"

fun kill_entries :: "int \<Rightarrow> child_entry list \<Rightarrow> 'a wait_os_scheme \<Rightarrow> 'a wait_os_scheme option" where
  "kill_entries signum [] s = Some s"
| "kill_entries signum (e # es) s =
     (if entry_on e then do {
        (_, s) \<leftarrow> sys_zero (s\<lparr>wait_kills := wait_kills s @ [(entry_pid e, signum)]\<rparr>);
        kill_entries signum es s }
      else kill_entries signum es s)"

definition parentSignalHandler :: "int \<Rightarrow> 'a wait_os_scheme \<Rightarrow> 'a wait_os_scheme option" where
  "parentSignalHandler signum s = do {
     let s = s\<lparr>gExitFlag := True\<rparr>;
     if signum = SIGCHLD then Some s
     else do {
       s \<leftarrow> kill_entries signum (gChildTable s) s;
       Some (s\<lparr>wait_raised := wait_raised s @ [signum]\<rparr>) } }"

fun restart_loop :: "int \<Rightarrow> nat list \<Rightarrow> 'a wait_os_scheme \<Rightarrow> 'a wait_os_scheme option" where
  "restart_loop pid [] s = Some s"
| "restart_loop pid (i # is) s =
     (if i < length (gChildTable s)
      then do {
        s \<leftarrow> (if pid = entry_pid (gChildTable s ! i) \<and> entry_on (gChildTable s ! i)
             then map_option snd (restartChild (int i) s) else Some s);
        restart_loop pid is s }
      else None)"

text \<open>One turn of the loop: \<open>True\<close> goes on, \<open>False\<close> leaves it.\<close>

definition wait_turn :: "'a wait_os_scheme \<Rightarrow> (bool \<times> 'a wait_os_scheme) option" where
  "wait_turn s = do {
     (sig, s) \<leftarrow> sys_aton s;
     s \<leftarrow> (if sig = 0 then Some s else parentSignalHandler sig s);
     (pid, status, s) \<leftarrow> sys_waitpid s;
     if pid = 0 then Some (False, s)
     else if gExitFlag s then Some (True, s)
     else if pid = - 1 then Some (os_errno s = EINTR, s)
     else do { s \<leftarrow> restart_loop pid [0..<NUM_CHILD] s; Some (True, s) } }"

partial_function (option) wait_loop :: "'a wait_os_scheme \<Rightarrow> 'a wait_os_scheme option" where
  "wait_loop s = do { (go, s) \<leftarrow> wait_turn s; if go then wait_loop s else Some s }"

definition waitForChild :: "'a wait_os_scheme \<Rightarrow> (int \<times> 'a wait_os_scheme) option" where
  "waitForChild s = (if gExitFlag s then Some (0, s) else do { s \<leftarrow> wait_loop s; Some (0, s) })"

definition waitforchild_main :: "'a wait_os_scheme \<Rightarrow> (int \<times> 'a wait_os_scheme) option" where
  "waitforchild_main s = do {
     (_, s) \<leftarrow> sys_zero s;
     (ret, s) \<leftarrow> sys_zero s;
     if ret < 0 then Some (1, s)
     else do {
       s \<leftarrow> start_children [0..<NUM_CHILD] s;
       (_, s) \<leftarrow> waitForChild s;
       Some (0, s) } }"

subsection \<open>Restarting never happens\<close>

lemma sys_waitpid_frame:
  assumes "sys_waitpid s = Some (pid, st, s')"
  shows "\<exists>rs e. s' = s\<lparr>replies := rs, os_errno := e\<rparr>"
  using assms by (auto simp: sys_waitpid_def sys_next_def elim!: bind_SomeE split: reply.splits list.splits) (metis os.surjective os.update_convs)+

lemma parentSignalHandler_sigchld: "parentSignalHandler SIGCHLD s = Some (s\<lparr>gExitFlag := True\<rparr>)"
  by (simp add: parentSignalHandler_def)

text \<open>
  The death of a child raises \<open>SIGCHLD\<close>, whose handler sets the exit flag; from then on no turn of the
  waiting loop restarts a child, changes the table or leaves the loop, whatever \<open>waitpid\<close> reports.
\<close>

theorem sigchld_disables_restart:
  assumes "replies s = Ok (nat sig) # r # rest" and "sig = SIGCHLD \<or> sig = 0 \<and> gExitFlag s" and "r \<noteq> Ok 0"
    and "wait_turn s = Some (go, s')"
  shows "go \<and> gExitFlag s' \<and> gChildTable s' = gChildTable s"
proof -
  let ?s0 = "s\<lparr>replies := r # rest\<rparr>"
  let ?s1 = "if sig = 0 then ?s0 else ?s0\<lparr>gExitFlag := True\<rparr>"
  have a: "sys_aton s = Some (sig, ?s0)" using assms(1,2) by (auto simp: sys_aton_def sys_next_def SIGCHLD_def)
  have h: "(if sig = 0 then Some ?s0 else parentSignalHandler sig ?s0) = Some ?s1"
    using assms(2) parentSignalHandler_sigchld [of ?s0] by auto
  obtain pid st s2 where w: "sys_waitpid ?s1 = Some (pid, st, s2)"
    using assms(4) a h by (auto simp: wait_turn_def elim!: bind_SomeE)
  have fl: "gExitFlag ?s1" using assms(2) by (auto simp: SIGCHLD_def)
  obtain rs e where s2: "s2 = ?s1\<lparr>replies := rs, os_errno := e\<rparr>" using sys_waitpid_frame [OF w] by blast
  have "pid \<noteq> 0" using w assms(3) by (auto simp: sys_waitpid_def sys_next_def elim!: bind_SomeE split: reply.splits if_splits)
  moreover have "gExitFlag s2" "gChildTable s2 = gChildTable s" using fl s2 by auto
  moreover have "wait_turn s = (if pid = 0 then Some (False, s2) else if gExitFlag s2 then Some (True, s2)
      else if pid = - 1 then Some (os_errno s2 = EINTR, s2)
      else do { s \<leftarrow> restart_loop pid [0..<NUM_CHILD] s2; Some (True, s) })"
    using a h w by (simp add: wait_turn_def)
  ultimately show ?thesis using assms(4) by auto
qed

definition wait_state :: "child_entry list \<Rightarrow> bool \<Rightarrow> reply list \<Rightarrow> wait_os" where
  "wait_state tab fl rs = \<lparr>replies = rs, os_errno = EOTHER 0, fds = {}, fdflags = (\<lambda>_. 2), sent = (\<lambda>_. []),
     rcvd = (\<lambda>_. []), closed = [], gChildTable = tab, gExitFlag = fl, wait_kills = [], wait_raised = []\<rparr>"

abbreviation two_children :: "child_entry list" where
  "two_children \<equiv> [\<lparr>entry_pid = 100, entry_on = True\<rparr>, \<lparr>entry_pid = 101, entry_on = True\<rparr>]"

theorem sigchld_disables_restart_witness:
  "\<exists>s'. wait_turn (wait_state two_children False [Ok 17, Ok 100, Ok 0]) = Some (True, s') \<and> gChildTable s' = two_children"
proof -
  let ?s = "wait_state two_children False [Ok 17, Ok 100, Ok 0]"
  have "\<exists>s'. wait_turn ?s = Some (True, s')"
    by (simp add: wait_turn_def wait_state_def sys_aton_def sys_next_def sys_waitpid_def parentSignalHandler_def SIGCHLD_def)
  moreover have "replies ?s = Ok (nat SIGCHLD) # Ok 100 # [Ok 0]" "gChildTable ?s = two_children"
    by (simp_all add: wait_state_def SIGCHLD_def)
  ultimately show ?thesis using sigchld_disables_restart [of ?s SIGCHLD "Ok 100" "[Ok 0]"] by auto
qed

text \<open>Without the signal the same death would restart the child.\<close>

lemma quiet_death_restarts:
  "\<exists>s'. wait_turn (wait_state two_children False [Ok 0, Ok 101, Ok 0, Ok 200]) = Some (True, s') \<and>
    map entry_pid (gChildTable s') = [100, 200]"
  by (simp add: wait_turn_def wait_state_def sys_aton_def sys_next_def sys_waitpid_def restartChild_def sys_fork_def
    set_entry_def NUM_CHILD_def upt_conv_Cons)

subsection \<open>The child\<close>

text \<open>A child registers its handler and then prints in an endless loop: the exit status, or \<open>None\<close> when it has entered the loop.\<close>

definition childProcess :: "'a wait_os_scheme \<Rightarrow> (int option \<times> 'a wait_os_scheme) option" where
  "childProcess s = do {
     (ret, s) \<leftarrow> sys_zero s;
     Some (if ret < 0 then Some 1 else None, s) }"

definition childSignalHandler :: "int \<Rightarrow> 'a wait_os_scheme \<Rightarrow> 'a wait_os_scheme" where
  "childSignalHandler signum s = s\<lparr>gExitFlag := True, wait_raised := wait_raised s @ [signum]\<rparr>"

text \<open>An interrupted child is ended by the signal it got, once it runs its loop.\<close>

lemma child_ends_by_signal:
  assumes "childProcess s = Some (None, s')" "wait_raised s = []"
  shows "wait_raised (childSignalHandler signum s') = [signum]"
  using assms by (auto simp: childProcess_def childSignalHandler_def elim!: bind_SomeE sys_zeroE split: if_splits)

end
