(* ===== verification/Him_Net.thy ===== *)
theory Him_Net
  imports Proxy_Net C_Text
begin

unbundle bit_operations_syntax

section \<open>Sockets of the rewritten proxy\<close>

text \<open>
  Models \<open>src/src/networking/himproxy/network.c\<close>, the socket functions of the rewrite of the HTTP proxy. They
  differ from those of the first version (theory \<open>Proxy_Net\<close>) in that each failure has a code of its
  own. The lemmas show that this is the only difference for a caller that tests for a negative
  result, which code is never returned, and that the original destination of a connection is read in the
  right byte order.
\<close>

definition him_set_socket_non_blocking :: "int option \<Rightarrow> 'a os_scheme \<Rightarrow> (int \<times> 'a os_scheme) option" where
  "him_set_socket_non_blocking sock s =
     (case sock of None \<Rightarrow> Some (- 1, s)
      | Some fd \<Rightarrow> do {
          (sock_flags, s) \<leftarrow> sys_getfl fd s;
          if sock_flags < 0 then Some (- 2, s)
          else do {
            let sock_flags = word_of_int sock_flags OR O_NONBLOCK;
            (ret, s) \<leftarrow> sys_setfl fd sock_flags s;
            if ret < 0 then Some (- 3, s) else Some (0, s) } })"

text \<open>
  \<open>server_sock < 0\<close> in the source compares the pointer, which is never negative, so the branch with code -2
  is not taken.
\<close>

definition him_tcp_bind_and_listen ::
    "string option \<Rightarrow> int \<Rightarrow> int option \<Rightarrow> 'a os_scheme \<Rightarrow> (int \<times> int option \<times> 'a os_scheme) option" where
  "him_tcp_bind_and_listen bind_ip bind_port server_sock s =
     (if bind_ip = None \<or> server_sock = None \<or> bind_port < 0 \<or> bind_port > 65535
      then Some (- 1, server_sock, s)
      else do {
        (fd, s) \<leftarrow> sys_newfd s;
        let server_sock = Some fd;
        (_, s) \<leftarrow> sys_fdcall fd s;
        (a, s) \<leftarrow> sys_aton s;
        if a = 0 then Some (- 3, server_sock, s)
        else do {
          (ret, s) \<leftarrow> sys_fdcall fd s;
          if ret < 0 then Some (- 4, server_sock, s)
          else do {
            (ret, s) \<leftarrow> sys_fdcall fd s;
            if ret < 0 then Some (- 5, server_sock, s) else Some (0, server_sock, s) } } })"

definition him_tcp_connect_to_server ::
    "string option \<Rightarrow> int \<Rightarrow> int option \<Rightarrow> 'a os_scheme \<Rightarrow> (int \<times> int option \<times> 'a os_scheme) option" where
  "him_tcp_connect_to_server server_ip server_port local_sock s =
     (if server_ip = None \<or> server_port < 0 \<or> server_port > 65535 \<or> local_sock = None
      then Some (- 1, local_sock, s)
      else do {
        (fd, s) \<leftarrow> sys_newfd s;
        let local_sock = Some fd;
        if fd < 0 then Some (- 2, local_sock, s)
        else do {
          (a, s) \<leftarrow> sys_aton s;
          if a = 0 then Some (- 3, local_sock, s)
          else do {
            (ret, s) \<leftarrow> sys_fdcall fd s;
            if ret < 0 then Some (- 4, local_sock, s) else Some (0, local_sock, s) } } })"

definition him_tcp_transparent_connect_to_server ::
    "string option \<Rightarrow> int \<Rightarrow> int option \<Rightarrow> string option \<Rightarrow> int \<Rightarrow> 'a os_scheme \<Rightarrow>
     (int \<times> int option \<times> 'a os_scheme) option" where
  "him_tcp_transparent_connect_to_server server_ip server_port local_socket client_ip client_port s =
     (if server_ip = None \<or> server_port < 0 \<or> server_port > 65535 \<or> local_socket = None
      then Some (- 1, local_socket, s)
      else do {
        (sock, s) \<leftarrow> sys_newfd s;
        if sock < 0 then Some (- 2, local_socket, s)
        else do {
          (_, s) \<leftarrow> sys_fdcall sock s;
          (ret, s) \<leftarrow> sys_fdcall sock s;
          if ret < 0 then Some (- 3, local_socket, s)
          else if client_ip = None then None
          else do {
            (a, s) \<leftarrow> sys_aton s;
            if a = 0 then Some (- 4, local_socket, s)
            else do {
              (ret, s) \<leftarrow> sys_fdcall sock s;
              if ret < 0 then Some (- 5, local_socket, s)
              else do {
                (a, s) \<leftarrow> sys_aton s;
                if a = 0 then Some (- 6, local_socket, s)
                else do {
                  (ret, s) \<leftarrow> sys_fdcall sock s;
                  if ret < 0 then Some (- 7, local_socket, s) else Some (0, Some sock, s) } } } } } })"

definition set_socket_ip_transparent :: "int option \<Rightarrow> 'a os_scheme \<Rightarrow> (int \<times> 'a os_scheme) option" where
  "set_socket_ip_transparent sock s =
     (case sock of None \<Rightarrow> Some (- 1, s)
      | Some fd \<Rightarrow> do {
          (ret, s) \<leftarrow> sys_fdcall fd s;
          if ret < 0 then Some (- 2, s) else Some (ret, s) })"

subsection \<open>The original destination\<close>

text \<open>
  An IPv4 address and port: the four bytes of the address in network order, and the port as
  the 16-bit number that a little-endian machine loads from its two bytes.
\<close>

record sockaddr_in =
  sin_addr :: "u8 list"
  sin_port :: "16 word"

definition load_port :: "u8 \<Rightarrow> u8 \<Rightarrow> 16 word" where
  "load_port b0 b1 = word_of_nat (unat b0 + 256 * unat b1)"

definition htons :: "16 word \<Rightarrow> 16 word" where
  "htons x = word_of_nat (unat x mod 256 * 256 + unat x div 256)"

text \<open>\<open>getsockname\<close> delivers the six bytes of address and port.\<close>

definition sys_getsockname :: "sockaddr_in \<Rightarrow> 'a os_scheme \<Rightarrow> (int \<times> sockaddr_in \<times> 'a os_scheme) option" where
  "sys_getsockname adr s = do {
     (r, s) \<leftarrow> sys_next s;
     case r of Fail e \<Rightarrow> Some (- 1, adr, s\<lparr>os_errno := e\<rparr>)
     | Data [a, b, c, d, p, q] \<Rightarrow> Some (0, \<lparr>sin_addr = [a, b, c, d], sin_port = load_port p q\<rparr>, s)
     | _ \<Rightarrow> None }"

definition dotted :: "u8 list \<Rightarrow> string" where
  "dotted bs = concat (map (\<lambda>b. nat_digits (unat b)) (take 1 bs)) @
     concat (map (\<lambda>b. CHR ''.'' # nat_digits (unat b)) (drop 1 bs))"

text \<open>
  The results are the code and the new values behind the three pointers. \<open>dest_ip == NULL\<close> in the
  source tests the caller's pointer and not the copy, so a failed \<open>strdup\<close> goes unnoticed.
\<close>

definition get_orig_dest_addr ::
  "int \<Rightarrow> sockaddr_in \<Rightarrow> string option \<Rightarrow> int \<Rightarrow> 'a os_scheme \<Rightarrow> (int \<times> sockaddr_in \<times> string option \<times> int \<times> 'a os_scheme) option" where
  "get_orig_dest_addr sock adr dest_ip dest_port s = do {
     (ret, adr, s) \<leftarrow> sys_getsockname adr s;
     if ret < 0 then Some (- 1, adr, dest_ip, dest_port, s)
     else do {
       (p, s) \<leftarrow> sys_malloc s;
       let dest_ip = map_option (\<lambda>_. dotted (sin_addr adr)) p;
       Some (ret, adr, dest_ip, uint (htons (sin_port adr)), s) } }"

subsection \<open>The codes are the only difference\<close>

text \<open>Every negative code read as -1.\<close>

definition collapse :: "(int \<times> 'b) option \<Rightarrow> (int \<times> 'b) option" where
  "collapse = map_option (\<lambda>(r, x). (if r < 0 then - 1 else r, x))"

lemma collapse_simps [simp]:
  "collapse None = None"
  "collapse (Some (r, x)) = Some (if r < 0 then - 1 else r, x)"
  "collapse (Option.bind m f) = Option.bind m (\<lambda>x. collapse (f x))"
  "collapse (if c then a else b) = (if c then collapse a else collapse b)"
  by (cases m; simp add: collapse_def)+

text \<open>
  The socket functions of the rewritten proxy agree with those of the first version:
  they take the same answers of the kernel to the same state and the same socket, and fail in the same
  cases (the arguments of \<open>bind\<close>, \<open>listen\<close> and \<open>connect\<close> are not recorded); they only tell the failures apart. The code -2 for a socket that cannot be created is never
  returned by \<open>tcp_bind_and_listen\<close>, whose test looks at the pointer.
\<close>

theorem him_net_equivalent:
  "collapse (him_set_socket_non_blocking sock s) = proxy_set_socket_non_blocking sock s \<and>
   collapse (him_tcp_bind_and_listen ip port p s) = proxy_tcp_bind_and_listen ip port p s \<and>
   collapse (him_tcp_connect_to_server ip port p s) = proxy_tcp_connect_to_server ip port p s \<and>
   collapse (him_tcp_transparent_connect_to_server ip port (Some v) cip cport s) =
     proxy_tcp_transparent_connect_to_server ip port (Some v) cip cport s \<and>
   (\<forall>q t. him_tcp_bind_and_listen ip port p s \<noteq> Some (- 2, q, t))"
proof (intro conjI allI)
  show "collapse (him_set_socket_non_blocking sock s) = proxy_set_socket_non_blocking sock s"
    by (cases sock) (auto simp: him_set_socket_non_blocking_def proxy_set_socket_non_blocking_def Let_def split: prod.splits intro!: Option.bind_cong)
  show "collapse (him_tcp_bind_and_listen ip port p s) = proxy_tcp_bind_and_listen ip port p s"
    unfolding him_tcp_bind_and_listen_def proxy_tcp_bind_and_listen_def Let_def
    by (auto split: prod.splits intro!: Option.bind_cong)
  show "collapse (him_tcp_connect_to_server ip port p s) = proxy_tcp_connect_to_server ip port p s"
    unfolding him_tcp_connect_to_server_def proxy_tcp_connect_to_server_def Let_def
    by (auto split: prod.splits intro!: Option.bind_cong)
  show "collapse (him_tcp_transparent_connect_to_server ip port (Some v) cip cport s) =
     proxy_tcp_transparent_connect_to_server ip port (Some v) cip cport s"
    unfolding him_tcp_transparent_connect_to_server_def proxy_tcp_transparent_connect_to_server_def Let_def
    by (auto split: prod.splits intro!: Option.bind_cong)
  fix q t
  show "him_tcp_bind_and_listen ip port p s \<noteq> Some (- 2, q, t)"
    by (auto simp: him_tcp_bind_and_listen_def Let_def elim!: bind_SomeE split: if_splits)
qed

subsection \<open>Byte order\<close>

lemma unat_word16: "n < 65536 \<Longrightarrow> unat (word_of_nat n :: 16 word) = n"
  by (simp add: unat_of_nat)

lemma unat_htons: "unat (htons x) = unat x mod 256 * 256 + unat x div 256"
proof -
  have "unat x < 65536" using unsigned_less [where w = x and ?'a = nat] by simp
  then have "unat x div 256 < 256" by (simp add: div_less_iff_less_mult)
  moreover have "unat x mod 256 < 256" by simp
  ultimately have "unat x mod 256 * 256 + unat x div 256 < 65536" by linarith
  then show ?thesis unfolding htons_def by (rule unat_word16)
qed

lemma htons_load_port: "uint (htons (load_port hi lo)) = 256 * uint hi + uint lo"
proof -
  have b: "unat hi < 256" "unat lo < 256"
    using unsigned_less [where w = hi and ?'a = nat] unsigned_less [where w = lo and ?'a = nat] by simp_all
  then have n: "unat (load_port hi lo) = unat hi + 256 * unat lo"
    unfolding load_port_def by (intro unat_word16) simp
  have "unat (htons (load_port hi lo)) = 256 * unat hi + unat lo"
    using b by (simp add: unat_htons n)
  then show ?thesis by (metis of_nat_add of_nat_mult of_nat_numeral uint_nat)
qed

lemma htons_involutive: "htons (htons x) = x"
proof (rule word_unat_eq_iff [THEN iffD2])
  have "unat x < 65536" using unsigned_less [where w = x and ?'a = nat] by simp
  then have d: "unat x div 256 < 256" by (simp add: div_less_iff_less_mult)
  have "(unat x mod 256 * 256 + unat x div 256) mod 256 = unat x div 256"
    "(unat x mod 256 * 256 + unat x div 256) div 256 = unat x mod 256"
    using d by simp_all
  then show "unat (htons (htons x)) = unat x" unfolding unat_htons by (simp add: div_mult_mod_eq)
qed

text \<open>The address and the port of the connection's local end, with the port in host order.\<close>

lemma get_orig_dest_addr_reads:
  assumes "replies s = Data [a, b, c, d, hi, lo] # Ok p # rest"
  shows "\<exists>s'. get_orig_dest_addr sock adr ip port s =
    Some (0, \<lparr>sin_addr = [a, b, c, d], sin_port = load_port hi lo\<rparr>, Some (dotted [a, b, c, d]), 256 * uint hi + uint lo, s') \<and>
    replies s' = rest"
  using assms by (simp add: get_orig_dest_addr_def sys_getsockname_def sys_malloc_def sys_next_def htons_load_port)

lemma get_orig_dest_addr_misses_strdup_failure:
  assumes "replies s = Data [a, b, c, d, hi, lo] # Fail e # rest"
  shows "\<exists>adr' port' s'. get_orig_dest_addr sock adr ip port s = Some (0, adr', None, port', s')"
  using assms by (simp add: get_orig_dest_addr_def sys_getsockname_def sys_malloc_def sys_next_def)

end
