(* ===== verification/Him_Child.thy ===== *)
theory Him_Child
  imports Him_Net Proxy_Child
begin

section \<open>The parent process of the rewritten proxy\<close>

text \<open>
  Models \<open>main.c\<close>, \<open>signal_handler.c\<close>, \<open>globals.c\<close> and the parent's part of \<open>core.c\<close> (\<open>create_multiple_child\<close>,
  \<open>start_child\<close>, \<open>proxy_parent_cleanup\<close>) under \<open>src/src/networking/himproxy\<close>, followed in the parent
  process. The global variables are fields of the state. As in \<open>Proxy_Child\<close> the child branch of
  \<open>start_child\<close> ends in \<open>_exit\<close>, and an index outside the table of children is undefined behaviour.

  The lemmas show that the parent refines that of the first version, the global \<open>g_num_child\<close>
  taking the place of the configured count; so what is proved of the table, the restarting and
  the signals in \<open>Proxy_Child\<close> holds here. But the command line cannot set that count: the option for
  it is missing in the option string, so the count stays 0, and no child is ever restarted or signalled.
\<close>

record him_os = os +
  him_log_level :: int
  him_server_sock :: int
  him_num_child :: int
  him_active_child_count :: int
  him_child_table :: "int list"
  him_listen_ip :: string
  him_listen_port :: int
  him_kills :: "(int \<times> int) list"
  him_handlers :: "int \<rightharpoonup> string"
  him_raised :: "int list"

subsection \<open>Starting children\<close>

definition him_set_pid :: "int \<Rightarrow> int \<Rightarrow> 'a him_os_scheme \<Rightarrow> 'a him_os_scheme option" where
  "him_set_pid index pid s =
     (if 0 \<le> index \<and> nat index < length (him_child_table s)
      then Some (s\<lparr>him_child_table := (him_child_table s)[nat index := pid]\<rparr>) else None)"

definition him_get_pid :: "int \<Rightarrow> 'a him_os_scheme \<Rightarrow> int option" where
  "him_get_pid index s =
     (if 0 \<le> index \<and> nat index < length (him_child_table s) then Some (him_child_table s ! nat index) else None)"

definition him_start_child :: "int \<Rightarrow> 'a him_os_scheme \<Rightarrow> (int \<times> 'a him_os_scheme) option" where
  "him_start_child index s = do {
     (pid, s) \<leftarrow> sys_fork s;
     s \<leftarrow> him_set_pid index (if pid < 0 then - 1 else pid) s;
     Some (pid, s) }"

function him_create_loop :: "int \<Rightarrow> int \<Rightarrow> int \<Rightarrow> 'a him_os_scheme \<Rightarrow> (int \<times> 'a him_os_scheme) option" where
  "him_create_loop num_child i count s =
     (if i < num_child then do {
        (pid, s) \<leftarrow> him_start_child i s;
        if pid \<noteq> 0
        then him_create_loop num_child (i + 1) (count + 1) (s\<lparr>him_active_child_count := him_active_child_count s + 1\<rparr>)
        else him_create_loop num_child (i + 1) count s }
      else Some (count, s))"
  by pat_completeness auto
termination
  by (relation "measure (\<lambda>(n, i, c, s). nat (n - i))") auto

declare him_create_loop.simps [simp del]

definition him_create_multiple_child :: "int \<Rightarrow> 'a him_os_scheme \<Rightarrow> 'a him_os_scheme option" where
  "him_create_multiple_child num_child s = do {
     let num_child = (if num_child \<le> 0 then 1 else if num_child > int MAX_CHILD then int MAX_CHILD else num_child);
     (count, s) \<leftarrow> him_create_loop num_child 0 0 s;
     Some s }"

subsection \<open>Waiting for children\<close>

function him_exit_loop :: "int \<Rightarrow> int \<Rightarrow> int \<Rightarrow> 'a him_os_scheme \<Rightarrow> 'a him_os_scheme option" where
  "him_exit_loop n pid i s =
     (if i < n then do {
        p \<leftarrow> him_get_pid i s;
        s \<leftarrow> (if pid = p then map_option snd (him_start_child i s) else Some s);
        him_exit_loop n pid (i + 1) s }
      else Some s)"
  by pat_completeness auto
termination
  by (relation "measure (\<lambda>(n, p, i, s). nat (n - i))") auto

declare him_exit_loop.simps [simp del]

definition him_handle_child_exit :: "int \<Rightarrow> 'a him_os_scheme \<Rightarrow> 'a him_os_scheme option" where
  "him_handle_child_exit pid s = him_exit_loop (him_num_child s) pid 0 s"

lemma him_start_child_fuel: "him_start_child i s = Some (p, s') \<Longrightarrow> fuel s' < fuel s"
  by (auto simp: him_start_child_def him_set_pid_def elim!: bind_SomeE split: if_splits dest!: proc_fuel)

lemma him_exit_fuel: "him_exit_loop n pid i s = Some s' \<Longrightarrow> fuel s' \<le> fuel s"
proof (induction n pid i s arbitrary: s' rule: him_exit_loop.induct)
  case (1 n pid i s)
  show ?case
  proof (cases "i < n")
    case True
    then obtain p t where p: "him_get_pid i s = Some p"
      and t: "(if pid = p then map_option snd (him_start_child i s) else Some s) = Some t"
      and rest: "him_exit_loop n pid (i + 1) t = Some s'"
      using 1(2) by (subst (asm) him_exit_loop.simps) (auto elim!: bind_SomeE)
    have "fuel t \<le> fuel s" using t by (auto split: if_splits dest!: him_start_child_fuel)
    then show ?thesis using 1(1) [OF True p t rest] by linarith
  qed (use 1(2) in \<open>subst (asm) him_exit_loop.simps, simp\<close>)
qed

function him_wait_for_child :: "'a him_os_scheme \<Rightarrow> (int \<times> 'a him_os_scheme) option" where
  "him_wait_for_child s =
     (if him_active_child_count s > 0 then do {
        (pid, status, s1) \<leftarrow> sys_waitpid s;
        if pid < 0 then (if os_errno s1 = EINTR then him_wait_for_child s1 else Some (0, s1))
        else if status > 0 then do { s2 \<leftarrow> him_handle_child_exit pid s1; him_wait_for_child s2 }
        else him_wait_for_child (s1\<lparr>him_active_child_count := him_active_child_count s1 - 1\<rparr>) }
      else Some (0, s))"
  by pat_completeness auto
termination
  by (relation "measure fuel") (auto simp: him_handle_child_exit_def dest!: proc_fuel him_exit_fuel)

declare him_wait_for_child.simps [simp del]

subsection \<open>Signals\<close>

definition him_register_signal_handler :: "int \<Rightarrow> string \<Rightarrow> 'a him_os_scheme \<Rightarrow> (int \<times> 'a him_os_scheme) option" where
  "him_register_signal_handler signum handler s = do {
     (ret, s) \<leftarrow> sys_zero s;
     if ret < 0 then Some (- 1, s) else Some (ret, s\<lparr>him_handlers := (him_handlers s)(signum \<mapsto> handler)\<rparr>) }"

fun him_register_loop :: "int list \<Rightarrow> string \<Rightarrow> 'a him_os_scheme \<Rightarrow> 'a him_os_scheme option" where
  "him_register_loop [] handler s = Some s"
| "him_register_loop (n # ns) handler s = do {
     (_, s) \<leftarrow> him_register_signal_handler n handler s;
     him_register_loop ns handler s }"

definition him_signums :: "int list" where
  "him_signums = [1, 2, 3, 4, 5, 6, 8, 10, 11, 12, 13, 14, 17, 18, 20, 21, 22]"

definition him_register_all_signal_handler :: "string \<Rightarrow> 'a him_os_scheme \<Rightarrow> (int \<times> 'a him_os_scheme) option" where
  "him_register_all_signal_handler handler s = do {
     s \<leftarrow> him_register_loop him_signums handler s;
     Some (0, s) }"

definition him_sys_kill :: "int \<Rightarrow> int \<Rightarrow> 'a him_os_scheme \<Rightarrow> (int \<times> 'a him_os_scheme) option" where
  "him_sys_kill pid signum s = sys_zero (s\<lparr>him_kills := him_kills s @ [(pid, signum)]\<rparr>)"

function him_kill_loop :: "int \<Rightarrow> int \<Rightarrow> int \<Rightarrow> int \<Rightarrow> 'a him_os_scheme \<Rightarrow> (int \<times> 'a him_os_scheme) option" where
  "him_kill_loop n signum i ret s =
     (if i < n then do {
        p \<leftarrow> him_get_pid i s;
        (ret, s) \<leftarrow> him_sys_kill p signum s;
        him_kill_loop n signum (i + 1) (if ret < 0 then - 1 else ret) s }
      else Some (ret, s))"
  by pat_completeness auto
termination
  by (relation "measure (\<lambda>(n, g, i, r, s). nat (n - i))") auto

declare him_kill_loop.simps [simp del]

definition him_kill_all_children :: "int \<Rightarrow> 'a him_os_scheme \<Rightarrow> (int \<times> 'a him_os_scheme) option" where
  "him_kill_all_children signum s = him_kill_loop (him_num_child s) signum 0 0 s"

definition him_proxy_parent_cleanup :: "'a him_os_scheme \<Rightarrow> 'a him_os_scheme" where
  "him_proxy_parent_cleanup s = sys_close (him_server_sock s) s"

definition him_proxy_child_cleanup :: "'a him_os_scheme \<Rightarrow> 'a him_os_scheme" where
  "him_proxy_child_cleanup s = sys_close (him_server_sock s) s"

text \<open>\<open>signal (signum, SIG_DFL)\<close> followed by \<open>raise (signum)\<close>.\<close>

definition him_reraise :: "int \<Rightarrow> 'a him_os_scheme \<Rightarrow> 'a him_os_scheme" where
  "him_reraise signum s = s\<lparr>him_handlers := (him_handlers s)(signum := None), him_raised := him_raised s @ [signum]\<rparr>"

definition him_parent_signal_handler :: "int \<Rightarrow> 'a him_os_scheme \<Rightarrow> 'a him_os_scheme option" where
  "him_parent_signal_handler signum s = do {
     s \<leftarrow> (if signum = SIGCHLD then Some s
          else do { (_, s) \<leftarrow> him_kill_all_children signum s; Some (him_proxy_parent_cleanup s) });
     Some (him_reraise signum s) }"

definition him_child_signal_handler :: "int \<Rightarrow> 'a him_os_scheme \<Rightarrow> 'a him_os_scheme" where
  "him_child_signal_handler signum s = him_reraise signum (him_proxy_child_cleanup s)"

subsection \<open>The main program\<close>

text \<open>The loop over the options; the texts it prints are left out.\<close>

fun him_parse_loop :: "optres list \<Rightarrow> int \<Rightarrow> 'a him_os_scheme \<Rightarrow> (int \<times> 'a him_os_scheme) option" where
  "him_parse_loop [] ret s = Some (ret, s)"
| "him_parse_loop (Opt c optarg # os) ret s =
     (if c = CHR ''h'' then him_parse_loop os ret s
      else if c = CHR ''i'' then him_parse_loop os ret (s\<lparr>him_listen_ip := strncpy 16 optarg\<rparr>)
      else if c = CHR ''l'' then do { n \<leftarrow> atoi optarg; him_parse_loop os ret (s\<lparr>him_log_level := n\<rparr>) }
      else if c = CHR ''n'' then do { n \<leftarrow> atoi optarg; him_parse_loop os ret (s\<lparr>him_num_child := n\<rparr>) }
      else if c = CHR ''p'' then do { n \<leftarrow> atoi optarg; him_parse_loop os ret (s\<lparr>him_listen_port := n\<rparr>) }
      else him_parse_loop os ret s)"
| "him_parse_loop (Unknown c # os) ret s = him_parse_loop os (- 1) s"
| "him_parse_loop (Missing c # os) ret s = him_parse_loop os (- 1) s"

definition him_options :: string where
  "him_options = '':hi:l:p:v''"

definition him_parse_command_line :: "string list \<Rightarrow> 'a him_os_scheme \<Rightarrow> (int \<times> 'a him_os_scheme) option" where
  "him_parse_command_line argv s = him_parse_loop (getopt him_options argv) 0 s"

text \<open>The exit status; \<open>argv\<close> is without the name of the program.\<close>

definition him_main :: "string list \<Rightarrow> 'a him_os_scheme \<Rightarrow> (int \<times> 'a him_os_scheme) option" where
  "him_main argv s = do {
     (ret, s) \<leftarrow> him_parse_command_line argv s;
     if ret < 0 then Some (1, s)
     else do {
       (_, s) \<leftarrow> him_register_all_signal_handler ''parent_signal_handler'' s;
       ip \<leftarrow> cstring (him_listen_ip s);
       (ret, sock, s) \<leftarrow> him_tcp_bind_and_listen (Some ip) (him_listen_port s) (Some (him_server_sock s)) s;
       fd \<leftarrow> sock;
       let s = s\<lparr>him_server_sock := fd\<rparr>;
       if ret < 0 then Some (1, s)
       else do {
         (ret, s) \<leftarrow> him_set_socket_non_blocking (Some (him_server_sock s)) s;
         if ret < 0 then Some (1, s)
         else do {
           (ret, s) \<leftarrow> set_socket_ip_transparent (Some (him_server_sock s)) s;
           if ret < 0 then Some (1, s)
           else do {
             s \<leftarrow> him_create_multiple_child (him_num_child s) s;
             (_, s) \<leftarrow> him_wait_for_child s;
             Some (0, s) } } } } }"

subsection \<open>Refinement of the first version\<close>

text \<open>The state of the rewrite seen as the state of the first version.\<close>

definition to_child :: "'a him_os_scheme \<Rightarrow> child_os" where
  "to_child s = \<lparr>replies = replies s, os_errno = os_errno s, fds = fds s, fdflags = fdflags s, sent = sent s,
     rcvd = rcvd s, closed = closed s, g_child_table = him_child_table s,
     g_active_child_count = him_active_child_count s, g_proxy_config = no_config\<lparr>child_count := him_num_child s\<rparr>,
     g_server_sock = him_server_sock s, kills = him_kills s, handlers = him_handlers s, raised = him_raised s\<rparr>"

lemma to_child_sel [simp]:
  "replies (to_child s) = replies s" "os_errno (to_child s) = os_errno s" "fds (to_child s) = fds s"
  "closed (to_child s) = closed s" "g_child_table (to_child s) = him_child_table s"
  "g_active_child_count (to_child s) = him_active_child_count s"
  "child_count (g_proxy_config (to_child s)) = him_num_child s"
  "g_server_sock (to_child s) = him_server_sock s" "kills (to_child s) = him_kills s"
  "handlers (to_child s) = him_handlers s" "raised (to_child s) = him_raised s"
  by (simp_all add: to_child_def)

lemma to_child_upd [simp]:
  "to_child (s\<lparr>replies := rs\<rparr>) = (to_child s)\<lparr>replies := rs\<rparr>"
  "to_child (s\<lparr>os_errno := e\<rparr>) = (to_child s)\<lparr>os_errno := e\<rparr>"
  "to_child (s\<lparr>him_child_table := t\<rparr>) = (to_child s)\<lparr>g_child_table := t\<rparr>"
  "to_child (s\<lparr>him_active_child_count := n\<rparr>) = (to_child s)\<lparr>g_active_child_count := n\<rparr>"
  "to_child (s\<lparr>him_kills := k\<rparr>) = (to_child s)\<lparr>kills := k\<rparr>"
  "to_child (s\<lparr>him_handlers := h\<rparr>) = (to_child s)\<lparr>handlers := h\<rparr>"
  "to_child (s\<lparr>him_raised := r\<rparr>) = (to_child s)\<lparr>raised := r\<rparr>"
  "to_child (sys_close fd s) = sys_close fd (to_child s)"
  by (simp_all add: to_child_def sys_close_def)

lemma close_sel [simp]:
  "him_handlers (sys_close fd s) = him_handlers s" "him_raised (sys_close fd s) = him_raised s"
  "handlers (sys_close fd t) = handlers t" "raised (sys_close fd t) = raised t"
  by (simp_all add: sys_close_def)

text \<open>\<open>sim m n\<close>: the results agree when the state of the first is seen as a state of the second.\<close>

fun view :: "'b \<times> 'a him_os_scheme \<Rightarrow> 'b \<times> child_os" where
  "view (x, s) = (x, to_child s)"

abbreviation sim :: "('b \<times> 'a him_os_scheme) option \<Rightarrow> ('b \<times> child_os) option \<Rightarrow> bool" where
  "sim m n \<equiv> map_option view m = n"

lemma sys_next_sim: "sim (sys_next s) (sys_next (to_child s))"
  by (simp add: sys_next_def split: list.splits)

lemma bind_sim:
  assumes "sim m n" "\<And>x t. m = Some (x, t) \<Longrightarrow> map_option g (f (x, t)) = h (x, to_child t)"
  shows "map_option g (Option.bind m f) = Option.bind n h"
  using assms by (cases m) auto

lemma sys_sim:
  "sim (sys_zero s) (sys_zero (to_child s))"
  "sim (sys_fork s) (sys_fork (to_child s))"
  "map_option (\<lambda>(p, st, s). (p, st, to_child s)) (sys_waitpid s) = sys_waitpid (to_child s)"
  unfolding sys_zero_def sys_fork_def sys_waitpid_def
  by (auto intro!: bind_sim sys_next_sim split: reply.splits)

lemma start_child_sim: "sim (him_start_child i s) (start_child i (to_child s))"
  unfolding him_start_child_def start_child_def
  by (intro bind_sim sys_sim) (auto simp: him_set_pid_def set_pid_def)

lemma create_loop_sim: "sim (him_create_loop n i c s) (create_loop n i c (to_child s))"
proof (induction n i c s rule: him_create_loop.induct)
  case (1 n i c s)
  show ?case
  proof (cases "i < n")
    case True
    show ?thesis
      by (subst him_create_loop.simps, subst create_loop.simps, simp only: True if_True)
        (rule bind_sim [OF start_child_sim], use 1 True in auto)
  qed (simp add: him_create_loop.simps create_loop.simps)
qed

lemma create_multiple_child_sim:
  "map_option to_child (him_create_multiple_child n s) = create_multiple_child n (to_child s)"
  unfolding him_create_multiple_child_def create_multiple_child_def Let_def
  by (rule bind_sim [OF create_loop_sim]) simp

lemma get_pid_sim: "him_get_pid i s = get_pid i (to_child s)"
  by (simp add: him_get_pid_def get_pid_def)

lemma exit_loop_sim: "map_option to_child (him_exit_loop n pid i s) = child_exit_loop n pid i (to_child s)"
proof (induction n pid i s rule: him_exit_loop.induct)
  case (1 n pid i s)
  show ?case
  proof (cases "i < n")
    case True
    show ?thesis
    proof (cases "him_get_pid i s")
      case None
      then show ?thesis using get_pid_sim [of i s] True
        by (subst him_exit_loop.simps, subst child_exit_loop.simps) simp
    next
      case (Some p)
      have st: "start_child i (to_child s) = map_option view (him_start_child i s)"
        by (rule start_child_sim [symmetric])
      show ?thesis using 1 [OF True Some] get_pid_sim [of i s, symmetric] Some True
        by (subst him_exit_loop.simps, subst child_exit_loop.simps)
          (cases "him_start_child i s"; auto simp: st split: if_splits)
    qed
  qed (simp add: him_exit_loop.simps child_exit_loop.simps)
qed

lemma handle_child_exit_sim: "map_option to_child (him_handle_child_exit pid s) = handle_child_exit pid (to_child s)"
  by (simp add: him_handle_child_exit_def handle_child_exit_def exit_loop_sim)

lemma wait_for_child_sim: "sim (him_wait_for_child s) (wait_for_child (to_child s))"
proof (induction s rule: him_wait_for_child.induct)
  case (1 s)
  show ?case
  proof (cases "him_active_child_count s > 0")
    case act: True
    have w: "sys_waitpid (to_child s) = map_option (\<lambda>(p, st, s). (p, st, to_child s)) (sys_waitpid s)"
      by (rule sys_sim(3) [symmetric])
    show ?thesis
    proof (cases "sys_waitpid s")
      case None
      then show ?thesis using act w by (subst him_wait_for_child.simps, subst wait_for_child.simps) simp
    next
      case (Some a)
      obtain pid st t where a: "a = (pid, st, t)" by (metis prod_cases3)
      have h: "handle_child_exit pid (to_child t) = map_option to_child (him_handle_child_exit pid t)"
        by (rule handle_child_exit_sim [symmetric])
      have w': "sys_waitpid (to_child s) = Some (pid, st, to_child t)" using w Some a by simp
      consider "pid < 0" | "\<not> pid < 0" "st > 0" | "\<not> pid < 0" "\<not> st > 0" by blast
      then show ?thesis
      proof cases
        case 1
        then show ?thesis using act w' Some a "1.IH"(1) [OF act Some, of pid "(st, t)" st t]
          by (subst him_wait_for_child.simps, subst wait_for_child.simps) simp
      next
        case 2
        then show ?thesis using act w' Some a "1.IH"(2) [OF act Some, of pid "(st, t)" st t]
          by (subst him_wait_for_child.simps, subst wait_for_child.simps)
            (cases "him_handle_child_exit pid t"; simp add: h)
      next
        case 3
        then show ?thesis using act w' Some a "1.IH"(3) [OF act Some, of pid "(st, t)" st t]
          by (subst him_wait_for_child.simps, subst wait_for_child.simps) simp
      qed
    qed
  qed (simp add: him_wait_for_child.simps wait_for_child.simps)
qed

lemma kill_loop_sim: "sim (him_kill_loop n g i r s) (kill_loop n g i r (to_child s))"
proof (induction n g i r s rule: him_kill_loop.induct)
  case (1 n g i r s)
  show ?case
  proof (cases "i < n")
    case True
    show ?thesis
    proof (cases "him_get_pid i s")
      case None
      then show ?thesis using get_pid_sim [of i s] True
        by (subst him_kill_loop.simps, subst kill_loop.simps) simp
    next
      case (Some p)
      have k: "sim (him_sys_kill p g s) (sys_kill p g (to_child s))"
        using sys_sim(1) [of "s\<lparr>him_kills := him_kills s @ [(p, g)]\<rparr>"] by (simp add: him_sys_kill_def sys_kill_def)
      have "sim (Option.bind (him_sys_kill p g s) (\<lambda>(ret, s). him_kill_loop n g (i + 1) (if ret < 0 then - 1 else ret) s))
          (Option.bind (sys_kill p g (to_child s)) (\<lambda>(ret, s). kill_loop n g (i + 1) (if ret < 0 then - 1 else ret) s))"
        by (rule bind_sim [OF k]) (use 1 [OF True Some] in auto)
      then show ?thesis using get_pid_sim [of i s, symmetric] Some True
        by (subst him_kill_loop.simps, subst kill_loop.simps) simp
    qed
  qed (simp add: him_kill_loop.simps kill_loop.simps)
qed

lemma kill_all_children_sim: "sim (him_kill_all_children g s) (kill_all_children g (to_child s))"
  by (simp add: him_kill_all_children_def kill_all_children_def kill_loop_sim)

lemma parent_signal_handler_sim:
  "map_option to_child (him_parent_signal_handler g s) = parent_signal_handler g (to_child s)"
proof (cases "g = SIGCHLD")
  case False
  have k: "kill_all_children g (to_child s) = map_option view (him_kill_all_children g s)"
    by (rule kill_all_children_sim [symmetric])
  show ?thesis using False
    by (cases "him_kill_all_children g s")
      (auto simp: k him_parent_signal_handler_def parent_signal_handler_def him_reraise_def
        him_proxy_parent_cleanup_def proxy_parent_cleanup_def)
qed (simp add: him_parent_signal_handler_def parent_signal_handler_def him_reraise_def)


text \<open>
  C35: the parent process of the rewrite refines that of the first version, with \<open>g_num_child\<close> in the
  place of the configured number of children: starting the children, handling the exit of a
  child, waiting for children and the signal handler have the same results and undefined
  behaviour, and their effects agree on the table of children, the counts, the signals and the
  system calls.
\<close>

theorem him_parent_refines:
  "map_option to_child (him_create_multiple_child n s) = create_multiple_child n (to_child s) \<and>
   map_option to_child (him_handle_child_exit pid s) = handle_child_exit pid (to_child s) \<and>
   map_option view (him_wait_for_child s) = wait_for_child (to_child s) \<and>
   map_option to_child (him_parent_signal_handler signum s) = parent_signal_handler signum (to_child s)"
  by (intro conjI create_multiple_child_sim handle_child_exit_sim wait_for_child_sim parent_signal_handler_sim)

subsection \<open>Children are not restarted\<close>

lemma parse_loop_frame:
  "him_parse_loop os ret s = Some (r, s') \<Longrightarrow> \<forall>w. Opt (CHR ''n'') w \<notin> set os \<Longrightarrow>
   him_num_child s' = him_num_child s \<and> replies s' = replies s \<and> him_child_table s' = him_child_table s \<and>
   him_active_child_count s' = him_active_child_count s"
proof (induction os ret s rule: him_parse_loop.induct)
  case (2 c optarg os ret s)
  have "c \<noteq> CHR ''n''" using 2(8) by auto
  moreover have "\<forall>w. Opt (CHR ''n'') w \<notin> set os" using 2(8) by simp
  ultimately show ?case using 2(1-7) by (auto elim!: bind_SomeE split: if_splits)
qed auto

lemma him_options_n: "opt_lookup him_options (CHR ''n'') = None"
  by (simp add: him_options_def)

lemma parse_command_line_frame:
  assumes "him_parse_command_line argv s = Some (ret, s')"
  shows "him_num_child s' = him_num_child s" "replies s' = replies s" "him_child_table s' = him_child_table s"
    "him_active_child_count s' = him_active_child_count s"
proof -
  have "\<forall>w. Opt (CHR ''n'') w \<notin> set (getopt him_options argv)"
    using getopt_known him_options_n by blast
  then show "him_num_child s' = him_num_child s" "replies s' = replies s" "him_child_table s' = him_child_table s"
    "him_active_child_count s' = him_active_child_count s"
    using parse_loop_frame [of "getopt him_options argv" 0 s ret s'] assms
    by (simp_all add: him_parse_command_line_def)
qed

text \<open>The documented option is refused.\<close>

lemma option_n_refused: "him_parse_command_line [''-n'', w] s = Some (ret, s') \<Longrightarrow> ret = - 1"
proof -
  have "getopt him_options [''-n'', w] = Unknown (CHR ''n'') # getopt him_options [w]"
    by (rule getopt_simps(5)) (simp_all add: him_options_n)
  moreover have "him_parse_loop os (- 1) t = Some (r, t') \<Longrightarrow> r = - 1" for os t r t'
    by (induction os "- 1 :: int" t rule: him_parse_loop.induct) (auto elim!: bind_SomeE split: if_splits)
  ultimately show "him_parse_command_line [''-n'', w] s = Some (ret, s') \<Longrightarrow> ret = - 1"
    by (simp add: him_parse_command_line_def)
qed

lemma no_children_known:
  assumes "him_num_child s = 0"
  shows "him_handle_child_exit pid s = Some s" "him_kill_all_children signum s = Some (0, s)"
  using assms by (simp_all add: him_handle_child_exit_def him_kill_all_children_def him_exit_loop.simps him_kill_loop.simps)

text \<open>
  Whatever the command line, one child is started, but the program knows of none: when the child
  crashes (a positive status), the exit is handled without a new \<open>fork\<close>, and the program ends as soon as
  \<open>waitpid\<close> reports that there is no child left, still counting it as active. A signal is not passed on to
  the child.
\<close>

theorem him_crashed_child_not_restarted:
  assumes "him_parse_command_line argv s0 = Some (ret, s)" and "him_num_child s0 = 0" and "him_active_child_count s0 = 0"
    and "length (him_child_table s0) = MAX_CHILD" and "0 < pid" and "0 < status"
    and "replies s0 = Ok pid # Ok pid # Ok status # Fail ECHILD # rest"
  shows "\<exists>s1 s2. him_create_multiple_child (him_num_child s) s = Some s1 \<and> him_child_table s1 = (him_child_table s0)[0 := int pid] \<and>
    him_wait_for_child s1 = Some (0, s2) \<and> replies s2 = rest \<and> him_child_table s2 = him_child_table s1 \<and>
    him_active_child_count s2 = 1 \<and> him_kill_all_children signum s1 = Some (0, s1)"
proof -
  note s = parse_command_line_frame [OF assms(1)]
  let ?t = "s\<lparr>replies := Ok pid # Ok status # Fail ECHILD # rest, him_child_table := (him_child_table s)[0 := int pid],
    him_active_child_count := 1\<rparr>"
  have ne: "him_child_table s0 \<noteq> []" using assms(4) by (auto simp: MAX_CHILD_def)
  then have "him_create_multiple_child (him_num_child s) s = Some ?t"
    using s assms(2-5,7)
    by (simp add: him_create_multiple_child_def him_create_loop.simps him_start_child_def sys_fork_def sys_next_def
      him_set_pid_def MAX_CHILD_def)
  moreover have "him_wait_for_child ?t = Some (0, ?t\<lparr>replies := rest, os_errno := ECHILD\<rparr>)"
    using s assms(2,6)
    by (simp add: him_wait_for_child.simps sys_waitpid_def sys_next_def no_children_known)
  ultimately show ?thesis using s assms(2) no_children_known(2) [of ?t signum] by auto
qed

definition him_state :: "reply list \<Rightarrow> him_os" where
  "him_state rs = \<lparr>replies = rs, os_errno = EOTHER 0, fds = {}, fdflags = (\<lambda>_. 2), sent = (\<lambda>_. []), rcvd = (\<lambda>_. []),
     closed = [], him_log_level = 3, him_server_sock = 0, him_num_child = 0, him_active_child_count = 0,
     him_child_table = replicate MAX_CHILD 0, him_listen_ip = strncpy 16 ''0.0.0.0'', him_listen_port = 5401,
     him_kills = [], him_handlers = Map.empty, him_raised = []\<rparr>"

theorem him_crashed_child_not_restarted_witness:
  "\<exists>s s1 s2. him_parse_command_line [''-p'', ''80''] (him_state [Ok 100, Ok 100, Ok 11, Fail ECHILD]) = Some (0, s) \<and>
    him_create_multiple_child (him_num_child s) s = Some s1 \<and> him_wait_for_child s1 = Some (0, s2) \<and>
    him_active_child_count s2 = 1"
proof -
  let ?s = "him_state [Ok 100, Ok 100, Ok 11, Fail ECHILD]"
  have p: "him_parse_command_line [''-p'', ''80''] ?s = Some (0, ?s\<lparr>him_listen_port := 80\<rparr>)"
    by (simp add: him_parse_command_line_def him_options_def atoi_def c_isspace_def c_isdigit_def digits_value_def
      digit_value_def INT_RANGE_def Let_def)
  show ?thesis
    using him_crashed_child_not_restarted [OF p, of 100 11 "[]" 2] p
    by (auto simp: him_state_def MAX_CHILD_def)
qed

subsection \<open>The listening address\<close>

text \<open>
  An address of 16 or more characters fills the array without a terminating zero, so the main
  program reads outside it.
\<close>

lemma register_loop_listen_ip: "him_register_loop ns h s = Some s' \<Longrightarrow> him_listen_ip s' = him_listen_ip s"
proof (induction ns h s rule: him_register_loop.induct)
  case (2 n ns h s)
  then obtain r t where t: "him_register_signal_handler n h s = Some (r, t)" "him_register_loop ns h t = Some s'"
    by (auto elim!: bind_SomeE)
  have "him_listen_ip t = him_listen_ip s"
    using t(1) by (auto simp: him_register_signal_handler_def elim!: bind_SomeE sys_zeroE)
  then show ?case using 2(1) [OF t(1) refl t(2)] by simp
qed simp

lemma him_long_ip_overruns:
  assumes "NUL \<notin> set ip" "16 \<le> length ip"
  shows "him_main [''-i'', ip] s = None"
proof -
  have "him_parse_command_line [''-i'', ip] s = Some (0, s\<lparr>him_listen_ip := strncpy 16 ip\<rparr>)"
    by (simp add: him_parse_command_line_def him_options_def)
  moreover have "cstring (him_listen_ip t) = None"
    if "him_register_loop ns h (s\<lparr>him_listen_ip := strncpy 16 ip\<rparr>) = Some t" for ns h t
    using register_loop_listen_ip [OF that] assms by (simp add: cstring_strncpy)
  ultimately show ?thesis
    by (cases "him_register_loop him_signums ''parent_signal_handler'' (s\<lparr>him_listen_ip := strncpy 16 ip\<rparr>)")
      (simp_all add: him_main_def him_register_all_signal_handler_def)
qed

end
