(* ===== verification/Him_Core.thy ===== *)
theory Him_Core
  imports Him_Child
begin

unbundle bit_operations_syntax

section \<open>The child process of the rewritten proxy\<close>

text \<open>
  Models \<open>poller.c\<close> and the child's part of \<open>core.c\<close> under \<open>src/src/networking/himproxy\<close>. The rewrite is
  unfinished: \<open>handle_client_data\<close> is declared and called but not defined, so it is a parameter;
  \<open>fill_proxy_conn_info\<close> and \<open>add_conn_to_poller\<close> use fields and variables that do not exist and are not modelled.
  The event loop never ends; \<open>him_turns\<close> is a number of its turns. The heap holds the pollers, the arrays of
  events, the contexts registered with \<open>epoll\<close>, and the connections. A receive buffer belongs to its
  connection and is a list of bytes, \<open>None\<close> while not initialised.

  The lemmas show what the poller functions keep and lose, that the event loop accepts clients but never
  reads from, registers or closes any of them, and that a reception stores exactly the bytes that came.
\<close>

definition ALLOC_SIZE :: int where
  "ALLOC_SIZE = 8192"

definition REALLOC_THRESHOLD :: int where
  "REALLOC_THRESHOLD = 128"

definition HIM_EPOLL_MAX_EVENTS :: nat where
  "HIM_EPOLL_MAX_EVENTS = 10000"

datatype poll_side = PROXY_SIDE | CLIENT_SIDE | SERVER_SIDE

record client_info =
  client_sock :: int
  cbuf :: "u8 option list option"
  cbuf_size :: int
  cbuf_len :: int

record him_proxy_info =
  cinfo :: cptr
  sinfo :: cptr

record him_poller_info =
  him_epoll_fd :: int
  him_events :: cptr
  event_size :: int

record him_registration =
  him_reg_epoll :: int
  him_reg_fd :: int
  him_reg_events :: u32
  him_reg_data :: addr

record him_child_os = him_os +
  pollers :: "addr \<rightharpoonup> him_poller_info"
  event_arrays :: "addr set"
  contexts :: "addr \<rightharpoonup> poll_side"
  registered :: "him_registration list"
  pinfos :: "addr \<rightharpoonup> him_proxy_info"
  cinfos :: "addr \<rightharpoonup> client_info"
  poll_info :: cptr

subsection \<open>The poller\<close>

definition EPOLLIN :: u32 where "EPOLLIN = 1"
definition EPOLLPRI :: u32 where "EPOLLPRI = 2"
definition EPOLLOUT :: u32 where "EPOLLOUT = 4"
definition EPOLLET :: u32 where "EPOLLET = 2147483648"

text \<open>An allocation: the kernel's answer must be an address not in use.\<close>

definition him_alloc :: "addr set \<Rightarrow> 'a os_scheme \<Rightarrow> (cptr \<times> 'a os_scheme) option" where
  "him_alloc used s = do {
     (p, s) \<leftarrow> sys_malloc s;
     if \<exists>a\<in>set_option p. a \<in> used then None else Some (p, s) }"

text \<open>The argument is the pointer variable to be set, \<open>None\<close> for a null pointer to it; so is the second result.\<close>

definition him_init_poller :: "cptr option \<Rightarrow> 'a him_child_os_scheme \<Rightarrow> (int \<times> cptr option \<times> 'a him_child_os_scheme) option" where
  "him_init_poller poller_info s =
     (case poller_info of None \<Rightarrow> Some (- 1, None, s)
      | Some _ \<Rightarrow> do {
          (p, s) \<leftarrow> him_alloc (dom (pollers s)) s;
          case p of None \<Rightarrow> Some (- 1, Some None, s)
          | Some a \<Rightarrow> do {
              (fd, s) \<leftarrow> sys_newfd s;
              let i = \<lparr>him_epoll_fd = fd, him_events = None, event_size = 0\<rparr>;
              let s = s\<lparr>pollers := (pollers s)(a \<mapsto> i)\<rparr>;
              if fd < 0 then Some (- 2, Some (Some a), s)
              else do {
                (ev, s) \<leftarrow> him_alloc (event_arrays s) s;
                let i = i\<lparr>him_events := ev, event_size := int HIM_EPOLL_MAX_EVENTS\<rparr>;
                let s = s\<lparr>pollers := (pollers s)(a \<mapsto> i)\<rparr>;
                case ev of None \<Rightarrow> Some (- 3, Some (Some a), sys_close fd s)
                | Some e \<Rightarrow> Some (0, Some (Some a), s\<lparr>event_arrays := insert e (event_arrays s)\<rparr>) } } })"

definition him_destroy_poller :: "cptr \<Rightarrow> 'a him_child_os_scheme \<Rightarrow> (int \<times> 'a him_child_os_scheme) option" where
  "him_destroy_poller poller_info s =
     (case poller_info of None \<Rightarrow> Some (- 1, s)
      | Some a \<Rightarrow> do {
          i \<leftarrow> pollers s a;
          let s = sys_close (him_epoll_fd i) s;
          s \<leftarrow> (case him_events i of None \<Rightarrow> Some s
               | Some e \<Rightarrow> if e \<in> event_arrays s then Some (s\<lparr>event_arrays := event_arrays s - {e}\<rparr>) else None);
          Some (0, s\<lparr>pollers := (pollers s)(a \<mapsto> i\<lparr>him_events := None\<rparr>)\<rparr>) })"

definition him_event_mask :: "int \<Rightarrow> u32 option" where
  "him_event_mask event_flag =
     (if event_flag = 0 then Some (EPOLLIN OR EPOLLPRI OR EPOLLET)
      else if event_flag = 1 then Some (EPOLLOUT OR EPOLLET)
      else if event_flag = 2 then Some (EPOLLIN OR EPOLLPRI OR EPOLLOUT OR EPOLLET)
      else None)"

definition him_add_to_poller :: "int \<Rightarrow> int \<Rightarrow> int \<Rightarrow> addr \<Rightarrow> 'a him_child_os_scheme \<Rightarrow> (int \<times> 'a him_child_os_scheme) option" where
  "him_add_to_poller epoll_fd fd event_flag data s =
     (case him_event_mask event_flag of None \<Rightarrow> Some (- 1, s)
      | Some ev_mask \<Rightarrow> do {
          (ret, s) \<leftarrow> sys_fdcall fd s;
          if ret < 0 then Some (- 2, s)
          else Some (ret, s\<lparr>registered := registered s @
            [\<lparr>him_reg_epoll = epoll_fd, him_reg_fd = fd, him_reg_events = ev_mask, him_reg_data = data\<rparr>]\<rparr>) })"

text \<open>\<open>epoll_wait\<close>: the answer has the events of every registered open descriptor; the others are not reported.\<close>

definition him_epoll_wait :: "int \<Rightarrow> nat \<Rightarrow> 'a him_child_os_scheme \<Rightarrow> (int \<times> (addr \<times> pollflag list) list \<times> 'a him_child_os_scheme) option" where
  "him_epoll_wait ep maxev s = do {
     (r, s) \<leftarrow> sys_next s;
     case r of Fail e \<Rightarrow> Some (- 1, [], s\<lparr>os_errno := e\<rparr>)
     | Polled revs \<Rightarrow> do {
         let regs = filter (\<lambda>g. him_reg_epoll g = ep \<and> him_reg_fd g \<in> fds s) (registered s);
         if length revs \<noteq> length regs then None
         else do {
           let evs = take maxev (filter (\<lambda>e. snd e \<noteq> []) (zip (map him_reg_data regs) revs));
           Some (int (length evs), evs, s) } }
     | _ \<Rightarrow> None }"

subsection \<open>Connections\<close>

definition him_free_proxy_info :: "cptr option \<Rightarrow> 'a him_child_os_scheme \<Rightarrow> (int \<times> cptr option \<times> 'a him_child_os_scheme) option" where
  "him_free_proxy_info proxy_info s =
     (case proxy_info of None \<Rightarrow> Some (- 1, None, s)
      | Some None \<Rightarrow> Some (0, Some None, s)
      | Some (Some a) \<Rightarrow> if a \<in> dom (pinfos s) then Some (0, Some None, s\<lparr>pinfos := (pinfos s)(a := None)\<rparr>) else None)"

text \<open>On the last failure the source frees the address of the caller's variable, which was not allocated.\<close>

definition create_proxy_conn_info :: "cptr option \<Rightarrow> 'a him_child_os_scheme \<Rightarrow> (int \<times> cptr option \<times> 'a him_child_os_scheme) option" where
  "create_proxy_conn_info pinfo s =
     (case pinfo of None \<Rightarrow> Some (- 1, None, s)
      | Some _ \<Rightarrow> do {
          (p, s) \<leftarrow> him_alloc (dom (pinfos s)) s;
          case p of None \<Rightarrow> Some (- 2, Some None, s)
          | Some a \<Rightarrow> do {
              (q, s) \<leftarrow> him_alloc (dom (cinfos s)) s;
              case q of None \<Rightarrow> None
              | Some c \<Rightarrow>
                  Some (0, Some (Some a), s\<lparr>pinfos := (pinfos s)(a \<mapsto> \<lparr>cinfo = Some c, sinfo = None\<rparr>),
                    cinfos := (cinfos s)(c \<mapsto> \<lparr>client_sock = 0, cbuf = None, cbuf_size = 0, cbuf_len = 0\<rparr>)\<rparr>) } })"

text \<open>The buffer after \<open>realloc\<close> to \<open>n\<close> bytes.\<close>

definition grown :: "int \<Rightarrow> u8 option list \<Rightarrow> u8 option list" where
  "grown n b = take (nat n) (b @ replicate (nat n) None)"

text \<open>
  A failed \<open>realloc\<close> leaves a null pointer in the connection and does not leave the loop.
\<close>

function him_recv_loop :: "addr \<Rightarrow> 'a him_child_os_scheme \<Rightarrow> (int \<times> 'a him_child_os_scheme) option" where
  "him_recv_loop c s = do {
     ci \<leftarrow> cinfos s c;
     b \<leftarrow> cbuf ci;
     let room = cbuf_size ci - cbuf_len ci;
     if room < 0 then None
     else do {
       (ret, bs, s1) \<leftarrow> sys_recv (client_sock ci) (nat room) s;
       if ret < 0 then
         (if os_errno s1 = EINTR then him_recv_loop c s1
          else if os_errno s1 = EAGAIN then Some (0, s1)
          else Some (- 3, s1))
       else if ret = 0 then Some (0, s1)
       else if nat (cbuf_len ci) + length bs > length b then None
       else do {
         let b = take (nat (cbuf_len ci)) b @ map Some bs @ drop (nat (cbuf_len ci) + length bs) b;
         let ci = ci\<lparr>cbuf := Some b, cbuf_len := cbuf_len ci + ret\<rparr>;
         if cbuf_size ci - cbuf_len ci \<le> REALLOC_THRESHOLD then
           (if \<not> INT_RANGE (2 * cbuf_size ci) then None
            else do {
              let ci = ci\<lparr>cbuf_size := 2 * cbuf_size ci\<rparr>;
              (q, s2) \<leftarrow> sys_malloc s1;
              let ci = ci\<lparr>cbuf := map_option (\<lambda>_. grown (cbuf_size ci) b) q\<rparr>;
              him_recv_loop c (s2\<lparr>cinfos := (cinfos s2)(c \<mapsto> ci)\<rparr>) })
         else him_recv_loop c (s1\<lparr>cinfos := (cinfos s1)(c \<mapsto> ci)\<rparr>) } } }"
  by pat_completeness auto
termination
  by (relation "measure (\<lambda>(c, s). fuel s)") (auto dest!: sys_fuel)

declare him_recv_loop.simps [simp del]

definition him_recv_client_data :: "cptr \<Rightarrow> 'a him_child_os_scheme \<Rightarrow> (int \<times> 'a him_child_os_scheme) option" where
  "him_recv_client_data pinfo s =
     (case pinfo of None \<Rightarrow> Some (- 1, s)
      | Some a \<Rightarrow> do {
          p \<leftarrow> pinfos s a;
          c \<leftarrow> cinfo p;
          ci \<leftarrow> cinfos s c;
          if cbuf_size ci = 0 then do {
            (q, s) \<leftarrow> sys_malloc s;
            let ci = ci\<lparr>cbuf_size := ALLOC_SIZE, cbuf := map_option (\<lambda>_. replicate (nat ALLOC_SIZE) None) q\<rparr>;
            let s = s\<lparr>cinfos := (cinfos s)(c \<mapsto> ci)\<rparr>;
            if q = None then Some (- 2, s) else him_recv_loop c s }
          else him_recv_loop c s })"

subsection \<open>Events\<close>

text \<open>\<open>accept4\<close> with \<open>SOCK_NONBLOCK\<close>; the accepted descriptor is only logged.\<close>

function him_accept_and_add_conn_to_poller :: "'a him_child_os_scheme \<Rightarrow> (int \<times> 'a him_child_os_scheme) option" where
  "him_accept_and_add_conn_to_poller s = do {
     (client_sock, s1) \<leftarrow> sys_newfd s;
     if client_sock < 0 then
       (if os_errno s1 = EINTR then him_accept_and_add_conn_to_poller s1
        else if os_errno s1 = EAGAIN then Some (0, s1)
        else Some (- 1, s1))
     else him_accept_and_add_conn_to_poller (s1\<lparr>fdflags := (fdflags s1)(client_sock := 2 OR O_NONBLOCK)\<rparr>) }"
  by pat_completeness auto
termination
  by (relation "measure fuel") (auto dest!: sys_fuel)

declare him_accept_and_add_conn_to_poller.simps [simp del]

definition handle_proxy_listen_event :: "(addr \<times> pollflag list) option \<Rightarrow> 'a him_child_os_scheme \<Rightarrow> (int \<times> 'a him_child_os_scheme) option" where
  "handle_proxy_listen_event ev s =
     (case ev of None \<Rightarrow> Some (- 1, s)
      | Some (_, fl) \<Rightarrow>
          if POLLERR \<in> set fl then Some (- 2, s)
          else if POLLHUP \<in> set fl then Some (- 3, s)
          else if POLLIN \<in> set fl \<or> POLLPRI \<in> set fl then do {
            (ret, s) \<leftarrow> him_accept_and_add_conn_to_poller s;
            Some (if ret < 0 then - 4 else ret, s) }
          else Some (- 5, s))"

definition handle_client_event ::
  "(addr \<Rightarrow> 'a him_child_os_scheme \<Rightarrow> (int \<times> 'a him_child_os_scheme) option) \<Rightarrow>
   (addr \<times> pollflag list) option \<Rightarrow> 'a him_child_os_scheme \<Rightarrow> (int \<times> 'a him_child_os_scheme) option" where
  "handle_client_event handle_client_data ev s =
     (case ev of None \<Rightarrow> Some (- 1, s)
      | Some (pinfo, fl) \<Rightarrow>
          if POLLERR \<in> set fl then Some (- 2, s)
          else if POLLHUP \<in> set fl then Some (- 3, s)
          else if POLLIN \<in> set fl \<or> POLLPRI \<in> set fl then do {
            (ret, s) \<leftarrow> handle_client_data pinfo s;
            Some (if ret < 0 then - 4 else ret, s) }
          else Some (- 4, s))"

fun him_events_loop ::
  "(addr \<Rightarrow> 'a him_child_os_scheme \<Rightarrow> (int \<times> 'a him_child_os_scheme) option) \<Rightarrow>
   (addr \<times> pollflag list) list \<Rightarrow> int \<Rightarrow> 'a him_child_os_scheme \<Rightarrow> (int \<times> 'a him_child_os_scheme) option" where
  "him_events_loop hcd [] ret s = Some (ret, s)"
| "him_events_loop hcd (ev # evs) ret s = do {
     side \<leftarrow> contexts s (fst ev);
     (ret, s) \<leftarrow>
       (case side of
          PROXY_SIDE \<Rightarrow> do { (ret, s) \<leftarrow> handle_proxy_listen_event (Some ev) s; Some (if ret < 0 then - 2 else ret, s) }
        | CLIENT_SIDE \<Rightarrow> do { (ret, s) \<leftarrow> handle_client_event hcd (Some ev) s; Some (if ret < 0 then - 3 else ret, s) }
        | SERVER_SIDE \<Rightarrow> Some (ret, s));
     him_events_loop hcd evs ret s }"

text \<open>The array is a null pointer or holds the events reported; the count is their number.\<close>

definition him_handle_epoll_events ::
  "(addr \<Rightarrow> 'a him_child_os_scheme \<Rightarrow> (int \<times> 'a him_child_os_scheme) option) \<Rightarrow>
   (addr \<times> pollflag list) list option \<Rightarrow> 'a him_child_os_scheme \<Rightarrow> (int \<times> 'a him_child_os_scheme) option" where
  "him_handle_epoll_events hcd evs s =
     (case evs of None \<Rightarrow> Some (- 1, s) | Some evs \<Rightarrow> him_events_loop hcd evs 0 s)"

subsection \<open>The life of the child\<close>

text \<open>The address of the static variable \<open>proxy_ctx\<close>.\<close>

definition PROXY_CTX :: addr where
  "PROXY_CTX = 0"

definition him_init_proxy :: "'a him_child_os_scheme \<Rightarrow> (int \<times> 'a him_child_os_scheme) option" where
  "him_init_proxy s = do {
     (_, s) \<leftarrow> him_register_all_signal_handler ''child_signal_handler'' s;
     (ret, p, s) \<leftarrow> him_init_poller (Some (poll_info s)) s;
     q \<leftarrow> p;
     let s = s\<lparr>poll_info := q\<rparr>;
     if ret < 0 then Some (- 1, s)
     else do {
       let s = s\<lparr>contexts := (contexts s)(PROXY_CTX \<mapsto> PROXY_SIDE)\<rparr>;
       a \<leftarrow> poll_info s;
       i \<leftarrow> pollers s a;
       (ret, s) \<leftarrow> him_add_to_poller (him_epoll_fd i) (him_server_sock s) 0 PROXY_CTX s;
       if ret < 0 then Some (- 3, s) else Some (ret, s) } }"

text \<open>One turn of the event loop. An error of \<open>epoll_wait\<close> is logged and the loop goes on.\<close>

definition him_turn ::
  "(addr \<Rightarrow> 'a him_child_os_scheme \<Rightarrow> (int \<times> 'a him_child_os_scheme) option) \<Rightarrow>
   'a him_child_os_scheme \<Rightarrow> 'a him_child_os_scheme option" where
  "him_turn hcd s = do {
     a \<leftarrow> poll_info s;
     i \<leftarrow> pollers s a;
     (ret, evs, s) \<leftarrow> him_epoll_wait (him_epoll_fd i) (nat (event_size i)) s;
     if ret < 0 then Some s
     else do {
       (_, s) \<leftarrow> him_handle_epoll_events hcd (map_option (\<lambda>_. evs) (him_events i)) s;
       Some s } }"

fun him_turns ::
  "(addr \<Rightarrow> 'a him_child_os_scheme \<Rightarrow> (int \<times> 'a him_child_os_scheme) option) \<Rightarrow>
   nat \<Rightarrow> 'a him_child_os_scheme \<Rightarrow> 'a him_child_os_scheme option" where
  "him_turns hcd 0 s = Some s"
| "him_turns hcd (Suc n) s = do { s \<leftarrow> him_turn hcd s; him_turns hcd n s }"

text \<open>\<open>start_proxy\<close>: the exit status 0 when the start fails, or the state after \<open>n\<close> turns.\<close>

definition him_start_proxy ::
  "(addr \<Rightarrow> 'a him_child_os_scheme \<Rightarrow> (int \<times> 'a him_child_os_scheme) option) \<Rightarrow>
   nat \<Rightarrow> 'a him_child_os_scheme \<Rightarrow> (int option \<times> 'a him_child_os_scheme) option" where
  "him_start_proxy hcd n s = do {
     (ret, s) \<leftarrow> him_init_proxy s;
     if ret \<noteq> 0 then Some (Some 0, s)
     else do { s \<leftarrow> him_turns hcd n s; Some (None, s) } }"

subsection \<open>The poller functions\<close>

text \<open>
  A poller that was initialised can be destroyed: descriptor and array are released, but the
  structure itself stays allocated.
\<close>

lemma init_destroy_poller:
  assumes "replies s = Ok a # Ok fd # Ok e # rest" "a \<notin> dom (pollers s)" "int fd \<notin> fds s" "e \<notin> event_arrays s"
  shows "\<exists>s1 s2. him_init_poller (Some p) s = Some (0, Some (Some a), s1) \<and> him_destroy_poller (Some a) s1 = Some (0, s2) \<and>
    fds s2 = fds s \<and> event_arrays s2 = event_arrays s \<and> dom (pollers s2) = insert a (dom (pollers s))"
  using assms
  by (auto simp: him_init_poller_def him_alloc_def sys_malloc_def sys_newfd_def sys_next_def him_destroy_poller_def sys_close_def Let_def)

text \<open>A failed initialisation closes the descriptor it opened but leaves the structure allocated.\<close>

lemma init_poller_failure_leaks:
  assumes "replies s = Ok a # Ok fd # Fail e # rest" "a \<notin> dom (pollers s)" "int fd \<notin> fds s"
  shows "\<exists>s1. him_init_poller (Some p) s = Some (- 3, Some (Some a), s1) \<and> fds s1 = fds s \<and> dom (pollers s1) = insert a (dom (pollers s))"
  using assms
  by (auto simp: him_init_poller_def him_alloc_def sys_malloc_def sys_newfd_def sys_next_def sys_close_def Let_def)

lemma add_to_poller_edge_triggered:
  "him_add_to_poller ep fd fl d s = Some (0, s') \<Longrightarrow>
   \<exists>m. registered s' = registered s @ [\<lparr>him_reg_epoll = ep, him_reg_fd = fd, him_reg_events = m, him_reg_data = d\<rparr>] \<and>
     bit m 31 \<and> bit m 0 = (fl \<noteq> 1) \<and> bit m 2 = (fl \<noteq> 0)"
  by (auto simp: him_add_to_poller_def him_event_mask_def EPOLLIN_def EPOLLPRI_def EPOLLOUT_def EPOLLET_def
    elim!: bind_SomeE sys_fdcallE split: option.splits if_splits)

subsection \<open>The event loop serves nobody\<close>

text \<open>What the event loop leaves alone.\<close>

definition serves_nobody :: "'a him_child_os_scheme \<Rightarrow> 'a him_child_os_scheme \<Rightarrow> bool" where
  "serves_nobody s s' \<longleftrightarrow> registered s' = registered s \<and> contexts s' = contexts s \<and> rcvd s' = rcvd s \<and> sent s' = sent s \<and>
     closed s' = closed s \<and> fds s \<subseteq> fds s' \<and> cinfos s' = cinfos s \<and> pollers s' = pollers s \<and> poll_info s' = poll_info s"

lemma serves_nobody_refl [simp]: "serves_nobody s s"
  by (simp add: serves_nobody_def)

lemma serves_nobody_trans [trans]: "serves_nobody s t \<Longrightarrow> serves_nobody t u \<Longrightarrow> serves_nobody s u"
  by (auto simp: serves_nobody_def)

lemma accept_serves_nobody: "him_accept_and_add_conn_to_poller s = Some (r, s') \<Longrightarrow> serves_nobody s s'"
proof (induction s arbitrary: r s' rule: him_accept_and_add_conn_to_poller.induct)
  case (1 s)
  obtain fd t where t: "sys_newfd s = Some (fd, t)"
    using 1(3) by (subst (asm) him_accept_and_add_conn_to_poller.simps) (auto elim!: bind_SomeE)
  then have st: "serves_nobody s t" by (auto simp: serves_nobody_def elim!: sys_newfdE)
  show ?case
  proof (cases "fd < 0")
    case True
    then have "(os_errno t = EINTR \<and> him_accept_and_add_conn_to_poller t = Some (r, s')) \<or> s' = t"
      using 1(3) t by (subst (asm) him_accept_and_add_conn_to_poller.simps) (auto split: if_splits)
    then show ?thesis using 1(1) [OF t refl True] st serves_nobody_trans by blast
  next
    case False
    let ?t = "t\<lparr>fdflags := (fdflags t)(fd := 2 OR O_NONBLOCK)\<rparr>"
    have "him_accept_and_add_conn_to_poller ?t = Some (r, s')"
      using 1(3) t False by (subst (asm) him_accept_and_add_conn_to_poller.simps) auto
    then have "serves_nobody ?t s'" using 1(2) [OF t refl False] by blast
    then show ?thesis using st by (simp add: serves_nobody_def) blast
  qed
qed

lemma listen_event_serves_nobody: "handle_proxy_listen_event ev s = Some (r, s') \<Longrightarrow> serves_nobody s s'"
  by (auto simp: handle_proxy_listen_event_def elim!: bind_SomeE split: option.splits if_splits dest!: accept_serves_nobody)

lemma events_serve_nobody:
  "him_events_loop hcd evs ret s = Some (r, s') \<Longrightarrow> \<forall>a. contexts s a \<in> {None, Some PROXY_SIDE} \<Longrightarrow> serves_nobody s s'"
proof (induction hcd evs ret s arbitrary: r s' rule: him_events_loop.induct)
  case (2 hcd ev evs ret s)
  obtain side where side: "contexts s (fst ev) = Some side" using 2(2) by (auto elim!: bind_SomeE)
  then have ps: "side = PROXY_SIDE" using 2(3) [rule_format, of "fst ev"] by simp
  then obtain r1 t where t: "handle_proxy_listen_event (Some ev) s = Some (r1, t)"
    "him_events_loop hcd evs (if r1 < 0 then - 2 else r1) t = Some (r, s')"
    using 2(2) side by (auto elim!: bind_SomeE)
  have st: "serves_nobody s t" using listen_event_serves_nobody t(1) by blast
  have step: "(case side of
          PROXY_SIDE \<Rightarrow> do { (ret, s) \<leftarrow> handle_proxy_listen_event (Some ev) s; Some (if ret < 0 then - 2 else ret, s) }
        | CLIENT_SIDE \<Rightarrow> do { (ret, s) \<leftarrow> handle_client_event hcd (Some ev) s; Some (if ret < 0 then - 3 else ret, s) }
        | SERVER_SIDE \<Rightarrow> Some (ret, s)) = Some (if r1 < 0 then - 2 else r1, t)"
    using ps t(1) by simp
  have "\<forall>a. contexts t a \<in> {None, Some PROXY_SIDE}" using st 2(3) by (simp add: serves_nobody_def)
  then have "serves_nobody t s'" using 2(1) [OF side step refl t(2)] by blast
  with st show ?case by (rule serves_nobody_trans)
qed simp

lemma epoll_wait_serves_nobody: "him_epoll_wait ep n s = Some (r, evs, s') \<Longrightarrow> serves_nobody s s'"
  by (auto simp: him_epoll_wait_def sys_next_def serves_nobody_def Let_def elim!: bind_SomeE split: list.splits reply.splits if_splits)

lemma turn_serves_nobody:
  assumes "him_turn hcd s = Some s'" "\<forall>a. contexts s a \<in> {None, Some PROXY_SIDE}"
  shows "serves_nobody s s'"
proof -
  obtain i :: him_poller_info and r evs t where t: "him_epoll_wait (him_epoll_fd i) (nat (event_size i)) s = Some (r, evs, t)"
    "r < 0 \<and> s' = t \<or> (\<exists>q. him_handle_epoll_events hcd (map_option (\<lambda>_. evs) (him_events i)) t = Some (q, s'))"
    using assms(1) by (auto simp: him_turn_def elim!: bind_SomeE split: if_splits)
  have st: "serves_nobody s t" using epoll_wait_serves_nobody [OF t(1)] .
  then have "\<forall>a. contexts t a \<in> {None, Some PROXY_SIDE}" using assms(2) by (simp add: serves_nobody_def)
  then have "serves_nobody t s'"
    using t(2) by (auto simp: him_handle_epoll_events_def split: option.splits dest: events_serve_nobody)
  with st show ?thesis by (rule serves_nobody_trans)
qed

lemma turns_serve_nobody:
  "him_turns hcd n s = Some s' \<Longrightarrow> \<forall>a. contexts s a \<in> {None, Some PROXY_SIDE} \<Longrightarrow> serves_nobody s s'"
proof (induction hcd n s rule: him_turns.induct)
  case (2 hcd n s)
  then obtain t where t: "him_turn hcd s = Some t" "him_turns hcd n t = Some s'" by (auto elim!: bind_SomeE)
  have st: "serves_nobody s t" by (rule turn_serves_nobody [OF t(1) 2(3)])
  then have "serves_nobody t s'" using 2(1) [OF t] 2(3) by (simp add: serves_nobody_def)
  with st show ?case by (rule serves_nobody_trans)
qed simp


lemma register_loop_frame:
  "him_register_loop ns h s = Some s' \<Longrightarrow> serves_nobody s s' \<and> him_server_sock s' = him_server_sock s"
proof (induction ns h s rule: him_register_loop.induct)
  case (2 n ns h s)
  then obtain r t where t: "him_register_signal_handler n h s = Some (r, t)" "him_register_loop ns h t = Some s'"
    by (auto elim!: bind_SomeE)
  have "serves_nobody s t \<and> him_server_sock t = him_server_sock s"
    using t(1) by (auto simp: him_register_signal_handler_def serves_nobody_def elim!: bind_SomeE sys_zeroE split: if_splits)
  then show ?case using 2(1) [OF t(1) refl t(2)] serves_nobody_trans by metis
qed simp

lemma him_alloc_frame:
  fixes s :: "'a him_child_os_scheme"
  shows "him_alloc used s = Some (p, s') \<Longrightarrow> serves_nobody s s' \<and> him_server_sock s' = him_server_sock s \<and>
    event_arrays s' = event_arrays s \<and> fds s' = fds s"
  by (auto simp: him_alloc_def serves_nobody_def elim!: bind_SomeE sys_mallocE split: if_splits)

text \<open>What everything before the poller's registration leaves alone.\<close>

definition init_frame :: "'a him_child_os_scheme \<Rightarrow> 'a him_child_os_scheme \<Rightarrow> bool" where
  "init_frame s s' \<longleftrightarrow> registered s' = registered s \<and> contexts s' = contexts s \<and> rcvd s' = rcvd s \<and> sent s' = sent s \<and>
     closed s' = closed s \<and> fds s \<subseteq> fds s' \<and> cinfos s' = cinfos s \<and> him_server_sock s' = him_server_sock s"

lemma init_poller_frame:
  assumes "him_init_poller (Some p) s = Some (r, q, s')" "0 \<le> r"
  shows "init_frame s s'"
  using assms
  by (auto simp: him_init_poller_def init_frame_def serves_nobody_def Let_def elim!: bind_SomeE sys_newfdE split: option.splits if_splits
    dest!: him_alloc_frame)

lemma init_proxy_effect:
  assumes "him_init_proxy s = Some (0, s1)"
  shows "contexts s1 = (contexts s)(PROXY_CTX \<mapsto> PROXY_SIDE)"
    "\<exists>ep m. registered s1 = registered s @ [\<lparr>him_reg_epoll = ep, him_reg_fd = him_server_sock s, him_reg_events = m, him_reg_data = PROXY_CTX\<rparr>]"
    "rcvd s1 = rcvd s" "sent s1 = sent s" "closed s1 = closed s" "fds s \<subseteq> fds s1" "cinfos s1 = cinfos s"
proof -
  obtain t where t: "him_register_loop him_signums ''child_signal_handler'' s = Some t"
    using assms by (auto simp: him_init_proxy_def him_register_all_signal_handler_def elim!: bind_SomeE)
  obtain r q u where u: "him_init_poller (Some (poll_info t)) t = Some (r, q, u)" "0 \<le> r"
    and rest: "\<exists>a i. q = Some (Some a) \<and> him_add_to_poller (him_epoll_fd (i :: him_poller_info)) (him_server_sock u) 0 PROXY_CTX
        (u\<lparr>poll_info := Some a, contexts := (contexts u)(PROXY_CTX \<mapsto> PROXY_SIDE)\<rparr>) = Some (0, s1)"
    using assms t by (fastforce simp: him_init_proxy_def him_register_all_signal_handler_def Let_def elim!: bind_SomeE split: if_splits)
  have "init_frame s u"
    using register_loop_frame [OF t] init_poller_frame [OF u] by (auto simp: init_frame_def serves_nobody_def)
  then show "contexts s1 = (contexts s)(PROXY_CTX \<mapsto> PROXY_SIDE)"
    "\<exists>ep m. registered s1 = registered s @ [\<lparr>him_reg_epoll = ep, him_reg_fd = him_server_sock s, him_reg_events = m, him_reg_data = PROXY_CTX\<rparr>]"
    "rcvd s1 = rcvd s" "sent s1 = sent s" "closed s1 = closed s" "fds s \<subseteq> fds s1" "cinfos s1 = cinfos s"
    using rest by (fastforce simp: init_frame_def him_add_to_poller_def elim!: bind_SomeE sys_fdcallE split: option.splits if_splits)+
qed

text \<open>
  C34: a child that has started (its poller watches the listening socket only) runs its event
  loop for any number of turns without ever reading from, registering, closing or forgetting a
  client: whatever it accepts stays open and unserved. This holds for every implementation of the missing
  \<open>handle_client_data\<close>, which is never called.
\<close>

theorem him_serves_nobody:
  assumes "him_start_proxy hcd n s = Some (None, s')" and "contexts s = Map.empty" and "registered s = []"
  shows "\<exists>ep m. registered s' = [\<lparr>him_reg_epoll = ep, him_reg_fd = him_server_sock s, him_reg_events = m, him_reg_data = PROXY_CTX\<rparr>] \<and>
    rcvd s' = rcvd s \<and> sent s' = sent s \<and> closed s' = closed s \<and> fds s \<subseteq> fds s' \<and> cinfos s' = cinfos s"
proof -
  obtain s1 where s1: "him_init_proxy s = Some (0, s1)" "him_turns hcd n s1 = Some s'"
    using assms(1) by (auto simp: him_start_proxy_def elim!: bind_SomeE split: if_splits)
  note i = init_proxy_effect [OF s1(1)]
  have "\<forall>a. contexts s1 a \<in> {None, Some PROXY_SIDE}" using i assms(2) by simp
  from turns_serve_nobody [OF s1(2) this] show ?thesis
    using i assms(3) by (auto simp: serves_nobody_def)
qed

definition him_child_state :: "reply list \<Rightarrow> him_child_os" where
  "him_child_state rs = \<lparr>replies = rs, os_errno = EOTHER 0, fds = {3}, fdflags = (\<lambda>_. 2), sent = (\<lambda>_. []), rcvd = (\<lambda>_. []),
     closed = [], him_log_level = 3, him_server_sock = 3, him_num_child = 0, him_active_child_count = 0,
     him_child_table = replicate MAX_CHILD 0, him_listen_ip = strncpy 16 ''0.0.0.0'', him_listen_port = 5401,
     him_kills = [], him_handlers = Map.empty, him_raised = [], pollers = Map.empty, event_arrays = {},
     contexts = Map.empty, registered = [], pinfos = Map.empty, cinfos = Map.empty, poll_info = None\<rparr>"

text \<open>Two clients are accepted in one turn and stay open.\<close>

theorem him_serves_nobody_witness:
  "\<exists>s'. him_start_proxy (\<lambda>a s. None) 1
      (him_child_state (replicate 17 (Ok 0) @ [Ok 50, Ok 4, Ok 60, Ok 0, Polled [[POLLIN]], Ok 7, Ok 8, Fail EAGAIN])) = Some (None, s') \<and>
    {7, 8} \<subseteq> fds s' \<and> closed s' = []"
proof -
  let ?s = "him_child_state (replicate 17 (Ok 0) @ [Ok 50, Ok 4, Ok 60, Ok 0, Polled [[POLLIN]], Ok 7, Ok 8, Fail EAGAIN])"
  obtain s' where s': "him_start_proxy (\<lambda>a s. None) 1 ?s = Some (None, s')" "{7, 8} \<subseteq> fds s'"
    by (simp add: him_start_proxy_def him_init_proxy_def him_child_state_def him_register_all_signal_handler_def him_signums_def
      him_register_signal_handler_def sys_zero_def sys_next_def him_init_poller_def him_alloc_def sys_malloc_def sys_newfd_def
      him_add_to_poller_def him_event_mask_def sys_fdcall_def him_turn_def him_epoll_wait_def him_handle_epoll_events_def
      handle_proxy_listen_event_def him_accept_and_add_conn_to_poller.simps numeral_eq_Suc PROXY_CTX_def HIM_EPOLL_MAX_EVENTS_def Let_def)
  then show ?thesis using him_serves_nobody [OF s'(1)] by (auto simp: him_child_state_def)
qed

subsection \<open>Receiving\<close>

text \<open>\<open>holds ci xs\<close>: the buffer begins with the bytes \<open>xs\<close>, has the recorded sizes, and has room for more.\<close>

definition holds :: "client_info \<Rightarrow> u8 list \<Rightarrow> bool" where
  "holds ci xs \<longleftrightarrow> (\<exists>b. cbuf ci = Some (map Some xs @ b) \<and> cbuf_len ci = int (length xs) \<and>
     cbuf_size ci = int (length xs + length b) \<and> REALLOC_THRESHOLD < int (length b))"

lemma grown_holds:
  assumes "int (length xs + length b) \<le> n"
  shows "\<exists>d. grown n (map Some xs @ b) = map Some xs @ d \<and> int (length xs + length d) = n"
proof -
  have "grown n (map Some xs @ b) = map Some xs @ (b @ replicate (nat n - (length xs + length b)) None)"
    using assms by (simp add: grown_def min_def)
  moreover have "int (length xs + length (b @ replicate (nat n - (length xs + length b)) None)) = n" using assms by simp
  ultimately show ?thesis by blast
qed

text \<open>One piece of data stored in the buffer, with or without growing it.\<close>

lemma holds_store:
  assumes "holds ci xs" "cbuf ci = Some b" "bs \<noteq> []" "int (length bs) \<le> cbuf_size ci - cbuf_len ci"
  defines "b' \<equiv> take (nat (cbuf_len ci)) b @ map Some bs @ drop (nat (cbuf_len ci) + length bs) b"
  defines "ci' \<equiv> ci\<lparr>cbuf := Some b', cbuf_len := cbuf_len ci + int (length bs)\<rparr>"
  shows "nat (cbuf_len ci) + length bs \<le> length b"
    and "REALLOC_THRESHOLD < cbuf_size ci' - cbuf_len ci' \<Longrightarrow> holds ci' (xs @ bs)"
    and "cbuf_size ci' - cbuf_len ci' \<le> REALLOC_THRESHOLD \<Longrightarrow>
      holds (ci'\<lparr>cbuf_size := 2 * cbuf_size ci', cbuf := Some (grown (2 * cbuf_size ci') b')\<rparr>) (xs @ bs)"
proof -
  obtain d where d: "b = map Some xs @ d" "cbuf_len ci = int (length xs)" "cbuf_size ci = int (length xs + length d)"
    "REALLOC_THRESHOLD < int (length d)"
    using assms(1,2) by (auto simp: holds_def)
  have b': "b' = map Some (xs @ bs) @ drop (length bs) d" unfolding b'_def d by simp
  show "nat (cbuf_len ci) + length bs \<le> length b" using d assms(4) by simp
  show "holds ci' (xs @ bs)" if "REALLOC_THRESHOLD < cbuf_size ci' - cbuf_len ci'"
    using that d assms(4) by (auto simp: holds_def ci'_def b' of_nat_diff)
  let ?n = "2 * cbuf_size ci'"
  have n: "?n = 2 * int (length xs + length d)" using d by (simp add: ci'_def)
  obtain e where e: "grown ?n b' = map Some (xs @ bs) @ e" "int (length (xs @ bs) + length e) = ?n"
    using grown_holds [of "xs @ bs" "drop (length bs) d" ?n] b' n d assms(4) by (auto simp: of_nat_diff)
  show "holds (ci'\<lparr>cbuf_size := ?n, cbuf := Some (grown ?n b')\<rparr>) (xs @ bs)"
    using e n d assms(4) by (auto simp: holds_def ci'_def)
qed

lemma recv_loop_stores:
  "him_recv_loop c s = Some (r, s') \<Longrightarrow> cinfos s c = Some ci \<Longrightarrow> holds ci xs \<Longrightarrow>
   \<exists>ci' bs. cinfos s' c = Some ci' \<and> client_sock ci' = client_sock ci \<and> holds ci' (xs @ bs) \<and>
     rcvd s' (client_sock ci) = rcvd s (client_sock ci) @ bs \<and> r \<in> {0, - 3}"
proof (induction c s arbitrary: r s' ci xs rule: him_recv_loop.induct)
  case (1 c s)
  obtain b where b: "cbuf ci = Some b" using 1(6) by (auto simp: holds_def)
  let ?room = "cbuf_size ci - cbuf_len ci"
  have room: "\<not> ?room < 0" using 1(6) by (auto simp: holds_def)
  obtain ret bs s1 where rc: "sys_recv (client_sock ci) (nat ?room) s = Some (ret, bs, s1)"
    using 1(4,5) b room by (subst (asm) him_recv_loop.simps) (auto elim!: bind_SomeE)
  then show ?case
  proof (cases rule: sys_recvE)
    case (fail rs e)
    then have "(os_errno s1 = EINTR \<and> him_recv_loop c s1 = Some (r, s')) \<or> (s' = s1 \<and> r \<in> {0, - 3})"
      using 1(4,5) b room rc by (subst (asm) him_recv_loop.simps) (auto split: if_splits)
    then show ?thesis
      using 1(1) [OF 1(5) b refl room rc refl refl _ _ _ _ 1(6), of r s'] fail 1(5,6) by auto
  next
    case (ok rs)
    show ?thesis
    proof (cases "bs = []")
      case True
      then have "s' = s1 \<and> r = 0"
        using 1(4,5) b room rc ok by (subst (asm) him_recv_loop.simps) auto
      then show ?thesis using 1(5,6) ok True by auto
    next
      case False
      let ?b = "take (nat (cbuf_len ci)) b @ map Some bs @ drop (nat (cbuf_len ci) + length bs) b"
      let ?ci = "ci\<lparr>cbuf := Some ?b, cbuf_len := cbuf_len ci + int (length bs)\<rparr>"
      have len: "int (length bs) \<le> ?room" using ok(3) room by linarith
      note st = holds_store [OF 1(6) b False len]
      have fit: "\<not> nat (cbuf_len ci) + length bs > length b" using st(1) by simp
      have pos: "\<not> ret < 0" "ret \<noteq> 0" using ok(2) False by simp_all
      show ?thesis
      proof (cases "cbuf_size ?ci - cbuf_len ?ci \<le> REALLOC_THRESHOLD")
        case small: True
        then obtain q s2 where q: "INT_RANGE (2 * cbuf_size ?ci)" "sys_malloc s1 = Some (q, s2)"
          and rec: "him_recv_loop c (s2\<lparr>cinfos := (cinfos s2)(c \<mapsto>
            ?ci\<lparr>cbuf_size := 2 * cbuf_size ?ci, cbuf := map_option (\<lambda>_. grown (2 * cbuf_size ?ci) ?b) q\<rparr>)\<rparr>) = Some (r, s')"
          using 1(4,5) b room rc ok(2) pos fit
          by (subst (asm) him_recv_loop.simps) (auto simp: Let_def elim!: bind_SomeE split: if_splits)
        let ?ci2 = "?ci\<lparr>cbuf_size := 2 * cbuf_size ?ci, cbuf := map_option (\<lambda>_. grown (2 * cbuf_size ?ci) ?b) q\<rparr>"
        have "q \<noteq> None" using rec by (cases q) (auto simp: him_recv_loop.simps)
        then have h: "holds ?ci2 (xs @ bs)" using st(3) small by auto
        have "\<exists>ci' ds. cinfos s' c = Some ci' \<and> client_sock ci' = client_sock ?ci2 \<and> holds ci' ((xs @ bs) @ ds) \<and>
            rcvd s' (client_sock ?ci2) = rcvd s2 (client_sock ?ci2) @ ds \<and> r \<in> {0, - 3}"
          using 1(2) [OF 1(5) b refl room rc refl refl pos fit refl refl _ _ refl q(2) refl refl, of r s' ?ci2 "xs @ bs"] small q(1) h ok(2) rec
          by simp
        then show ?thesis using q(2) ok(4) by (auto elim!: sys_mallocE)
      next
        case big: False
        then have rec: "him_recv_loop c (s1\<lparr>cinfos := (cinfos s1)(c \<mapsto> ?ci)\<rparr>) = Some (r, s')"
          using 1(4,5) b room rc ok(2) pos fit by (subst (asm) him_recv_loop.simps) (auto simp: Let_def)
        have h: "holds ?ci (xs @ bs)" using st(2) big by auto
        have "\<exists>ci' ds. cinfos s' c = Some ci' \<and> client_sock ci' = client_sock ?ci \<and> holds ci' ((xs @ bs) @ ds) \<and>
            rcvd s' (client_sock ?ci) = rcvd s1 (client_sock ?ci) @ ds \<and> r \<in> {0, - 3}"
          using 1(3) [OF 1(5) b refl room rc refl refl pos fit refl refl, of r s' ?ci "xs @ bs"] big rec h ok(2) by simp
        then show ?thesis using ok(4) by auto
      qed
    qed
  qed
qed

text \<open>
  Whatever the kernel answers, a reception that returns leaves the buffer with the bytes it had
  followed by exactly the bytes received, inside the recorded size, and with room left, so that a
  result of 0 of \<open>recv\<close> is always the end of the stream.
\<close>

lemma him_recv_client_data_stores:
  assumes "him_recv_client_data (Some a) s = Some (r, s')" "pinfos s a = Some p" "cinfo p = Some c" "cinfos s c = Some ci"
    and "holds ci xs \<or> cbuf_size ci = 0 \<and> cbuf_len ci = 0 \<and> xs = []" "r \<noteq> - 2"
  shows "\<exists>ci' bs. cinfos s' c = Some ci' \<and> holds ci' (xs @ bs) \<and>
    rcvd s' (client_sock ci) = rcvd s (client_sock ci) @ bs \<and> r \<in> {0, - 3}"
proof (cases "cbuf_size ci = 0")
  case True
  then have e: "cbuf_len ci = 0" "xs = []" using assms(5) by (auto simp: holds_def REALLOC_THRESHOLD_def)
  let ?ci = "ci\<lparr>cbuf_size := ALLOC_SIZE, cbuf := Some (replicate (nat ALLOC_SIZE) None)\<rparr>"
  obtain rs where t: "him_recv_loop c (s\<lparr>replies := rs, cinfos := (cinfos s)(c \<mapsto> ?ci)\<rparr>) = Some (r, s')"
    using assms(1-4,6) True by (auto simp: him_recv_client_data_def Let_def elim!: bind_SomeE sys_mallocE split: if_splits)
  have "holds ?ci []" using e by (simp add: holds_def ALLOC_SIZE_def REALLOC_THRESHOLD_def)
  then show ?thesis using recv_loop_stores [OF t, of ?ci "[]"] e by auto
next
  case False
  then have "him_recv_loop c s = Some (r, s')" "holds ci xs"
    using assms(1-5) by (simp_all add: him_recv_client_data_def)
  then show ?thesis using recv_loop_stores [OF _ assms(4)] by blast
qed

text \<open>The caller cannot tell a closed connection from one without more data.\<close>

lemma him_recv_closed_like_drained:
  assumes "holds ci xs" "cinfos s c = Some ci" "replies s = last_r # rest" "last_r = Data [] \<or> last_r = Fail EAGAIN"
  shows "\<exists>s'. him_recv_loop c s = Some (0, s')"
  using assms by (auto simp: him_recv_loop.simps sys_recv_def sys_next_def holds_def)

text \<open>A failed \<open>realloc\<close> makes the next turn of the loop receive through a null pointer.\<close>

lemma him_realloc_failure_crashes:
  assumes "cinfos s c = Some ci" "cbuf ci = None"
  shows "him_recv_loop c s = None"
  using assms by (simp add: him_recv_loop.simps)

end
