(* ===== verification/Echo_Tcp.thy ===== *)
theory Echo_Tcp
  imports Posix
begin

section \<open>The TCP echo server and its client\<close>

text \<open>
  Models \<open>src/src/networking/socket/tcp/echoserver/myServer.c\<close> and \<open>myClient.c\<close>. The server starts a thread for each
  connection; a thread works on its own connection, so \<open>Handler\<close> is modelled as it runs alone, and the
  server records the threads it started. The buffer of a handler is one array for all receptions:
  bytes of an earlier message stay behind a shorter one. Printing the array as a string reads up to its
  first zero byte; when it has none the behaviour is undefined and the result is \<open>None\<close>.

  The lemmas show that what a client sends comes back in order, that a message of 1024 bytes is read
  past its end, that old bytes can end a connection, and what the server loses when a thread cannot be started.
\<close>

definition MAX_LENGTH :: nat where
  "MAX_LENGTH = 1024"

datatype buffer_type = SEND_BUFFER | RECV_BUFFER

record echo_os = os +
  sndbuf :: "int \<Rightarrow> int"
  rcvbuf :: "int \<Rightarrow> int"
  handler_datas :: "addr \<rightharpoonup> int"
  handler_threads :: "addr list"

subsection \<open>The server\<close>

text \<open>\<open>strncasecmp (buf, "bye", 3) == 0\<close>\<close>

definition to_lower :: "u8 \<Rightarrow> u8" where
  "to_lower b = (if 65 \<le> b \<and> b \<le> 90 then b + 32 else b)"

definition is_bye :: "u8 list \<Rightarrow> bool" where
  "is_bye buf \<longleftrightarrow> map to_lower (take 3 buf) = [98, 121, 101]"

text \<open>The array after \<open>bs\<close> were received into it.\<close>

definition overlay :: "u8 list \<Rightarrow> u8 list \<Rightarrow> u8 list" where
  "overlay bs buf = bs @ drop (length bs) buf"

function handler_loop :: "int \<Rightarrow> u8 list \<Rightarrow> 'a os_scheme \<Rightarrow> 'a os_scheme option" where
  "handler_loop cliSock buf s = do {
     (bytes, bs, s1) \<leftarrow> sys_recv cliSock MAX_LENGTH s;
     if bytes = 0 then Some s1
     else if bytes < 0 then Some s1
     else do {
       let buf = overlay bs buf;
       if 0 \<notin> set buf then None
       else if is_bye buf then Some s1
       else do {
         (n, s2) \<leftarrow> sys_send cliSock (take (nat bytes) buf) s1;
         if n < 0 then Some s2 else handler_loop cliSock buf s2 } } }"
  by pat_completeness auto
termination
  by (relation "measure (\<lambda>(fd, b, s). fuel s)") (auto dest!: sys_fuel)

declare handler_loop.simps [simp del]

definition Handler :: "addr \<Rightarrow> 'a echo_os_scheme \<Rightarrow> 'a echo_os_scheme option" where
  "Handler arg s = do {
     cliSock \<leftarrow> handler_datas s arg;
     s \<leftarrow> handler_loop cliSock (replicate MAX_LENGTH 0) s;
     let s = sys_close cliSock s;
     Some (s\<lparr>handler_datas := (handler_datas s)(arg := None)\<rparr>) }"

definition set_socket_buffer_size :: "int \<Rightarrow> buffer_type \<Rightarrow> int \<Rightarrow> 'a echo_os_scheme \<Rightarrow> (int \<times> 'a echo_os_scheme) option" where
  "set_socket_buffer_size sock buf_type sz s = do {
     (ret, s) \<leftarrow> sys_fdcall sock s;
     if ret < 0 then Some (ret, s)
     else (case buf_type of
             SEND_BUFFER \<Rightarrow> Some (ret, s\<lparr>sndbuf := (sndbuf s)(sock := sz)\<rparr>)
           | RECV_BUFFER \<Rightarrow> Some (ret, s\<lparr>rcvbuf := (rcvbuf s)(sock := sz)\<rparr>)) }"

text \<open>The second result is the new value of \<open>*size\<close>.\<close>

definition get_socket_buffer_size :: "int \<Rightarrow> buffer_type \<Rightarrow> int \<Rightarrow> 'a echo_os_scheme \<Rightarrow> (int \<times> int \<times> 'a echo_os_scheme) option" where
  "get_socket_buffer_size sock buf_type sz s = do {
     (ret, s) \<leftarrow> sys_fdcall sock s;
     if ret < 0 then Some (ret, sz, s)
     else (case buf_type of
             SEND_BUFFER \<Rightarrow> Some (ret, sndbuf s sock, s)
           | RECV_BUFFER \<Rightarrow> Some (ret, rcvbuf s sock, s)) }"

text \<open>Everything before the loop: the exit status or the listening socket.\<close>

definition echo_start :: "'a os_scheme \<Rightarrow> ((int + int) \<times> 'a os_scheme) option" where
  "echo_start s = do {
     (servSock, s) \<leftarrow> sys_newfd s;
     if servSock < 0 then Some (Inl (- 1), s)
     else do {
       (a, s) \<leftarrow> sys_aton s;
       if a = 0 then Some (Inl (- 1), s)
       else do {
         (ret, s) \<leftarrow> sys_fdcall servSock s;
         if ret < 0 then Some (Inl (- 1), s)
         else do {
           (ret, s) \<leftarrow> sys_fdcall servSock s;
           if ret < 0 then Some (Inl (- 1), s) else Some (Inr servSock, s) } } } }"

text \<open>
  One turn of the loop: the status the program ends with, or \<open>None\<close> to go on. The socket is used before it is
  tested; the results of \<open>calloc\<close> and \<open>pthread_create\<close> are not tested.
\<close>

definition echo_turn :: "int \<Rightarrow> 'a echo_os_scheme \<Rightarrow> (int option \<times> 'a echo_os_scheme) option" where
  "echo_turn servSock s = do {
     (cliSock, s) \<leftarrow> sys_newfd s;
     (_, s) \<leftarrow> set_socket_buffer_size cliSock RECV_BUFFER 1 s;
     (_, _, s) \<leftarrow> get_socket_buffer_size cliSock RECV_BUFFER 0 s;
     if cliSock < 0 then Some (Some (- 1), s)
     else do {
       (ret, s) \<leftarrow> sys_fdcall cliSock s;
       if ret \<noteq> 0 then Some (Some (- 1), sys_close cliSock s)
       else do {
         (p, s) \<leftarrow> sys_malloc s;
         a \<leftarrow> p;
         if a \<in> dom (handler_datas s) then None
         else do {
           let s = s\<lparr>handler_datas := (handler_datas s)(a \<mapsto> cliSock)\<rparr>;
           (ret, s) \<leftarrow> sys_zero s;
           Some (None, if ret < 0 then s else s\<lparr>handler_threads := handler_threads s @ [a]\<rparr>) } } } }"

subsection \<open>The client\<close>

definition CLIENT_MAX_LENGTH :: nat where
  "CLIENT_MAX_LENGTH = 2048"

text \<open>
  The lines typed, as \<open>fgets\<close> delivers them: without zero bytes, shorter than the array; the end of the list is
  the end of the input. \<open>fgets\<close> writes the line and a zero byte at the start of the array.
\<close>

fun client_loop :: "int \<Rightarrow> u8 list list \<Rightarrow> u8 list \<Rightarrow> 'a os_scheme \<Rightarrow> 'a os_scheme option" where
  "client_loop sock [] buf s = Some s"
| "client_loop sock (line # rest) buf s =
     (if 0 \<in> set line \<or> length line \<ge> CLIENT_MAX_LENGTH then None
      else do {
        let buf = overlay (line @ [0]) buf;
        (ret, s) \<leftarrow> sys_send sock (line @ [0]) s;
        if ret < 0 then Some s
        else do {
          (ret, bs, s) \<leftarrow> sys_recv sock CLIENT_MAX_LENGTH s;
          if ret = 0 then Some s
          else if ret < 0 then Some s
          else do {
            let buf = overlay bs buf;
            if 0 \<notin> set buf then None else client_loop sock rest buf s } } })"

definition client_main :: "u8 list list \<Rightarrow> 'a os_scheme \<Rightarrow> (int \<times> 'a os_scheme) option" where
  "client_main input s = do {
     (sock, s) \<leftarrow> sys_newfd s;
     if sock < 0 then Some (- 1, s)
     else do {
       (a, s) \<leftarrow> sys_aton s;
       if a = 0 then Some (- 1, s)
       else do {
         (ret, s) \<leftarrow> sys_fdcall sock s;
         if ret < 0 then Some (- 1, s)
         else do {
           s \<leftarrow> client_loop sock input (replicate CLIENT_MAX_LENGTH 0) s;
           Some (0, sys_close sock s) } } } }"

subsection \<open>What comes in goes out\<close>

text \<open>The answers when the pieces \<open>ds\<close> arrive and each is taken back whole.\<close>

fun echo_answers :: "u8 list list \<Rightarrow> reply list" where
  "echo_answers [] = []"
| "echo_answers (d # ds) = Data d # Ok (length d) # echo_answers ds"

definition message :: "u8 list \<Rightarrow> bool" where
  "message d \<longleftrightarrow> 3 \<le> length d \<and> length d < MAX_LENGTH \<and> \<not> is_bye d"

lemma is_bye_overlay: "3 \<le> length d \<Longrightarrow> is_bye (overlay d buf) = is_bye d"
  by (simp add: is_bye_def overlay_def)

lemma overlay_keeps_end:
  assumes "length buf = MAX_LENGTH" "last buf = 0" "length d < MAX_LENGTH"
  shows "length (overlay d buf) = MAX_LENGTH" "last (overlay d buf) = 0" "0 \<in> set (overlay d buf)"
proof -
  show len: "length (overlay d buf) = MAX_LENGTH" using assms by (simp add: overlay_def)
  have "drop (length d) buf \<noteq> []" using assms by simp
  then show l: "last (overlay d buf) = 0" using assms(2) by (simp add: overlay_def)
  have "overlay d buf \<noteq> []" using len by (auto simp: MAX_LENGTH_def)
  then show "0 \<in> set (overlay d buf)" using l last_in_set by fastforce
qed

lemma handler_loop_echoes:
  "replies s = echo_answers ds @ r # rest \<Longrightarrow> list_all message ds \<Longrightarrow> length buf = MAX_LENGTH \<Longrightarrow> last buf = 0 \<Longrightarrow>
   (r = Fail e \<or> r = Data []) \<Longrightarrow>
   \<exists>s'. handler_loop fd buf s = Some s' \<and> replies s' = rest \<and> sent s' = (sent s)(fd := sent s fd @ concat ds) \<and>
     rcvd s' = (rcvd s)(fd := rcvd s fd @ concat ds) \<and> fds s' = fds s \<and> closed s' = closed s \<and> os.more s' = os.more s"
proof (induction ds arbitrary: s buf)
  case Nil
  then show ?case by (subst handler_loop.simps) (auto simp: sys_recv_def sys_next_def)
next
  case (Cons d ds)
  have d: "d \<noteq> []" "length d \<le> MAX_LENGTH" "length d < MAX_LENGTH" "\<not> is_bye (overlay d buf)"
    using Cons.prems(2) is_bye_overlay [of d buf] by (auto simp: message_def)
  note b = overlay_keeps_end [OF Cons.prems(3,4) d(3)]
  let ?s = "s\<lparr>rcvd := (rcvd s)(fd := rcvd s fd @ d), replies := echo_answers ds @ r # rest, sent := (sent s)(fd := sent s fd @ d)\<rparr>"
  have "take (length d) (overlay d buf) = d" by (simp add: overlay_def)
  then have "handler_loop fd buf s = handler_loop fd (overlay d buf) ?s"
    using Cons.prems(1) d b(3) by (subst handler_loop.simps) (simp add: sys_recv_def sys_send_def sys_next_def)
  moreover obtain s' where "handler_loop fd (overlay d buf) ?s = Some s'" "replies s' = rest"
    "sent s' = (sent ?s)(fd := sent ?s fd @ concat ds)" "rcvd s' = (rcvd ?s)(fd := rcvd ?s fd @ concat ds)"
    "fds s' = fds ?s" "closed s' = closed ?s" "os.more s' = os.more ?s"
    using Cons.IH [of ?s "overlay d buf"] b(1,2) Cons.prems(2,5) by (simp del: fun_upd_apply) blast
  ultimately show ?case by (simp add: fun_upd_def cong: if_cong)
qed

text \<open>
  A handler thread sends back to its client exactly what the client sent, in order, when each
  message has at least 3 and fewer than 1024 bytes, does not begin with \<open>bye\<close>, and is taken back whole; when the client
  closes or an error occurs, it closes the socket and frees its data, and nothing else.
\<close>

theorem echo_handler_echoes:
  assumes "handler_datas s a = Some fd" and "replies s = echo_answers ds @ r # rest" and "list_all message ds"
    and "r = Fail e \<or> r = Data []"
  shows "\<exists>s'. Handler a s = Some s' \<and> sent s' = (sent s)(fd := sent s fd @ concat ds) \<and>
    rcvd s' = (rcvd s)(fd := rcvd s fd @ concat ds) \<and> closed s' = closed s @ [fd] \<and> fds s' = fds s - {fd} \<and>
    handler_datas s' = (handler_datas s)(a := None)"
proof -
  have "length (replicate MAX_LENGTH (0 :: u8)) = MAX_LENGTH" "last (replicate MAX_LENGTH (0 :: u8)) = 0"
    by (simp_all add: MAX_LENGTH_def last_replicate)
  then obtain s' where s': "handler_loop fd (replicate MAX_LENGTH 0) s = Some s'"
    "sent s' = (sent s)(fd := sent s fd @ concat ds)" "rcvd s' = (rcvd s)(fd := rcvd s fd @ concat ds)" "fds s' = fds s"
    "closed s' = closed s" "os.more s' = os.more s"
    using handler_loop_echoes [OF assms(2,3) _ _ assms(4)] by blast
  have "handler_datas s' = handler_datas s"
    using s'(6) by (metis echo_os.ext_inject echo_os.surjective os.select_convs(8))
  then show ?thesis using assms(1) s' by (simp add: Handler_def sys_close_def)
qed

definition echo_state :: "reply list \<Rightarrow> echo_os" where
  "echo_state rs = \<lparr>replies = rs, os_errno = EOTHER 0, fds = {3, 9}, fdflags = (\<lambda>_. 2), sent = (\<lambda>_. []), rcvd = (\<lambda>_. []),
     closed = [], sndbuf = (\<lambda>_. 0), rcvbuf = (\<lambda>_. 0), handler_datas = [7 \<mapsto> 9], handler_threads = [7]\<rparr>"

theorem echo_handler_echoes_witness:
  "\<exists>s'. Handler 7 (echo_state [Data [104, 101, 121], Ok 3, Data [98, 121, 101 + 1], Ok 3, Data []]) = Some s' \<and>
    sent s' 9 = [104, 101, 121, 98, 121, 102] \<and> closed s' = [9]"
  using echo_handler_echoes [of "echo_state [Data [104, 101, 121], Ok 3, Data [98, 121, 101 + 1], Ok 3, Data []]" 7 9
      "[[104, 101, 121], [98, 121, 102]]" "Data []" "[]" EAGAIN]
  by (auto simp: echo_state_def message_def MAX_LENGTH_def is_bye_def to_lower_def)

subsection \<open>What goes wrong\<close>

text \<open>A message of 1024 bytes without a zero byte is printed past the end of the array.\<close>

lemma full_message_overruns:
  assumes "replies s = Data d # rest" "length d = MAX_LENGTH" "0 \<notin> set d" "length buf = MAX_LENGTH"
  shows "handler_loop fd buf s = None"
  using assms by (subst handler_loop.simps) (auto simp: sys_recv_def sys_next_def overlay_def MAX_LENGTH_def)

text \<open>
  After a message \<open>xye\<close> a message \<open>b\<close> ends the connection, and is not sent back: the rest of the old message makes it \<open>bye\<close>.
\<close>

lemma stale_bytes_close:
  assumes "replies s = [Data [120, 121, 101], Ok 3, Data [98]] @ rest"
  shows "\<exists>s'. handler_loop fd (replicate MAX_LENGTH 0) s = Some s' \<and> sent s' fd = sent s fd @ [120, 121, 101] \<and>
    rcvd s' fd = rcvd s fd @ [120, 121, 101, 98]"
proof -
  define b1 :: "u8 list" where "b1 = overlay [120, 121, 101] (replicate MAX_LENGTH 0)"
  define b2 where "b2 = overlay [98] b1"
  have len: "length (replicate MAX_LENGTH (0 :: u8)) = MAX_LENGTH" "last (replicate MAX_LENGTH (0 :: u8)) = 0"
    by (simp_all add: MAX_LENGTH_def last_replicate)
  have z1: "length b1 = MAX_LENGTH" "last b1 = 0" "0 \<in> set b1"
    unfolding b1_def by (rule overlay_keeps_end [OF len]; simp add: MAX_LENGTH_def)+
  have z2: "0 \<in> set b2" unfolding b2_def by (rule overlay_keeps_end(3) [OF z1(1,2)]) (simp add: MAX_LENGTH_def)
  have bye: "\<not> is_bye b1" "is_bye b2" "take 3 b1 = [120, 121, 101]"
    by (simp_all add: b1_def b2_def overlay_def is_bye_def to_lower_def)
  let ?s = "s\<lparr>rcvd := (rcvd s)(fd := rcvd s fd @ [120, 121, 101]), replies := Data [98] # rest,
    sent := (sent s)(fd := sent s fd @ [120, 121, 101])\<rparr>"
  have le: "Suc (Suc (Suc 0)) \<le> MAX_LENGTH" by (simp add: MAX_LENGTH_def)
  have "handler_loop fd (replicate MAX_LENGTH 0) s = handler_loop fd b1 ?s"
    using assms z1 bye by (subst handler_loop.simps)
      (simp add: sys_recv_def sys_send_def sys_next_def b1_def [symmetric] le)
  moreover have "\<exists>s'. handler_loop fd b1 ?s = Some s' \<and> sent s' fd = sent s fd @ [120, 121, 101] \<and>
      rcvd s' fd = rcvd s fd @ [120, 121, 101, 98]"
    using z2 bye by (subst handler_loop.simps) (simp add: sys_recv_def sys_next_def b2_def [symmetric] MAX_LENGTH_def)
  ultimately show ?thesis by simp
qed

text \<open>When no thread can be started, the connection stays open and its data allocated.\<close>

lemma thread_failure_leaks:
  assumes "replies s = [Ok n, Ok 0, Ok 0, Ok 0, Ok a, Fail e] @ rest" "int n \<notin> fds s" "handler_datas s a = None"
  shows "\<exists>s'. echo_turn srv s = Some (None, s') \<and> fds s' = insert (int n) (fds s) \<and> handler_datas s' a = Some (int n) \<and>
    handler_threads s' = handler_threads s"
  using assms by (simp add: echo_turn_def sys_newfd_def set_socket_buffer_size_def get_socket_buffer_size_def sys_fdcall_def
    sys_zero_def sys_malloc_def sys_next_def domIff)

text \<open>Any failure of \<open>accept\<close>, even an interruption, ends the server.\<close>

lemma accept_failure_ends_server:
  assumes "replies s = Fail e # rest"
  shows "\<exists>s'. echo_turn srv s = Some (Some (- 1), s')"
  using assms by (simp add: echo_turn_def sys_newfd_def set_socket_buffer_size_def get_socket_buffer_size_def sys_fdcall_def sys_next_def)

subsection \<open>The client against the server\<close>

text \<open>The answers the client gets when every line comes back as it was sent.\<close>

fun client_answers :: "u8 list list \<Rightarrow> reply list" where
  "client_answers [] = []"
| "client_answers (l # ls) = Ok (Suc (length l)) # Data (l @ [0]) # client_answers ls"

lemma client_loop_round:
  "replies s = client_answers ls @ rest \<Longrightarrow> list_all (\<lambda>l. 0 \<notin> set l \<and> length l < CLIENT_MAX_LENGTH) ls \<Longrightarrow>
   \<exists>s'. client_loop fd ls buf s = Some s' \<and> replies s' = rest \<and>
     sent s' = (sent s)(fd := sent s fd @ concat (map (\<lambda>l. l @ [0]) ls)) \<and>
     rcvd s' = (rcvd s)(fd := rcvd s fd @ concat (map (\<lambda>l. l @ [0]) ls))"
proof (induction ls arbitrary: s buf)
  case (Cons l ls)
  let ?b = "overlay (l @ [0]) (overlay (l @ [0]) buf)"
  let ?s = "s\<lparr>sent := (sent s)(fd := sent s fd @ l @ [0]), replies := client_answers ls @ rest, rcvd := (rcvd s)(fd := rcvd s fd @ l @ [0])\<rparr>"
  have z: "0 \<in> set ?b" by (simp add: overlay_def)
  have "client_loop fd (l # ls) buf s = client_loop fd ls ?b ?s"
    using Cons.prems z by (simp add: sys_send_def sys_recv_def sys_next_def Let_def)
  moreover obtain s' where "client_loop fd ls ?b ?s = Some s'" "replies s' = rest"
    "sent s' = (sent ?s)(fd := sent ?s fd @ concat (map (\<lambda>l. l @ [0]) ls))"
    "rcvd s' = (rcvd ?s)(fd := rcvd ?s fd @ concat (map (\<lambda>l. l @ [0]) ls))"
    using Cons.IH [of ?s ?b] Cons.prems(2) by (simp del: fun_upd_apply) blast
  ultimately show ?case by (simp add: fun_upd_def cong: if_cong)
qed simp

end
