(* ===== verification/Echo_Udp.thy ===== *)
theory Echo_Udp
  imports Echo_Tcp C_Text
begin

section \<open>UDP and UNIX socket programs\<close>

text \<open>
  Models \<open>udp_server.c\<close>, \<open>udp_client.c\<close> and \<open>udp_client_test_2.c\<close> under \<open>src/src/networking/socket/udp/echoserver\<close> and
  the stream server \<open>src/src/networking/socket/unixSock/myServer.c\<close>. A datagram is received whole with the address
  of its sender and sent whole or not at all; the state records the datagrams sent. The endless loops are given
  by their turns. Writing the zero byte behind a datagram that fills the array is undefined behaviour.

  The lemmas show that the UDP server returns every datagram to its sender, that a datagram of
  the size of the buffer is written past its end, and that the UNIX server's threads share one variable
  for their sockets and never notice that a client has closed.
\<close>

record udp_os = os +
  datagrams :: "(nat \<times> u8 list) list"

text \<open>\<open>recvfrom\<close>: the data and, in a second answer, the sender; \<open>sendto\<close>.\<close>

definition sys_recvfrom :: "int \<Rightarrow> nat \<Rightarrow> 'a os_scheme \<Rightarrow> (int \<times> u8 list \<times> nat \<times> 'a os_scheme) option" where
  "sys_recvfrom fd len s = do {
     (n, bs, s) \<leftarrow> sys_recv fd len s;
     if n < 0 then Some (n, bs, 0, s)
     else do {
       (r, s) \<leftarrow> sys_next s;
       case r of Ok peer \<Rightarrow> Some (n, bs, peer, s) | _ \<Rightarrow> None } }"

definition sys_sendto :: "int \<Rightarrow> nat \<Rightarrow> u8 list \<Rightarrow> 'a udp_os_scheme \<Rightarrow> (int \<times> 'a udp_os_scheme) option" where
  "sys_sendto fd peer bs s = do {
     (r, s) \<leftarrow> sys_zero s;
     if r < 0 then Some (- 1, s) else Some (int (length bs), s\<lparr>datagrams := datagrams s @ [(peer, bs)]\<rparr>) }"

definition BUF_SZ :: nat where
  "BUF_SZ = 2048"

subsection \<open>The UDP server\<close>

text \<open>
  \<open>strcpy\<close> into an array of 16 characters; the port is cut to 16 bits. The results are the code, the address and the port.
\<close>

definition process_command_line_args :: "string list \<Rightarrow> (int \<times> string \<times> int) option" where
  "process_command_line_args argv =
     (if length argv \<noteq> 2 then Some (1, [], 0)
      else if length (argv ! 0) \<ge> 16 then None
      else do {
        port \<leftarrow> atoi (argv ! 1);
        Some (0, argv ! 0, port mod 2 ^ 16) })"

definition create_udp_server :: "string \<Rightarrow> int \<Rightarrow> 'a os_scheme \<Rightarrow> (int \<times> 'a os_scheme) option" where
  "create_udp_server srvr_ip srvr_port s = do {
     (srvr_sock, s) \<leftarrow> sys_newfd s;
     if srvr_sock < 0 then Some (- 1, s)
     else do {
       (_, s) \<leftarrow> sys_fdcall srvr_sock s;
       (a, s) \<leftarrow> sys_aton s;
       if a = 0 then Some (- 2, s)
       else do {
         (r, s) \<leftarrow> sys_fdcall srvr_sock s;
         if r < 0 then Some (- 3, s) else Some (srvr_sock, s) } } }"

text \<open>One turn of the loop.\<close>

definition data_rx_tx_turn :: "int \<Rightarrow> 'a udp_os_scheme \<Rightarrow> 'a udp_os_scheme option" where
  "data_rx_tx_turn srvr_sock s = do {
     (bytes, bs, clt, s) \<leftarrow> sys_recvfrom srvr_sock BUF_SZ s;
     if bytes < 0 then Some s
     else if nat bytes \<ge> BUF_SZ then None
     else do {
       (_, s) \<leftarrow> sys_sendto srvr_sock clt bs s;
       Some s } }"

fun data_rx_tx_loop :: "nat \<Rightarrow> int \<Rightarrow> 'a udp_os_scheme \<Rightarrow> 'a udp_os_scheme option" where
  "data_rx_tx_loop 0 srvr_sock s = Some s"
| "data_rx_tx_loop (Suc n) srvr_sock s = do { s \<leftarrow> data_rx_tx_turn srvr_sock s; data_rx_tx_loop n srvr_sock s }"

text \<open>\<open>main\<close>: the exit status, or the state after \<open>n\<close> turns. A server that could not be created is used all the same.\<close>

definition udp_server_main :: "nat \<Rightarrow> string list \<Rightarrow> 'a udp_os_scheme \<Rightarrow> (int option \<times> 'a udp_os_scheme) option" where
  "udp_server_main n argv s = do {
     (r, ip, port) \<leftarrow> process_command_line_args argv;
     if r \<noteq> 0 then Some (Some 1, s)
     else do {
       (srvr_sock, s) \<leftarrow> create_udp_server ip port s;
       s \<leftarrow> data_rx_tx_loop n srvr_sock s;
       Some (None, s) } }"

subsection \<open>The UDP clients\<close>

definition test_message :: "u8 list" where
  "test_message = map (\<lambda>c. word_of_nat (of_char c)) ''mohit singh test''"

text \<open>The peer's address is the answer of \<open>inet_aton\<close>.\<close>

definition data_tx_rx :: "int \<Rightarrow> 'a udp_os_scheme \<Rightarrow> (int \<times> 'a udp_os_scheme) option" where
  "data_tx_rx sock s = do {
     (a, s) \<leftarrow> sys_aton s;
     if a = 0 then Some (1, s)
     else do {
       (bytes, s) \<leftarrow> sys_sendto sock (nat a) test_message s;
       if bytes < 0 then Some (2, s)
       else do {
         (bytes, bs, peer, s) \<leftarrow> sys_recvfrom sock BUF_SZ s;
         if bytes < 0 then Some (3, s)
         else if nat bytes \<ge> BUF_SZ then None
         else Some (0, s) } } }"

definition udp_client_main :: "string list \<Rightarrow> 'a udp_os_scheme \<Rightarrow> (int \<times> 'a udp_os_scheme) option" where
  "udp_client_main argv s = do {
     (r, ip, port) \<leftarrow> process_command_line_args argv;
     if r \<noteq> 0 then Some (1, s)
     else do {
       (sock, s) \<leftarrow> sys_newfd s;
       if sock < 0 then Some (2, s)
       else do {
         (r, s) \<leftarrow> data_tx_rx sock s;
         if r \<noteq> 0 then Some (3, s) else Some (0, s) } } }"

definition MSG_SZ :: nat where
  "MSG_SZ = 10480"

text \<open>The multiplexer: a socket shared by a receiving thread and senders. Its initialisation starts the thread.\<close>

definition udp_mmp_rx_turn :: "int \<Rightarrow> 'a os_scheme \<Rightarrow> 'a os_scheme option" where
  "udp_mmp_rx_turn udp_mmp_sock s = do {
     (bytes, msg, peer, s) \<leftarrow> sys_recvfrom udp_mmp_sock MSG_SZ s;
     if bytes < 0 then Some s else if nat bytes \<ge> MSG_SZ then None else Some s }"

definition udp_mmp_init :: "'a os_scheme \<Rightarrow> (int \<times> int option \<times> 'a os_scheme) option" where
  "udp_mmp_init s = do {
     (sock, s) \<leftarrow> sys_newfd s;
     if sock < 0 then Some (1, None, s)
     else do {
       (r, s) \<leftarrow> sys_zero s;
       if r \<noteq> 0 then Some (2, Some sock, sys_close sock s) else Some (0, Some sock, s) } }"

definition udp_mmp_msg_tx :: "int \<Rightarrow> u8 list \<Rightarrow> 'a udp_os_scheme \<Rightarrow> (int \<times> 'a udp_os_scheme) option" where
  "udp_mmp_msg_tx udp_mmp_sock msg s = do {
     (a, s) \<leftarrow> sys_aton s;
     if a = 0 then Some (1, s)
     else do {
       (bytes, s) \<leftarrow> sys_sendto udp_mmp_sock (nat a) msg s;
       if bytes < 0 then Some (2, s) else Some (0, s) } }"

text \<open>A turn of each sending thread; the result of sending is only reported.\<close>

definition udp_msp_sender_turn_1 :: "int \<Rightarrow> 'a udp_os_scheme \<Rightarrow> 'a udp_os_scheme option" where
  "udp_msp_sender_turn_1 udp_mmp_sock s =
     map_option snd (udp_mmp_msg_tx udp_mmp_sock (map (\<lambda>c. word_of_nat (of_char c)) ''mohit singh 9955'') s)"

definition udp_msp_sender_turn_2 :: "int \<Rightarrow> 'a udp_os_scheme \<Rightarrow> 'a udp_os_scheme option" where
  "udp_msp_sender_turn_2 udp_mmp_sock s =
     map_option snd (udp_mmp_msg_tx udp_mmp_sock (map (\<lambda>c. word_of_nat (of_char c)) ''mohit singh 9966'') s)"

text \<open>\<open>main\<close> up to the join that waits for the receiving thread: an exit status, or the socket.\<close>

definition udp_mmp_main :: "'a os_scheme \<Rightarrow> ((int + int) \<times> 'a os_scheme) option" where
  "udp_mmp_main s = do {
     (r, sock, s) \<leftarrow> udp_mmp_init s;
     if r \<noteq> 0 then Some (Inl 1, s)
     else do {
       udp_mmp_sock \<leftarrow> sock;
       (r, s) \<leftarrow> sys_zero s;
       if r \<noteq> 0 then Some (Inl 2, s)
       else do {
         (r, s) \<leftarrow> sys_zero s;
         if r \<noteq> 0 then Some (Inl 3, s) else Some (Inr udp_mmp_sock, s) } } }"

lemma udp_mmp_main_socket:
  "udp_mmp_main s = Some (Inr sock, s') \<Longrightarrow> 0 \<le> sock \<and> sock \<notin> fds s \<and> fds s' = insert sock (fds s)"
  by (auto simp: udp_mmp_main_def udp_mmp_init_def elim!: bind_SomeE sys_newfdE sys_zeroE split: if_splits)

subsection \<open>The UNIX stream server\<close>

record unix_os = os +
  cliSock :: int
  g_ClientCount :: int
  client_threads :: nat

text \<open>
  One turn of a handler's loop; \<open>True\<close> goes on. The socket is read in every turn from the variable all handlers share; an \<open>accept\<close> of
  the main thread between two turns replaces it, so \<open>clientHandler\<close> below is a handler that runs while no other client connects. The hour
  it sleeps before its first turn has no effect on the state. The buffer has 128 bytes.
\<close>

definition clientHandler_turn :: "u8 list \<Rightarrow> 'a unix_os_scheme \<Rightarrow> (bool \<times> u8 list \<times> 'a unix_os_scheme) option" where
  "clientHandler_turn buf s = do {
     (len, bs, s) \<leftarrow> sys_recv (cliSock s) 128 s;
     if len < 0 then Some (False, buf, s)
     else do {
       let buf = overlay bs buf;
       if is_bye buf then Some (False, buf, s)
       else do {
         (len, s) \<leftarrow> sys_send (cliSock s) (take (nat len) buf) s;
         Some (\<not> len < 0, buf, s) } } }"

partial_function (option) clientHandler_loop :: "u8 list \<Rightarrow> 'a unix_os_scheme \<Rightarrow> 'a unix_os_scheme option" where
  "clientHandler_loop buf s = do {
     (go, buf, s) \<leftarrow> clientHandler_turn buf s;
     if go then clientHandler_loop buf s else Some s }"

definition clientHandler_end :: "'a unix_os_scheme \<Rightarrow> 'a unix_os_scheme" where
  "clientHandler_end s = (sys_close (cliSock s) s)\<lparr>g_ClientCount := g_ClientCount s - 1, client_threads := client_threads s - 1\<rparr>"

definition clientHandler :: "'a unix_os_scheme \<Rightarrow> 'a unix_os_scheme option" where
  "clientHandler s = do { s \<leftarrow> clientHandler_loop (replicate 128 0) s; Some (clientHandler_end s) }"

text \<open>A turn of the accept loop; neither \<open>accept\<close> nor \<open>pthread_create\<close> is tested.\<close>

definition unix_accept_turn :: "'a unix_os_scheme \<Rightarrow> 'a unix_os_scheme option" where
  "unix_accept_turn s = do {
     (fd, s) \<leftarrow> sys_newfd s;
     let s = s\<lparr>cliSock := fd\<rparr>;
     (r, s) \<leftarrow> sys_zero s;
     Some (s\<lparr>g_ClientCount := g_ClientCount s + 1, client_threads := client_threads s + (if r < 0 then 0 else 1)\<rparr>) }"

definition unix_start :: "'a unix_os_scheme \<Rightarrow> ((int + int) \<times> 'a unix_os_scheme) option" where
  "unix_start s = do {
     (servSock, s) \<leftarrow> sys_newfd s;
     if servSock < 0 then Some (Inl 1, s)
     else do {
       (r, s) \<leftarrow> sys_zero s;
       if r = - 1 then Some (Inl 1, s)
       else do {
         (r, s) \<leftarrow> sys_zero s;
         if r = - 1 then Some (Inl 1, s) else Some (Inr servSock, s) } } }"

subsection \<open>Datagrams come back\<close>

text \<open>The answers when the datagrams \<open>ms\<close> with their senders arrive and each is sent back.\<close>

fun udp_answers :: "(nat \<times> u8 list) list \<Rightarrow> reply list" where
  "udp_answers [] = []"
| "udp_answers ((p, d) # ms) = Data d # Ok p # Ok 0 # udp_answers ms"

text \<open>
  The UDP server sends every datagram back to the address it came from, unchanged, once and
  in the order of arrival, as long as each is shorter than the buffer; a datagram of the size of the buffer makes it
  write the terminating zero behind the array.
\<close>

theorem udp_server_returns:
  "(replies s = udp_answers ms @ rest \<longrightarrow> list_all (\<lambda>(p, d). length d < BUF_SZ) ms \<longrightarrow>
     (\<exists>s'. data_rx_tx_loop (length ms) fd s = Some s' \<and> datagrams s' = datagrams s @ ms \<and> replies s' = rest)) \<and>
   (replies s = Data d # Ok p # rest \<longrightarrow> length d = BUF_SZ \<longrightarrow> data_rx_tx_turn fd s = None)"
proof (intro conjI impI)
  assume "replies s = udp_answers ms @ rest" "list_all (\<lambda>(p, d). length d < BUF_SZ) ms"
  then show "\<exists>s'. data_rx_tx_loop (length ms) fd s = Some s' \<and> datagrams s' = datagrams s @ ms \<and> replies s' = rest"
  proof (induction ms arbitrary: s)
    case (Cons m ms)
    obtain p d where m: "m = (p, d)" by fastforce
    let ?s = "s\<lparr>rcvd := (rcvd s)(fd := rcvd s fd @ d), replies := udp_answers ms @ rest, datagrams := datagrams s @ [(p, d)]\<rparr>"
    have "data_rx_tx_turn fd s = Some ?s"
      using Cons.prems m
      by (simp add: data_rx_tx_turn_def sys_recvfrom_def sys_recv_def sys_sendto_def sys_zero_def sys_next_def)
    then show ?case using Cons.IH [of ?s] Cons.prems(2) m by auto
  qed simp
next
  assume "replies s = Data d # Ok p # rest" "length d = BUF_SZ"
  then show "data_rx_tx_turn fd s = None"
    by (simp add: data_rx_tx_turn_def sys_recvfrom_def sys_recv_def sys_next_def)
qed

definition udp_state :: "reply list \<Rightarrow> udp_os" where
  "udp_state rs = \<lparr>replies = rs, os_errno = EOTHER 0, fds = {3}, fdflags = (\<lambda>_. 2), sent = (\<lambda>_. []), rcvd = (\<lambda>_. []),
     closed = [], datagrams = []\<rparr>"

theorem udp_server_returns_witness:
  "(\<exists>s'. data_rx_tx_loop 2 3 (udp_state [Data [1], Ok 10, Ok 0, Data [2, 3], Ok 11, Ok 0]) = Some s' \<and>
     datagrams s' = [(10, [1]), (11, [2, 3])]) \<and>
   data_rx_tx_turn 3 (udp_state [Data (replicate 2048 1), Ok 10]) = None"
  using udp_server_returns [of "udp_state [Data [1], Ok 10, Ok 0, Data [2, 3], Ok 11, Ok 0]" "[(10, [1]), (11, [2, 3])]" "[]" 3]
    udp_server_returns [of "udp_state [Data (replicate 2048 1), Ok 10]" "[]" _ 3 "replicate 2048 1" 10]
  by (auto simp: udp_state_def BUF_SZ_def numeral_2_eq_2)

text \<open>A server whose socket could not be created loops on errors instead of ending.\<close>

lemma udp_main_ignores_failure:
  assumes "process_command_line_args argv = Some (0, ip, port)" "replies s = Fail e # Fail (EOTHER 9) # rest"
  shows "\<exists>s'. udp_server_main 1 argv s = Some (None, s') \<and> datagrams s' = datagrams s"
  using assms by (simp add: udp_server_main_def create_udp_server_def sys_newfd_def data_rx_tx_turn_def sys_recvfrom_def
    sys_recv_def sys_next_def)

text \<open>The multiplexer's initialisation leaves a socket open only when it succeeds.\<close>

lemma udp_mmp_init_resources:
  assumes "udp_mmp_init s = Some (r, q, s')"
  shows "if r = 0 then \<exists>fd. q = Some fd \<and> fd \<notin> fds s \<and> fds s' = insert fd (fds s) else fds s' = fds s"
  using assms by (auto simp: udp_mmp_init_def elim!: bind_SomeE sys_newfdE sys_zeroE split: if_splits)

subsection \<open>The shared socket variable\<close>

text \<open>
  Two clients connect, and then the handler of the first fails: it closes the socket of the second
  client, and the socket of the first stays open with no variable holding it.
\<close>

lemma unix_handlers_share_socket:
  assumes "replies s = [Ok n1, Ok 0, Ok n2, Ok 0, Fail e] @ rest" "int n1 \<notin> fds s" "int n2 \<notin> fds s" "n1 \<noteq> n2"
  shows "\<exists>s1 s2 s3. unix_accept_turn s = Some s1 \<and> unix_accept_turn s1 = Some s2 \<and> clientHandler s2 = Some s3 \<and>
    closed s3 = closed s @ [int n2] \<and> int n1 \<in> fds s3 \<and> cliSock s3 = int n2"
  using assms
  by (simp add: unix_accept_turn_def sys_newfd_def sys_zero_def sys_next_def clientHandler_def clientHandler_loop.simps
    clientHandler_turn_def sys_recv_def clientHandler_end_def sys_close_def)

text \<open>
  A client that has closed is not noticed: receiving nothing and sending nothing back leaves the handler where
  it was, however often it happens.
\<close>

lemma unix_handler_spins:
  assumes "replies s = concat (replicate n [Data [], Ok 0]) @ rest" "\<not> is_bye buf"
  shows "\<exists>s'. clientHandler_loop buf s = clientHandler_loop buf s' \<and> replies s' = rest \<and> sent s' = sent s \<and> closed s' = closed s"
  using assms(1)
proof (induction n arbitrary: s)
  case (Suc n)
  let ?s = "s\<lparr>rcvd := (rcvd s)(cliSock s := rcvd s (cliSock s) @ []), replies := concat (replicate n [Data [], Ok 0]) @ rest,
    sent := (sent s)(cliSock s := sent s (cliSock s) @ [])\<rparr>"
  have "clientHandler_turn buf s = Some (True, buf, ?s)"
    using Suc.prems assms(2) by (simp add: clientHandler_turn_def overlay_def sys_recv_def sys_send_def sys_next_def)
  then have "clientHandler_loop buf s = clientHandler_loop buf ?s" by (subst clientHandler_loop.simps) simp
  moreover have "sent ?s = sent s" by simp
  ultimately show ?case using Suc.IH [of ?s] by fastforce
qed auto

end
