(* ===== verification/Unix_Sockets.thy ===== *)
theory Unix_Sockets
  imports Echo_Udp
begin

section \<open>Programs on UNIX domain sockets\<close>

text \<open>
  Models \<open>myClient.c\<close>, \<open>unix_dgram_client.c\<close>, \<open>unix_dgram_server.c\<close> and \<open>spair.c\<close> under \<open>src/src/networking/socket/unixSock\<close>. The
  server of \<open>myClient.c\<close> is the one in \<open>Echo_Udp\<close>. Printing a character array that holds no zero byte, or whose
  bytes were never written, is undefined behaviour and gives \<open>None\<close>.

  The lemmas run the programs against each other: a session of the stream client with a server that has no other client and whole sends, the datagram from its client to
  its server, and the byte through the socket pair and back.
\<close>

subsection \<open>The stream client\<close>

text \<open>
  The lines typed, as \<open>fgets\<close> delivers them into an array of 128 bytes; the end of the list is the end of the input. A server
  that has closed (a length of 0) is not noticed.
\<close>

fun unix_client_loop :: "int \<Rightarrow> u8 list list \<Rightarrow> u8 list \<Rightarrow> 'a os_scheme \<Rightarrow> 'a os_scheme option" where
  "unix_client_loop sock [] buf s = Some s"
| "unix_client_loop sock (line # rest) buf s =
     (if 0 \<in> set line \<or> length line \<ge> 128 then None
      else do {
        let buf = overlay (line @ [0]) buf;
        (len, s) \<leftarrow> sys_send sock line s;
        if len < 0 then Some s
        else if is_bye buf then Some s
        else do {
          (len, bs, s) \<leftarrow> sys_recv sock 128 s;
          if len < 0 then Some s
          else do {
            let buf = overlay bs buf;
            if 0 \<notin> set buf then None else unix_client_loop sock rest buf s } } })"

definition unix_client_main :: "u8 list list \<Rightarrow> 'a os_scheme \<Rightarrow> (int \<times> 'a os_scheme) option" where
  "unix_client_main input s = do {
     (sock, s) \<leftarrow> sys_newfd s;
     if sock < 0 then Some (1, s)
     else do {
       (retVal, s) \<leftarrow> sys_zero s;
       if retVal < 0 then Some (1, s)
       else do {
         s \<leftarrow> unix_client_loop sock input (replicate 128 0) s;
         Some (0, sys_close sock s) } } }"

subsection \<open>Datagrams\<close>

definition DATA :: "u8 list" where
  "DATA = map (\<lambda>c. word_of_nat (of_char c)) (''This is a test msg !'' @ [CHR 0x0A]) @ [0]"

text \<open>A turn of the sending loop; a failure is only reported. The peer is the one name the programs use.\<close>

definition dgram_client_turn :: "int \<Rightarrow> 'a udp_os_scheme \<Rightarrow> 'a udp_os_scheme option" where
  "dgram_client_turn sock s = map_option snd (sys_sendto sock 0 DATA s)"

definition dgram_client_start :: "'a os_scheme \<Rightarrow> ((int + int) \<times> 'a os_scheme) option" where
  "dgram_client_start s = do {
     (sock, s) \<leftarrow> sys_newfd s;
     Some (if sock < 0 then Inl 1 else Inr sock, s) }"

text \<open>The exit status and the text printed.\<close>

definition dgram_server_main :: "'a os_scheme \<Rightarrow> (int \<times> u8 list \<times> 'a os_scheme) option" where
  "dgram_server_main s = do {
     (sock, s) \<leftarrow> sys_newfd s;
     if sock < 0 then Some (1, [], s)
     else do {
       (r, s) \<leftarrow> sys_zero s;
       if r \<noteq> 0 then Some (1, [], s)
       else do {
         (n, bs, s) \<leftarrow> sys_recv sock 1024 s;
         if 0 \<notin> set bs then None
         else Some (0, takeWhile (\<lambda>b. b \<noteq> 0) bs, sys_close sock s) } } }"

subsection \<open>A socket pair\<close>

definition to_upper :: "u8 \<Rightarrow> u8" where
  "to_upper b = (if 97 \<le> b \<and> b \<le> 122 then b - 32 else b)"

text \<open>The second result is the byte printed last.\<close>

definition spair_child :: "int \<Rightarrow> 'a os_scheme \<Rightarrow> (int \<times> u8 \<times> 'a os_scheme) option" where
  "spair_child fd s = do {
     (n, bs, s) \<leftarrow> sys_recv fd 1 s;
     case bs of [] \<Rightarrow> None
     | b # _ \<Rightarrow> do {
         let b = to_upper b;
         (_, s) \<leftarrow> sys_send fd [b] s;
         Some (0, b, s) } }"

definition spair_parent :: "int \<Rightarrow> 'a os_scheme \<Rightarrow> (int \<times> u8 \<times> 'a os_scheme) option" where
  "spair_parent fd s = do {
     (_, s) \<leftarrow> sys_send fd [98] s;
     (n, bs, s) \<leftarrow> sys_recv fd 1 s;
     case bs of [] \<Rightarrow> None
     | b # _ \<Rightarrow> do { (_, s) \<leftarrow> sys_zero s; Some (0, b, s) } }"

text \<open>\<open>main\<close> in both processes; a failed \<open>fork\<close> is taken for the parent.\<close>

definition spair_main :: "'a os_scheme \<Rightarrow> (int \<times> u8 option \<times> 'a os_scheme) option" where
  "spair_main s = do {
     (ret, sv0, sv1, s) \<leftarrow> sys_pipe s;
     if ret = - 1 then Some (1, None, s)
     else do {
       (pid, s) \<leftarrow> sys_next s;
       (st, b, s) \<leftarrow> (case pid of Ok 0 \<Rightarrow> spair_child sv1 s | Ok _ \<Rightarrow> spair_parent sv0 s | Fail e \<Rightarrow> spair_parent sv0 s | _ \<Rightarrow> None);
       Some (st, Some b, s) } }"

subsection \<open>A session\<close>

text \<open>
  A message of the session: a line with its newline at the end and without zero bytes that fits the arrays.
\<close>

definition unix_line :: "u8 list \<Rightarrow> bool" where
  "unix_line l \<longleftrightarrow> l \<noteq> [] \<and> last l = 10 \<and> 0 \<notin> set l \<and> length l < 128"

text \<open>Old bytes in the array cannot turn a line into a farewell, since the newline separates them.\<close>

lemma line_bye_overlay:
  assumes "l \<noteq> []" "last l = 10"
  shows "is_bye (overlay (l @ xs) buf) = is_bye l"
proof -
  consider "l = [10]" | a where "l = [a, 10]" | a b c ys where "l = a # b # c # ys"
    using assms by (cases l rule: list.exhaust; auto) (metis last.simps list.exhaust)
  then show ?thesis
  proof cases
    case 3
    then show ?thesis by (simp add: is_bye_def overlay_def)
  qed (auto simp: is_bye_def overlay_def to_lower_def take_Cons' split: if_splits)
qed

fun server_answers :: "u8 list list \<Rightarrow> u8 list \<Rightarrow> reply list" where
  "server_answers [] bye = [Data bye]"
| "server_answers (l # ls) bye = Data l # Ok (length l) # server_answers ls bye"

fun unix_client_answers :: "u8 list list \<Rightarrow> u8 list \<Rightarrow> reply list" where
  "unix_client_answers [] bye = [Ok (length bye)]"
| "unix_client_answers (l # ls) bye = Ok (length l) # Data l # unix_client_answers ls bye"

lemma client_side:
  "list_all (\<lambda>l. unix_line l \<and> \<not> is_bye l) ls \<Longrightarrow> unix_line bye \<Longrightarrow> is_bye bye \<Longrightarrow> length buf = 128 \<Longrightarrow>
   replies s = unix_client_answers ls bye @ rest \<Longrightarrow>
   \<exists>s'. unix_client_loop fd (ls @ [bye]) buf s = Some s' \<and> sent s' fd = sent s fd @ concat ls @ bye \<and>
     rcvd s' fd = rcvd s fd @ concat ls \<and> replies s' = rest \<and> closed s' = closed s"
proof (induction ls arbitrary: s buf)
  case Nil
  have "is_bye (overlay (bye @ [0]) buf)" using Nil.prems(2,3) line_bye_overlay [of bye "[0]" buf] by (auto simp: unix_line_def)
  then show ?case using Nil.prems by (simp add: unix_line_def sys_send_def sys_next_def)
next
  case (Cons l ls)
  let ?b = "overlay l (overlay (l @ [0]) buf)"
  let ?s = "s\<lparr>sent := (sent s)(fd := sent s fd @ l), replies := unix_client_answers ls bye @ rest, rcvd := (rcvd s)(fd := rcvd s fd @ l)\<rparr>"
  have l: "unix_line l" "\<not> is_bye (overlay (l @ [0]) buf)"
    using Cons.prems(1) line_bye_overlay [of l "[0]" buf] by (auto simp: unix_line_def)
  have b: "0 \<in> set ?b" "length ?b = 128" using l(1) Cons.prems(4) by (auto simp: overlay_def unix_line_def)
  have "unix_client_loop fd ((l # ls) @ [bye]) buf s = unix_client_loop fd (ls @ [bye]) ?b ?s"
    using Cons.prems(5) l b(1) by (simp add: unix_line_def sys_send_def sys_recv_def sys_next_def Let_def)
  then show ?case using Cons.IH [of ?b ?s] Cons.prems(1-3) b(2) by simp
qed

lemma server_side:
  "list_all (\<lambda>l. unix_line l \<and> \<not> is_bye l) ls \<Longrightarrow> unix_line bye \<Longrightarrow> is_bye bye \<Longrightarrow> length buf = 128 \<Longrightarrow>
   replies s = server_answers ls bye @ rest \<Longrightarrow>
   \<exists>s'. clientHandler_loop buf s = Some s' \<and> rcvd s' (cliSock s) = rcvd s (cliSock s) @ concat ls @ bye \<and>
     sent s' (cliSock s) = sent s (cliSock s) @ concat ls \<and> replies s' = rest \<and> closed s' = closed s \<and> cliSock s' = cliSock s \<and>
     g_ClientCount s' = g_ClientCount s"
proof (induction ls arbitrary: s buf)
  case Nil
  have "is_bye (overlay bye buf)" using Nil.prems(2,3) line_bye_overlay [of bye "[]" buf] by (auto simp: unix_line_def)
  then show ?case using Nil.prems
    by (subst clientHandler_loop.simps) (simp add: clientHandler_turn_def unix_line_def sys_recv_def sys_next_def)
next
  case (Cons l ls)
  let ?b = "overlay l buf" and ?c = "cliSock s"
  let ?s = "s\<lparr>rcvd := (rcvd s)(?c := rcvd s ?c @ l), replies := server_answers ls bye @ rest, sent := (sent s)(?c := sent s ?c @ l)\<rparr>"
  have l: "unix_line l" "\<not> is_bye (overlay l buf)"
    using Cons.prems(1) line_bye_overlay [of l "[]" buf] by (auto simp: unix_line_def)
  have b: "length ?b = 128" "take (length l) ?b = l" using l(1) Cons.prems(4) by (auto simp: overlay_def unix_line_def)
  have "clientHandler_turn buf s = Some (True, ?b, ?s)"
    using Cons.prems(5) l b by (simp add: clientHandler_turn_def unix_line_def sys_recv_def sys_send_def sys_next_def Let_def)
  then have "clientHandler_loop buf s = clientHandler_loop ?b ?s" by (subst clientHandler_loop.simps) simp
  then show ?case using Cons.IH [of ?b ?s] Cons.prems(1-3) b(1) by simp
qed

text \<open>
  A session of the client with a server that has no other client, when every send is whole and every line is received in one piece: against
  the answers such a connection gives each side, both programs run to their end, each has received what the other has sent, and both close their socket.
\<close>

lemma unix_session:
  assumes "list_all (\<lambda>l. unix_line l \<and> \<not> is_bye l) ls" "unix_line bye" "is_bye bye"
    and "replies c = Ok fd # Ok 0 # unix_client_answers ls bye" "int fd \<notin> fds c" "sent c (int fd) = []" "rcvd c (int fd) = []"
    and "replies s = server_answers ls bye" "sent s (cliSock s) = []" "rcvd s (cliSock s) = []"
  shows "\<exists>c' s'. unix_client_main (ls @ [bye]) c = Some (0, c') \<and> clientHandler s = Some s' \<and>
    sent c' (int fd) = concat ls @ bye \<and> rcvd s' (cliSock s) = sent c' (int fd) \<and>
    sent s' (cliSock s) = concat ls \<and> rcvd c' (int fd) = sent s' (cliSock s) \<and>
    closed c' = closed c @ [int fd] \<and> closed s' = closed s @ [cliSock s] \<and> g_ClientCount s' = g_ClientCount s - 1"
proof -
  let ?c = "c\<lparr>fds := insert (int fd) (fds c), replies := unix_client_answers ls bye\<rparr>"
  obtain c1 where c1: "unix_client_loop (int fd) (ls @ [bye]) (replicate 128 0) ?c = Some c1" "sent c1 (int fd) = concat ls @ bye"
    "rcvd c1 (int fd) = concat ls" "closed c1 = closed c"
    using client_side [OF assms(1-3), of "replicate 128 0" ?c "[]" "int fd"] assms(6,7) by auto
  obtain s1 where s1: "clientHandler_loop (replicate 128 0) s = Some s1" "rcvd s1 (cliSock s) = concat ls @ bye"
    "sent s1 (cliSock s) = concat ls" "closed s1 = closed s" "cliSock s1 = cliSock s"
    "g_ClientCount s1 = g_ClientCount s"
    using server_side [OF assms(1-3), of "replicate 128 0" s "[]"] assms(8-10) by auto
  have "unix_client_main (ls @ [bye]) c = Some (0, sys_close (int fd) c1)"
    using c1(1) assms(4,5) by (simp add: unix_client_main_def sys_newfd_def sys_zero_def sys_next_def)
  moreover have "clientHandler s = Some (clientHandler_end s1)" using s1(1) by (simp add: clientHandler_def)
  ultimately show ?thesis using c1 s1 by (simp add: clientHandler_end_def sys_close_def)
qed

definition unix_state :: "reply list \<Rightarrow> unix_os" where
  "unix_state rs = \<lparr>replies = rs, os_errno = EOTHER 0, fds = {5}, fdflags = (\<lambda>_. 2), sent = (\<lambda>_. []), rcvd = (\<lambda>_. []),
     closed = [], cliSock = 5, g_ClientCount = 1, client_threads = 1\<rparr>"

text \<open>The lines \<open>hi\<close> and \<open>bye\<close>.\<close>

lemma unix_session_witness:
  "\<exists>c' s'. unix_client_main [[104, 105, 10], [98, 121, 101, 10]] (boot [Ok 3, Ok 0, Ok 3, Data [104, 105, 10], Ok 4]) = Some (0, c') \<and>
    clientHandler (unix_state [Data [104, 105, 10], Ok 3, Data [98, 121, 101, 10]]) = Some s' \<and> rcvd c' 3 = [104, 105, 10] \<and>
    rcvd s' 5 = [104, 105, 10, 98, 121, 101, 10] \<and> closed c' = [3] \<and> closed s' = [5] \<and> g_ClientCount s' = 0"
  using unix_session [of "[[104, 105, 10]]" "[98, 121, 101, 10]" "boot [Ok 3, Ok 0, Ok 3, Data [104, 105, 10], Ok 4]" 3
    "unix_state [Data [104, 105, 10], Ok 3, Data [98, 121, 101, 10]]"]
  by (simp add: unix_line_def is_bye_def to_lower_def boot_def unix_state_def) metis

text \<open>
  The server prints what the client sends, since the message carries its zero byte; a datagram without one is printed with the bytes behind it.
\<close>

lemma dgram_delivers:
  assumes "replies c = Ok 0 # rest" "replies s = [Ok fd, Ok 0, Data d]" "int fd \<notin> fds s"
    and "datagrams c = []" "dgram_client_turn sock c = Some c'" "datagrams c' = [(0, d)]"
  shows "\<exists>s'. dgram_server_main s = Some (0, map (\<lambda>c. word_of_nat (of_char c)) (''This is a test msg !'' @ [CHR 0x0A]), s') \<and> closed s' = closed s @ [int fd]"
proof -
  have d: "d = DATA" using assms(1,4-6) by (auto simp: dgram_client_turn_def sys_sendto_def sys_zero_def sys_next_def)
  show ?thesis using assms(2,3) by (simp add: d DATA_def dgram_server_main_def sys_newfd_def sys_zero_def sys_recv_def sys_next_def sys_close_def)
qed

lemma dgram_without_end:
  assumes "replies s = [Ok fd, Ok 0, Data d]" "int fd \<notin> fds s" "0 \<notin> set d"
  shows "dgram_server_main s = None"
  using assms by (simp add: dgram_server_main_def sys_newfd_def sys_zero_def sys_recv_def sys_next_def)

text \<open>
  The parent gets its letter back as a capital: with a kernel that delivers to each process what the other one sent, both print it.
\<close>

lemma spair_capital:
  assumes "replies p = [Ok a, Ok b, Ok (Suc pid), Ok 1, Data [66], Ok 0]" "replies c = [Ok a, Ok b, Ok 0, Data [98], Ok 1]"
    and "int a \<notin> fds p" "int b \<notin> fds p" "int a \<notin> fds c" "int b \<notin> fds c" "a \<noteq> b" "sent p (int a) = []" "sent c (int b) = []"
  shows "\<exists>p' c'. spair_main p = Some (0, Some 66, p') \<and> spair_main c = Some (0, Some 66, c') \<and>
    rcvd c' (int b) = rcvd c (int b) @ sent p' (int a) \<and> rcvd p' (int a) = rcvd p (int a) @ sent c' (int b)"
  using assms by (simp add: spair_main_def spair_parent_def spair_child_def sys_pipe_def sys_newfd_def sys_send_def sys_recv_def
    sys_zero_def sys_next_def to_upper_def)

end
