(* ===== verification/File_Copy.thy ===== *)
theory File_Copy
  imports Posix
begin

section \<open>Copying a file, blocking and asynchronous\<close>


definition REALLOC_THRESHOLD :: nat where
  "REALLOC_THRESHOLD = 128"

record copy_os = os +
  src_file :: "u8 list"
  file_pos :: nat
  copy_file :: "u8 list"

text \<open>The variables both programs have; \<open>buf_size\<close> is the length of the buffer.\<close>

record copy_buf =
  buf_addr :: addr
  buf :: "u8 option list"
  buf_len :: nat

abbreviation buf_size :: "'a copy_buf_scheme \<Rightarrow> nat" where
  "buf_size ri \<equiv> length (buf ri)"

record aiocb =
  aio_fildes :: int
  aio_offset :: nat
  aio_buf :: "addr \<times> nat"
  aio_nbytes :: nat

record read_info = copy_buf +
  ri_fd :: int
  cb :: aiocb

subsection \<open>The calls\<close>

text \<open>The bytes of a file from \<open>off\<close> on that a read of \<open>n\<close> bytes delivers when \<open>k\<close> are ready.\<close>

definition deliver :: "u8 list \<Rightarrow> nat \<Rightarrow> nat \<Rightarrow> nat \<Rightarrow> u8 list" where
  "deliver f off n k = take (min n (max 1 k)) (drop off f)"

definition sys_read :: "int \<Rightarrow> nat \<Rightarrow> 'a copy_os_scheme \<Rightarrow> (int \<times> u8 list \<times> 'a copy_os_scheme) option" where
  "sys_read fd n s =
     (if fd \<notin> fds s then Some (- 1, [], s\<lparr>os_errno := EOTHER 9\<rparr>)
      else do {
        (r, s) \<leftarrow> sys_next s;
        case r of Fail e \<Rightarrow> Some (- 1, [], s\<lparr>os_errno := e\<rparr>)
        | Ok k \<Rightarrow> do {
            let bs = deliver (src_file s) (file_pos s) n k;
            Some (int (length bs), bs, s\<lparr>file_pos := file_pos s + length bs\<rparr>) }
        | _ \<Rightarrow> None })"

text \<open>\<open>aio_return\<close>: the result of the completed read, and the bytes it has delivered.\<close>

definition aio_return :: "aiocb \<Rightarrow> 'a copy_os_scheme \<Rightarrow> (int \<times> u8 list \<times> 'a copy_os_scheme) option" where
  "aio_return c s =
     (if aio_fildes c \<notin> fds s then Some (- 1, [], s\<lparr>os_errno := EOTHER 9\<rparr>)
      else do {
        (r, s) \<leftarrow> sys_next s;
        case r of Fail e \<Rightarrow> Some (- 1, [], s\<lparr>os_errno := e\<rparr>)
        | Ok k \<Rightarrow> do {
            let bs = deliver (src_file s) (aio_offset c) (aio_nbytes c) k;
            Some (int (length bs), bs, s) }
        | _ \<Rightarrow> None })"

text \<open>\<open>write\<close> to the copy, which is opened without being emptied, from its beginning.\<close>

definition sys_write_copy :: "u8 list \<Rightarrow> 'a copy_os_scheme \<Rightarrow> (int \<times> 'a copy_os_scheme) option" where
  "sys_write_copy bs s = do {
     (r, s) \<leftarrow> sys_next s;
     case r of Fail e \<Rightarrow> Some (- 1, s\<lparr>os_errno := e\<rparr>)
     | Ok k \<Rightarrow> do {
         let m = min k (length bs);
         Some (int m, s\<lparr>copy_file := take m bs @ drop m (copy_file s)\<rparr>) }
     | _ \<Rightarrow> None }"

lemma sys_read_fuel: "sys_read fd n s = Some (i, bs, s') \<Longrightarrow> 0 \<le> i \<Longrightarrow> fuel s' < fuel s"
  by (auto simp: sys_read_def Let_def elim!: bind_SomeE split: if_splits reply.splits dest!: sys_next_fuel)

lemma aio_return_fuel: "aio_return c s = Some (i, bs, s') \<Longrightarrow> 0 \<le> i \<Longrightarrow> fuel s' < fuel s"
  by (auto simp: aio_return_def Let_def elim!: bind_SomeE split: if_splits reply.splits dest!: sys_next_fuel)

subsection \<open>The buffer\<close>

text \<open>The kernel stores bytes at a place in memory, which must lie in the buffer.\<close>

definition store_bytes :: "addr \<times> nat \<Rightarrow> u8 list \<Rightarrow> 'a copy_buf_scheme \<Rightarrow> 'a copy_buf_scheme option" where
  "store_bytes p bs ri =
     (case p of (a, off) \<Rightarrow>
        if a \<noteq> buf_addr ri \<or> off + length bs > buf_size ri then None
        else Some (ri\<lparr>buf := take off (buf ri) @ map Some bs @ drop (off + length bs) (buf ri)\<rparr>))"

text \<open>What both programs do when little room is left.\<close>

definition grow :: "'a copy_buf_scheme \<Rightarrow> 'b os_scheme \<Rightarrow> ('a copy_buf_scheme \<times> 'b os_scheme) option" where
  "grow ri s =
     (if int (buf_size ri) - int (buf_len ri) \<le> int REALLOC_THRESHOLD then do {
        (p, s) \<leftarrow> sys_malloc s;
        a \<leftarrow> p;
        Some (ri\<lparr>buf_addr := a, buf := buf ri @ replicate (buf_size ri) None\<rparr>, s) }
      else Some (ri, s))"

lemma grow_fuel: "grow ri s = Some (ri', s') \<Longrightarrow> fuel s' \<le> fuel s"
  by (auto simp: grow_def elim!: bind_SomeE split: if_splits dest!: sys_fuel)

text \<open>Writing the buffer to the copy; the exit status when it cannot be opened.\<close>

definition write_copy :: "'b copy_buf_scheme \<Rightarrow> 'a copy_os_scheme \<Rightarrow> (int \<times> 'a copy_os_scheme) option" where
  "write_copy ri s = do {
     (write_fd, s) \<leftarrow> sys_newfd s;
     if write_fd < 0 then Some (1, s)
     else do {
       bytes \<leftarrow> those (take (buf_len ri) (buf ri));
       (bytes_written, s) \<leftarrow> sys_write_copy bytes s;
       Some (0, s) } }"

subsection \<open>The blocking program\<close>

function read_loop :: "int \<Rightarrow> copy_buf \<Rightarrow> 'a copy_os_scheme \<Rightarrow> (copy_buf \<times> 'a copy_os_scheme) option" where
  "read_loop read_fd ri s = do {
     (bytes_read, bs, s1) \<leftarrow> sys_read read_fd (buf_size ri - buf_len ri) s;
     ri \<leftarrow> store_bytes (buf_addr ri, buf_len ri) bs ri;
     if bytes_read < 0 then Some (ri, s1)
     else if bytes_read = 0 then Some (ri, s1)
     else do {
       let ri = ri\<lparr>buf_len := buf_len ri + nat bytes_read\<rparr>;
       (ri, s2) \<leftarrow> grow ri s1;
       read_loop read_fd ri s2 } }"
  by pat_completeness auto
termination
  by (relation "measure (\<lambda>(fd, ri, s). fuel s)") (auto dest!: sys_read_fuel grow_fuel)

declare read_loop.simps [simp del]


subsection \<open>The asynchronous program\<close>

text \<open>
  What a call of the program leaves pending: nothing any more, the end of the process with a status, or the
  read of the control block, whose completion will run the callback.
\<close>

datatype pending = Nothing | Exited int | Reading

definition ECANCELED :: int where
  "ECANCELED = 125"

definition EINPROGRESS_code :: int where
  "EINPROGRESS_code = 115"

text \<open>
  \<open>aio_read\<close> and the test of its state with \<open>aio_error\<close>.
\<close>

definition issue_read :: "'a os_scheme \<Rightarrow> (pending \<times> 'a os_scheme) option" where
  "issue_read s = do {
     (ret, s) \<leftarrow> sys_zero s;
     if ret < 0 then Some (Exited 1, s)
     else do {
       (ret, s) \<leftarrow> sys_aton s;
       if ret = 0 \<or> ret = ECANCELED \<or> ret = EINPROGRESS_code then Some (Reading, s) else Some (Exited 1, s) } }"


text \<open>The callback: the completed read has stored its bytes where the control block says.\<close>

definition read_callback :: "read_info \<Rightarrow> 'a copy_os_scheme \<Rightarrow> (read_info \<times> pending \<times> 'a copy_os_scheme) option" where
  "read_callback ri s = do {
     (ret, bs, s) \<leftarrow> aio_return (cb ri) s;
     ri \<leftarrow> store_bytes (aio_buf (cb ri)) bs ri;
     if ret < 0 then Some (ri, Nothing, s)
     else if ret = 0 then do {
       (status, s) \<leftarrow> write_copy ri s;
       Some (ri, if status = 0 then Nothing else Exited status, s) }
     else do {
       let ri = ri\<lparr>buf_len := buf_len ri + nat ret\<rparr>;
       (ri, s) \<leftarrow> grow ri s;
       let ri = ri\<lparr>cb := (cb ri)\<lparr>aio_offset := buf_len ri\<rparr>\<rparr>;
       let ri = ri\<lparr>cb := (cb ri)\<lparr>aio_nbytes := buf_size ri - buf_len ri\<rparr>\<rparr>;
       let ri = ri\<lparr>cb := (cb ri)\<lparr>aio_buf := (buf_addr ri, buf_len ri)\<rparr>\<rparr>;
       (pend, s) \<leftarrow> issue_read s;
       Some (ri, pend, s) } }"

lemma issue_read_fuel: "issue_read s = Some (p, s') \<Longrightarrow> fuel s' < fuel s"
  by (auto simp: issue_read_def sys_aton_def elim!: bind_SomeE split: if_splits reply.splits dest!: sys_fuel sys_next_fuel)

lemma read_callback_fuel: "read_callback ri s = Some (ri', Reading, s') \<Longrightarrow> fuel s' < fuel s"
  by (auto simp: read_callback_def Let_def elim!: bind_SomeE split: if_splits dest!: aio_return_fuel grow_fuel issue_read_fuel)

text \<open>The callbacks that follow a pending read, until nothing is pending.\<close>

function async_run :: "read_info \<Rightarrow> pending \<Rightarrow> 'a copy_os_scheme \<Rightarrow> (int \<times> 'a copy_os_scheme) option" where
  "async_run ri Nothing s = Some (0, s)"
| "async_run ri (Exited n) s = Some (n, s)"
| "async_run ri Reading s =
     (case read_callback ri s of None \<Rightarrow> None
      | Some (ri', Nothing, s') \<Rightarrow> Some (0, s')
      | Some (ri', Exited n, s') \<Rightarrow> Some (n, s')
      | Some (ri', Reading, s') \<Rightarrow> async_run ri' Reading s')"
  by pat_completeness auto
termination
  by (relation "measure (\<lambda>(ri, p, s). fuel s)") (auto dest!: read_callback_fuel)


subsection \<open>The buffer holds the beginning of the file\<close>

text \<open>\<open>rep ri n xs\<close>: a buffer of \<open>n\<close> bytes holds the bytes \<open>xs\<close>, with room left.\<close>

definition rep :: "'a copy_buf_scheme \<Rightarrow> nat \<Rightarrow> u8 list \<Rightarrow> bool" where
  "rep ri n xs \<longleftrightarrow> (\<exists>b. buf ri = map Some xs @ b \<and> buf_len ri = length xs \<and> length xs + length b = n \<and> REALLOC_THRESHOLD < length b)"


lemma rep_sizes: "rep ri n xs \<Longrightarrow> buf_size ri = n \<and> buf_len ri = length xs \<and> length xs + REALLOC_THRESHOLD < n"
  by (auto simp: rep_def)





subsection \<open>Both programs copy the file\<close>








lemma store_nothing: "rep ri n xs \<Longrightarrow> store_bytes (buf_addr ri, length xs) [] ri = Some ri"
  by (auto simp: rep_def store_bytes_def)



text \<open>The control block asks for the bytes of the file behind those in the buffer, to be stored behind them.\<close>

definition cb_ok :: "read_info \<Rightarrow> 'a copy_os_scheme \<Rightarrow> bool" where
  "cb_ok ri s \<longleftrightarrow> aio_fildes (cb ri) \<in> fds s \<and> aio_offset (cb ri) = buf_len ri \<and> aio_buf (cb ri) = (buf_addr ri, buf_len ri) \<and>
     aio_nbytes (cb ri) = buf_size ri - buf_len ri"






subsection \<open>Where they differ\<close>

text \<open>When a read fails the blocking program writes what it has read, and the asynchronous one writes nothing.\<close>

lemma read_error_differs:
  assumes "rep ri n xs" "rep rj n xs" "replies s = Fail e # rest" "fd \<in> fds s" "cb_ok rj s"
  shows "\<exists>s1 s2. read_loop fd ri s = Some (ri, s1) \<and> async_run rj Reading s = Some (0, s2) \<and> copy_file s2 = copy_file s"
  using assms(3-5) store_nothing [OF assms(1)] store_nothing [OF assms(2)] rep_sizes [OF assms(1)] rep_sizes [OF assms(2)]
  by (simp add: read_loop.simps read_callback_def sys_read_def aio_return_def sys_next_def cb_ok_def)

end
