(* ===== verification/Ioctl_Driver.thy ===== *)
theory Ioctl_Driver
  imports Posix C_Text
begin

section \<open>The character device driver\<close>

text \<open>
  Models \<open>src/src/system/ioctl/driver_ioctl.c\<close>, a kernel module that keeps two numbers and gives them out and takes them
  with \<open>ioctl\<close>, and the program \<open>user_ioctl.c\<close> that calls it. The state has the two numbers and what the
  module has registered with the kernel. The kernel's functions answer like system calls, with a
  negative error number on failure. The numbers of the commands are those of a 64-bit machine.

  The lemmas show that set and get are a round trip that an unreadable user pointer does not disturb,
  and which registrations are undone when initialisation fails.
\<close>

record test_ioctl =
  code :: int
  val :: int

record drv_os = os +
  drv_code :: int
  drv_val :: int
  region :: bool
  chardev :: bool
  dev_class :: bool
  device :: bool

definition TEST_GET :: u32 where "TEST_GET = 0x80087101"
definition TEST_SET :: u32 where "TEST_SET = 0x80087102"

fun errno_number :: "errno \<Rightarrow> nat" where
  "errno_number EINTR = 4" | "errno_number ECHILD = 10" | "errno_number EAGAIN = 11" | "errno_number ENOMEM = 12"
| "errno_number EEXIST = 17" | "errno_number EINPROGRESS = 115" | "errno_number (EOTHER n) = n"

text \<open>A call inside the kernel: 0, or the negative of an error number, which is never 0.\<close>

definition kcall :: "'a os_scheme \<Rightarrow> (int \<times> 'a os_scheme) option" where
  "kcall s = do {
     (r, s) \<leftarrow> sys_next s;
     case r of Fail e \<Rightarrow> if errno_number e = 0 then None else Some (- int (errno_number e), s)
     | Ok _ \<Rightarrow> Some (0, s)
     | _ \<Rightarrow> None }"

text \<open>
  \<open>driver_ioctl\<close>: the structure at the user's pointer is an argument and a result; \<open>copy_to_user\<close> and \<open>copy_from_user\<close>
  fail with an answer other than 0, the bytes not copied. 13 is \<open>EACCES\<close>.
\<close>

definition driver_ioctl :: "u32 \<Rightarrow> test_ioctl \<Rightarrow> 'a drv_os_scheme \<Rightarrow> (int \<times> test_ioctl \<times> 'a drv_os_scheme) option" where
  "driver_ioctl cmd arg s =
     (if cmd = TEST_GET then do {
        (left, s) \<leftarrow> sys_aton s;
        if left \<noteq> 0 then Some (- 13, arg, s)
        else Some (0, \<lparr>code = drv_code s, val = drv_val s\<rparr>, s) }
      else if cmd = TEST_SET then do {
        (left, s) \<leftarrow> sys_aton s;
        if left \<noteq> 0 then Some (- 13, arg, s)
        else Some (0, arg, s\<lparr>drv_code := code arg, drv_val := val arg\<rparr>) }
      else Some (0, arg, s))"

definition driver_ioctl_init :: "'a drv_os_scheme \<Rightarrow> (int \<times> 'a drv_os_scheme) option" where
  "driver_ioctl_init s = do {
     (ret, s) \<leftarrow> kcall s;
     if ret < 0 then Some (ret, s)
     else do {
       let s = s\<lparr>region := True\<rparr>;
       (ret, s) \<leftarrow> kcall s;
       if ret < 0 then Some (ret, s)
       else do {
         let s = s\<lparr>chardev := True\<rparr>;
         (ret, s) \<leftarrow> kcall s;
         if ret < 0 then Some (ret, s\<lparr>chardev := False, region := False\<rparr>)
         else do {
           let s = s\<lparr>dev_class := True\<rparr>;
           (ret, s) \<leftarrow> kcall s;
           if ret < 0 then Some (ret, s\<lparr>dev_class := False, chardev := False, region := False\<rparr>)
           else Some (0, s\<lparr>device := True\<rparr>) } } } }"

definition driver_ioctl_exit :: "'a drv_os_scheme \<Rightarrow> 'a drv_os_scheme" where
  "driver_ioctl_exit s = s\<lparr>device := False, dev_class := False, chardev := False, region := False\<rparr>"

text \<open>
  The user program: the operation is its argument, and the numbers typed are \<open>input\<close>. The result is the exit status and
  what it prints as the two numbers. After a failed get it prints uninitialised memory, which is undefined.
\<close>

definition user_ioctl_main ::
  "string list \<Rightarrow> test_ioctl \<Rightarrow> 'a drv_os_scheme \<Rightarrow> (int \<times> test_ioctl option \<times> 'a drv_os_scheme) option" where
  "user_ioctl_main argv input s =
     (if length argv \<noteq> 1 then Some (1, None, s)
      else do {
        op \<leftarrow> atoi (argv ! 0);
        (fd, s) \<leftarrow> sys_newfd s;
        if fd = - 1 then Some (2, None, s)
        else if op = 1 then do {
          (r, io, s) \<leftarrow> driver_ioctl TEST_GET \<lparr>code = 0, val = 0\<rparr> s;
          if r \<noteq> 0 then None else Some (0, Some io, s) }
        else if op = 2 then do {
          (r, io, s) \<leftarrow> driver_ioctl TEST_SET input s;
          Some (0, None, s) }
        else Some (0, None, s) })"

subsection \<open>Set and get\<close>

lemma commands_differ [simp]: "TEST_SET \<noteq> TEST_GET"
  by (simp add: TEST_SET_def TEST_GET_def)

text \<open>
  What the driver was given with \<open>TEST_SET\<close> is what \<open>TEST_GET\<close> returns, also after a failed or unknown call in
  between; a call whose user memory cannot be accessed fails with \<open>EACCES\<close> and changes neither the driver nor the
  user's structure.
\<close>

theorem driver_set_get:
  assumes "driver_ioctl TEST_SET io s = Some (0, io', s1)" and "driver_ioctl cmd arg s1 = Some (r, arg', s3)" and "r \<noteq> 0 \<or> cmd \<notin> {TEST_GET, TEST_SET}"
    and "driver_ioctl TEST_GET old s3 = Some (0, new, s4)"
  shows "new = io \<and> arg' = arg \<and> (r \<noteq> 0 \<longrightarrow> r = - 13) \<and> drv_code s4 = code io \<and> drv_val s4 = val io"
proof -
  have "drv_code s1 = code io" "drv_val s1 = val io"
    using assms(1) by (auto simp: driver_ioctl_def elim!: bind_SomeE sys_atonE split: if_splits)
  moreover have "drv_code s3 = drv_code s1" "drv_val s3 = drv_val s1" "arg' = arg" "r \<noteq> 0 \<longrightarrow> r = - 13"
    using assms(2,3) by (auto simp: driver_ioctl_def elim!: bind_SomeE sys_atonE split: if_splits)
  moreover have "new = \<lparr>code = drv_code s3, val = drv_val s3\<rparr>" "drv_code s4 = drv_code s3" "drv_val s4 = drv_val s3"
    using assms(4) by (auto simp: driver_ioctl_def elim!: bind_SomeE sys_atonE split: if_splits)
  ultimately show ?thesis by simp
qed

definition drv_state :: "reply list \<Rightarrow> drv_os" where
  "drv_state rs = \<lparr>replies = rs, os_errno = EOTHER 0, fds = {}, fdflags = (\<lambda>_. 2), sent = (\<lambda>_. []), rcvd = (\<lambda>_. []),
     closed = [], drv_code = 20020, drv_val = 10010, region = False, chardev = False, dev_class = False, device = False\<rparr>"

theorem driver_set_get_witness:
  "\<exists>s1 s3 s4. driver_ioctl TEST_SET \<lparr>code = 1, val = 2\<rparr> (drv_state [Ok 0, Ok 8, Ok 0]) = Some (0, \<lparr>code = 1, val = 2\<rparr>, s1) \<and>
    driver_ioctl TEST_SET \<lparr>code = 5, val = 5\<rparr> s1 = Some (- 13, \<lparr>code = 5, val = 5\<rparr>, s3) \<and>
    driver_ioctl TEST_GET \<lparr>code = 0, val = 0\<rparr> s3 = Some (0, \<lparr>code = 1, val = 2\<rparr>, s4)"
proof -
  let ?s = "drv_state [Ok 0, Ok 8, Ok 0]"
  let ?s1 = "?s\<lparr>replies := [Ok 8, Ok 0], drv_code := 1, drv_val := 2\<rparr>"
  let ?s3 = "?s1\<lparr>replies := [Ok 0]\<rparr>"
  have 1: "driver_ioctl TEST_SET \<lparr>code = 1, val = 2\<rparr> ?s = Some (0, \<lparr>code = 1, val = 2\<rparr>, ?s1)"
    and 2: "driver_ioctl TEST_SET \<lparr>code = 5, val = 5\<rparr> ?s1 = Some (- 13, \<lparr>code = 5, val = 5\<rparr>, ?s3)"
    by (simp_all add: driver_ioctl_def drv_state_def sys_aton_def sys_next_def)
  obtain new s4 where 3: "driver_ioctl TEST_GET \<lparr>code = 0, val = 0\<rparr> ?s3 = Some (0, new, s4)"
    by (simp add: driver_ioctl_def drv_state_def sys_aton_def sys_next_def)
  have "new = \<lparr>code = 1, val = 2\<rparr>" using driver_set_get [OF 1 2 _ 3] by simp
  with 1 2 3 show ?thesis by blast
qed

subsection \<open>Registration\<close>

definition unregistered :: "'a drv_os_scheme \<Rightarrow> bool" where
  "unregistered s \<longleftrightarrow> \<not> region s \<and> \<not> chardev s \<and> \<not> dev_class s \<and> \<not> device s"

text \<open>
  Initialisation registers everything or nothing, except when adding the character device fails: then the
  region of device numbers stays allocated. Unloading undoes a successful initialisation.
\<close>

lemma kcallE:
  assumes "kcall s = Some (r, s')"
  obtains (fail) e rs where "replies s = Fail e # rs" "r = - int (errno_number e)" "r < 0" "s' = s\<lparr>replies := rs\<rparr>"
  | (ok) n rs where "replies s = Ok n # rs" "r = 0" "s' = s\<lparr>replies := rs\<rparr>"
  using assms by (auto simp: kcall_def sys_next_def split: list.splits reply.splits if_splits)

lemma driver_init_registers:
  assumes "driver_ioctl_init s = Some (ret, s')" "unregistered s"
  shows "ret \<le> 0" "ret = 0 \<Longrightarrow> region s' \<and> chardev s' \<and> dev_class s' \<and> device s'"
    "ret < 0 \<Longrightarrow> unregistered (s'\<lparr>region := False\<rparr>)" "unregistered (driver_ioctl_exit s')"
    "ret < 0 \<Longrightarrow> region s' \<Longrightarrow> \<exists>n e rest. replies s = Ok n # Fail e # rest"
  using assms by (auto simp: driver_ioctl_init_def unregistered_def driver_ioctl_exit_def Let_def elim!: bind_SomeE kcallE split: if_splits)

lemma driver_init_leaks_region:
  assumes "replies s = Ok n # Fail e # rest" "errno_number e \<noteq> 0"
  shows "\<exists>s'. driver_ioctl_init s = Some (- int (errno_number e), s') \<and> region s'"
  using assms by (simp add: driver_ioctl_init_def kcall_def sys_next_def)

end
