(* ===== verification/Text_Programs.thy ===== *)
theory Text_Programs
  imports C_Text
begin

section \<open>Programs on strings and numbers\<close>

text \<open>
  Models the functions of small programs: \<open>test\<close> of \<open>src/src/other/miniprintf.c\<close>, a formatted output of its own;
  \<open>genUniqNumbers.c\<close>, which prints all numbers of a length; \<open>shortint2bin\<close> of \<open>int2bits.c\<close>; \<open>createDataFile.c\<close>;
  and \<open>getDirectoryForUser\<close> of \<open>src/src/system/getdir/getDir.c\<close>. An argument of the wrong type, an access outside an
  array and an overflow of \<open>int\<close> are undefined behaviour and give \<open>None\<close>. Allocations are taken to succeed, as the
  sources do.

  The lemmas show on which arguments the formatted output is defined and what it prints, that the generator prints every number once and in order and for which lengths, that the bits of a
  number are printed from the highest to the lowest, how large the data file is, and which directory a number has.
\<close>

subsection \<open>Formatted output\<close>

text \<open>The variable arguments: strings and numbers; a character is passed as a number.\<close>

datatype varg = VStr string | VInt int

fun miniprintf_loop :: "string \<Rightarrow> varg list \<Rightarrow> string option" where
  "miniprintf_loop [] ap = Some []"
| "miniprintf_loop (c # cs) ap =
     (if c \<noteq> CHR ''%'' then map_option ((#) c) (miniprintf_loop cs ap)
      else (case cs of
          [] \<Rightarrow> None
        | k # cs' \<Rightarrow>
            if k = CHR ''s'' then
              (case ap of VStr s # ap' \<Rightarrow> map_option ((@) s) (miniprintf_loop cs' ap') | _ \<Rightarrow> None)
            else if k = CHR ''d'' then
              (case ap of VInt d # ap' \<Rightarrow> map_option ((@) (printf_d d)) (miniprintf_loop cs' ap') | _ \<Rightarrow> None)
            else if k = CHR ''c'' then
              (case ap of VInt d # ap' \<Rightarrow> map_option ((#) (char_of (nat (d mod 256)))) (miniprintf_loop cs' ap') | _ \<Rightarrow> None)
            else miniprintf_loop cs' ap))"

text \<open>The function first prints its name and the format.\<close>

definition miniprintf :: "string \<Rightarrow> varg list \<Rightarrow> string option" where
  "miniprintf fmt ap = map_option ((@) (''test : '' @ fmt @ [CHR 0x0A])) (miniprintf_loop fmt ap)"

text \<open>
  A reference for the output. A format is a sequence of segments: a character that stands for itself, a directive with
  the argument it prints, and a percent sign with another character, which prints nothing.
\<close>

datatype segment = Plain char | Str string | Dec int | Chr int | Other char

fun seg_ok :: "segment \<Rightarrow> bool" where
  "seg_ok (Plain c) = (c \<noteq> CHR ''%'')"
| "seg_ok (Other k) = (k \<notin> {CHR ''s'', CHR ''d'', CHR ''c''})"
| "seg_ok _ = True"

fun seg_format :: "segment \<Rightarrow> string" where
  "seg_format (Plain c) = [c]"
| "seg_format (Str s) = ''%s''"
| "seg_format (Dec n) = ''%d''"
| "seg_format (Chr n) = ''%c''"
| "seg_format (Other k) = [CHR ''%'', k]"

fun seg_args :: "segment \<Rightarrow> varg list" where
  "seg_args (Str s) = [VStr s]"
| "seg_args (Dec n) = [VInt n]"
| "seg_args (Chr n) = [VInt n]"
| "seg_args _ = []"

text \<open>A number is printed in decimal; the conversion to \<open>char\<close> keeps the lowest 8 bits.\<close>

fun seg_output :: "segment \<Rightarrow> string" where
  "seg_output (Plain c) = [c]"
| "seg_output (Str s) = s"
| "seg_output (Dec n) = printf_d n"
| "seg_output (Chr n) = [char_of (nat (n mod 256))]"
| "seg_output (Other k) = []"

lemma miniprintf_loop_segments:
  "list_all seg_ok segs \<Longrightarrow>
   miniprintf_loop (concat (map seg_format segs)) (concat (map seg_args segs) @ extra) = Some (concat (map seg_output segs))"
proof (induction segs)
  case (Cons g segs)
  then show ?case by (cases g) auto
qed simp

lemma miniprintf_loop_parses:
  "miniprintf_loop fmt ap = Some out \<Longrightarrow> \<exists>segs extra. list_all seg_ok segs \<and> fmt = concat (map seg_format segs) \<and>
     ap = concat (map seg_args segs) @ extra \<and> out = concat (map seg_output segs)"
proof (induction fmt ap arbitrary: out rule: miniprintf_loop.induct)
  case (1 ap)
  then show ?case by (intro exI [of _ "[]"] exI [of _ ap]) simp
next
  case (2 c cs ap)
  have step: ?case if "seg_ok g" "c # cs = seg_format g @ cs'" "ap = seg_args g @ ap'" "out = seg_output g @ out'"
    "\<exists>segs extra. list_all seg_ok segs \<and> cs' = concat (map seg_format segs) \<and> ap' = concat (map seg_args segs) @ extra \<and>
      out' = concat (map seg_output segs)" for g cs' ap' out'
  proof -
    from that(5) obtain segs extra where "list_all seg_ok segs" "cs' = concat (map seg_format segs)"
      "ap' = concat (map seg_args segs) @ extra" "out' = concat (map seg_output segs)" by blast
    then show ?thesis using that(1-4) by (intro exI [of _ "g # segs"] exI [of _ extra]) simp
  qed
  show ?case
  proof (cases "c = CHR ''%''")
    case False
    then obtain out' where "miniprintf_loop cs ap = Some out'" "out = c # out'" using "2.prems" by auto
    then show ?thesis using step [of "Plain c" cs ap out'] "2.IH"(1) [OF False] False by simp
  next
    case True
    obtain k cs' where cs: "cs = k # cs'" using "2.prems" True by (cases cs) auto
    consider (s) "k = CHR ''s''" | (d) "k = CHR ''d''" | (c) "k = CHR ''c''" | (o) "k \<notin> {CHR ''s'', CHR ''d'', CHR ''c''}" by blast
    then show ?thesis
    proof cases
      case s
      then obtain x ap' out' where "ap = VStr x # ap'" "miniprintf_loop cs' ap' = Some out'" "out = x @ out'"
        using "2.prems" True cs by (auto split: list.splits varg.splits)
      then show ?thesis using step [of "Str x" cs' ap' out'] "2.IH"(2) [of k cs' _ ap' x out'] True cs s by simp
    next
      case d
      then obtain x ap' out' where "ap = VInt x # ap'" "miniprintf_loop cs' ap' = Some out'" "out = printf_d x @ out'"
        using "2.prems" True cs by (auto split: list.splits varg.splits)
      then show ?thesis using step [of "Dec x" cs' ap' out'] "2.IH"(3) [of k cs' _ ap' x out'] True cs d by simp
    next
      case c
      then obtain x ap' out' where "ap = VInt x # ap'" "miniprintf_loop cs' ap' = Some out'" "out = char_of (nat (x mod 256)) # out'"
        using "2.prems" True cs by (auto split: list.splits varg.splits)
      then show ?thesis using step [of "Chr x" cs' ap' out'] "2.IH"(4) [of k cs' _ ap' x out'] True cs c by simp
    next
      case o
      then have "miniprintf_loop cs' ap = Some out" using "2.prems" True cs by auto
      then show ?thesis using step [of "Other k" cs' ap out] "2.IH"(5) [of k cs' out] True cs o by simp
    qed
  qed
qed

text \<open>
  C38: exactly which calls of the formatted output are defined, and what they print. A call is defined with the output \<open>out\<close>
  if and only if its format splits into segments, so that it does not end in a lone percent sign, its
  arguments start with those the segments ask for, in number, type and order (further arguments are ignored), and
  \<open>out\<close> is the line with the format followed by the output of the segments in order.
\<close>

theorem miniprintf_output:
  "miniprintf fmt ap = Some out \<longleftrightarrow>
   (\<exists>segs extra. list_all seg_ok segs \<and> fmt = concat (map seg_format segs) \<and> ap = concat (map seg_args segs) @ extra \<and>
      out = ''test : '' @ fmt @ [CHR 0x0A] @ concat (map seg_output segs))"
proof
  assume "miniprintf fmt ap = Some out"
  then obtain o' where "miniprintf_loop fmt ap = Some o'" "out = ''test : '' @ fmt @ [CHR 0x0A] @ o'" by (auto simp: miniprintf_def)
  then show "\<exists>segs extra. list_all seg_ok segs \<and> fmt = concat (map seg_format segs) \<and> ap = concat (map seg_args segs) @ extra \<and>
      out = ''test : '' @ fmt @ [CHR 0x0A] @ concat (map seg_output segs)"
    using miniprintf_loop_parses by blast
next
  assume "\<exists>segs extra. list_all seg_ok segs \<and> fmt = concat (map seg_format segs) \<and> ap = concat (map seg_args segs) @ extra \<and>
      out = ''test : '' @ fmt @ [CHR 0x0A] @ concat (map seg_output segs)"
  then show "miniprintf fmt ap = Some out" using miniprintf_loop_segments by (auto simp: miniprintf_def)
qed

lemma miniprintf_example:
  "miniprintf ''a %d %c %s'' [VInt 2, VInt 99, VStr ''xy''] = Some (''test : a %d %c %s'' @ [CHR 0x0A] @ ''a 2 c xy'')"
  by (simp add: miniprintf_def printf_d_def nat_digits.simps digit_char_def) code_simp

subsection \<open>All numbers of a length\<close>

definition g_digits :: string where
  "g_digits = ''0123456789''"

fun power_loop :: "nat \<Rightarrow> int \<Rightarrow> int \<Rightarrow> int option" where
  "power_loop 0 base retVal = Some retVal"
| "power_loop (Suc n) base retVal = (if INT_RANGE (retVal * base) then power_loop n base (retVal * base) else None)"

definition myPower :: "int \<Rightarrow> int \<Rightarrow> int option" where
  "myPower base exp = power_loop (nat exp) base 1"

text \<open>The loop over the digits of one number, from the last position down.\<close>

fun fill_loop :: "nat \<Rightarrow> nat \<Rightarrow> string \<Rightarrow> string" where
  "fill_loop 0 to_print number = number"
| "fill_loop (Suc p) to_print number = fill_loop p (to_print div 10) (number[p := g_digits ! (to_print mod 10)])"

text \<open>The lines printed; each is first put into an array of 16 characters.\<close>

fun generator_loop :: "nat \<Rightarrow> nat list \<Rightarrow> string \<Rightarrow> string list option" where
  "generator_loop n [] number = Some []"
| "generator_loop n (i # is) number = do {
     let number = fill_loop n i number;
     str \<leftarrow> cstring number;
     let msisdn = ''268'' @ str;
     if length msisdn \<ge> 16 then None
     else map_option ((#) msisdn) (generator_loop n is number) }"

definition generator :: "int \<Rightarrow> string list option" where
  "generator numDigits = do {
     max \<leftarrow> myPower 10 numDigits;
     if numDigits < 0 then None
     else generator_loop (nat numDigits) [0..<nat max] (replicate (nat numDigits + 1) NUL) }"

lemma power_loop_eq:
  assumes "0 \<le> r"
  shows "power_loop n 10 r = (if n = 0 \<or> INT_RANGE (r * 10 ^ n) then Some (r * 10 ^ n) else None)"
  using assms
proof (induction n arbitrary: r)
  case (Suc n)
  have "r * 10 \<le> r * 10 ^ Suc n" using Suc.prems by (simp add: mult_left_mono)
  then have "INT_RANGE (r * 10 ^ Suc n) \<Longrightarrow> INT_RANGE (r * 10)"
    using Suc.prems by (simp add: INT_RANGE_def)
  then show ?case using Suc.IH [of "r * 10"] Suc.prems by (auto simp: mult.assoc)
qed simp

lemma myPower_ten: "myPower 10 n = (if n < 10 then Some (10 ^ nat n) else None)"
proof -
  have "INT_RANGE (10 ^ nat n) \<longleftrightarrow> n < 10"
  proof
    assume r: "INT_RANGE (10 ^ nat n)"
    show "n < 10"
    proof (rule ccontr)
      assume "\<not> n < 10"
      then have "(10 :: int) ^ 10 \<le> 10 ^ nat n" by (intro power_increasing) simp_all
      then show False using r by (simp add: INT_RANGE_def)
    qed
  next
    assume "n < 10"
    then have "(10 :: int) ^ nat n \<le> 10 ^ 9" by (intro power_increasing) simp_all
    moreover have "- (2 ^ 31) \<le> (10 :: int) ^ nat n" by (rule order_trans [of _ 0]) simp_all
    ultimately show "INT_RANGE (10 ^ nat n)" by (simp add: INT_RANGE_def)
  qed
  then show ?thesis by (auto simp: myPower_def power_loop_eq)
qed

text \<open>The last \<open>n\<close> digits of a number.\<close>

fun last_digits :: "nat \<Rightarrow> nat \<Rightarrow> string" where
  "last_digits 0 i = []"
| "last_digits (Suc n) i = last_digits n (i div 10) @ [digit_char (i mod 10)]"

lemma g_digits_nth: "d < 10 \<Longrightarrow> g_digits ! d = digit_char d"
proof -
  assume "d < 10"
  then have "d \<in> set [0, 1, 2, 3, 4, 5, 6, 7, 8, 9]" by auto
  then show ?thesis by (auto simp: g_digits_def digit_char_def char_of_def bit_0)
qed

lemma length_last_digits [simp]: "length (last_digits n i) = n"
  by (induction n arbitrary: i) auto

lemma last_digits_digits: "c \<in> set (last_digits n i) \<Longrightarrow> c_isdigit c \<and> c \<noteq> NUL"
  by (induction n arbitrary: i) (auto simp: digit_char_props)

lemma digits_value_last_digits: "i < 10 ^ n \<Longrightarrow> digits_value (last_digits n i) = int i"
proof (induction n arbitrary: i)
  case (Suc n)
  then have "i div 10 < 10 ^ n" by (simp add: div_less_iff_less_mult mult.commute)
  moreover have "10 * int (i div 10) + int (i mod 10) = int i" by (simp add: zdiv_int zmod_int)
  ultimately show ?case using Suc.IH by (simp add: digits_value_snoc digit_char_props)
qed (simp add: digits_value_def)

lemma fill_loop_digits: "p \<le> length number \<Longrightarrow> fill_loop p i number = last_digits p i @ drop p number"
proof (induction p arbitrary: i number)
  case (Suc p)
  have "drop p (number[p := digit_char (i mod 10)]) = digit_char (i mod 10) # drop (Suc p) number"
    using Suc.prems by (simp add: drop_update_cancel Cons_nth_drop_Suc [symmetric])
  then show ?case using Suc by (simp add: g_digits_nth)
qed simp

lemma generator_loop_lines:
  assumes "n < 12" "length number = Suc n" "last number = NUL"
  shows "generator_loop n js number = Some (map (\<lambda>i. ''268'' @ last_digits n i) js)"
  using assms(2,3)
proof (induction js arbitrary: number)
  case (Cons i js)
  have "drop n number = [NUL]" using Cons.prems by (metis append_eq_conv_conj id_take_nth_drop last_drop lessI Cons_nth_drop_Suc drop_all last_ConsL order_refl)
  then have f: "fill_loop n i number = last_digits n i @ [NUL]" using Cons.prems fill_loop_digits [of n number i] by simp
  have "takeWhile (\<lambda>c. c \<noteq> NUL) (last_digits n i @ [NUL]) = last_digits n i"
    using last_digits_digits by (subst takeWhile_append2) auto
  then have "cstring (fill_loop n i number) = Some (last_digits n i)" by (simp add: f cstring_def)
  then show ?case using Cons.IH [of "fill_loop n i number"] assms(1) f by simp
qed simp

text \<open>Every string of digits is the last digits of its value.\<close>

lemma digit_char_value: "c_isdigit c \<Longrightarrow> digit_char (nat (digit_value c)) = c \<and> 0 \<le> digit_value c \<and> digit_value c < 10"
  by (auto simp: c_isdigit_def digit_value_def digit_char_def nat_diff_distrib)

lemma last_digits_value:
  "\<forall>c \<in> set ds. c_isdigit c \<Longrightarrow> 0 \<le> digits_value ds \<and> digits_value ds < 10 ^ length ds \<and> last_digits (length ds) (nat (digits_value ds)) = ds"
proof (induction ds rule: rev_induct)
  case (snoc c ds)
  let ?v = "digits_value ds" and ?d = "digit_value c"
  have d: "digit_char (nat ?d) = c" "0 \<le> ?d" "?d < 10" using snoc.prems digit_char_value by auto
  have v: "0 \<le> ?v" "?v < 10 ^ length ds" "last_digits (length ds) (nat ?v) = ds" using snoc by auto
  have "nat (10 * ?v + ?d) div 10 = nat ?v" "nat (10 * ?v + ?d) mod 10 = nat ?d"
    using d v(1) by (simp_all add: nat_div_distrib [symmetric] nat_mod_distrib [symmetric] flip: nat_numeral)
  then show ?case using d v by (auto simp: digits_value_snoc)
qed (simp add: digits_value_def)

text \<open>
  For a length of at most 9 the generator prints every number of that many digits exactly once, in
  increasing order, each behind the prefix; for a larger length the number of numbers overflows, and a negative
  one makes it write outside its buffer.
\<close>

theorem generator_complete:
  "generator n = (if 0 \<le> n \<and> n < 10 then Some (map (\<lambda>i. ''268'' @ last_digits (nat n) i) [0..<10 ^ nat n]) else None) \<and>
   (\<forall>out. generator n = Some out \<longrightarrow> distinct out \<and> sorted_wrt (\<lambda>x y. digits_value (drop 3 x) < digits_value (drop 3 y)) out \<and>
     set out = {''268'' @ ds | ds. length ds = nat n \<and> (\<forall>c \<in> set ds. c_isdigit c)})"
proof -
  have "nat (10 ^ nat n) = (10 :: nat) ^ nat n" by (simp add: nat_power_eq)
  note p = this
  then have g: "generator n = (if 0 \<le> n \<and> n < 10 then Some (map (\<lambda>i. ''268'' @ last_digits (nat n) i) [0..<10 ^ nat n]) else None)"
    by (auto simp: generator_def myPower_ten generator_loop_lines p)
  have "distinct out \<and> sorted_wrt (\<lambda>x y. digits_value (drop 3 x) < digits_value (drop 3 y)) out \<and>
      set out = {''268'' @ ds | ds. length ds = nat n \<and> (\<forall>c \<in> set ds. c_isdigit c)}" if "generator n = Some out" for out
  proof -
    have out: "out = map (\<lambda>i. ''268'' @ last_digits (nat n) i) [0..<10 ^ nat n]" using that g by (auto split: if_splits)
    have inj: "inj_on (\<lambda>i. ''268'' @ last_digits (nat n) i) {0..<10 ^ nat n}"
      by (rule inj_onI) (metis append_same_eq atLeastLessThan_iff digits_value_last_digits of_nat_eq_iff same_append_eq)
    have "set out = {''268'' @ ds | ds. length ds = nat n \<and> (\<forall>c \<in> set ds. c_isdigit c)}" (is "_ = ?S")
    proof
      show "set out \<subseteq> ?S" using last_digits_digits by (auto simp: out)
      show "?S \<subseteq> set out"
      proof
        fix x assume "x \<in> ?S"
        then obtain ds where ds: "x = ''268'' @ ds" "length ds = nat n" "\<forall>c \<in> set ds. c_isdigit c" by auto
        note v = last_digits_value [OF ds(3)]
        have "nat (digits_value ds) < 10 ^ nat n" using v ds(2) by (simp add: nat_less_iff)
        then have "nat (digits_value ds) \<in> {0..<10 ^ nat n}" by (simp only: atLeastLessThan_iff le0 simp_thms)
        moreover have "x = ''268'' @ last_digits (nat n) (nat (digits_value ds))" using v ds(1,2) by simp
        ultimately show "x \<in> set out" unfolding out set_map set_upt by (rule image_eqI [rotated])
      qed
    qed
    moreover have "distinct out" using inj by (simp add: out distinct_map)
    moreover have "sorted_wrt (\<lambda>x y. digits_value (drop 3 x) < digits_value (drop 3 y)) out"
      by (auto simp: out sorted_wrt_map sorted_wrt_iff_nth_less digits_value_last_digits)
    ultimately show ?thesis by blast
  qed
  with g show ?thesis by blast
qed

theorem generator_complete_witness:
  "\<exists>out. generator 1 = Some out \<and> distinct out \<and> length out = 10 \<and> ''2687'' \<in> set out"
proof -
  have "''2687'' \<in> {''268'' @ ds | ds. length ds = nat 1 \<and> (\<forall>c \<in> set ds. c_isdigit c)}" by (simp add: c_isdigit_def)
  moreover obtain out where "generator 1 = Some out" "length out = 10" using generator_complete [of 1] by auto
  ultimately show ?thesis using generator_complete [of 1] by blast
qed

subsection \<open>The bits of a number\<close>

text \<open>
  The loop of \<open>shortint2bin\<close> from index \<open>i\<close> down to 0. The number is a 16-bit signed integer; shifting it to the
  right halves it, rounding down.
\<close>

fun bits_loop :: "nat \<Rightarrow> int \<Rightarrow> string \<Rightarrow> string" where
  "bits_loop 0 a buf = buf"
| "bits_loop (Suc i) a buf = bits_loop i (a div 2) (buf[i := char_of (48 + nat (a mod 2))])"

definition shortint2bin :: "int \<Rightarrow> string" where
  "shortint2bin a = (bits_loop 16 a (replicate 17 NUL))[16 := NUL]"

definition bit_char :: "bool \<Rightarrow> char" where
  "bit_char b = (if b then CHR ''1'' else CHR ''0'')"

lemma bits_loop_eq:
  "i \<le> length buf \<Longrightarrow> bits_loop i a buf = map (\<lambda>k. bit_char (bit a (i - 1 - k))) [0..<i] @ drop i buf"
proof (induction i arbitrary: a buf)
  case (Suc i)
  have c: "char_of (48 + nat (a mod 2)) = bit_char (bit a 0)"
    by (auto simp: bit_char_def bit_0 even_iff_mod_2_eq_zero odd_iff_mod_2_eq_one char_of_def)
  have "drop i (buf[i := bit_char (bit a 0)]) = bit_char (bit a 0) # drop (Suc i) buf"
    using Suc.prems by (simp add: drop_update_cancel Cons_nth_drop_Suc [symmetric])
  moreover have "map (\<lambda>k. bit_char (bit (a div 2) (i - 1 - k))) [0..<i] = map (\<lambda>k. bit_char (bit a (i - k))) [0..<i]"
    by (auto simp: bit_Suc [symmetric] Suc_diff_Suc)
  ultimately show ?case using Suc by (simp add: c)
qed simp

text \<open>The digits are the bits of the two's complement of the number, the highest first, and a terminating zero.\<close>

lemma shortint2bin_bits: "shortint2bin a = map (\<lambda>k. bit_char (bit a (15 - k))) [0..<16] @ [NUL]"
  by (simp add: shortint2bin_def bits_loop_eq list_update_append)

text \<open>Two numbers of 16 bits with the same digits are equal.\<close>

lemma shortint2bin_inj:
  assumes "shortint2bin a = shortint2bin b" "- (2 ^ 15) \<le> a" "a < 2 ^ 15" "- (2 ^ 15) \<le> b" "b < 2 ^ 15"
  shows "a = b"
proof -
  have "\<forall>k<16. bit_char (bit a (15 - k)) = bit_char (bit b (15 - k))"
    using assms(1) by (simp add: shortint2bin_bits)
  then have k: "bit a (15 - k) = bit b (15 - k)" if "k < 16" for k
    using that by (auto simp: bit_char_def split: if_splits)
  have "\<forall>n<16. bit a n = bit b n"
  proof (intro allI impI)
    fix n :: nat assume "n < 16"
    then show "bit a n = bit b n" using k [of "15 - n"] by simp
  qed
  then have "signed_take_bit 15 a = signed_take_bit 15 b"
    by (auto simp: bit_eq_iff bit_signed_take_bit_iff min_def)
  then show ?thesis using assms(2-5) by (simp add: signed_take_bit_int_eq_self)
qed

subsection \<open>A file of a given size\<close>

definition LINE_SIZE :: nat where
  "LINE_SIZE = 1024"

text \<open>What the program writes for the argument \<open>file_size\<close>; its number of lines is an \<open>int\<close>.\<close>

fun data_lines :: "nat \<Rightarrow> string" where
  "data_lines 0 = []"
| "data_lines (Suc n) = replicate (LINE_SIZE - 2) (CHR ''d'') @ [CHR 0x0D, CHR 0x0A] @ data_lines n"

definition createDataFile :: "int \<Rightarrow> string" where
  "createDataFile file_size =
     (let num_lines = (if file_size > int LINE_SIZE then sint (word_of_int (file_size div int LINE_SIZE) :: 32 word) else 1)
      in data_lines (nat num_lines))"

lemma length_data_lines: "length (data_lines n) = LINE_SIZE * n"
  by (induction n) (simp_all add: LINE_SIZE_def)

text \<open>The file has whole lines only: at least one, and for a larger size as many as fit into it.\<close>

lemma createDataFile_size:
  assumes "file_size < 2 ^ 41"
  shows "int (length (createDataFile file_size)) =
    (if file_size > 1024 then file_size - file_size mod 1024 else 1024)"
proof (cases "file_size > 1024")
  case True
  have "sint (word_of_int (file_size div 1024) :: 32 word) = file_size div 1024"
  proof -
    have "0 \<le> file_size div 1024" "file_size div 1024 < 2 ^ 31" using assms True by simp_all
    then show ?thesis by (simp add: sint_sbintrunc' signed_take_bit_int_eq_self_iff)
  qed
  then show ?thesis using True
    by (simp add: createDataFile_def length_data_lines LINE_SIZE_def minus_mod_eq_mult_div)
qed (simp add: createDataFile_def length_data_lines LINE_SIZE_def)

subsection \<open>The directory of a user\<close>

text \<open>The characters of \<open>%02x\<close>; a negative number is printed as its 32-bit pattern.\<close>

definition printf_02x :: "int \<Rightarrow> string" where
  "printf_02x n = (let h = hex_digits (nat (n mod 2 ^ 32)) in replicate (2 - length h) (CHR ''0'') @ h)"

text \<open>The remainder of C has the sign of the dividend.\<close>

definition c_rem :: "int \<Rightarrow> int \<Rightarrow> int" where
  "c_rem a b = sgn a * (\<bar>a\<bar> mod \<bar>b\<bar>)"

text \<open>
  The path is written into an array of 32 characters. For a number with fewer than 8 digits the source reads
  before its beginning.
\<close>

definition getDirectoryForUser :: "int \<Rightarrow> int \<Rightarrow> string \<Rightarrow> (int \<times> string) option" where
  "getDirectoryForUser g_NumOfFirstLevDir g_NumOfSecondLevDir msisdn =
     (let len = length msisdn in
      if len < 8 then None
      else do {
        sumF \<leftarrow> atoi (take 2 (drop (len - 2) msisdn));
        sumS \<leftarrow> atoi (take 6 (drop (len - 8) msisdn));
        if g_NumOfFirstLevDir = 0 \<or> g_NumOfSecondLevDir = 0 then None
        else do {
          let flev = c_rem sumF g_NumOfFirstLevDir;
          let slev = c_rem sumS g_NumOfSecondLevDir;
          let dirPath = printf_02x flev @ ''/'' @ printf_02x slev @ ''/'' @ msisdn;
          if length dirPath \<ge> 32 then None else Some (0, dirPath) } })"

text \<open>\<open>main\<close>: the exit status and the path; the arguments are the number and the two counts.\<close>

definition getDir_main :: "string list \<Rightarrow> (int \<times> string) option" where
  "getDir_main argv =
     (if length argv \<noteq> 3 then Some (1, [])
      else do {
        n \<leftarrow> atoi (argv ! 1);
        m \<leftarrow> atoi (argv ! 2);
        if n = 0 \<or> m = 0 then Some (1, [])
        else getDirectoryForUser n m (argv ! 0) })"

lemma atoi_digits:
  assumes "\<forall>c \<in> set ds. c_isdigit c" "INT_RANGE (digits_value ds)"
  shows "atoi ds = Some (digits_value ds)"
proof (cases ds)
  case Nil
  then show ?thesis by (simp add: atoi_def digits_value_def INT_RANGE_def)
next
  case (Cons c cs)
  have "c_isdigit c" using assms(1) Cons by simp
  moreover have "takeWhile c_isdigit cs = cs" using assms(1) Cons by (intro takeWhile_eq_all_conv [THEN iffD2]) simp
  ultimately show ?thesis using assms(2) Cons digit_not_sign [of c] by (simp add: atoi_def Let_def del: takeWhile_eq_all_conv)
qed

lemma length_hex_digits: "n < 256 \<Longrightarrow> length (hex_digits n) = (if n < 16 then 1 else 2)"
proof -
  assume "n < 256"
  then have "n div 16 < 16" by (simp add: div_less_iff_less_mult)
  then show ?thesis by (simp add: hex_digits.simps [of n] hex_digits.simps [of "n div 16"])
qed

lemma length_printf_02x: "0 \<le> n \<Longrightarrow> n < 256 \<Longrightarrow> length (printf_02x n) = 2"
  by (simp add: printf_02x_def Let_def length_hex_digits nat_less_iff)

text \<open>
  With at most 256 directories on each level, the directory of a number of digits is given by the remainders of its last
  two digits and of the six before them; the function is defined exactly for 8 to 25 digits.
\<close>

lemma getDirectoryForUser_path:
  assumes "\<forall>c \<in> set m. c_isdigit c" "0 < f" "f \<le> 256" "0 < g" "g \<le> 256"
  shows "getDirectoryForUser f g m =
    (if 8 \<le> length m \<and> length m < 26
     then Some (0, printf_02x (digits_value (drop (length m - 2) m) mod f) @ ''/'' @
       printf_02x (digits_value (take 6 (drop (length m - 8) m)) mod g) @ ''/'' @ m)
     else None)"
proof (cases "8 \<le> length m")
  case True
  let ?a = "take 2 (drop (length m - 2) m)" and ?b = "take 6 (drop (length m - 8) m)"
  have da: "\<forall>c \<in> set ?a. c_isdigit c" "\<forall>c \<in> set ?b. c_isdigit c" using assms(1) by (meson in_set_dropD in_set_takeD)+
  have la: "length ?a = 2" "length ?b = 6" using True by simp_all
  have va: "0 \<le> digits_value ?a" "digits_value ?a < 10 ^ 2" "0 \<le> digits_value ?b" "digits_value ?b < 10 ^ 6"
    using last_digits_value [OF da(1)] last_digits_value [OF da(2)] la by simp_all
  then have at: "atoi ?a = Some (digits_value ?a)" "atoi ?b = Some (digits_value ?b)"
    using da by (simp_all add: atoi_digits INT_RANGE_def)
  have rem: "c_rem x y = x mod y" if "0 \<le> x" "0 < y" for x y
    using that by (cases "x = 0") (simp_all add: c_rem_def)
  have len: "length (printf_02x (x mod y)) = 2" if "0 < y" "y \<le> 256" for x y
  proof -
    have "0 \<le> x mod y" "x mod y < 256" using that pos_mod_bound [of y x] by (simp, linarith)
    then show ?thesis by (rule length_printf_02x)
  qed
  have eq: "?a = drop (length m - 2) m" by simp
  show ?thesis
    using True at va assms(2-5) len
    by (simp add: getDirectoryForUser_def Let_def rem eq)
qed (simp add: getDirectoryForUser_def Let_def)

end
