(* ===== verification/System_Programs.thy ===== *)
theory System_Programs
  imports Posix C_Text
begin

section \<open>Programs on memory, files and processes\<close>

text \<open>
  Models \<open>src/src/other/linkedlist.c\<close>, a linked list on the heap; \<open>writeMmap.c\<close> and \<open>readMmap.c\<close> under \<open>src/src/system/memoryMap\<close>, which
  write and read an array of numbers in a mapped file; the network counter of \<open>src/src/system/linux_namespace/parent.c\<close> and
  the command loop of its \<open>child.c\<close>; and \<open>src/src/system/ipc/pipe/pipe.c\<close>. A use of freed memory, a null pointer and an
  access outside an object are undefined behaviour and give \<open>None\<close>. A mapping extends to the end of its page, and what is
  written behind the end of the file is not kept.

  The lemmas show that the list keeps the numbers in the order they were added and that the program uses it after
  freeing it; that the last number written to the mapped file is lost; that the first two networks
  get the same number; which commands the child runs; and that the pipe delivers the string.
\<close>

subsection \<open>The linked list\<close>

record LL =
  num :: int
  LL_next :: cptr

record ll_os = os +
  LLs :: "addr \<rightharpoonup> LL"

partial_function (option) last_node :: "(addr \<rightharpoonup> LL) \<Rightarrow> addr \<Rightarrow> addr option" where
  "last_node h tmp = do {
     n \<leftarrow> h tmp;
     case LL_next n of None \<Rightarrow> Some tmp | Some q \<Rightarrow> last_node h q }"

text \<open>The first argument and result is \<open>*head\<close>.\<close>

definition addNode :: "cptr \<Rightarrow> int \<Rightarrow> 'a ll_os_scheme \<Rightarrow> (cptr \<times> 'a ll_os_scheme) option" where
  "addNode head n s = do {
     (p, s) \<leftarrow> sys_malloc s;
     t \<leftarrow> p;
     if t \<in> dom (LLs s) then None
     else do {
       let h = (LLs s)(t \<mapsto> \<lparr>num = n, LL_next = None\<rparr>);
       case head of None \<Rightarrow> Some (Some t, s\<lparr>LLs := h\<rparr>)
       | Some a \<Rightarrow> do {
           l \<leftarrow> last_node h a;
           ln \<leftarrow> h l;
           Some (head, s\<lparr>LLs := h(l \<mapsto> ln\<lparr>LL_next := Some t\<rparr>)\<rparr>) } } }"

text \<open>\<open>disp\<close>: the numbers it prints.\<close>

partial_function (option) disp :: "(addr \<rightharpoonup> LL) \<Rightarrow> cptr \<Rightarrow> int list option" where
  "disp h head =
     (case head of None \<Rightarrow> Some []
      | Some a \<Rightarrow> do { n \<leftarrow> h a; xs \<leftarrow> disp h (LL_next n); Some (num n # xs) })"

partial_function (option) cleanup :: "cptr \<Rightarrow> (addr \<rightharpoonup> LL) \<Rightarrow> (addr \<rightharpoonup> LL) option" where
  "cleanup head h =
     (case head of None \<Rightarrow> Some h
      | Some a \<Rightarrow> do { n \<leftarrow> h a; cleanup (LL_next n) (h(a := None)) })"

fun add_all :: "int list \<Rightarrow> cptr \<Rightarrow> 'a ll_os_scheme \<Rightarrow> (cptr \<times> 'a ll_os_scheme) option" where
  "add_all [] head s = Some (head, s)"
| "add_all (i # is) head s = do { (head, s) \<leftarrow> addNode head i s; add_all is head s }"

text \<open>\<open>main\<close>: what the two calls of \<open>disp\<close> print. The pointer \<open>head\<close> is passed by value to \<open>cleanup\<close> and keeps its value.\<close>

definition linkedlist_main :: "'a ll_os_scheme \<Rightarrow> (int list \<times> int list \<times> 'a ll_os_scheme) option" where
  "linkedlist_main s = do {
     (head, s) \<leftarrow> add_all [0, 1, 2, 3, 4] None s;
     out1 \<leftarrow> disp (LLs s) head;
     h \<leftarrow> cleanup head (LLs s);
     let s = s\<lparr>LLs := h\<rparr>;
     out2 \<leftarrow> disp (LLs s) head;
     h \<leftarrow> cleanup head (LLs s);
     Some (out1, out2, s\<lparr>LLs := h\<rparr>) }"

text \<open>\<open>ll_at h p as xs\<close>: from \<open>p\<close> on the nodes at \<open>as\<close> hold the numbers \<open>xs\<close>.\<close>

fun ll_at :: "(addr \<rightharpoonup> LL) \<Rightarrow> cptr \<Rightarrow> addr list \<Rightarrow> int list \<Rightarrow> bool" where
  "ll_at h p [] xs \<longleftrightarrow> p = None \<and> xs = []"
| "ll_at h p (a # as) xs \<longleftrightarrow> p = Some a \<and> a \<notin> set as \<and>
     (\<exists>n ys. h a = Some n \<and> xs = num n # ys \<and> ll_at h (LL_next n) as ys)"

lemma ll_at_frame: "b \<notin> set as \<Longrightarrow> ll_at (h(b := v)) p as xs = ll_at h p as xs"
  by (induction as arbitrary: p xs) auto

lemma ll_at_last: "ll_at h (Some a) (a # as) xs \<Longrightarrow> last_node h a = Some (last (a # as))"
proof (induction as arbitrary: a xs)
  case Nil
  then show ?case by (subst last_node.simps) auto
next
  case (Cons b as)
  then obtain n ys where "h a = Some n" "LL_next n = Some b" "ll_at h (Some b) (b # as) ys" by auto
  moreover from this have "last_node h b = Some (last (b # as))" by (intro Cons.IH)
  ultimately show ?case by (subst last_node.simps) simp
qed

lemma ll_at_dom: "ll_at h p as xs \<Longrightarrow> set as \<subseteq> dom h \<and> distinct as"
  by (induction as arbitrary: p xs) auto

lemma ll_at_append:
  "ll_at h (Some a) (a # as) xs \<Longrightarrow> t \<notin> set (a # as) \<Longrightarrow> h t = Some \<lparr>num = n, LL_next = None\<rparr> \<Longrightarrow> h (last (a # as)) = Some ln \<Longrightarrow>
   ll_at (h(last (a # as) \<mapsto> ln\<lparr>LL_next := Some t\<rparr>)) (Some a) (a # as @ [t]) (xs @ [n])"
proof (induction as arbitrary: a xs)
  case (Cons b as)
  then obtain m ys where m: "h a = Some m" "xs = num m # ys" "LL_next m = Some b" "ll_at h (Some b) (b # as) ys" by auto
  have "ll_at (h(last (b # as) \<mapsto> ln\<lparr>LL_next := Some t\<rparr>)) (Some b) (b # as @ [t]) (ys @ [n])"
    by (rule Cons.IH [OF m(4)]) (use Cons.prems(2-4) in simp_all)
  moreover have "last (b # as) \<noteq> a" using Cons.prems(1) by (metis last_in_set list.discI ll_at.simps(2))
  moreover have "a \<notin> set (b # as @ [t])" using Cons.prems(1,2) by simp
  moreover have "last (a # b # as) = last (b # as)" by simp
  ultimately show ?case unfolding append_Cons ll_at.simps(2) [of _ _ a] using m(1-3) by (simp del: ll_at.simps last.simps)
qed auto

lemma addNode_appends:
  assumes "ll_at (LLs s) head as xs" "replies s = Ok t # rest" "t \<notin> dom (LLs s)"
  shows "\<exists>head' s'. addNode head n s = Some (head', s') \<and> ll_at (LLs s') head' (as @ [t]) (xs @ [n]) \<and> replies s' = rest \<and>
    dom (LLs s') = insert t (dom (LLs s))"
proof (cases as)
  case Nil
  then show ?thesis using assms by (auto simp: addNode_def sys_malloc_def sys_next_def)
next
  case (Cons a bs)
  let ?h = "(LLs s)(t \<mapsto> \<lparr>num = n, LL_next = None\<rparr>)"
  have d: "set as \<subseteq> dom (LLs s)" using ll_at_dom [OF assms(1)] by blast
  then have t: "t \<notin> set (a # bs)" using assms(3) Cons by auto
  have hd: "head = Some a" using assms(1) Cons by simp
  have h: "ll_at ?h (Some a) (a # bs) xs" 
    using assms(1) unfolding Cons hd ll_at_frame [OF t] .
  obtain ln where ln: "?h (last (a # bs)) = Some ln" using d Cons t by (metis domD fun_upd_other in_mono last_in_set list.discI)
  have "ll_at (?h(last (a # bs) \<mapsto> ln\<lparr>LL_next := Some t\<rparr>)) (Some a) (a # bs @ [t]) (xs @ [n])"
    by (rule ll_at_append [OF h t _ ln]) simp
  moreover have "last (a # bs) \<in> dom (LLs s)" using d Cons by (metis in_mono last_in_set list.discI)
  moreover have "addNode head n s = Some (head, s\<lparr>replies := rest, LLs := ?h(last (a # bs) \<mapsto> ln\<lparr>LL_next := Some t\<rparr>)\<rparr>)"
    using assms(2,3) hd ll_at_last [OF h] ln by (simp add: addNode_def sys_malloc_def sys_next_def domIff Let_def)
  ultimately show ?thesis using hd Cons by auto
qed

lemma disp_list: "ll_at h p as xs \<Longrightarrow> disp h p = Some xs"
  by (induction as arbitrary: p xs) (subst disp.simps; auto)+

lemma cleanup_frees: "ll_at h p as xs \<Longrightarrow> cleanup p h = Some (h |` (- set as))"
proof (induction as arbitrary: p xs h)
  case Nil
  then show ?case by (subst cleanup.simps) (simp add: restrict_map_def)
next
  case (Cons a as)
  then obtain n ys where n: "p = Some a" "a \<notin> set as" "h a = Some n" "ll_at h (LL_next n) as ys" by auto
  have "ll_at (h(a := None)) (LL_next n) as ys" using n ll_at_frame by blast
  then have "cleanup (LL_next n) (h(a := None)) = Some ((h(a := None)) |` (- set as))" by (rule Cons.IH)
  moreover have "(h(a := None)) |` (- set as) = h |` (- set (a # as))" by (auto simp: restrict_map_def fun_eq_iff)
  ultimately show ?case using n by (subst cleanup.simps) simp
qed

lemma add_all_appends:
  "ll_at (LLs s) head as xs \<Longrightarrow> replies s = map Ok ts @ rest \<Longrightarrow> distinct ts \<Longrightarrow> set ts \<inter> dom (LLs s) = {} \<Longrightarrow> length ts = length ns \<Longrightarrow>
   \<exists>head' s'. add_all ns head s = Some (head', s') \<and> ll_at (LLs s') head' (as @ ts) (xs @ ns) \<and> replies s' = rest"
proof (induction ns arbitrary: ts head as xs s)
  case (Cons n ns)
  then obtain t us where ts: "ts = t # us" by (cases ts) auto
  obtain h1 s1 where s1: "addNode head n s = Some (h1, s1)" "ll_at (LLs s1) h1 (as @ [t]) (xs @ [n])" "replies s1 = map Ok us @ rest"
    "dom (LLs s1) = insert t (dom (LLs s))"
    using addNode_appends [OF Cons.prems(1), of t "map Ok us @ rest" n] Cons.prems(2,4) ts by auto
  have "set us \<inter> dom (LLs s1) = {}" using s1(4) Cons.prems(3,4) ts by auto
  then show ?case using Cons.IH [OF s1(2,3)] Cons.prems(3,5) ts s1(1) by auto
qed simp

text \<open>
  The list holds the numbers in the order they were added, and the first output prints them; \<open>cleanup\<close> frees exactly the nodes of the
  list. But the program then prints the list again through the pointer it kept, which is a use of freed memory.
\<close>

lemma linkedlist_main_uses_freed:
  assumes "LLs s = Map.empty" "replies s = map Ok ts @ rest" "distinct ts" "length ts = 5"
  shows "\<exists>head s'. add_all [0, 1, 2, 3, 4] None s = Some (head, s') \<and> disp (LLs s') head = Some [0, 1, 2, 3, 4] \<and>
    cleanup head (LLs s') = Some (LLs s' |` (- set ts))"
    and "linkedlist_main s = None"
proof -
  obtain head s' where s': "add_all [0, 1, 2, 3, 4] None s = Some (head, s')" "ll_at (LLs s') head ts [0, 1, 2, 3, 4]"
    using add_all_appends [of s None "[]" "[]" ts rest "[0, 1, 2, 3, 4]"] assms by auto
  have d: "disp (LLs s') head = Some [0, 1, 2, 3, 4]" by (rule disp_list [OF s'(2)])
  have c: "cleanup head (LLs s') = Some (LLs s' |` (- set ts))" by (rule cleanup_frees [OF s'(2)])
  obtain t us where ts: "ts = t # us" using assms(4) by (cases ts) auto
  have "head = Some t" using s'(2) ts by simp
  then have "disp (LLs s' |` (- set ts)) head = None" using ts by (subst disp.simps) simp
  then show "linkedlist_main s = None" using s'(1) c d by (simp add: linkedlist_main_def)
  show "\<exists>head s'. add_all [0, 1, 2, 3, 4] None s = Some (head, s') \<and> disp (LLs s') head = Some [0, 1, 2, 3, 4] \<and>
    cleanup head (LLs s') = Some (LLs s' |` (- set ts))" using s'(1) c d by blast
qed

subsection \<open>Numbers in a mapped file\<close>

text \<open>
  The file is its array of 32-bit cells. A mapping covers whole pages of \<open>pg\<close> cells: behind the end of the file it is zero and what is
  written there is not kept; behind the last page there is no memory.
\<close>

record mmap_os = os +
  cells :: "u32 list"

definition NUMINTS :: nat where
  "NUMINTS = 1000"

definition page_up :: "nat \<Rightarrow> nat \<Rightarrow> nat" where
  "page_up pg n = (n + pg - 1) div pg * pg"

definition map_pages :: "nat \<Rightarrow> nat \<Rightarrow> u32 list \<Rightarrow> u32 list" where
  "map_pages pg n f = take (page_up pg n) (f @ replicate (page_up pg (length f) - length f) 0)"

function write_numbers :: "nat \<Rightarrow> u32 list \<Rightarrow> u32 list option" where
  "write_numbers i mem =
     (if i \<le> NUMINTS
      then if i < length mem then write_numbers (i + 1) (mem[i := word_of_int (2 * int i)]) else None
      else Some mem)"
  by pat_completeness auto
termination
  by (relation "measure (\<lambda>(i, mem). NUMINTS + 1 - i)") auto
declare write_numbers.simps [simp del]

function print_numbers :: "nat \<Rightarrow> u32 list \<Rightarrow> (nat \<times> int) list option" where
  "print_numbers i mem =
     (if i \<le> NUMINTS
      then if i < length mem then do { out \<leftarrow> print_numbers (i + 1) mem; Some ((i, sint (mem ! i)) # out) } else None
      else Some [])"
  by pat_completeness auto
termination
  by (relation "measure (\<lambda>(i, mem). NUMINTS + 1 - i)") auto
declare print_numbers.simps [simp del]

text \<open>The mapping is shared, so the file has what was written to it whether \<open>munmap\<close> succeeds or not.\<close>

definition writeMmap_main :: "nat \<Rightarrow> 'a mmap_os_scheme \<Rightarrow> (int \<times> 'a mmap_os_scheme) option" where
  "writeMmap_main pg s = do {
     (fd, s) \<leftarrow> sys_newfd s;
     if fd = - 1 then Some (1, s)
     else do {
       let s = s\<lparr>cells := []\<rparr>;
       (result, s) \<leftarrow> sys_zero s;
       if result = - 1 then Some (1, sys_close fd s)
       else do {
         (result, s) \<leftarrow> sys_send fd [0] s;
         if result \<noteq> 1 then Some (1, sys_close fd s)
         else do {
           let s = s\<lparr>cells := replicate NUMINTS 0\<rparr>;
           (m, s) \<leftarrow> sys_zero s;
           if m < 0 then Some (1, sys_close fd s)
           else do {
             mem \<leftarrow> write_numbers 1 (map_pages pg NUMINTS (cells s));
             let s = s\<lparr>cells := take (length (cells s)) mem\<rparr>;
             (_, s) \<leftarrow> sys_zero s;
             Some (0, sys_close fd s) } } } } }"

text \<open>The result of the program and the lines it prints.\<close>

definition readMmap_main :: "nat \<Rightarrow> 'a mmap_os_scheme \<Rightarrow> (int \<times> (nat \<times> int) list \<times> 'a mmap_os_scheme) option" where
  "readMmap_main pg s = do {
     (fd, s) \<leftarrow> sys_newfd s;
     if fd = - 1 then Some (1, [], s)
     else do {
       (m, s) \<leftarrow> sys_zero s;
       if m < 0 then Some (1, [], sys_close fd s)
       else do {
         out \<leftarrow> print_numbers 1 (map_pages pg NUMINTS (cells s));
         (_, s) \<leftarrow> sys_zero s;
         Some (0, out, sys_close fd s) } } }"

lemma write_numbers_result:
  "NUMINTS < length mem \<Longrightarrow> write_numbers i mem =
     Some (map (\<lambda>k. if i \<le> k \<and> k \<le> NUMINTS then word_of_int (2 * int k) else mem ! k) [0..<length mem])"
proof (induction i mem rule: write_numbers.induct)
  case (1 i mem)
  show ?case
  proof (cases "i \<le> NUMINTS")
    case True
    let ?v = "word_of_int (2 * int i)"
    have "write_numbers (i + 1) (mem[i := ?v]) = Some (map (\<lambda>k. if i + 1 \<le> k \<and> k \<le> NUMINTS then word_of_int (2 * int k) else mem[i := ?v] ! k)
      [0..<length mem])" using 1 True by simp
    also have "\<dots> = Some (map (\<lambda>k. if i \<le> k \<and> k \<le> NUMINTS then word_of_int (2 * int k) else mem ! k) [0..<length mem])"
      using True by (intro arg_cong [where f = Some] map_cong [OF refl]) (auto simp: nth_list_update not_less_eq_eq dest: le_antisym)
    finally show ?thesis using True "1.prems" by (subst write_numbers.simps) simp
  next
    case False
    then show ?thesis by (subst write_numbers.simps) (auto intro!: nth_equalityI)
  qed
qed

lemma print_numbers_result:
  "NUMINTS < length mem \<Longrightarrow> i \<le> NUMINTS + 1 \<Longrightarrow> print_numbers i mem = Some (map (\<lambda>k. (k, sint (mem ! k))) [i..<NUMINTS + 1])"
proof (induction i mem rule: print_numbers.induct)
  case (1 i mem)
  show ?case
  proof (cases "i \<le> NUMINTS")
    case True
    then have "[i..<NUMINTS + 1] = i # [i + 1..<NUMINTS + 1]" by (simp add: upt_conv_Cons)
    then show ?thesis using 1 True by (subst print_numbers.simps) simp
  next
    case False
    then show ?thesis using 1 by (subst print_numbers.simps) simp
  qed
qed

lemma map_pages_nth: "k < length (map_pages pg n f) \<Longrightarrow> map_pages pg n f ! k = (if k < length f then f ! k else 0)"
  by (auto simp: map_pages_def nth_append simp del: take_append)

text \<open>
  The writer numbers the cells from 1, so on a system whose pages reach behind 1000 cells its last number lies outside the file and is
  lost: the file begins with a zero, and the reader prints the numbers 2 to 1998 and a zero for the last cell.
\<close>

lemma mapped_numbers:
  assumes "NUMINTS < length (map_pages pg NUMINTS (replicate NUMINTS 0))" "int fd \<notin> fds s"
    and "replies s = [Ok fd, Ok 0, Ok 1, Ok 0, Ok 0] @ [Ok fd', Ok 0, Ok 0] @ rest" "int fd' \<notin> fds s - {int fd}"
  shows "\<exists>s' s''. writeMmap_main pg s = Some (0, s') \<and>
    cells s' = 0 # map (\<lambda>k. word_of_int (2 * int k)) [1..<NUMINTS] \<and>
    readMmap_main pg s' = Some (0, map (\<lambda>k. (k, if k = NUMINTS then 0 else 2 * int k)) [1..<NUMINTS + 1], s'')"
proof -
  let ?z = "replicate NUMINTS 0 :: u32 list" and ?c = "0 # map (\<lambda>k. word_of_int (2 * int k)) [1..<NUMINTS] :: u32 list"
  have len: "length ?c = NUMINTS" by (simp add: NUMINTS_def)
  have "write_numbers 1 (map_pages pg NUMINTS ?z) = Some (map (\<lambda>k. if 1 \<le> k \<and> k \<le> NUMINTS then word_of_int (2 * int k) else map_pages pg NUMINTS ?z ! k)
    [0..<length (map_pages pg NUMINTS ?z)])" (is "_ = Some ?m") using assms(1) by (rule write_numbers_result)
  moreover have "take NUMINTS ?m = ?c"
    using assms(1) len less_trans [OF _ assms(1), of 0] nth_upt [of 0 0] by (intro nth_equalityI) (auto simp: nth_Cons' map_pages_nth)
  ultimately have w: "\<exists>m. write_numbers 1 (map_pages pg NUMINTS ?z) = Some m \<and> take NUMINTS m = ?c" by blast
  have l: "NUMINTS < length (map_pages pg NUMINTS ?c)" using assms(1) len by (simp add: map_pages_def)
  have v: "sint (map_pages pg NUMINTS ?c ! k) = (if k = NUMINTS then 0 else 2 * int k)" if "1 \<le> k" "k \<le> NUMINTS" for k
  proof (cases "k = NUMINTS")
    case True
    then show ?thesis using map_pages_nth [of k pg NUMINTS ?c] l len by simp
  next
    case False
    then have "k - Suc 0 < NUMINTS - Suc 0" using that by linarith
    then have "map_pages pg NUMINTS ?c ! k = word_of_int (2 * int k)" using that False len l by (simp add: map_pages_nth nth_Cons')
    moreover have "sint (word_of_int (2 * int k) :: u32) = 2 * int k"
      using that by (subst sint_sbintrunc', subst signed_take_bit_int_eq_self) (auto simp: NUMINTS_def)
    ultimately show ?thesis using False by presburger
  qed
  have r: "print_numbers 1 (map_pages pg NUMINTS ?c) = Some (map (\<lambda>k. (k, if k = NUMINTS then 0 else 2 * int k)) [1..<NUMINTS + 1])"
    using print_numbers_result [OF l, of 1] v by (simp add: less_Suc_eq_le)
  obtain m where m: "write_numbers 1 (map_pages pg NUMINTS ?z) = Some m" "take NUMINTS m = ?c" using w by blast
  show ?thesis
    using assms(2-4) m r len by (simp add: writeMmap_main_def readMmap_main_def sys_newfd_def sys_zero_def sys_send_def sys_close_def sys_next_def)
qed

subsection \<open>The network namespace program\<close>

text \<open>
  The globals that the parent and the cloned child share, the file that counts the networks, the rest of the standard input, and the
  commands given to \<open>system\<close>. The file is a list of bytes; an \<open>unsigned int\<close> is stored low byte first.
\<close>

record ns_os = os +
  g_cmd :: string
  g_netcnt :: int
  g_vethid :: u32
  net_file :: "u8 list"
  stdin :: string
  system_cmds :: "string list"

definition G_CMD_SIZE :: nat where
  "G_CMD_SIZE = 512"

definition bytes32 :: "u32 \<Rightarrow> u8 list" where
  "bytes32 w = map (\<lambda>i. ucast (drop_bit (8 * i) w)) [0..<4]"

definition word32 :: "u8 list \<Rightarrow> u32" where
  "word32 bs = foldr (\<lambda>b w. ucast b OR push_bit 8 w) bs 0"

definition parent_get_netcnt :: "'a ns_os_scheme \<Rightarrow> (int \<times> 'a ns_os_scheme) option" where
  "parent_get_netcnt s = do {
     (fd, s) \<leftarrow> sys_newfd s;
     if fd < 0 then Some (- 1, s)
     else do {
       (ok, s) \<leftarrow> sys_zero s;
       if ok < 0 then Some (- 1, s)
       else do {
         let (ret, cnt) = (if length (net_file s) < 4 then (2, 2)
                           else let c = word32 (take 4 (net_file s)) in (sint c, c + 1));
         (_, s) \<leftarrow> sys_zero s;
         (w, s) \<leftarrow> sys_zero s;
         let s = (if w < 0 then s else s\<lparr>net_file := bytes32 cnt @ drop 4 (net_file s)\<rparr>);
         Some (ret, sys_close fd s) } } }"

text \<open>\<open>child_get_cmd\<close>: the string it leaves in \<open>cmd\<close> and the rest of the input. At the end of the input \<open>getchar\<close> gives \<open>EOF\<close> for ever.\<close>

fun child_get_cmd :: "nat \<Rightarrow> string \<Rightarrow> string \<Rightarrow> (string \<times> string) option" where
  "child_get_cmd room cmd [] = None"
| "child_get_cmd room cmd (ch # inp) =
     (if room = 0 then None
      else if ch = CHR 0x0A then do { str \<leftarrow> cstring (cmd @ [NUL]); Some (str, inp) }
      else child_get_cmd (room - 1) (cmd @ [ch]) inp)"

lemma child_get_cmd_shorter: "child_get_cmd room cmd inp = Some (str, rest) \<Longrightarrow> length rest < length inp"
  by (induction room cmd inp rule: child_get_cmd.induct) (auto split: if_splits elim!: bind_SomeE)

function child_cmd_loop :: "'a ns_os_scheme \<Rightarrow> 'a ns_os_scheme option" where
  "child_cmd_loop s = do {
     (cmd, rest) \<leftarrow> child_get_cmd G_CMD_SIZE [] (stdin s);
     let s' = s\<lparr>g_cmd := cmd, stdin := rest\<rparr>;
     if take 1 cmd = ''q'' then Some s'
     else if 0 < length cmd then child_cmd_loop (s'\<lparr>system_cmds := system_cmds s @ [cmd]\<rparr>)
     else child_cmd_loop s' }"
  by pat_completeness auto
termination
  by (relation "measure (\<lambda>s. length (stdin s))") (auto dest: child_get_cmd_shorter)
declare child_cmd_loop.simps [simp del]

definition exec_cmd :: "string \<Rightarrow> 'a ns_os_scheme \<Rightarrow> 'a ns_os_scheme" where
  "exec_cmd cmd s = s\<lparr>system_cmds := system_cmds s @ [cmd]\<rparr>"

definition parent_spawn_child :: "'a ns_os_scheme \<Rightarrow> (int \<times> 'a ns_os_scheme) option" where
  "parent_spawn_child s = do {
     (r, s) \<leftarrow> sys_next s;
     case r of Fail e \<Rightarrow> Some (- 1, s\<lparr>os_errno := e\<rparr>) | Ok pid \<Rightarrow> Some (int pid, s) | _ \<Rightarrow> None }"

text \<open>The time is an argument.\<close>

definition parent_init_veth_pair :: "u32 \<Rightarrow> int \<Rightarrow> 'a ns_os_scheme \<Rightarrow> 'a ns_os_scheme option" where
  "parent_init_veth_pair now child_pid s = do {
     let id = hex_digits (unat now);
     let cmd = take (G_CMD_SIZE - 1) (''ip link add name vethm'' @ id @ ''-0 type veth peer name vethm'' @ id @ ''-1 netns '' @ printf_d child_pid);
     let s = exec_cmd cmd (s\<lparr>g_vethid := now, g_cmd := cmd\<rparr>);
     (n, s) \<leftarrow> parent_get_netcnt s;
     Some (s\<lparr>g_netcnt := n\<rparr>) }"

definition child_fn :: "'a ns_os_scheme \<Rightarrow> 'a ns_os_scheme option" where
  "child_fn s = do {
     let s = exec_cmd ''ip link'' s;
     let cmd = take (G_CMD_SIZE - 1) (''ifconfig vethm'' @ hex_digits (unat (g_vethid s)) @ ''-1 192.168.1.'' @ printf_d (g_netcnt s) @ ''/24 up'');
     let s = exec_cmd cmd (s\<lparr>g_cmd := cmd\<rparr>);
     child_cmd_loop s }"

text \<open>
  \<open>main\<close>. The child sleeps for a second before it starts, by which time the parent has set up the network and waits; this order is the
  one modelled.
\<close>

definition ns_main :: "u32 \<Rightarrow> 'a ns_os_scheme \<Rightarrow> (int \<times> 'a ns_os_scheme) option" where
  "ns_main now s = do {
     (child_pid, s) \<leftarrow> parent_spawn_child s;
     if child_pid < 0 then Some (1, s)
     else do {
       s \<leftarrow> parent_init_veth_pair now child_pid s;
       s \<leftarrow> child_fn s;
       Some (0, s) } }"

lemma word32_bytes32 [simp]: "word32 (bytes32 w) = w"
proof (rule bit_word_eqI)
  fix n assume "n < LENGTH(32)"
  moreover have "[0..<4] = [0, 1, 2, 3 :: nat]" by (simp add: upt_rec)
  ultimately show "bit (word32 (bytes32 w)) n = bit w n"
    by (cases "24 \<le> n"; cases "16 \<le> n"; cases "8 \<le> n") (auto simp: word32_def bytes32_def bit_simps)
qed

lemma length_bytes32 [simp]: "length (bytes32 w) = 4"
  by (simp add: bytes32_def)

lemma parent_get_netcnt_result:
  assumes "replies s = Ok fd # Ok a # Ok b # Ok c # rest" "int fd \<notin> fds s"
  shows "parent_get_netcnt s = Some (if length (net_file s) < 4 then 2 else sint (word32 (take 4 (net_file s))),
    sys_close (int fd) (s\<lparr>fds := insert (int fd) (fds s), replies := rest,
      net_file := bytes32 (if length (net_file s) < 4 then 2 else word32 (take 4 (net_file s)) + 1) @ drop 4 (net_file s)\<rparr>))"
  using assms by (simp add: parent_get_netcnt_def sys_newfd_def sys_zero_def sys_next_def Let_def)

text \<open>
  The first call of \<open>parent_get_netcnt\<close> on an empty file returns 2 and stores 2, so the second call returns 2 as well: the first two networks
  get the same address.
\<close>

lemma first_networks_collide:
  assumes "net_file s = []" "replies s = [Ok fd, Ok 0, Ok 0, Ok 0, Ok fd, Ok 0, Ok 0, Ok 0]" "int fd \<notin> fds s"
  shows "\<exists>s' s''. parent_get_netcnt s = Some (2, s') \<and> parent_get_netcnt s' = Some (2, s'') \<and> net_file s'' = bytes32 3"
  using assms by (simp add: parent_get_netcnt_result sys_close_def)

text \<open>The lines of the input, each without its newline.\<close>

lemma child_get_cmd_line:
  "CHR 0x0A \<notin> set l \<Longrightarrow> length l < room \<Longrightarrow>
   child_get_cmd room cmd (l @ CHR 0x0A # rest) = do { str \<leftarrow> cstring (cmd @ l @ [NUL]); Some (str, rest) }"
  by (induction l arbitrary: room cmd) auto

lemma child_get_cmd_overflow:
  "CHR 0x0A \<notin> set l \<Longrightarrow> room \<le> length l \<Longrightarrow> child_get_cmd room cmd (l @ rest) = None"
  by (induction l arbitrary: room cmd; cases rest) auto

text \<open>
  The child runs the lines of its input that are not empty, in order, up to the first line that begins with \<open>q\<close>.
\<close>

definition cmd_line :: "string \<Rightarrow> bool" where
  "cmd_line l \<longleftrightarrow> CHR 0x0A \<notin> set l \<and> NUL \<notin> set l \<and> length l < G_CMD_SIZE"

lemma cmd_line_read: "cmd_line l \<Longrightarrow> child_get_cmd G_CMD_SIZE [] (l @ CHR 0x0A # rest) = Some (l, rest)"
  by (simp add: cmd_line_def child_get_cmd_line cstring_def takeWhile_append)

lemma child_runs_lines:
  assumes "\<forall>l \<in> set ls. cmd_line l \<and> take 1 l \<noteq> ''q''" "cmd_line qs" "take 1 qs = ''q''"
    and "stdin s = concat (map (\<lambda>l. l @ [CHR 0x0A]) ls) @ qs @ CHR 0x0A # rest"
  shows "child_cmd_loop s = Some (s\<lparr>g_cmd := qs, stdin := rest, system_cmds := system_cmds s @ filter (\<lambda>l. l \<noteq> []) ls\<rparr>)"
  using assms
proof (induction ls arbitrary: s)
  case Nil
  then show ?case by (subst child_cmd_loop.simps) (simp add: cmd_line_read)
next
  case (Cons l ls)
  let ?r = "concat (map (\<lambda>l. l @ [CHR 0x0A]) ls) @ qs @ CHR 0x0A # rest"
  let ?s = "s\<lparr>g_cmd := l, stdin := ?r\<rparr>"
  have r: "child_get_cmd G_CMD_SIZE [] (stdin s) = Some (l, ?r)" using Cons.prems by (simp add: cmd_line_read)
  show ?case
  proof (cases l)
    case Nil
    then have "child_cmd_loop s = child_cmd_loop ?s" using r by (subst child_cmd_loop.simps) simp
    then show ?thesis using Cons.IH [of ?s] Cons.prems Nil by simp
  next
    case (Cons c cs)
    let ?t = "?s\<lparr>system_cmds := system_cmds s @ [l]\<rparr>"
    have "child_cmd_loop s = child_cmd_loop ?t" using r Cons Cons.prems(1) by (subst child_cmd_loop.simps) simp
    then show ?thesis using Cons.IH [of ?t] Cons.prems Cons by simp
  qed
qed

text \<open>
  A line of 512 characters or more, or an input that ends without a newline, overruns the array: the length given to \<open>child_get_cmd\<close> is not used.
\<close>

lemma child_long_line_overruns:
  "CHR 0x0A \<notin> set l \<Longrightarrow> G_CMD_SIZE \<le> length l \<Longrightarrow> stdin s = l @ rest \<Longrightarrow> child_cmd_loop s = None"
  by (subst child_cmd_loop.simps) (simp add: child_get_cmd_overflow)

text \<open>
  A run of the whole program: both ends of the link carry the same number, and the child takes its address from the counter file.
\<close>

lemma ns_main_run:
  assumes "replies s = [Ok pid, Ok fd, Ok 0, Ok 0, Ok 0]" "int fd \<notin> fds s" "net_file s = bytes32 n" "system_cmds s = []"
    and "stdin s = concat (map (\<lambda>l. l @ [CHR 0x0A]) ls) @ qs @ CHR 0x0A # rest"
    and "\<forall>l \<in> set ls. cmd_line l \<and> take 1 l \<noteq> ''q''" "cmd_line qs" "take 1 qs = ''q''"
  shows "\<exists>s'. ns_main now s = Some (0, s') \<and> net_file s' = bytes32 (n + 1) \<and> system_cmds s' =
    take (G_CMD_SIZE - 1) (''ip link add name vethm'' @ hex_digits (unat now) @ ''-0 type veth peer name vethm'' @ hex_digits (unat now) @
      ''-1 netns '' @ printf_d (int pid)) # ''ip link'' #
    take (G_CMD_SIZE - 1) (''ifconfig vethm'' @ hex_digits (unat now) @ ''-1 192.168.1.'' @ printf_d (sint n) @ ''/24 up'') # filter (\<lambda>l. l \<noteq> []) ls"
proof -
  have run: "child_cmd_loop t = Some (t\<lparr>g_cmd := qs, stdin := rest, system_cmds := system_cmds t @ filter (\<lambda>l. l \<noteq> []) ls\<rparr>)"
    if "stdin t = stdin s" for t :: "'a ns_os_scheme" using assms(5-8) that by (intro child_runs_lines) auto
  show ?thesis using assms(1-4) by (simp add: ns_main_def parent_spawn_child_def parent_init_veth_pair_def child_fn_def exec_cmd_def
    parent_get_netcnt_result sys_close_def sys_next_def Let_def run)
qed

subsection \<open>A string through a pipe\<close>

text \<open>
  The loop of the child in \<open>pipe.c\<close>: \<open>buf\<close> is the one-byte variable, without a value before the first read. A read that fails is not
  noticed and the byte is written again.
\<close>

function pipe_child_loop :: "int \<Rightarrow> u8 option \<Rightarrow> 'a os_scheme \<Rightarrow> 'a os_scheme option" where
  "pipe_child_loop fd buf s = do {
     (n, bs, s1) \<leftarrow> sys_recv fd 1 s;
     if n \<noteq> 0 then do {
       let buf = (case bs of b # _ \<Rightarrow> Some b | [] \<Rightarrow> buf);
       c \<leftarrow> buf;
       (_, s2) \<leftarrow> sys_send 1 [c] s1;
       pipe_child_loop fd buf s2 }
     else Some s1 }"
  by pat_completeness auto
termination
  by (relation "measure (\<lambda>(fd, buf, s). fuel s)") (auto dest!: sys_fuel)
declare pipe_child_loop.simps [simp del]

definition pipe_child :: "int \<Rightarrow> int \<Rightarrow> 'a os_scheme \<Rightarrow> (int \<times> 'a os_scheme) option" where
  "pipe_child r w s = do {
     s \<leftarrow> pipe_child_loop r None (sys_close w s);
     (_, s) \<leftarrow> sys_send 1 [10] s;
     Some (0, sys_close r s) }"

definition pipe_parent :: "u8 list \<Rightarrow> int \<Rightarrow> int \<Rightarrow> 'a os_scheme \<Rightarrow> (int \<times> 'a os_scheme) option" where
  "pipe_parent str r w s = do {
     (_, s) \<leftarrow> sys_send w str (sys_close r s);
     let s = sys_close w s;
     (_, s) \<leftarrow> sys_zero s;
     Some (0, s) }"

text \<open>\<open>main\<close>, in the process where \<open>fork\<close> returns the given number; a result of 0 is the child.\<close>

definition pipe_main :: "u8 list list \<Rightarrow> 'a os_scheme \<Rightarrow> (int \<times> 'a os_scheme) option" where
  "pipe_main argv s =
     (if length argv \<noteq> 2 then Some (1, s)
      else do {
        (ret, r, w, s) \<leftarrow> sys_pipe s;
        if ret < 0 then Some (1, s)
        else do {
          (pid, s) \<leftarrow> sys_next s;
          case pid of Fail e \<Rightarrow> Some (1, s\<lparr>os_errno := e\<rparr>)
          | Ok 0 \<Rightarrow> pipe_child r w s
          | Ok _ \<Rightarrow> pipe_parent (argv ! 1) r w s
          | _ \<Rightarrow> None } })"

lemma pipe_child_copies:
  "replies s = concat (map (\<lambda>b. [Data [b], Ok 1]) bs) @ Data [] # rest \<Longrightarrow>
   \<exists>s'. pipe_child_loop fd buf s = Some s' \<and> sent s' 1 = sent s 1 @ bs \<and> rcvd s' fd = rcvd s fd @ bs \<and> replies s' = rest"
proof (induction bs arbitrary: s buf)
  case Nil
  then show ?case by (subst pipe_child_loop.simps) (simp add: sys_recv_def sys_next_def)
next
  case (Cons b bs)
  let ?s = "s\<lparr>rcvd := (rcvd s)(fd := rcvd s fd @ [b]), replies := concat (map (\<lambda>b. [Data [b], Ok 1]) bs) @ Data [] # rest,
    sent := (sent s)(1 := sent s 1 @ [b])\<rparr>"
  have "pipe_child_loop fd buf s = pipe_child_loop fd (Some b) ?s"
    using Cons.prems by (subst pipe_child_loop.simps) (simp add: sys_recv_def sys_send_def sys_next_def)
  then show ?case using Cons.IH [of ?s "Some b"] by simp
qed

text \<open>
  The two processes together: the kernel takes the whole string from the parent and gives the child what the parent wrote, one byte for
  each read, and then the end of the file. The child prints the string and a newline.
\<close>

lemma pipe_delivers:
  assumes "replies s = [Ok r, Ok w, Ok (Suc pid), Ok (length str), Ok 0]" "int r \<notin> fds s" "int w \<notin> fds s" "r \<noteq> w" "sent s (int w) = []"
    and "replies t = [Ok r, Ok w, Ok 0] @ concat (map (\<lambda>b. [Data [b], Ok 1]) str) @ [Data [], Ok 1]" "int r \<notin> fds t" "int w \<notin> fds t"
    and "sent t 1 = []"
  shows "\<exists>s' t'. pipe_main [prog, str] s = Some (0, s') \<and> sent s' (int w) = str \<and>
    pipe_main [prog, str] t = Some (0, t') \<and> sent t' 1 = sent s' (int w) @ [10]"
proof -
  obtain t1 where t1: "pipe_child_loop (int r) None (sys_close (int w) (t\<lparr>fds := insert (int w) (insert (int r) (fds t)),
      replies := concat (map (\<lambda>b. [Data [b], Ok 1]) str) @ [Data [], Ok 1]\<rparr>)) = Some t1" "sent t1 1 = str" "replies t1 = [Ok 1]"
    using pipe_child_copies [of "sys_close (int w) (t\<lparr>fds := insert (int w) (insert (int r) (fds t)),
      replies := concat (map (\<lambda>b. [Data [b], Ok 1]) str) @ [Data [], Ok 1]\<rparr>)" str "[Ok 1]" "int r" None] assms(9)
    by (auto simp: sys_close_def)
  show ?thesis using assms t1
    by (simp add: pipe_main_def pipe_parent_def pipe_child_def sys_pipe_def sys_newfd_def sys_next_def sys_send_def sys_zero_def sys_close_def)
qed

end
