(* ===== verification/Bit_Scan.thy ===== *)
theory Bit_Scan
  imports System_Programs
begin

unbundle bit_operations_syntax

section \<open>Scanning the bits of a number\<close>

text \<open>
  Models \<open>src/src/other/bitscan.c\<close>, which takes the lowest set bit of a byte with \<open>b & -b\<close> until none is left and looks
  its position up in a table. The size of the table is an argument; an access outside it is undefined behaviour and gives \<open>None\<close>.
  The bytes of a number are those of a little-endian machine.

  The lemmas show that with a table of sufficient size the scan lists exactly the set bits of every number from the lowest to the
  highest, and that the table of the program is too small.
\<close>

definition INX_TBL_SIZE :: nat where
  "INX_TBL_SIZE = 128"

definition lut :: "u8 list" where
  "lut = [1, 2, 3, 4, 5, 6, 7, 8, 9, 10, 11, 12, 13, 14, 15, 16,
     17, 18, 19, 20, 21, 22, 23, 24, 25, 26, 27, 28, 29, 30, 31, 32]"

definition get_at :: "'a list \<Rightarrow> nat \<Rightarrow> 'a option" where
  "get_at xs i = (if i < length xs then Some (xs ! i) else None)"

definition set_at :: "nat \<Rightarrow> 'a \<Rightarrow> 'a list \<Rightarrow> 'a list option" where
  "set_at i x xs = (if i < length xs then Some (xs[i := x]) else None)"

definition init_bit_inx_table :: "nat \<Rightarrow> u8 list option" where
  "init_bit_inx_table tbl_size = do {
     t \<leftarrow> set_at 1 0 (replicate tbl_size 0);
     t \<leftarrow> set_at 2 1 t;
     t \<leftarrow> set_at 4 2 t;
     t \<leftarrow> set_at 8 3 t;
     t \<leftarrow> set_at 16 4 t;
     t \<leftarrow> set_at 32 5 t;
     t \<leftarrow> set_at 64 6 t;
     set_at 128 7 t }"

subsection \<open>The lowest set bit\<close>

lemma lowest_bit_and_minus:
  fixes b :: "'a :: len word"
  assumes "bit b k" "\<forall>j < k. \<not> bit b j"
  shows "b AND - b = push_bit k 1"
proof -
  let ?r = "unset_bit k b"
  have "k < LENGTH('a)" using assms(1) by (rule bit_imp_le_length)
  have "?r AND push_bit k 1 = 0" by (rule bit_word_eqI) (auto simp: bit_simps)
  then have "?r + push_bit k 1 = ?r OR push_bit k 1" by (rule disjunctive_add_eq_or)
  also have "\<dots> = b" using assms(1) by (intro bit_word_eqI) (auto simp: bit_simps)
  finally have b: "b = ?r + 2 ^ k" by (simp add: push_bit_eq_mult)
  have "?r AND mask k = 0" using assms(2) by (intro bit_word_eqI) (auto simp: bit_simps)
  then have "?r + mask k = ?r OR mask k" by (rule disjunctive_add_eq_or)
  then have "b - 1 = ?r OR mask k" using b by (simp add: mask_eq_exp_minus_1 algebra_simps)
  then have "- b = NOT (?r OR mask k)" by (simp add: minus_eq_not_minus_1)
  then show ?thesis using assms by (intro bit_word_eqI) (auto simp: bit_simps)
qed

text \<open>The position of the lowest set bit, for reference.\<close>

definition low :: "u8 \<Rightarrow> nat" where
  "low b = hd (filter (bit b) [0..<8])"

lemma low_bit:
  assumes "b \<noteq> (0 :: u8)"
  shows "filter (bit b) [0..<8] = low b # filter (bit (b XOR (b AND - b))) [0..<8]" "unat (b AND - b) = 2 ^ low b" "low b < 8"
proof -
  have "\<exists>n < 8. bit b n"
  proof (rule ccontr)
    assume "\<not> (\<exists>n < 8. bit b n)"
    then have "b = 0" by (intro bit_word_eqI) auto
    then show False using assms by simp
  qed
  then obtain n where "bit b n" "n < 8" by blast
  then have "filter (bit b) [0..<8] \<noteq> []" by (auto simp: filter_empty_conv)
  then obtain k ks where k: "filter (bit b) [0..<8] = k # ks" by (auto simp: neq_Nil_conv)
  then obtain us vs where u: "[0..<8] = us @ k # vs" "\<forall>u \<in> set us. \<not> bit b u" "bit b k" "ks = filter (bit b) vs"
    by (auto simp: filter_eq_Cons_iff)
  have d: "distinct (us @ k # vs)" "sorted (us @ k # vs)" "set (us @ k # vs) = {0..<8}" unfolding u(1) [symmetric] by auto
  then have k8: "k < 8" by auto
  have least: "\<forall>j < k. \<not> bit b j"
  proof (intro allI impI)
    fix j assume "j < k"
    then have "j \<in> set (us @ k # vs)" using d(3) k8 by auto
    then have "j \<in> set us" using d(2) \<open>j < k\<close> by (auto simp: sorted_append)
    then show "\<not> bit b j" using u(2) by blast
  qed
  have t: "b AND - b = push_bit k 1" by (rule lowest_bit_and_minus [OF u(3) least])
  have x: "bit (b XOR (b AND - b)) j \<longleftrightarrow> bit b j \<and> j \<noteq> k" for j
    using u(3) k8 by (auto simp: t bit_simps)
  have "filter (bit (b XOR (b AND - b))) [0..<8] = ks"
    unfolding u(1,4) using u(2) d(1) by (auto simp: x filter_empty_conv intro!: filter_cong)
  moreover have low: "low b = k" using k by (simp add: low_def)
  ultimately show "filter (bit b) [0..<8] = low b # filter (bit (b XOR (b AND - b))) [0..<8]" "low b < 8" using k k8 by simp_all
  have "(2 :: nat) ^ k < 2 ^ 8" using k8 by (intro power_strict_increasing) auto
  then show "unat (b AND - b) = 2 ^ low b"
    using low by (simp add: t push_bit_eq_mult unat_of_nat [of "2 ^ k", where 'a = 8, simplified])
qed

text \<open>
  The loop over the bits of byte \<open>i\<close>: the numbers of the last output line of each turn. The line before it also reads the tables.
\<close>

function scan_byte :: "nat \<Rightarrow> u8 list \<Rightarrow> u8 \<Rightarrow> u8 list option" where
  "scan_byte i inx_tbl b =
     (if b = 0 then Some []
      else do {
        let temp = b AND - b;
        let b = b XOR temp;
        x \<leftarrow> get_at inx_tbl (i * 8 + unat temp);
        _ \<leftarrow> get_at lut (unat x);
        y \<leftarrow> get_at inx_tbl (unat temp);
        v \<leftarrow> get_at lut (i * 8 + unat y);
        vs \<leftarrow> scan_byte i inx_tbl b;
        Some (v # vs) })"
  by pat_completeness auto
termination
  by (relation "measure (\<lambda>(i, t, b). length (filter (bit b) [0..<8]))") (auto dest!: low_bit(1))
declare scan_byte.simps [simp del]

fun scan_bytes :: "nat \<Rightarrow> u8 list \<Rightarrow> u8 list \<Rightarrow> u8 list option" where
  "scan_bytes i inx_tbl [] = Some []"
| "scan_bytes i inx_tbl (b # bs) = do {
     vs \<leftarrow> scan_byte i inx_tbl b;
     ws \<leftarrow> scan_bytes (i + 1) inx_tbl bs;
     Some (vs @ ws) }"

definition bitscan_main :: "nat \<Rightarrow> u32 \<Rightarrow> u8 list option" where
  "bitscan_main tbl_size w = do {
     inx_tbl \<leftarrow> init_bit_inx_table tbl_size;
     scan_bytes 0 inx_tbl (bytes32 w) }"

lemma init_table:
  assumes "128 < tbl_size"
  shows "\<exists>t. init_bit_inx_table tbl_size = Some t \<and> length t = tbl_size \<and> (\<forall>k < 8. t ! (2 ^ k) = of_nat k) \<and> (\<forall>j < tbl_size. t ! j < 8)"
proof -
  have k: "k < 8 \<Longrightarrow> k \<in> {0, 1, 2, 3, 4, 5, 6, 7 :: nat}" for k by auto
  show ?thesis using assms
    by (auto simp: init_bit_inx_table_def set_at_def nth_list_update dest!: k)
qed

lemma lut_nth: "k < 32 \<Longrightarrow> get_at lut k = Some (of_nat (k + 1))"
proof -
  have "list_all (\<lambda>k. get_at lut k = Some (of_nat (k + 1))) [0..<32]" by code_simp
  then show "k < 32 \<Longrightarrow> get_at lut k = Some (of_nat (k + 1))" by (simp add: list_all_iff)
qed

lemma scan_byte_bits:
  assumes "length t = tbl_size" "\<forall>k < 8. t ! (2 ^ k) = of_nat k" "\<forall>j < tbl_size. t ! j < 8" "i < 4" "i * 8 + 128 < tbl_size"
  shows "scan_byte i t b = Some (map (\<lambda>k. of_nat (i * 8 + k + 1)) (filter (bit b) [0..<8]))"
proof (induction "length (filter (bit b) [0..<8])" arbitrary: b rule: less_induct)
  case less
  show ?case
  proof (cases "b = 0")
    case True
    then show ?thesis by (simp add: scan_byte.simps)
  next
    case False
    let ?c = "b XOR (b AND - b)"
    note l = low_bit [OF False]
    have p: "(2 :: nat) ^ low b \<le> 128" using l(3) power_increasing [of "low b" 7 "2 :: nat"] by simp
    obtain x where x: "get_at t (i * 8 + 2 ^ low b) = Some x" "x < 8"
      using assms(1,3,5) p by (simp add: get_at_def)
    have "unat x < 8" using x(2) by (simp add: word_less_nat_alt)
    then have x': "get_at lut (unat x) = Some (of_nat (unat x + 1))" by (intro lut_nth) simp
    have y: "get_at t (2 ^ low b) = Some (of_nat (low b))" using assms(1,2,5) l(3) p by (simp add: get_at_def)
    have "unat (of_nat (low b) :: u8) = low b" using l(3) by (simp add: unat_of_nat)
    then have v: "get_at lut (i * 8 + unat (of_nat (low b) :: u8)) = Some (of_nat (i * 8 + low b + 1))"
      using lut_nth [of "i * 8 + low b"] l(3) assms(4) by simp
    have "scan_byte i t ?c = Some (map (\<lambda>k. of_nat (i * 8 + k + 1)) (filter (bit ?c) [0..<8]))"
      using l(1) by (intro less.hyps) simp
    then have "scan_byte i t b = Some (of_nat (i * 8 + low b + 1) # map (\<lambda>k. of_nat (i * 8 + k + 1)) (filter (bit ?c) [0..<8]))"
      using False x(1) x' y v by (subst scan_byte.simps) (simp add: l(2) Let_def del: of_nat_add)
    then show ?thesis using l(1) by simp
  qed
qed

lemma filter_bits_split:
  "filter (bit (w :: u32)) [0..<32] =
   concat (map (\<lambda>i. map (\<lambda>k. i * 8 + k) (filter (bit (ucast (drop_bit (8 * i) w) :: u8)) [0..<8])) [0..<4])"
proof -
  have "[0..<32] = concat (map (\<lambda>i. map (\<lambda>k. i * 8 + k) [0..<8]) [0..<4 :: nat])" by code_simp
  then have "filter (bit w) [0..<32] = concat (map (\<lambda>i. filter (bit w) (map (\<lambda>k. i * 8 + k) [0..<8])) [0..<4])"
    by (simp only: filter_concat map_map comp_def)
  also have "\<dots> = concat (map (\<lambda>i. map (\<lambda>k. i * 8 + k) (filter (bit (ucast (drop_bit (8 * i) w) :: u8)) [0..<8])) [0..<4])"
    by (intro arg_cong [where f = concat] map_cong refl)
      (auto simp: filter_map comp_def bit_simps ac_simps intro!: filter_cong)
  finally show ?thesis .
qed

text \<open>
  C36: with a table that reaches far enough, the scan lists the numbers of the set bits of every 32-bit number, counted from 1, from
  the lowest to the highest, each once; with the table of 128 entries that the program has, filling it already writes
  behind its end.
\<close>

theorem bitscan_lists_bits:
  "(152 < tbl_size \<longrightarrow> bitscan_main tbl_size w = Some (map (\<lambda>k. of_nat (k + 1)) (filter (bit w) [0..<32]))) \<and>
   bitscan_main INX_TBL_SIZE w = None"
proof (intro conjI impI)
  assume "152 < tbl_size"
  then obtain t where t: "init_bit_inx_table tbl_size = Some t" "length t = tbl_size" "\<forall>k < 8. t ! (2 ^ k) = of_nat k"
    "\<forall>j < tbl_size. t ! j < 8" using init_table [of tbl_size] by auto
  have s: "scan_byte i t b = Some (map (\<lambda>k. of_nat (i * 8 + k + 1)) (filter (bit b) [0..<8]))" if "i < 4" for i b
    using scan_byte_bits [OF t(2-4) that] that \<open>152 < tbl_size\<close> by simp
  have four: "[0..<4] = [0, 1, 2, 3 :: nat]" by (simp add: upt_rec)
  show "bitscan_main tbl_size w = Some (map (\<lambda>k. of_nat (k + 1)) (filter (bit w) [0..<32]))"
    unfolding filter_bits_split bitscan_main_def bytes32_def four
    using t(1) s by (simp add: numeral_2_eq_2 numeral_3_eq_3 comp_def)
next
  show "bitscan_main INX_TBL_SIZE w = None"
    by (simp add: bitscan_main_def init_bit_inx_table_def set_at_def INX_TBL_SIZE_def)
qed

theorem bitscan_lists_bits_witness:
  "bitscan_main 256 0x12345678 = Some [4, 5, 6, 7, 10, 11, 13, 15, 19, 21, 22, 26, 29]"
proof -
  have "map (\<lambda>k. of_nat (k + 1)) (filter (bit (0x12345678 :: u32)) [0..<32]) = ([4, 5, 6, 7, 10, 11, 13, 15, 19, 21, 22, 26, 29] :: u8 list)"
    by code_simp
  then show ?thesis using bitscan_lists_bits [of 256 "0x12345678"] by simp
qed

end
