(* ===== verification/Mem_Pool_Test.thy ===== *)
theory Mem_Pool_Test
  imports Mem_Pool C_Text
begin

section \<open>The tests of the memory pool\<close>

text \<open>
  Models \<open>src/src/system/mem_pool/argo_test_mem_pool.c\<close> as a client of the pool in \<open>Mem_Pool\<close>. A test is the sequence of its steps, with its loops
  written out as lists: getting an object into \<open>ptr[i]\<close>, with or without the test for \<open>NULL\<close> that ends it, writing a text of seven characters
  into it, printing it, putting it back. The eight bytes of a text are one word of the heap.

  The lemmas show that the tests follow a specification that knows only which variable holds which text: with an allocator
  that does not fail all of them pass and print what they wrote.
\<close>

subsection \<open>Texts\<close>

text \<open>The word that holds the bytes of a string and its terminating zero, lowest byte first, and the string read from it.\<close>

definition word_of_text :: "string \<Rightarrow> u64" where
  "word_of_text str = of_nat (foldr (\<lambda>c v. of_char c + 256 * v) str 0)"

fun bytes_of :: "nat \<Rightarrow> nat \<Rightarrow> string" where
  "bytes_of 0 v = []"
| "bytes_of (Suc n) v = char_of (v mod 256) # bytes_of n (v div 256)"

definition text_of_word :: "u64 \<Rightarrow> string option" where
  "text_of_word w = cstring (bytes_of 8 (unat w))"

text \<open>\<open>ABC_%03d\<close> for numbers below 1000.\<close>

definition abc :: "nat \<Rightarrow> string" where
  "abc n = ''ABC_'' @ replicate (3 - length (nat_digits n)) (CHR ''0'') @ nat_digits n"

subsection \<open>The steps of a test\<close>

datatype test_cmd =
    Get nat
  | Get_or_fail nat
  | Sprintf nat nat
  | Print nat
  | Put nat

record test_st =
  t_pool :: argo_mem_pool
  t_heap :: heap
  t_ptr :: "nat \<Rightarrow> cptr"
  t_out :: "string list"

text \<open>\<open>Inl\<close> is the return value of a test that ends early.\<close>

fun test_step :: "allocator \<Rightarrow> test_cmd \<Rightarrow> test_st \<Rightarrow> ((int + unit) \<times> test_st) option" where
  "test_step A (Get i) s = do {
     (p, mp, h) \<leftarrow> argo_mem_pool_get A (t_pool s) (t_heap s);
     Some (Inr (), s\<lparr>t_pool := mp, t_heap := h, t_ptr := (t_ptr s)(i := p)\<rparr>) }"
| "test_step A (Get_or_fail i) s = do {
     (p, mp, h) \<leftarrow> argo_mem_pool_get A (t_pool s) (t_heap s);
     Some (if p = NULL then Inl 1 else Inr (), s\<lparr>t_pool := mp, t_heap := h, t_ptr := (t_ptr s)(i := p)\<rparr>) }"
| "test_step A (Sprintf i n) s = do {
     a \<leftarrow> t_ptr s i;
     h \<leftarrow> store a (word_of_text (abc n)) (t_heap s);
     Some (Inr (), s\<lparr>t_heap := h\<rparr>) }"
| "test_step A (Print i) s = do {
     a \<leftarrow> t_ptr s i;
     w \<leftarrow> load a (t_heap s);
     str \<leftarrow> text_of_word w;
     Some (Inr (), s\<lparr>t_out := t_out s @ [str]\<rparr>) }"
| "test_step A (Put i) s = do {
     a \<leftarrow> t_ptr s i;
     (mp, h) \<leftarrow> argo_mem_pool_put (t_pool s) a (t_heap s);
     Some (Inr (), s\<lparr>t_pool := mp, t_heap := h\<rparr>) }"

fun test_steps :: "allocator \<Rightarrow> test_cmd list \<Rightarrow> test_st \<Rightarrow> ((int + unit) \<times> test_st) option" where
  "test_steps A [] s = Some (Inr (), s)"
| "test_steps A (c # cs) s = do {
     (r, s) \<leftarrow> test_step A c s;
     case r of Inl ret \<Rightarrow> Some (Inl ret, s) | Inr _ \<Rightarrow> test_steps A cs s }"

text \<open>
  A whole test: it makes a pool, which it uses without a look at the pointer, and destroys it at the end but not when it ends early. The
  result is the return value, the lines printed and the heap.
\<close>

definition run_test :: "allocator \<Rightarrow> u32 \<Rightarrow> u32 \<Rightarrow> test_cmd list \<Rightarrow> bool \<Rightarrow> heap \<Rightarrow> (int \<times> string list \<times> heap) option" where
  "run_test A sz cnt cs destroys h = do {
     (m, h) \<leftarrow> argo_mem_pool_create A sz cnt h;
     (self, mp) \<leftarrow> m;
     (r, s) \<leftarrow> test_steps A cs \<lparr>t_pool = mp, t_heap = h, t_ptr = (\<lambda>_. NULL), t_out = []\<rparr>;
     case r of Inl ret \<Rightarrow> Some (ret, t_out s, t_heap s)
     | Inr _ \<Rightarrow>
         if destroys then do { h \<leftarrow> argo_mem_pool_destroy A self (t_pool s) (t_heap s); Some (0, t_out s, h) }
         else Some (0, t_out s, t_heap s) }"

subsection \<open>The tests\<close>

definition OBJ_SZ :: u32 where "OBJ_SZ = 8"
definition OBJ_CNT :: u32 where "OBJ_CNT = 4"

definition test1 where
  "test1 A = run_test A OBJ_SZ OBJ_CNT [Get 0, Sprintf 0 1, Print 0, Put 0] True"

definition test2 where
  "test2 A = run_test A OBJ_SZ OBJ_CNT
     (concat (map (\<lambda>i. [Get_or_fail i, Sprintf i i, Print i]) [0..<4]) @ map Put (rev [0..<4])) True"

definition fill_print_put :: "nat \<Rightarrow> test_cmd list" where
  "fill_print_put n = concat (map (\<lambda>i. [Get_or_fail i, Sprintf i i]) [0..<n]) @ map Print [0..<n] @ map Put (rev [0..<n])"

definition test3 where
  "test3 A = run_test A OBJ_SZ OBJ_CNT (fill_print_put 5) True"

definition test4 where
  "test4 A = run_test A OBJ_SZ OBJ_CNT (fill_print_put 9) True"

definition test5 where
  "test5 A = run_test A OBJ_SZ OBJ_CNT
     (concat (map (\<lambda>i. [Get_or_fail i, Sprintf i i]) [0..<4]) @ map Print [0..<4] @ [Put 0, Put 3] @
      concat (map (\<lambda>i. [Get i, Sprintf i i]) [0, 3, 4, 5]) @ map Print [0..<6] @ [Put 4, Put 5] @
      concat (map (\<lambda>i. [Get i, Sprintf i i]) [6, 7, 8, 4, 5]) @ map Print [0..<9] @ map Put [0..<9]) True"

definition test6 where
  "test6 A = run_test A 8 2 (replicate 50 (Get 0)) False"

text \<open>The tests one after the other; each is reported as passed when it returns 0.\<close>

fun run_tests :: "(heap \<Rightarrow> (int \<times> string list \<times> heap) option) list \<Rightarrow> heap \<Rightarrow> (bool list \<times> string list \<times> heap) option" where
  "run_tests [] h = Some ([], [], h)"
| "run_tests (t # ts) h = do {
     (ret, out, h) \<leftarrow> t h;
     (ps, outs, h) \<leftarrow> run_tests ts h;
     Some ((ret = 0) # ps, out @ outs, h) }"

definition mem_pool_test_main :: "allocator \<Rightarrow> heap \<Rightarrow> (bool list \<times> string list \<times> heap) option" where
  "mem_pool_test_main A = run_tests [test1 A, test2 A, test3 A, test4 A, test5 A, test6 A]"

subsection \<open>A specification of the steps\<close>

text \<open>Which variables hold an object, with the number of its text once it is written; and the lines printed.\<close>

fun spec_step :: "test_cmd \<Rightarrow> (nat \<Rightarrow> nat option option) \<times> string list \<Rightarrow> ((nat \<Rightarrow> nat option option) \<times> string list) option" where
  "spec_step (Get i) (reg, out) = Some (reg(i \<mapsto> None), out)"
| "spec_step (Get_or_fail i) (reg, out) = Some (reg(i \<mapsto> None), out)"
| "spec_step (Sprintf i n) (reg, out) = (if reg i = None \<or> 9 < n then None else Some (reg(i \<mapsto> Some n), out))"
| "spec_step (Print i) (reg, out) = (case reg i of Some (Some n) \<Rightarrow> Some (reg, out @ [abc n]) | _ \<Rightarrow> None)"
| "spec_step (Put i) (reg, out) = (if reg i = None then None else Some (reg(i := None), out))"

fun spec_steps :: "test_cmd list \<Rightarrow> (nat \<Rightarrow> nat option option) \<times> string list \<Rightarrow> ((nat \<Rightarrow> nat option option) \<times> string list) option" where
  "spec_steps [] x = Some x"
| "spec_steps (c # cs) x = do { x \<leftarrow> spec_step c x; spec_steps cs x }"

abbreviation bytes_value :: "string \<Rightarrow> nat" where
  "bytes_value str \<equiv> foldr (\<lambda>c v. of_char c + 256 * v) str 0"

lemma of_char_less: "(of_char c :: nat) < 256"
  by (metis of_char_mod_256 mod_less_divisor zero_less_numeral)

lemma bytes_value_less: "bytes_value str < 256 ^ length str"
proof (induction str)
  case (Cons c str)
  then have "bytes_value str + 1 \<le> 256 ^ length str" by simp
  then have le: "256 * bytes_value str + 256 \<le> 256 ^ length (c # str)" by simp
  have "of_char c + 256 * bytes_value str < 256 * bytes_value str + 256" using of_char_less [of c] by linarith
  also note le
  finally show ?case by simp
qed simp

lemma bytes_of_zero: "bytes_of n 0 = replicate n NUL"
  by (induction n) (simp_all add: char_of_def)

lemma bytes_of_bytes_value: "length str \<le> n \<Longrightarrow> bytes_of n (bytes_value str) = str @ replicate (n - length str) NUL"
proof (induction str arbitrary: n)
  case (Cons c str)
  then obtain m where m: "n = Suc m" "length str \<le> m" by (cases n) auto
  have "(of_char c + 256 * bytes_value str) mod 256 = of_char c" "(of_char c + 256 * bytes_value str) div 256 = bytes_value str"
    using of_char_less [of c] by simp_all
  then show ?case using Cons.IH [OF m(2)] m(1) by simp
qed (simp add: bytes_of_zero)

lemma text_round_trip:
  assumes "length str \<le> 7" "NUL \<notin> set str"
  shows "text_of_word (word_of_text str) = Some str"
proof -
  have "bytes_value str < 256 ^ 8"
    using bytes_value_less [of str] power_increasing [of "length str" 8 "256 :: nat"] assms(1) by simp
  then have "unat (word_of_text str) = bytes_value str"
    by (simp add: word_of_text_def unsigned_of_nat take_bit_nat_eq_self)
  moreover have "bytes_of 8 (bytes_value str) = strncpy 8 str"
    using assms(1) by (simp add: bytes_of_bytes_value strncpy_def min_def)
  ultimately show ?thesis
    using assms by (simp add: text_of_word_def cstring_strncpy del: bytes_of.simps)
qed

lemma abc_text:
  assumes "n \<le> 9"
  shows "text_of_word (word_of_text (abc n)) = Some (abc n)"
proof (rule text_round_trip)
  have "nat_digits n = [digit_char n]" using assms by (subst nat_digits.simps) simp
  then show "length (abc n) \<le> 7" "NUL \<notin> set (abc n)"
    using assms digit_char_props(6) [of n] by (simp_all add: abc_def)
qed

subsection \<open>The tests follow the specification\<close>

text \<open>The hypothesis on the allocator: it does not run out of memory.\<close>

definition never_fails :: "allocator \<Rightarrow> bool" where
  "never_fails A \<longleftrightarrow> (\<forall>n h. fst (argo_alloc A n h) \<noteq> NULL)"

definition sys_of :: "allocator \<Rightarrow> addr \<Rightarrow> test_st \<Rightarrow> addr set \<Rightarrow> mp_sys" where
  "sys_of A self s P = \<lparr>sys_env = A, pool_self = self, sys_pool = t_pool s, sys_heap = t_heap s, pool_out = P\<rparr>"

text \<open>
  \<open>P\<close> are the pointers in use. The variables of the specification hold different ones, with their texts; at most \<open>k\<close> slabs are used.
\<close>

definition follows :: "allocator \<Rightarrow> addr \<Rightarrow> nat \<Rightarrow> addr set \<Rightarrow> test_st \<Rightarrow> (nat \<Rightarrow> nat option option) \<times> string list \<Rightarrow> bool" where
  "follows A self k P s x \<longleftrightarrow>
     mp_inv (sys_of A self s P) \<and> unat (mp_obj_sz (t_pool s)) = 16 \<and> unat (mp_slab_cnt (t_pool s)) \<le> k \<and> t_out s = snd x \<and>
     (\<forall>i t. fst x i = Some t \<longrightarrow> (\<exists>a. t_ptr s i = Some a \<and> a \<in> P \<and>
        (\<forall>n. t = Some n \<longrightarrow> n \<le> 9 \<and> heap_words (t_heap s) a = word_of_text (abc n)))) \<and>
     (\<forall>i j. fst x i \<noteq> None \<longrightarrow> fst x j \<noteq> None \<longrightarrow> i \<noteq> j \<longrightarrow> t_ptr s i \<noteq> t_ptr s j)"

lemma expand_slab_cnt:
  assumes "argo_mem_pool_expand A mp h = Some (r, mp', h')" "unat (mp_slab_cnt mp) < MP_SLABS_MAX"
  shows "unat (mp_slab_cnt mp') \<le> Suc (unat (mp_slab_cnt mp))" "never_fails A \<Longrightarrow> r = 0"
proof -
  have ne: "mp_slab_cnt mp \<noteq> of_nat MP_SLABS_MAX" using assms(2) by (auto simp: MP_SLABS_MAX_def)
  obtain p h1 where al: "argo_alloc A (unat (mp_obj_sz mp * mp_obj_cnt mp)) h = (p, h1)" by fastforce
  have "unat (mp_slab_cnt mp') \<le> Suc (unat (mp_slab_cnt mp)) \<and> (p \<noteq> NULL \<longrightarrow> r = 0)"
    using assms ne al slab_cnt_Suc [OF assms(2)]
    by (cases p) (auto simp: argo_mem_pool_expand_def mp_create_new_slab_def Let_def bind_eq_Some_conv)
  then show "unat (mp_slab_cnt mp') \<le> Suc (unat (mp_slab_cnt mp))" "never_fails A \<Longrightarrow> r = 0"
    using al unfolding never_fails_def by (auto dest: spec) (metis fst_conv not_None_eq)
qed

lemma get_slab_cnt:
  assumes g: "argo_mem_pool_get A mp h = Some (p, mp', h')" and lt: "unat (mp_slab_cnt mp) < MP_SLABS_MAX"
  shows "unat (mp_slab_cnt mp') \<le> Suc (unat (mp_slab_cnt mp))" "never_fails A \<Longrightarrow> p \<noteq> NULL"
proof -
  obtain inx off where io: "mp_metadata_to_inx_and_offset (mp_free_next mp) = (inx, off)" by fastforce
  have "unat (mp_slab_cnt mp') \<le> Suc (unat (mp_slab_cnt mp)) \<and> (never_fails A \<longrightarrow> p \<noteq> NULL)"
  proof (cases "ucast off = MP_OFFSET_INVALID")
    case False
    with g io show ?thesis by (auto simp: argo_mem_pool_get_def bind_eq_Some_conv split: prod.splits)
  next
    case True
    then obtain r mp1 h1 where e: "argo_mem_pool_expand A mp h = Some (r, mp1, h1)"
      using g io by (auto simp: argo_mem_pool_get_def bind_eq_Some_conv)
    then show ?thesis
      using g io True expand_slab_cnt [OF e lt]
      by (auto simp: argo_mem_pool_get_def bind_eq_Some_conv split: prod.splits if_splits)
  qed
  then show "unat (mp_slab_cnt mp') \<le> Suc (unat (mp_slab_cnt mp))" "never_fails A \<Longrightarrow> p \<noteq> NULL" by blast+
qed

text \<open>What is known of a pointer in use.\<close>

lemma out_pointer:
  assumes "mp_inv (sys_of A self s P)" "a \<in> P" "unat (mp_obj_sz (t_pool s)) = 16"
  shows "8 dvd a" "8 \<le> a" "in_block (t_heap s) a" "\<And>b. b \<in> P \<Longrightarrow> b \<noteq> a - 8"
proof -
  obtain fs where ok: "pool_ok (t_pool s) (t_heap s) fs" and P: "P = user_ptr (t_pool s) ` (objects (t_pool s) - set fs)"
    using assms(1) by (auto simp: mp_inv_def sys_of_def)
  have sl: "slabs_ok (t_pool s) (t_heap s)" using ok by (rule pool_ok_slabs)
  obtain x where x: "x \<in> objects (t_pool s)" "a = obj_addr (t_pool s) x + 8"
    using assms(2) P by (auto simp: user_ptr_def MP_METADATA_SZ_def)
  note blk = objects_in_block [OF sl x(1)]
  show "8 dvd a" "8 \<le> a" using blk(1) x(2) by simp_all
  obtain b n where "(b, n) \<in> set (blocks (t_heap s))" "b \<le> obj_addr (t_pool s) x" "obj_addr (t_pool s) x + 16 \<le> b + n"
    using blk(3) assms(3) by auto
  then show "in_block (t_heap s) a" unfolding in_block_def using x(2) by (intro bexI [of _ "(b, n)"]) auto
  fix b assume "b \<in> P"
  then obtain y where y: "y \<in> objects (t_pool s)" "b = user_ptr (t_pool s) y" using P by auto
  show "b \<noteq> a - 8"
    using payload_not_metadata [OF sl y(1) x(1), of b] y(2) x(2) assms(3) by (simp add: MP_METADATA_SZ_def)
qed

lemma follows_reg:
  assumes "follows A self k P s (reg, out)" "reg i = Some t"
  shows "\<exists>a. t_ptr s i = Some a \<and> a \<in> P \<and> (\<forall>n. t = Some n \<longrightarrow> n \<le> 9 \<and> heap_words (t_heap s) a = word_of_text (abc n))"
  using assms unfolding follows_def fst_conv by blast

lemma follows_distinct:
  assumes "follows A self k P s (reg, out)" "reg i \<noteq> None" "reg j \<noteq> None" "i \<noteq> j"
  shows "t_ptr s i \<noteq> t_ptr s j"
  using assms unfolding follows_def fst_conv by blast

lemma follows_get:
  assumes f: "follows A self k P s (reg, out)" and A: "never_fails A" and k: "k < MP_SLABS_MAX"
  shows "\<exists>a mp h. argo_mem_pool_get A (t_pool s) (t_heap s) = Some (Some a, mp, h) \<and>
    follows A self (Suc k) (insert a P) (s\<lparr>t_pool := mp, t_heap := h, t_ptr := (t_ptr s)(i := Some a)\<rparr>) (reg(i \<mapsto> None), out)"
proof -
  let ?s = "sys_of A self s P"
  have inv: "mp_inv ?s" and sz: "unat (mp_obj_sz (t_pool s)) = 16" and cnt: "unat (mp_slab_cnt (t_pool s)) < MP_SLABS_MAX"
    using f k by (auto simp: follows_def)
  show ?thesis
  proof (cases rule: get_outcome [OF inv, case_names null object])
    case null
    then show ?thesis using get_slab_cnt(2) [OF _ cnt A, of "t_heap s" NULL] by (auto simp: sys_of_def)
  next
    case (object a mp h)
    then have g: "argo_mem_pool_get A (t_pool s) (t_heap s) = Some (Some a, mp, h)" by (simp add: sys_of_def)
    let ?t = "s\<lparr>t_pool := mp, t_heap := h, t_ptr := (t_ptr s)(i := Some a)\<rparr>"
    have inv': "mp_inv (sys_of A self ?t (insert a P))" using object(3) by (simp add: sys_of_def)
    have sz': "unat (mp_obj_sz (t_pool ?t)) = 16" using object(4) sz by (simp add: sys_of_def)
    have keep: "heap_words h b = heap_words (t_heap s) b" if "b \<in> P" for b
    proof -
      have "b \<noteq> a - 8" using out_pointer(4) [OF inv' _ sz', of a b] that by simp
      then show ?thesis using object(5) [of b] out_pointer(3) [OF inv that sz] by (simp add: sys_of_def)
    qed
    have "a \<notin> P" using object(2) by (simp add: sys_of_def)
    have "follows A self (Suc k) (insert a P) ?t (reg(i \<mapsto> None), out)"
      unfolding follows_def
    proof (intro conjI allI impI)
      fix j t assume j: "fst (reg(i \<mapsto> None), out) j = Some t"
      show "\<exists>b. t_ptr ?t j = Some b \<and> b \<in> insert a P \<and> (\<forall>m. t = Some m \<longrightarrow> m \<le> 9 \<and> heap_words (t_heap ?t) b = word_of_text (abc m))"
      proof (cases "j = i")
        case False
        with j have "reg j = Some t" by simp
        from follows_reg [OF f this] False keep show ?thesis by auto
      qed (use j in auto)
    next
      fix j l assume d: "fst (reg(i \<mapsto> None), out) j \<noteq> None" "fst (reg(i \<mapsto> None), out) l \<noteq> None" "j \<noteq> l"
      have P: "t_ptr s m \<noteq> Some a" if m: "reg m \<noteq> None" for m
      proof -
        obtain t where "reg m = Some t" using m by blast
        from follows_reg [OF f this] \<open>a \<notin> P\<close> show ?thesis by auto
      qed
      show "t_ptr ?t j \<noteq> t_ptr ?t l"
        using d P [of j] P [of l] follows_distinct [OF f, of j l] by (auto split: if_splits)
    next
      show "unat (mp_slab_cnt (t_pool ?t)) \<le> Suc k" using get_slab_cnt(1) [OF g cnt] f by (simp add: follows_def)
    qed (use f inv' sz' in \<open>auto simp: follows_def\<close>)
    with g show ?thesis by blast
  qed
qed

lemma follows_sprintf:
  assumes f: "follows A self k P s (reg, out)" and i: "reg i \<noteq> None" and n: "n \<le> 9"
  shows "\<exists>s'. test_step A (Sprintf i n) s = Some (Inr (), s') \<and> follows A self k P s' (reg(i \<mapsto> Some n), out)"
proof -
  obtain a where a: "t_ptr s i = Some a" "a \<in> P" using follows_reg [OF f] i by blast
  have inv: "mp_inv (sys_of A self s P)" and sz: "unat (mp_obj_sz (t_pool s)) = 16" using f by (auto simp: follows_def)
  note p = out_pointer [OF inv a(2) sz]
  define s' where "s' = s\<lparr>t_heap := (t_heap s)\<lparr>heap_words := (heap_words (t_heap s))(a := word_of_text (abc n))\<rparr>\<rparr>"
  have "mp_step (sys_of A self s P) (sys_of A self s' P)"
    using step_write [of a "sys_of A self s P" a "word_of_text (abc n)"] a(2) p(1) sz
    by (simp add: sys_of_def s'_def MP_METADATA_SZ_def)
  then have inv': "mp_inv (sys_of A self s' P)" by (rule mp_step_inv [OF inv])
  have "follows A self k P s' (reg(i \<mapsto> Some n), out)"
    unfolding follows_def
  proof (intro conjI allI impI)
    fix j t assume j: "fst (reg(i \<mapsto> Some n), out) j = Some t"
    show "\<exists>b. t_ptr s' j = Some b \<and> b \<in> P \<and> (\<forall>m. t = Some m \<longrightarrow> m \<le> 9 \<and> heap_words (t_heap s') b = word_of_text (abc m))"
    proof (cases "j = i")
      case True
      with j a n show ?thesis by (auto simp: s'_def)
    next
      case False
      with j have r: "reg j = Some t" by simp
      then obtain b where b: "t_ptr s j = Some b" "b \<in> P" "\<forall>m. t = Some m \<longrightarrow> m \<le> 9 \<and> heap_words (t_heap s) b = word_of_text (abc m)"
        using follows_reg [OF f r] by blast
      have "t_ptr s j \<noteq> t_ptr s i" using follows_distinct [OF f, of j i] r i False by simp
      then show ?thesis using b a by (auto simp: s'_def)
    qed
  next
    fix j l assume "fst (reg(i \<mapsto> Some n), out) j \<noteq> None" "fst (reg(i \<mapsto> Some n), out) l \<noteq> None" "j \<noteq> l"
    then have "reg j \<noteq> None" "reg l \<noteq> None" using i by (auto split: if_splits)
    then show "t_ptr s' j \<noteq> t_ptr s' l" using follows_distinct [OF f _ _ \<open>j \<noteq> l\<close>] by (simp add: s'_def)
  qed (use f inv' in \<open>auto simp: follows_def s'_def\<close>)
  moreover have "test_step A (Sprintf i n) s = Some (Inr (), s')" using a p by (simp add: store_def s'_def)
  ultimately show ?thesis by blast
qed

lemma follows_print:
  assumes f: "follows A self k P s (reg, out)" and i: "reg i = Some (Some n)"
  shows "\<exists>s'. test_step A (Print i) s = Some (Inr (), s') \<and> follows A self k P s' (reg, out @ [abc n])"
proof -
  obtain a where a: "t_ptr s i = Some a" "a \<in> P" "n \<le> 9" "heap_words (t_heap s) a = word_of_text (abc n)"
    using follows_reg [OF f i] by blast
  have inv: "mp_inv (sys_of A self s P)" and sz: "unat (mp_obj_sz (t_pool s)) = 16" using f by (auto simp: follows_def)
  have "test_step A (Print i) s = Some (Inr (), s\<lparr>t_out := t_out s @ [abc n]\<rparr>)"
    using out_pointer [OF inv a(2) sz] a abc_text [OF a(3)] by (simp add: load_def)
  moreover have "follows A self k P (s\<lparr>t_out := t_out s @ [abc n]\<rparr>) (reg, out @ [abc n])"
    using f by (simp add: follows_def sys_of_def)
  ultimately show ?thesis by blast
qed

lemma follows_put:
  assumes f: "follows A self k P s (reg, out)" and i: "reg i \<noteq> None"
  shows "\<exists>s' P'. test_step A (Put i) s = Some (Inr (), s') \<and> follows A self k P' s' (reg(i := None), out)"
proof -
  obtain a where a: "t_ptr s i = Some a" "a \<in> P" using follows_reg [OF f] i by blast
  have inv: "mp_inv (sys_of A self s P)" and sz: "unat (mp_obj_sz (t_pool s)) = 16" using f by (auto simp: follows_def)
  note p = out_pointer [OF inv a(2) sz]
  obtain fs where ok: "pool_ok (t_pool s) (t_heap s) fs" and P: "P = user_ptr (t_pool s) ` (objects (t_pool s) - set fs)"
    using inv by (auto simp: mp_inv_def sys_of_def)
  obtain x where x: "x \<in> objects (t_pool s)" "x \<notin> set fs" "a = obj_addr (t_pool s) x + 8"
    using a(2) P by (auto simp: user_ptr_def MP_METADATA_SZ_def)
  define mp where "mp = (t_pool s)\<lparr>mp_free_next := obj_md (t_pool s) x\<rparr>"
  define h where "h = (t_heap s)\<lparr>heap_words := (heap_words (t_heap s))(a - 8 := mp_free_next (t_pool s))\<rparr>"
  have pt: "argo_mem_pool_put (t_pool s) a (t_heap s) = Some (mp, h)"
    using put_to_list(1) [OF ok x(1,2)] x(3) by (simp add: mp_def h_def)
  let ?t = "s\<lparr>t_pool := mp, t_heap := h\<rparr>"
  have "mp_step (sys_of A self s P) (sys_of A self ?t (P - {a}))"
    using step_put [of a "sys_of A self s P" mp h] a(2) pt by (simp add: sys_of_def)
  then have inv': "mp_inv (sys_of A self ?t (P - {a}))" by (rule mp_step_inv [OF inv])
  have keep: "heap_words h b = heap_words (t_heap s) b" if "b \<in> P" for b
    using p(4) [OF that] by (simp add: h_def)
  have "follows A self k (P - {a}) ?t (reg(i := None), out)"
    unfolding follows_def
  proof (intro conjI allI impI)
    fix j t assume "fst (reg(i := None), out) j = Some t"
    then have j: "reg j = Some t" "j \<noteq> i" by (auto split: if_splits)
    then obtain b where b: "t_ptr s j = Some b" "b \<in> P" "\<forall>m. t = Some m \<longrightarrow> m \<le> 9 \<and> heap_words (t_heap s) b = word_of_text (abc m)"
      using follows_reg [OF f j(1)] by blast
    have "t_ptr s j \<noteq> t_ptr s i" using follows_distinct [OF f, of j i] j i by simp
    then show "\<exists>b. t_ptr ?t j = Some b \<and> b \<in> P - {a} \<and> (\<forall>m. t = Some m \<longrightarrow> m \<le> 9 \<and> heap_words (t_heap ?t) b = word_of_text (abc m))"
      using b a keep [OF b(2)] by auto
  next
    fix j l assume "fst (reg(i := None), out) j \<noteq> None" "fst (reg(i := None), out) l \<noteq> None" "j \<noteq> l"
    then show "t_ptr ?t j \<noteq> t_ptr ?t l" using follows_distinct [OF f, of j l] by (auto split: if_splits)
  qed (use f inv' in \<open>auto simp: follows_def mp_def\<close>)
  then show ?thesis using pt a by fastforce
qed

lemma test_steps_follow:
  assumes "never_fails A" "follows A self k P s x" "spec_steps cs x = Some y" "k + length cs < MP_SLABS_MAX"
  shows "\<exists>s' P'. test_steps A cs s = Some (Inr (), s') \<and> follows A self (k + length cs) P' s' y"
  using assms(2-)
proof (induction cs arbitrary: s x k P)
  case (Cons c cs)
  obtain reg out where x: "x = (reg, out)" by fastforce
  obtain x1 where x1: "spec_step c x = Some x1" "spec_steps cs x1 = Some y" using Cons.prems(2) by (auto simp: bind_eq_Some_conv)
  have weak: "follows A self (Suc k) Q t z" if "follows A self k Q t z" for Q t z using that by (auto simp: follows_def)
  have "\<exists>s1 P1. test_step A c s = Some (Inr (), s1) \<and> follows A self (Suc k) P1 s1 x1"
  proof (cases c)
    case (Get i)
    with follows_get [OF Cons.prems(1) [unfolded x] assms(1), of i] Cons.prems(3) x1(1) x show ?thesis by fastforce
  next
    case (Get_or_fail i)
    with follows_get [OF Cons.prems(1) [unfolded x] assms(1), of i] Cons.prems(3) x1(1) x show ?thesis by fastforce
  next
    case (Sprintf i n)
    with x1(1) x have r: "reg i \<noteq> None" "n \<le> 9" "x1 = (reg(i \<mapsto> Some n), out)" by (auto split: if_splits)
    with follows_sprintf [OF Cons.prems(1) [unfolded x] r(1,2)] weak Sprintf show ?thesis by metis
  next
    case (Print i)
    with x1(1) x obtain n where r: "reg i = Some (Some n)" "x1 = (reg, out @ [abc n])" by (auto split: option.splits)
    with follows_print [OF Cons.prems(1) [unfolded x] r(1)] weak Print show ?thesis by metis
  next
    case (Put i)
    with x1(1) x have r: "reg i \<noteq> None" "x1 = (reg(i := None), out)" by (auto split: if_splits)
    with follows_put [OF Cons.prems(1) [unfolded x] r(1)] weak Put show ?thesis by metis
  qed
  then obtain s1 P1 where s1: "test_step A c s = Some (Inr (), s1)" "follows A self (Suc k) P1 s1 x1" by blast
  from Cons.IH [OF s1(2) x1(2)] Cons.prems(3) s1(1) show ?case by fastforce
qed auto

lemma create_not_null:
  assumes "never_fails A"
  shows "argo_mem_pool_create A sz cnt h \<noteq> Some (NULL, h')"
proof -
  have *: "argo_alloc A n g \<noteq> (NULL, g')" for n g g'
    using assms unfolding never_fails_def by (metis fst_conv)
  show ?thesis
    by (auto simp: argo_mem_pool_create_def mp_create_new_slab_def Let_def bind_eq_Some_conv *
        split: prod.splits option.splits if_splits)
qed

text \<open>A test that the specification accepts returns 0 and prints what the specification says.\<close>

lemma run_test_follows:
  assumes A: "alloc_ok A" "never_fails A" and wf: "heap_wf h" and cnt: "create_args_ok 8 cnt"
    and spec: "spec_steps cs (Map.empty, []) = Some (reg, out)" and len: "Suc (length cs) < MP_SLABS_MAX"
  shows "\<exists>h'. run_test A 8 cnt cs d h = Some (0, out, h') \<and> heap_wf h'"
proof -
  obtain self a mp h1 where cr: "argo_mem_pool_create A 8 cnt h = Some (Some (self, mp), h1)" "mp_slab_cnt mp = 1"
      "unat (mp_obj_sz mp) = full_sz 8"
    using create_cases [OF A(1) wf cnt] create_not_null [OF A(2), of 8 cnt h] by blast
  define s where "s = \<lparr>t_pool = mp, t_heap = h1, t_ptr = (\<lambda>_. NULL), t_out = []\<rparr>"
  have "mp_start (sys_of A self s {})"
    unfolding mp_start_def using A(1) wf cnt cr(1) by (auto simp: sys_of_def s_def)
  then have "follows A self 1 {} s (Map.empty, [])"
    using mp_start_inv cr(2,3) by (simp add: follows_def s_def full_sz_def)
  then obtain s' P' where st: "test_steps A cs s = Some (Inr (), s')" "follows A self (1 + length cs) P' s' (reg, out)"
    using test_steps_follow [OF A(2) _ spec] len by fastforce
  have inv: "mp_inv (sys_of A self s' P')" and o: "t_out s' = out" using st(2) by (auto simp: follows_def)
  then obtain fs where ok: "pool_ok (t_pool s') (t_heap s') fs" and self: "(self, sizeof_argo_mem_pool) \<in> set (blocks (t_heap s'))"
      "\<And>i. slabs (t_pool s') i \<noteq> Some self"
    by (auto simp: mp_inv_def sys_of_def)
  have sl: "slabs_ok (t_pool s') (t_heap s')" using ok by (rule pool_ok_slabs)
  then have wf': "heap_wf (t_heap s')" by (simp add: slabs_ok_def)
  obtain h2 where h2: "argo_mem_pool_destroy A self (t_pool s') (t_heap s') = Some h2" "set (blocks h2) \<subseteq> set (blocks (t_heap s'))"
    using destroy_effect [OF A(1) sl self] by blast
  have "run_test A 8 cnt cs d h = Some (0, out, if d then h2 else t_heap s')"
    using cr(1) st(1) h2(1) o by (simp add: run_test_def s_def)
  moreover have "heap_wf h2" using heap_wf_mono [OF wf' h2(2)] .
  ultimately show ?thesis using wf' by auto
qed

lemma test_args: "create_args_ok 8 OBJ_CNT" "create_args_ok 8 2"
  by (simp_all add: create_args_ok_def full_sz_def OBJ_CNT_def)

lemma tests_pass:
  assumes A: "alloc_ok A" "never_fails A" and wf: "heap_wf h"
  shows "\<exists>h'. test1 A h = Some (0, [abc 1], h') \<and> heap_wf h'"
    and "\<exists>h'. test2 A h = Some (0, map abc [0..<4], h') \<and> heap_wf h'"
    and "\<exists>h'. test3 A h = Some (0, map abc [0..<5], h') \<and> heap_wf h'"
    and "\<exists>h'. test4 A h = Some (0, map abc [0..<9], h') \<and> heap_wf h'"
    and "\<exists>h'. test5 A h = Some (0, map abc ([0..<4] @ [0..<6] @ [0..<9]), h') \<and> heap_wf h'"
    and "\<exists>h'. test6 A h = Some (0, [], h') \<and> heap_wf h'"
  unfolding test1_def test2_def test3_def test4_def test5_def test6_def OBJ_SZ_def
  by (rule run_test_follows [OF A wf], (rule test_args), (simp add: fill_print_put_def upt_rec eval_nat_numeral), (simp add: fill_print_put_def MP_SLABS_MAX_def upt_rec))+

text \<open>
  C39: with an allocator that keeps its contract and does not run out of memory, all six tests of the memory pool pass: no test uses a null
  pointer or memory outside the pool, every text printed is the one written last into that object, also after objects were
  put back, taken again and the pool grew by several slabs, and every pool that is destroyed can be destroyed.
\<close>

theorem mem_pool_tests_pass:
  assumes "alloc_ok A" "never_fails A" "heap_wf h"
  shows "\<exists>h'. mem_pool_test_main A h = Some (replicate 6 True,
    map abc ([1] @ [0..<4] @ [0..<5] @ [0..<9] @ [0..<4] @ [0..<6] @ [0..<9]), h')"
proof -
  obtain h1 where 1: "test1 A h = Some (0, [abc 1], h1)" "heap_wf h1" using tests_pass(1) [OF assms] by blast
  obtain h2 where 2: "test2 A h1 = Some (0, map abc [0..<4], h2)" "heap_wf h2" using tests_pass(2) [OF assms(1,2) 1(2)] by blast
  obtain h3 where 3: "test3 A h2 = Some (0, map abc [0..<5], h3)" "heap_wf h3" using tests_pass(3) [OF assms(1,2) 2(2)] by blast
  obtain h4 where 4: "test4 A h3 = Some (0, map abc [0..<9], h4)" "heap_wf h4" using tests_pass(4) [OF assms(1,2) 3(2)] by blast
  obtain h5 where 5: "test5 A h4 = Some (0, map abc ([0..<4] @ [0..<6] @ [0..<9]), h5)" "heap_wf h5"
    using tests_pass(5) [OF assms(1,2) 4(2)] by blast
  obtain h6 where 6: "test6 A h5 = Some (0, [], h6)" using tests_pass(6) [OF assms(1,2) 5(2)] by blast
  show ?thesis
    unfolding mem_pool_test_main_def run_tests.simps 1(1) 2(1) 3(1) 4(1) 5(1) 6 bind.simps prod.case
    by (simp add: eval_nat_numeral del: upt_rec_numeral)
qed

text \<open>A pool that could not be made is used all the same.\<close>

lemma run_test_no_pool: "argo_mem_pool_create A sz cnt h = Some (NULL, h') \<Longrightarrow> run_test A sz cnt cs d h = None"
  by (simp add: run_test_def)

lemma bump_never_fails: "never_fails bump"
  by (simp add: never_fails_def bump_def Let_def)

theorem mem_pool_tests_pass_witness:
  "alloc_ok bump \<and> never_fails bump \<and> heap_wf empty_heap \<and>
   (\<exists>h'. mem_pool_test_main bump empty_heap = Some (replicate 6 True,
     map abc ([1] @ [0..<4] @ [0..<5] @ [0..<9] @ [0..<4] @ [0..<6] @ [0..<9]), h'))"
  using mem_pool_tests_pass [OF bump_ok bump_never_fails empty_heap_wf] bump_ok bump_never_fails empty_heap_wf by blast

end
