(* ===== verification/Redis_Clients.thy ===== *)
theory Redis_Clients
  imports C_Text
begin

section \<open>Clients of a Redis server\<close>

text \<open>
  Models the programs under \<open>src/src/other/redistest\<close> and \<open>src/src/other/redisConnectionTest\<close> that work with a blocking connection, and the
  callbacks of those that subscribe (\<open>moht.c\<close>, \<open>subscriber.c\<close> and \<open>src/src/other/redisKeySpaceNotifications\<close>). The library \<open>hiredis\<close>
  and the server are outside the repository: \<open>redisCommand\<close> is a parameter that takes the format, its string arguments and
  the state of the server, and gives a reply object, or none when the connection fails, and a new state. A reply has a string
  only if it is a string, a status or an error; reading another one is a use of the null pointer. The state counts the
  replies that are not freed yet and collects the lines printed about them; the address of the server, the lines about the connection and the text of
  the library's errors are left out.

  The lemmas show that what the programs write to the server is what they read back, that a reply of the wrong kind
  makes them use a null pointer, that two of them overrun the array for their command, and that \<open>setHash\<close> stores empty values.
\<close>

datatype redisReply =
    REDIS_REPLY_STRING string
  | REDIS_REPLY_ARRAY "redisReply list"
  | REDIS_REPLY_INTEGER int
  | REDIS_REPLY_NIL
  | REDIS_REPLY_STATUS string
  | REDIS_REPLY_ERROR string

type_synonym 'v redis_lib = "string \<Rightarrow> string list \<Rightarrow> 'v \<Rightarrow> redisReply option \<times> 'v"

record 'v redis_st =
  server :: 'v
  live_replies :: nat
  out :: "string list"

text \<open>A string as the functions of C see it.\<close>

definition c_str :: "string \<Rightarrow> string" where
  "c_str s = takeWhile (\<lambda>c. c \<noteq> NUL) s"

text \<open>\<open>reply->str\<close> with \<open>reply->len\<close>.\<close>

fun reply_str :: "redisReply \<Rightarrow> string option" where
  "reply_str (REDIS_REPLY_STRING s) = Some s"
| "reply_str (REDIS_REPLY_STATUS s) = Some s"
| "reply_str (REDIS_REPLY_ERROR s) = Some s"
| "reply_str _ = None"

definition redisCommand :: "'v redis_lib \<Rightarrow> string \<Rightarrow> string list \<Rightarrow> 'v redis_st \<Rightarrow> redisReply option \<times> 'v redis_st" where
  "redisCommand lib fmt args s =
     (case lib fmt args (server s) of (r, v) \<Rightarrow> (r, s\<lparr>server := v, live_replies := live_replies s + (if r = None then 0 else 1)\<rparr>))"

definition freeReplyObject :: "'v redis_st \<Rightarrow> 'v redis_st" where
  "freeReplyObject s = s\<lparr>live_replies := live_replies s - 1\<rparr>"

definition print_line :: "string \<Rightarrow> 'v redis_st \<Rightarrow> 'v redis_st" where
  "print_line l s = s\<lparr>out := out s @ [l]\<rparr>"

text \<open>\<open>sprintf\<close> into an array of \<open>n\<close> characters.\<close>

definition sprintf_to :: "nat \<Rightarrow> string \<Rightarrow> string option" where
  "sprintf_to n str = (if length str < n then Some str else None)"

subsection \<open>Connecting and executing a command\<close>

text \<open>
  The argument is the result of \<open>redisConnect\<close>: no context, or one with its error code. The result is an exit status, or \<open>None\<close> to go on.
\<close>

definition connect2redis :: "int option \<Rightarrow> int option option" where
  "connect2redis context = (case context of None \<Rightarrow> None | Some err \<Rightarrow> if err \<noteq> 0 then Some (Some 1) else Some None)"

text \<open>\<open>printf\<close> of the strings of an array; each must have one.\<close>

fun element_strs :: "redisReply list \<Rightarrow> string list option" where
  "element_strs [] = Some []"
| "element_strs (e # es) = do { s \<leftarrow> reply_str e; ss \<leftarrow> element_strs es; Some (c_str s # ss) }"

definition reply_lines :: "redisReply \<Rightarrow> string list option" where
  "reply_lines r = (case r of
       REDIS_REPLY_STRING s \<Rightarrow> Some [''REPLY string of lenght '' @ printf_d (int (length (c_str s))) @ '' : '' @ c_str s]
     | REDIS_REPLY_INTEGER i \<Rightarrow> Some [''REPLY integer : '' @ printf_d i]
     | REDIS_REPLY_STATUS s \<Rightarrow> Some [''REPLY status: '' @ c_str s]
     | REDIS_REPLY_ERROR s \<Rightarrow> Some [''ERROR error: '' @ c_str s]
     | REDIS_REPLY_NIL \<Rightarrow> Some [''REPLY : nil'']
     | REDIS_REPLY_ARRAY es \<Rightarrow> do {
         ss \<leftarrow> element_strs es;
         Some [''REPLY : ARRAY'', concat (map (\<lambda>s. s @ '' '') ss)] })"

text \<open>The result is an exit status, or the reply that \<open>gReply\<close> points to.\<close>

definition executeCommand :: "'v redis_lib \<Rightarrow> string \<Rightarrow> 'v redis_st \<Rightarrow> ((int + redisReply) \<times> 'v redis_st) option" where
  "executeCommand lib mycmd s =
     (case redisCommand lib mycmd [] s of
        (None, s) \<Rightarrow> Some (Inl 1, print_line ''ERROR'' s)
      | (Some r, s) \<Rightarrow> do { ls \<leftarrow> reply_lines r; Some (Inr r, s\<lparr>out := out s @ ls\<rparr>) })"

text \<open>
  The loop that \<open>settest.c\<close>, \<open>gettest.c\<close>, \<open>zaddtest.c\<close>, \<open>sismemberTest.c\<close> and \<open>test_set.c\<close> have in their \<open>main\<close>: \<open>n\<close> is
  the size of \<open>mycmd\<close> and \<open>f i\<close> the command.
\<close>

fun command_loop :: "'v redis_lib \<Rightarrow> nat \<Rightarrow> (nat \<Rightarrow> string) \<Rightarrow> nat list \<Rightarrow> 'v redis_st \<Rightarrow> (int \<times> 'v redis_st) option" where
  "command_loop lib n f [] s = Some (0, s)"
| "command_loop lib n f (i # is) s = do {
     mycmd \<leftarrow> sprintf_to n (f i);
     (r, s) \<leftarrow> executeCommand lib mycmd s;
     case r of Inl st \<Rightarrow> Some (st, s) | Inr _ \<Rightarrow> command_loop lib n f is (freeReplyObject s) }"

definition command_program ::
  "'v redis_lib \<Rightarrow> int option \<Rightarrow> nat \<Rightarrow> (nat \<Rightarrow> string) \<Rightarrow> nat list \<Rightarrow> 'v redis_st \<Rightarrow> (int \<times> 'v redis_st) option" where
  "command_program lib context n f is s = do {
     e \<leftarrow> connect2redis context;
     case e of Some st \<Rightarrow> Some (st, s) | None \<Rightarrow> command_loop lib n f is s }"

definition settest_main where
  "settest_main lib context s =
     command_program lib context 128 (\<lambda>i. ''set mohit'' @ printf_d (int i) @ '' 11'') [0..<1000000] s"

definition gettest_main where
  "gettest_main lib context s = command_program lib context 32 (\<lambda>i. ''get mohit'' @ printf_d (int i)) [0..<1000000] s"

definition zaddtest_main where
  "zaddtest_main lib context s = command_program lib context 32
     (\<lambda>i. ''zadd sortedset '' @ printf_d (int i) @ '' member'' @ printf_d (int i)) [0..<1000000] s"

definition sismemberTest_main where
  "sismemberTest_main lib context s =
     command_program lib context 32 (\<lambda>i. ''sismember mySet  singh'' @ printf_d (int i)) [0..<1000000] s"

definition test_set_main where
  "test_set_main lib context s =
     command_program lib context 32 (\<lambda>i. ''sadd mySet  singh'' @ printf_d (int i)) [0..<1000000] s"

text \<open>The programs that execute one fixed command.\<close>

definition zrangetest_main where
  "zrangetest_main lib context s =
     command_program lib context 32 (\<lambda>_. ''zrangebyscore sortedset 0 999999 withscores'') [0] s"

definition redis_my_main where
  "redis_my_main lib context s = command_program lib context 32 (\<lambda>_. ''zrevrange cache_prq 0 200'') [0] s"

subsection \<open>Reading arrays\<close>

text \<open>
  The variant of \<open>executeCommand\<close> in \<open>delKeys.c\<close>, \<open>getKeys.c\<close> and \<open>getSortedKeys.c\<close>: the copies of the strings of an array; no other reply sets
  the variables of the caller.
\<close>

definition executeCommand_keys ::
  "'v redis_lib \<Rightarrow> string \<Rightarrow> 'v redis_st \<Rightarrow> ((int + string list option) \<times> 'v redis_st) option" where
  "executeCommand_keys lib mycmd s =
     (case redisCommand lib mycmd [] s of
        (None, s) \<Rightarrow> Some (Inl 1, print_line ''ERROR'' s)
      | (Some (REDIS_REPLY_ARRAY es), s) \<Rightarrow> do {
          keys \<leftarrow> element_strs es;
          Some (Inr (Some keys), print_line ''REPLY : ARRAY'' s) }
      | (Some r, s) \<Rightarrow> do { ls \<leftarrow> reply_lines r; Some (Inr None, s\<lparr>out := out s @ ls\<rparr>) })"

text \<open>\<open>num\<close> has no value before the call.\<close>

definition keys_program :: "'v redis_lib \<Rightarrow> int option \<Rightarrow> string \<Rightarrow> 'v redis_st \<Rightarrow> (int \<times> 'v redis_st) option" where
  "keys_program lib context cmd s = do {
     e \<leftarrow> connect2redis context;
     case e of Some st \<Rightarrow> Some (st, s)
     | None \<Rightarrow> do {
         mycmd \<leftarrow> sprintf_to 32 cmd;
         (r, s) \<leftarrow> executeCommand_keys lib mycmd s;
         case r of Inl st \<Rightarrow> Some (st, s)
         | Inr keys \<Rightarrow> do {
             let s = freeReplyObject s;
             ks \<leftarrow> keys;
             Some (0, s\<lparr>out := out s @ map (\<lambda>k. k @ '' '') ks\<rparr>) } } }"

definition getKeys_main where
  "getKeys_main lib context s = keys_program lib context ''keys *'' s"

definition delKeys_main where
  "delKeys_main lib context s = keys_program lib context ''keys *'' s"

definition getSortedKeys_main where
  "getSortedKeys_main lib context s = keys_program lib context ''ZRANGEBYSCORE my 0 2'' s"

text \<open>
  The two functions of \<open>1.c\<close> that return an array: a pointer argument that may be null is an option. The last part is the same in both.
\<close>

definition array_result :: "redisReply option \<times> 'v redis_st \<Rightarrow> (int \<times> string list option \<times> 'v redis_st) option" where
  "array_result rs = (case rs of
       (None, s) \<Rightarrow> Some (- 2, None, s)
     | (Some r, s) \<Rightarrow>
         (case r of REDIS_REPLY_ERROR _ \<Rightarrow> Some (- 3, None, freeReplyObject s)
          | REDIS_REPLY_NIL \<Rightarrow> Some (- 4, None, freeReplyObject s)
          | REDIS_REPLY_ARRAY es \<Rightarrow> do { arr \<leftarrow> element_strs es; Some (0, Some arr, freeReplyObject s) }
          | _ \<Rightarrow> Some (- 5, None, freeReplyObject s)))"

definition redis_sorted_set_revrange ::
  "'v redis_lib \<Rightarrow> bool \<Rightarrow> string option \<Rightarrow> int \<Rightarrow> int \<Rightarrow> int \<Rightarrow> 'v redis_st \<Rightarrow> (int \<times> string list option \<times> 'v redis_st) option" where
  "redis_sorted_set_revrange lib context key with_scores lo hi s =
     (case key of None \<Rightarrow> Some (- 1, None, s)
      | Some k \<Rightarrow>
          if \<not> context then Some (- 1, None, s)
          else if with_scores = 1
          then array_result (redisCommand lib ''ZREVRANGE %s %ld %ld withscores'' [k, printf_d lo, printf_d hi] s)
          else array_result (redisCommand lib ''ZREVRANGE %s %ld %ld'' [k, printf_d lo, printf_d hi] s))"

definition redis_set_members ::
  "'v redis_lib \<Rightarrow> bool \<Rightarrow> string option \<Rightarrow> 'v redis_st \<Rightarrow> (int \<times> string list option \<times> 'v redis_st) option" where
  "redis_set_members lib context key s =
     (case key of None \<Rightarrow> Some (- 1, None, s)
      | Some k \<Rightarrow> if \<not> context then Some (- 1, None, s) else array_result (redisCommand lib ''SMEMBERS %s'' [k] s))"

definition set_members_main :: "'v redis_lib \<Rightarrow> int option \<Rightarrow> 'v redis_st \<Rightarrow> (int \<times> 'v redis_st) option" where
  "set_members_main lib context s = do {
     e \<leftarrow> connect2redis context;
     case e of Some st \<Rightarrow> Some (st, s)
     | None \<Rightarrow> do {
         (ret, arr, s) \<leftarrow> redis_set_members lib True (Some ''test'') s;
         if ret < 0 then Some (1, s)
         else do {
           xs \<leftarrow> arr;
           Some (0, s\<lparr>out := out s @ map (\<lambda>x. ''['' @ x @ '']'') xs\<rparr>) } } }"

subsection \<open>Hashes and binary values\<close>

text \<open>\<open>freeReplyObject\<close> of the pointer that \<open>redisCommand\<close> returned; the library reads the type of the reply.\<close>

definition free_reply :: "redisReply option \<times> 'v redis_st \<Rightarrow> 'v redis_st option" where
  "free_reply rs = (case rs of (None, _) \<Rightarrow> None | (Some _, s) \<Rightarrow> Some (freeReplyObject s))"

text \<open>\<open>test\<close> is the empty string; the values are not used.\<close>

fun setHash :: "'v redis_lib \<Rightarrow> (string \<times> string) list \<Rightarrow> 'v redis_st \<Rightarrow> 'v redis_st option" where
  "setHash lib [] s = Some s"
| "setHash lib ((key, _) # kvs) s = do {
     s \<leftarrow> free_reply (redisCommand lib ''hset h1 %s %s'' [key, ''''] s);
     setHash lib kvs s }"

fun getHash :: "'v redis_lib \<Rightarrow> string list \<Rightarrow> 'v redis_st \<Rightarrow> (string list \<times> 'v redis_st) option" where
  "getHash lib [] s = Some ([], s)"
| "getHash lib (key # keys) s =
     (case redisCommand lib ''hget h1 %s'' [key] s of
        (None, _) \<Rightarrow> None
      | (Some r, s) \<Rightarrow> do {
          v \<leftarrow> reply_str r;
          (vs, s) \<leftarrow> getHash lib keys (freeReplyObject (print_line (''len = '' @ printf_d (int (length v))) s));
          Some (c_str v # vs, s) })"

definition setHash_main :: "'v redis_lib \<Rightarrow> int option \<Rightarrow> 'v redis_st \<Rightarrow> (int \<times> 'v redis_st) option" where
  "setHash_main lib context s = do {
     e \<leftarrow> connect2redis context;
     case e of Some st \<Rightarrow> Some (st, s)
     | None \<Rightarrow> do {
         let keys = map (\<lambda>i. ''k'' @ printf_d (int i)) [0..<2];
         let values = map (\<lambda>i. ''v'' @ printf_d (int i)) [0..<2];
         s \<leftarrow> setHash lib (zip keys values) s;
         (retValues, s) \<leftarrow> getHash lib keys s;
         Some (0, s\<lparr>out := out s @ map (\<lambda>v. ''rv = '' @ v) retValues\<rparr>) } }"

text \<open>The structure is sent and received as its bytes; the result of both functions is an exit status or a value.\<close>

definition setstruct :: "'v redis_lib \<Rightarrow> string \<Rightarrow> 'v redis_st \<Rightarrow> (int + unit) \<times> 'v redis_st" where
  "setstruct lib bytes s =
     (case redisCommand lib ''set h_mohit %b'' [bytes] s of
        (None, s) \<Rightarrow> (Inl 1, print_line ''ERROR'' s)
      | (Some (REDIS_REPLY_ERROR str), s) \<Rightarrow> (Inr (), print_line (''ERROR error: '' @ c_str str) s)
      | (Some _, s) \<Rightarrow> (Inr (), print_line ''struct set!!!'' s))"

definition getstruct :: "'v redis_lib \<Rightarrow> 'v redis_st \<Rightarrow> (int + string option) \<times> 'v redis_st" where
  "getstruct lib s =
     (case redisCommand lib ''get h_mohit'' [] s of
        (None, s) \<Rightarrow> (Inl 1, print_line ''ERROR'' s)
      | (Some (REDIS_REPLY_ERROR str), s) \<Rightarrow> (Inr None, print_line (''ERROR error: '' @ c_str str) s)
      | (Some (REDIS_REPLY_STRING str), s) \<Rightarrow>
          (Inr (Some str), print_line (''REPLY string of lenght '' @ printf_d (int (length str)) @ '' : '' @ c_str str) s)
      | (Some _, s) \<Rightarrow> (Inr None, s))"

text \<open>
  \<open>m1\<close> is the bytes of a \<open>MY\<close>. The program reads a \<open>MY\<close> at \<open>pData\<close>: there must be one, and it must have all the bytes. The result
  holds the bytes read. Only the last reply is freed.
\<close>

definition getsetStruct_main :: "'v redis_lib \<Rightarrow> int option \<Rightarrow> string \<Rightarrow> 'v redis_st \<Rightarrow> ((int \<times> string) \<times> 'v redis_st) option" where
  "getsetStruct_main lib context m1 s = do {
     e \<leftarrow> connect2redis context;
     case e of Some st \<Rightarrow> Some ((st, []), s)
     | None \<Rightarrow>
         (case setstruct lib m1 s of
            (Inl st, s) \<Rightarrow> Some ((st, []), s)
          | (Inr _, s) \<Rightarrow>
              (case getstruct lib s of
                 (Inl st, s) \<Rightarrow> Some ((st, []), s)
               | (Inr pData, s) \<Rightarrow> do {
                   m2 \<leftarrow> pData;
                   if length m2 < length m1 then None
                   else Some ((0, take (length m1) m2), freeReplyObject s) })) }"

subsection \<open>Polling a key\<close>

definition connect2redis_checked :: "string option \<Rightarrow> int \<Rightarrow> int option \<Rightarrow> int option" where
  "connect2redis_checked ip port context =
     (if ip = None \<or> port < 0 then Some (- 1)
      else (case context of None \<Rightarrow> None | Some err \<Rightarrow> if err \<noteq> 0 then Some (- 1) else Some 0))"

text \<open>The pointer to the value is an option; it is changed only by a reply that is a string.\<close>

definition getKey ::
  "'v redis_lib \<Rightarrow> bool \<Rightarrow> string option \<Rightarrow> string option \<Rightarrow> 'v redis_st \<Rightarrow> int \<times> string option \<times> 'v redis_st" where
  "getKey lib context key value s =
     (case key of None \<Rightarrow> (- 1, value, s)
      | Some k \<Rightarrow>
          if \<not> context then (- 1, value, s)
          else (case redisCommand lib ''GET %s'' [k] s of
                  (None, s) \<Rightarrow> (- 1, value, s)
                | (Some (REDIS_REPLY_STRING v), s) \<Rightarrow> (0, Some (c_str v), freeReplyObject s)
                | (Some _, s) \<Rightarrow> (- 1, value, freeReplyObject s)))"

text \<open>One round of the endless loop: the seconds it sleeps and the new state; \<open>value\<close> is null again at its end.\<close>

definition poll_round :: "'v redis_lib \<Rightarrow> 'v redis_st \<Rightarrow> (nat \<times> 'v redis_st) option" where
  "poll_round lib s =
     (case getKey lib True (Some ''foo'') None s of
        (ret, value, s) \<Rightarrow>
          if ret < 0 then Some (10 + 10, s)
          else do { v \<leftarrow> value; Some (10, print_line (''foo -> '' @ v) s) })"

fun poll_rounds :: "'v redis_lib \<Rightarrow> nat \<Rightarrow> 'v redis_st \<Rightarrow> (nat \<times> 'v redis_st) option" where
  "poll_rounds lib 0 s = Some (0, s)"
| "poll_rounds lib (Suc n) s = do {
     (t, s) \<leftarrow> poll_round lib s;
     (ts, s) \<leftarrow> poll_rounds lib n s;
     Some (t + ts, s) }"

text \<open>
  \<open>main\<close> up to the loop: \<open>Inl\<close> is an exit status, \<open>Inr\<close> means that the loop starts. The connection depends on the address and the port.
\<close>

definition redisConnectionTest_main :: "(string \<Rightarrow> int \<Rightarrow> int option) \<Rightarrow> string list \<Rightarrow> (int + unit) option" where
  "redisConnectionTest_main conn argv =
     (if length argv < 2 then Some (Inl 1)
      else do {
        gRedisIP \<leftarrow> cstring (strncpy 16 (argv ! 1));
        gRedisPort \<leftarrow> (if length argv = 2 then None else atoi (argv ! 2));
        ret \<leftarrow> connect2redis_checked (Some gRedisIP) gRedisPort (conn gRedisIP gRedisPort);
        if ret < 0 then Some (Inl 1) else Some (Inr ()) })"

subsection \<open>Programs that subscribe\<close>

text \<open>
  What a callback does: it ends the program with a status, or goes on; a flag says whether it has asked for the end of the connection.
  The library frees the reply itself. The lines that only say that a function was entered or left are not modelled.
\<close>

definition reply_text :: "redisReply \<Rightarrow> string list option" where
  "reply_text r = (case r of
       REDIS_REPLY_STRING str \<Rightarrow> Some [''REPLY : '' @ c_str str]
     | REDIS_REPLY_INTEGER i \<Rightarrow> Some [''REPLY : '' @ printf_d i]
     | REDIS_REPLY_STATUS str \<Rightarrow> Some [''REPLY : '' @ c_str str]
     | REDIS_REPLY_ERROR str \<Rightarrow> Some [''ERROR : '' @ c_str str]
     | REDIS_REPLY_NIL \<Rightarrow> Some [''REPLY : nil'']
     | REDIS_REPLY_ARRAY es \<Rightarrow> do {
         ss \<leftarrow> element_strs es;
         Some [''REPLY : ARRAY'', concat (map (\<lambda>str. str @ '' '') ss)] })"

definition commandCallback_sub :: "redisReply option \<Rightarrow> string list \<Rightarrow> ((int + bool) \<times> string list) option" where
  "commandCallback_sub reply ls = (case reply of
       None \<Rightarrow> Some (Inl 1, ls @ [''ERROR1''])
     | Some r \<Rightarrow> do { t \<leftarrow> reply_text r; Some (Inr False, ls @ t) })"

definition getCallback :: "redisReply option \<Rightarrow> string list \<Rightarrow> ((int + bool) \<times> string list) option" where
  "getCallback reply ls = (case reply of
       None \<Rightarrow> Some (Inl 1, ls @ [''ERROR''])
     | Some r \<Rightarrow> do { t \<leftarrow> reply_text r; Some (Inr False, ls @ t) })"

definition is_quit :: "redisReply \<Rightarrow> bool" where
  "is_quit r = (case r of
       REDIS_REPLY_ARRAY es \<Rightarrow> 3 \<le> length es \<and> (case reply_str (es ! 2) of None \<Rightarrow> False | Some str \<Rightarrow> 0 < length str \<and> c_str str = ''quit'')
     | _ \<Rightarrow> False)"

definition commandCallback_quit :: "redisReply option \<Rightarrow> string list \<Rightarrow> ((int + bool) \<times> string list) option" where
  "commandCallback_quit reply ls = (case reply of
       None \<Rightarrow> Some (Inl 1, ls @ [''ERROR1''])
     | Some r \<Rightarrow> do { t \<leftarrow> reply_text r; Some (Inr (is_quit r), ls @ t) })"

definition commandCallback_keyspace :: "redisReply option \<Rightarrow> string list \<Rightarrow> ((int + bool) \<times> string list) option" where
  "commandCallback_keyspace reply ls = (case reply of
       None \<Rightarrow> Some (Inr False, ls @ [''Error''])
     | Some (REDIS_REPLY_ERROR str) \<Rightarrow> Some (Inr False, ls @ [''Error ['' @ c_str str @ '']''])
     | Some (REDIS_REPLY_ARRAY es) \<Rightarrow> do {
         ss \<leftarrow> element_strs es;
         Some (Inr False, ls @ map (\<lambda>str. ''['' @ str @ '']'') ss) }
     | Some _ \<Rightarrow> Some (Inr False, ls @ [''Unexpected reply type !!!'']))"

text \<open>
  \<open>ev_loop\<close> on the replies that arrive: it ends with a callback that exits or disconnects, and when nothing more can arrive. A status is
  the exit status; the loop itself returns to a \<open>main\<close> that returns 0.
\<close>

fun ev_loop ::
  "(redisReply option \<Rightarrow> string list \<Rightarrow> ((int + bool) \<times> string list) option) \<Rightarrow> redisReply option list \<Rightarrow> string list \<Rightarrow>
   (int \<times> string list) option" where
  "ev_loop cb [] ls = Some (0, ls)"
| "ev_loop cb (r # rs) ls = do {
     (x, ls) \<leftarrow> cb r ls;
     case x of Inl st \<Rightarrow> Some (st, ls) | Inr quit \<Rightarrow> if quit then Some (0, ls) else ev_loop cb rs ls }"

definition subscriber_main :: "int option \<Rightarrow> redisReply option list \<Rightarrow> (int \<times> string list) option" where
  "subscriber_main context replies = do {
     e \<leftarrow> connect2redis context;
     case e of Some st \<Rightarrow> Some (st, []) | None \<Rightarrow> ev_loop commandCallback_sub replies [] }"

definition moht_main :: "int option \<Rightarrow> redisReply option list \<Rightarrow> (int \<times> string list) option" where
  "moht_main context replies = do {
     e \<leftarrow> connect2redis context;
     case e of Some st \<Rightarrow> Some (st, []) | None \<Rightarrow> ev_loop commandCallback_quit replies [] }"

text \<open>\<open>publisher.c\<close> asks for the end of the connection at once: one reply, to its one command, is still delivered.\<close>

definition publisher_main :: "int option \<Rightarrow> redisReply option \<Rightarrow> (int \<times> string list) option" where
  "publisher_main context reply = do {
     e \<leftarrow> connect2redis context;
     case e of Some st \<Rightarrow> Some (st, []) | None \<Rightarrow> ev_loop getCallback [reply] [] }"

text \<open>The context after the call: none, or one that is in error or usable.\<close>

definition connectToRedis :: "string option \<Rightarrow> int \<Rightarrow> int option \<Rightarrow> (int \<times> bool option) option" where
  "connectToRedis redisIP redisPort context =
     (if redisIP = None \<or> redisPort < 0 \<or> 65535 < redisPort then Some (- 1, None)
      else (case context of None \<Rightarrow> None
            | Some err \<Rightarrow> if err \<noteq> 0 then Some (- 1, Some False) else Some (0, Some True)))"

text \<open>
  \<open>main\<close> uses the context whatever \<open>connectToRedis\<close> returned. A context that is not attached to the loop has no events.
\<close>

definition redisNotifications_main ::
  "(string \<Rightarrow> int \<Rightarrow> int option) \<Rightarrow> string list \<Rightarrow> redisReply option list \<Rightarrow> (int \<times> string list) option" where
  "redisNotifications_main conn argv replies =
     (if length argv \<noteq> 3 then Some (1, [])
      else do {
        gRedisIP \<leftarrow> cstring (strncpy 16 (argv ! 1));
        gRedisPort \<leftarrow> atoi (argv ! 2);
        (ret, gAsyncContext) \<leftarrow> connectToRedis (Some gRedisIP) gRedisPort (conn gRedisIP gRedisPort);
        let ls = (if ret \<noteq> 0 then [''Error in redisConnect !!!''] else []);
        attached \<leftarrow> gAsyncContext;
        ev_loop commandCallback_keyspace (if attached then replies else []) ls })"

subsection \<open>Replies are freed and lengths are bounded\<close>

lemma live_replies_freed [simp]:
  "redisCommand lib fmt args s = (r, s') \<Longrightarrow> r \<noteq> None \<Longrightarrow> live_replies (freeReplyObject s') = live_replies s"
  by (auto simp: redisCommand_def freeReplyObject_def split: prod.splits)

lemma live_replies_no_reply [simp]: "redisCommand lib fmt args s = (None, s') \<Longrightarrow> live_replies s' = live_replies s"
  by (auto simp: redisCommand_def split: prod.splits)

lemma live_replies_out [simp]: "live_replies (print_line l s) = live_replies s"
  by (simp add: print_line_def)

lemma freeReplyObject_out_update [simp]:
  "freeReplyObject (out_update f s) = out_update f (freeReplyObject s)"
  by (simp add: freeReplyObject_def)

lemma freeReplyObject_print_line [simp]: "freeReplyObject (print_line l s) = print_line l (freeReplyObject s)"
  by (simp add: freeReplyObject_def print_line_def)

lemma length_nat_digits: "n < 10 ^ d \<Longrightarrow> 0 < d \<Longrightarrow> length (nat_digits n) \<le> d"
proof (induction n arbitrary: d rule: nat_digits.induct)
  case (1 n)
  show ?case
  proof (cases "n < 10")
    case True
    with 1 show ?thesis by (subst nat_digits.simps) simp
  next
    case False
    with 1 obtain e where d: "d = Suc (Suc e)"
      by (cases d; cases "d - 1") auto
    have "n div 10 < 10 ^ Suc e" using 1 d by simp
    with 1 False have "length (nat_digits (n div 10)) \<le> Suc e" by blast
    then show ?thesis using False d by (subst nat_digits.simps) simp
  qed
qed

lemma length_printf_d: "n < 10 ^ d \<Longrightarrow> 0 < d \<Longrightarrow> length (printf_d (int n)) \<le> d"
  by (simp add: printf_d_def length_nat_digits)

lemma executeCommand_live:
  "executeCommand lib cmd s = Some (Inr r, s') \<Longrightarrow> live_replies (freeReplyObject s') = live_replies s"
  "executeCommand lib cmd s = Some (Inl st, s') \<Longrightarrow> live_replies s' = live_replies s \<and> st = 1"
  by (auto simp: executeCommand_def bind_eq_Some_conv split: prod.splits option.splits)

lemma command_loop_live: "command_loop lib n f is s = Some (st, s') \<Longrightarrow> live_replies s' = live_replies s"
proof (induction "is" arbitrary: s)
  case (Cons i "is")
  then show ?case
    by (clarsimp simp: bind_eq_Some_conv) (auto split: sum.splits dest: executeCommand_live)
qed simp

lemma array_result_live:
  "array_result (redisCommand lib fmt args s) = Some (ret, arr, s') \<Longrightarrow>
   live_replies s' = live_replies s \<and> (ret = 0 \<longleftrightarrow> arr \<noteq> None) \<and> - 5 \<le> ret \<and> ret \<le> 0"
  by (auto simp: array_result_def bind_eq_Some_conv split: prod.splits option.splits redisReply.splits)

text \<open>
  Every function of \<open>1.c\<close> frees its reply on every path, returns 0 exactly when it sets the array, and never a status out of \<open>- 5 .. 0\<close>.
\<close>

lemma redis_arrays_balanced:
  "redis_sorted_set_revrange lib c key ws lo hi s = Some (ret, arr, s') \<Longrightarrow>
     live_replies s' = live_replies s \<and> (ret = 0 \<longleftrightarrow> arr \<noteq> None) \<and> - 5 \<le> ret \<and> ret \<le> 0"
  "redis_set_members lib c key s = Some (ret, arr, s') \<Longrightarrow>
     live_replies s' = live_replies s \<and> (ret = 0 \<longleftrightarrow> arr \<noteq> None) \<and> - 5 \<le> ret \<and> ret \<le> 0"
  by (auto simp: redis_sorted_set_revrange_def redis_set_members_def dest: array_result_live split: option.splits if_splits)

lemma getKey_spec:
  assumes "getKey lib c key value s = (ret, value', s')"
  shows "live_replies s' = live_replies s"
    and "ret = 0 \<longleftrightarrow> c \<and> (\<exists>k v. key = Some k \<and> fst (lib ''GET %s'' [k] (server s)) = Some (REDIS_REPLY_STRING v) \<and> value' = Some (c_str v))"
    and "ret \<noteq> 0 \<Longrightarrow> ret = - 1 \<and> value' = value"
proof -
  have "live_replies s' = live_replies s \<and>
    (ret = 0 \<longleftrightarrow> c \<and> (\<exists>k v. key = Some k \<and> fst (lib ''GET %s'' [k] (server s)) = Some (REDIS_REPLY_STRING v) \<and> value' = Some (c_str v))) \<and>
    (ret \<noteq> 0 \<longrightarrow> ret = - 1 \<and> value' = value)"
  proof (cases "key = None \<or> \<not> c")
    case True
    with assms show ?thesis by (auto simp: getKey_def split: option.splits)
  next
    case False
    then obtain k where k: "key = Some k" "c" by auto
    obtain r v where l: "lib ''GET %s'' [k] (server s) = (r, v)" by fastforce
    show ?thesis
      using assms k l by (cases r; cases "the r") (auto simp: getKey_def redisCommand_def freeReplyObject_def)
  qed
  then show "live_replies s' = live_replies s"
    and "ret = 0 \<longleftrightarrow> c \<and> (\<exists>k v. key = Some k \<and> fst (lib ''GET %s'' [k] (server s)) = Some (REDIS_REPLY_STRING v) \<and> value' = Some (c_str v))"
    and "ret \<noteq> 0 \<Longrightarrow> ret = - 1 \<and> value' = value"
    by blast+
qed

text \<open>The polling program never uses a null value and keeps no reply, whatever the server answers.\<close>

lemma poll_round_total: "\<exists>t s'. poll_round lib s = Some (t, s') \<and> live_replies s' = live_replies s \<and> (t = 10 \<or> t = 20)"
proof -
  obtain ret x s1 where g: "getKey lib True (Some ''foo'') None s = (ret, x, s1)" by (metis prod_cases3)
  have "live_replies s1 = live_replies s" using getKey_spec(1) [OF g] .
  moreover have "ret = 0 \<Longrightarrow> x \<noteq> None" using getKey_spec(2) [OF g] by auto
  moreover have "ret \<noteq> 0 \<Longrightarrow> ret = - 1" using getKey_spec(3) [OF g] by simp
  ultimately show ?thesis
    using g by (cases "ret = 0") (auto simp: poll_round_def)
qed

lemma poll_rounds_total:
  "\<exists>t s'. poll_rounds lib n s = Some (t, s') \<and> live_replies s' = live_replies s \<and> 10 * n \<le> t \<and> t \<le> 20 * n"
proof (induction n arbitrary: s)
  case (Suc n)
  obtain t s1 where r: "poll_round lib s = Some (t, s1)" "live_replies s1 = live_replies s" "t = 10 \<or> t = 20"
    using poll_round_total by blast
  obtain ts s2 where "poll_rounds lib n s1 = Some (ts, s2)" "live_replies s2 = live_replies s1" "10 * n \<le> ts" "ts \<le> 20 * n"
    using Suc by blast
  with r show ?case by auto
qed simp

text \<open>With only an address on the command line the test of the number of arguments lets \<open>atoi\<close> read a null pointer.\<close>

lemma redisConnectionTest_one_argument: "redisConnectionTest_main conn [prog, ip] = None"
  by (cases "cstring (strncpy 16 ip)") (simp_all add: redisConnectionTest_main_def)

subsection \<open>What is written is read back\<close>

text \<open>
  The documented behaviour of a server for the commands the programs send: \<open>get\<close> gives what the last \<open>set\<close> of the key stored, \<open>hget\<close> what the last
  \<open>hset\<close> of the field stored. A word has no space and no percent sign; \<open>view\<close> and \<open>hview\<close> read the keys and the fields of \<open>h1\<close> in the server's state.
\<close>

definition word_of :: "string \<Rightarrow> bool" where
  "word_of w \<longleftrightarrow> w \<noteq> [] \<and> CHR '' '' \<notin> set w \<and> CHR 0x25 \<notin> set w"

definition kv_server :: "'v redis_lib \<Rightarrow> ('v \<Rightarrow> string \<Rightarrow> string option) \<Rightarrow> bool" where
  "kv_server lib view \<longleftrightarrow>
     (\<forall>k x v. word_of k \<and> word_of x \<longrightarrow>
        (\<exists>v'. lib (''set '' @ k @ '' '' @ x) [] v = (Some (REDIS_REPLY_STATUS ''OK''), v') \<and> view v' = (view v)(k \<mapsto> x))) \<and>
     (\<forall>k v. word_of k \<longrightarrow>
        lib (''get '' @ k) [] v = (Some (case view v k of None \<Rightarrow> REDIS_REPLY_NIL | Some x \<Rightarrow> REDIS_REPLY_STRING x), v))"

definition hash_server :: "'v redis_lib \<Rightarrow> ('v \<Rightarrow> string \<Rightarrow> string option) \<Rightarrow> bool" where
  "hash_server lib hview \<longleftrightarrow>
     (\<forall>k x v. \<exists>i v'. lib ''hset h1 %s %s'' [k, x] v = (Some (REDIS_REPLY_INTEGER i), v') \<and> hview v' = (hview v)(k \<mapsto> x)) \<and>
     (\<forall>k v. lib ''hget h1 %s'' [k] v = (Some (case hview v k of None \<Rightarrow> REDIS_REPLY_NIL | Some x \<Rightarrow> REDIS_REPLY_STRING x), v))"

abbreviation mohit :: "nat \<Rightarrow> string" where
  "mohit i \<equiv> ''mohit'' @ printf_d (int i)"

lemma word_of_mohit [simp]: "word_of (mohit i)"
proof -
  have space: "\<not> c_isdigit (CHR '' '')" "\<not> c_isdigit (CHR 0x25)" by (simp_all add: c_isdigit_def)
  have "CHR '' '' \<notin> set (nat_digits i)" "CHR 0x25 \<notin> set (nat_digits i)"
    using nat_digits_digits [of i] space by blast+
  then show ?thesis by (simp add: word_of_def printf_d_def)
qed

lemma sprintf_to_fits: "length str < n \<Longrightarrow> sprintf_to n str = Some str"
  by (simp add: sprintf_to_def)

lemma command_loop_set:
  assumes lib: "kv_server lib view" and bound: "\<forall>i \<in> set is. i < 1000000"
  shows "\<exists>s'. command_loop lib 128 (\<lambda>i. ''set mohit'' @ printf_d (int i) @ '' 11'') is s = Some (0, s')
    \<and> view (server s') = (\<lambda>k. if \<exists>i \<in> set is. k = mohit i then Some ''11'' else view (server s) k)
    \<and> live_replies s' = live_replies s"
  using bound
proof (induction "is" arbitrary: s)
  case (Cons i "is")
  have len: "length (printf_d (int i)) \<le> 6" using length_printf_d [of i 6] Cons.prems by simp
  have w: "word_of ''11''" by (simp add: word_of_def)
  obtain v' where v': "lib (''set '' @ mohit i @ '' '' @ ''11'') [] (server s) = (Some (REDIS_REPLY_STATUS ''OK''), v')"
      "view v' = (view (server s))(mohit i \<mapsto> ''11'')"
    using lib w word_of_mohit [of i] unfolding kv_server_def by blast
  define s1 where "s1 = s\<lparr>server := v', live_replies := live_replies s, out := out s @ [''REPLY status: OK'']\<rparr>"
  have fits: "sprintf_to 128 (''set mohit'' @ printf_d (int i) @ '' 11'') = Some (''set '' @ mohit i @ '' '' @ ''11'')"
    using len by (simp add: sprintf_to_def)
  have "command_loop lib 128 (\<lambda>i. ''set mohit'' @ printf_d (int i) @ '' 11'') (i # is) s
      = command_loop lib 128 (\<lambda>i. ''set mohit'' @ printf_d (int i) @ '' 11'') is s1"
    using v'(1) unfolding command_loop.simps fits
    by (simp add: executeCommand_def redisCommand_def reply_lines_def c_str_def freeReplyObject_def s1_def)
  then have step: "command_loop lib 128 (\<lambda>i. ''set mohit'' @ printf_d (int i) @ '' 11'') (i # is) s = command_loop lib 128 (\<lambda>i. ''set mohit'' @ printf_d (int i) @ '' 11'') is s1" .
  obtain s2 where s2: "command_loop lib 128 (\<lambda>i. ''set mohit'' @ printf_d (int i) @ '' 11'') is s1 = Some (0, s2)"
      "view (server s2) = (\<lambda>k. if \<exists>i \<in> set is. k = mohit i then Some ''11'' else view (server s1) k)"
      "live_replies s2 = live_replies s1"
    using Cons.IH [of s1] Cons.prems by force
  have "view (server s2) = (\<lambda>k. if \<exists>j \<in> set (i # is). k = mohit j then Some ''11'' else view (server s) k)"
    unfolding s2(2) using v'(2) by (auto simp: s1_def)
  with s2 have "command_loop lib 128 (\<lambda>i. ''set mohit'' @ printf_d (int i) @ '' 11'') (i # is) s = Some (0, s2) \<and>
      view (server s2) = (\<lambda>k. if \<exists>j \<in> set (i # is). k = mohit j then Some ''11'' else view (server s) k) \<and>
      live_replies s2 = live_replies s"
    unfolding step by (simp add: s1_def)
  then show ?case by blast
qed simp

lemma command_loop_get:
  assumes lib: "kv_server lib view" and bound: "\<forall>i \<in> set is. i < 1000000 \<and> view (server s) (mohit i) = Some ''11''"
  shows "command_loop lib 32 (\<lambda>i. ''get mohit'' @ printf_d (int i)) is s
    = Some (0, s\<lparr>out := out s @ replicate (length is) ''REPLY string of lenght 2 : 11''\<rparr>)"
  using bound
proof (induction "is" arbitrary: s)
  case (Cons i "is")
  have len: "length (printf_d (int i)) \<le> 6" using length_printf_d [of i 6] Cons.prems by simp
  have g: "lib (''get '' @ mohit i) [] (server s) = (Some (REDIS_REPLY_STRING ''11''), server s)"
    using lib word_of_mohit [of i] Cons.prems unfolding kv_server_def by simp
  define s1 where "s1 = s\<lparr>out := out s @ [''REPLY string of lenght 2 : 11'']\<rparr>"
  have fits: "sprintf_to 32 (''get mohit'' @ printf_d (int i)) = Some (''get '' @ mohit i)"
    using len by (simp add: sprintf_to_def)
  have two: "printf_d 2 = ''2''" by code_simp
  have "command_loop lib 32 (\<lambda>i. ''get mohit'' @ printf_d (int i)) (i # is) s
      = command_loop lib 32 (\<lambda>i. ''get mohit'' @ printf_d (int i)) is s1"
    using g unfolding command_loop.simps fits
    by (simp add: executeCommand_def redisCommand_def reply_lines_def c_str_def freeReplyObject_def s1_def two)
  also have "\<dots> = Some (0, s1\<lparr>out := out s1 @ replicate (length is) ''REPLY string of lenght 2 : 11''\<rparr>)"
    using Cons by (simp add: s1_def)
  finally show ?case by (simp add: s1_def)
qed simp

text \<open>
  \<open>settest.c\<close> followed by \<open>gettest.c\<close> on one server, which answers \<open>set\<close> and \<open>get\<close> as documented: both end with status 0, the second
  prints the value of every one of the million keys, no other key of the server has changed and no reply is kept.
\<close>

lemma settest_gettest:
  assumes "kv_server lib view"
  shows "\<exists>s1 s2. settest_main lib (Some 0) s = Some (0, s1) \<and> gettest_main lib (Some 0) s1 = Some (0, s2)
    \<and> out s2 = out s1 @ replicate 1000000 ''REPLY string of lenght 2 : 11''
    \<and> (\<forall>k. (\<forall>i. k \<noteq> ''mohit'' @ printf_d (int i)) \<longrightarrow> view (server s2) k = view (server s) k)
    \<and> live_replies s2 = live_replies s"
proof -
  obtain s1 where s1: "command_loop lib 128 (\<lambda>i. ''set mohit'' @ printf_d (int i) @ '' 11'') [0..<1000000] s = Some (0, s1)"
      "view (server s1) = (\<lambda>k. if \<exists>i \<in> set [0..<1000000]. k = mohit i then Some ''11'' else view (server s) k)"
      "live_replies s1 = live_replies s"
    using command_loop_set [OF assms, of "[0..<1000000]" s] by auto
  have "\<forall>i \<in> set [0..<1000000]. i < 1000000 \<and> view (server s1) (mohit i) = Some ''11''"
    unfolding s1(2) by auto
  from command_loop_get [OF assms this] s1 show ?thesis
    by (auto simp: settest_main_def gettest_main_def command_program_def connect2redis_def)
qed

text \<open>A concrete server for both groups of commands, on an association of keys with values.\<close>

definition map_server :: "(string \<Rightarrow> string option) redis_lib" where
  "map_server fmt args m =
     (if take 4 fmt = ''set '' then
        (let r = drop 4 fmt; k = takeWhile (\<lambda>c. c \<noteq> CHR '' '') r
         in (Some (REDIS_REPLY_STATUS ''OK''), m(k \<mapsto> drop (length k + 1) r)))
      else if take 4 fmt = ''get '' then
        (Some (case m (drop 4 fmt) of None \<Rightarrow> REDIS_REPLY_NIL | Some x \<Rightarrow> REDIS_REPLY_STRING x), m)
      else (case args of
          [k, x] \<Rightarrow> (Some (REDIS_REPLY_INTEGER 1), m(k \<mapsto> x))
        | [k] \<Rightarrow> (Some (case m k of None \<Rightarrow> REDIS_REPLY_NIL | Some x \<Rightarrow> REDIS_REPLY_STRING x), m)
        | _ \<Rightarrow> (None, m)))"

lemma map_server_kv: "kv_server map_server id"
proof -
  have tw: "takeWhile (\<lambda>c. c \<noteq> CHR '' '') (k @ CHR '' '' # x) = k" if "word_of k" for k x
    using that by (auto simp: word_of_def takeWhile_append)
  show ?thesis by (auto simp: kv_server_def map_server_def Let_def tw)
qed

lemma map_server_hash: "hash_server map_server id"
  by (simp add: hash_server_def map_server_def)

lemma settest_gettest_witness:
  "kv_server map_server id \<and>
   (\<exists>s1 s2. settest_main map_server (Some 0) \<lparr>server = Map.empty, live_replies = 0, out = []\<rparr> = Some (0, s1)
    \<and> gettest_main map_server (Some 0) s1 = Some (0, s2)
    \<and> out s2 = out s1 @ replicate 1000000 ''REPLY string of lenght 2 : 11''
    \<and> id (server s2) ''other'' = None \<and> live_replies s2 = 0)"
proof -
  have "\<forall>i. ''other'' \<noteq> ''mohit'' @ printf_d (int i)" by simp
  with settest_gettest [OF map_server_kv, of "\<lparr>server = Map.empty, live_replies = 0, out = []\<rparr>"]
  show ?thesis using map_server_kv by fastforce
qed

subsection \<open>Commands that do not fit\<close>

text \<open>A server whose answer to every command has no text to read: no connection fails.\<close>

definition answers_integers :: "'v redis_lib \<Rightarrow> bool" where
  "answers_integers lib \<longleftrightarrow> (\<forall>fmt args v. \<exists>i. fst (lib fmt args v) = Some (REDIS_REPLY_INTEGER i))"

lemma executeCommand_integer:
  assumes "answers_integers lib"
  shows "\<exists>r s'. executeCommand lib cmd s = Some (Inr r, s')"
proof -
  obtain i v' where "lib cmd [] (server s) = (Some (REDIS_REPLY_INTEGER i), v')"
    using assms unfolding answers_integers_def by (metis prod.collapse)
  then show ?thesis by (simp add: executeCommand_def redisCommand_def reply_lines_def)
qed

text \<open>The loop reaches every command; one that does not fit the array ends it in an overrun.\<close>

lemma command_loop_overrun:
  assumes "answers_integers lib" "i \<in> set is" "n \<le> length (f i)"
  shows "command_loop lib n f is s = None"
  using assms(2)
proof (induction "is" arbitrary: s)
  case (Cons j "is")
  obtain r s1 where e: "executeCommand lib (f j) s = Some (Inr r, s1)" using executeCommand_integer [OF assms(1)] by blast
  show ?case
  proof (cases "n \<le> length (f j)")
    case True
    then show ?thesis by (simp add: sprintf_to_def)
  next
    case False
    with Cons.prems assms(3) have "i \<in> set is" by auto
    with Cons.IH False e show ?thesis by (simp add: sprintf_to_def)
  qed
qed simp

lemma command_loop_fits:
  assumes "answers_integers lib" "\<forall>i \<in> set is. length (f i) < n"
  shows "\<exists>s'. command_loop lib n f is s = Some (0, s') \<and> live_replies s' = live_replies s"
  using assms(2)
proof (induction "is" arbitrary: s)
  case (Cons j "is")
  obtain r s1 where e: "executeCommand lib (f j) s = Some (Inr r, s1)" using executeCommand_integer [OF assms(1)] by blast
  then have "live_replies (freeReplyObject s1) = live_replies s" by (rule executeCommand_live)
  moreover obtain s2 where "command_loop lib n f is (freeReplyObject s1) = Some (0, s2)"
      "live_replies s2 = live_replies (freeReplyObject s1)"
    using Cons by force
  ultimately show ?case using e Cons.prems by (simp add: sprintf_to_def)
qed simp

text \<open>
  The array of 32 characters for the commands: the loops of \<open>sismemberTest.c\<close> and \<open>test_set.c\<close> fill it at most to 28 and 23 characters, that
  of \<open>zaddtest.c\<close> overruns it when \<open>i\<close> is 10000, and the one command of \<open>zrangetest.c\<close> never fits.
\<close>

lemma sismemberTest_ok: "answers_integers lib \<Longrightarrow> \<exists>s'. sismemberTest_main lib (Some 0) s = Some (0, s') \<and> live_replies s' = live_replies s"
  "answers_integers lib \<Longrightarrow> \<exists>s'. test_set_main lib (Some 0) s = Some (0, s') \<and> live_replies s' = live_replies s"
proof -
  have len: "length (printf_d (int i)) \<le> 6" if "i \<in> set [0..<1000000]" for i
    using length_printf_d [of i 6] that by simp
  assume lib: "answers_integers lib"
  show "\<exists>s'. sismemberTest_main lib (Some 0) s = Some (0, s') \<and> live_replies s' = live_replies s"
    using command_loop_fits [OF lib, of "[0..<1000000]" "\<lambda>i. ''sismember mySet  singh'' @ printf_d (int i)" 32 s] len
    by (force simp: sismemberTest_main_def command_program_def connect2redis_def)
  show "\<exists>s'. test_set_main lib (Some 0) s = Some (0, s') \<and> live_replies s' = live_replies s"
    using command_loop_fits [OF lib, of "[0..<1000000]" "\<lambda>i. ''sadd mySet  singh'' @ printf_d (int i)" 32 s] len
    by (force simp: test_set_main_def command_program_def connect2redis_def)
qed

lemma zaddtest_overruns:
  assumes "answers_integers lib"
  shows "zaddtest_main lib (Some 0) s = None"
proof -
  have "length (printf_d 10000) = 5" by (simp add: printf_d_def nat_digits.simps)
  then have "32 \<le> length (''zadd sortedset '' @ printf_d (int 10000) @ '' member'' @ printf_d (int 10000))" by simp
  moreover have "10000 \<in> set [0..<1000000]" by simp
  ultimately show ?thesis
    using command_loop_overrun [OF assms, of 10000 "[0..<1000000]" 32
        "\<lambda>i. ''zadd sortedset '' @ printf_d (int i) @ '' member'' @ printf_d (int i)" s]
    by (simp add: zaddtest_main_def command_program_def connect2redis_def)
qed

lemma zrangetest_overruns: "zrangetest_main lib (Some 0) s = None"
  by (simp add: zrangetest_main_def command_program_def connect2redis_def sprintf_to_def)

subsection \<open>Hashes and structures\<close>

lemma setHash_stores_empty:
  assumes "hash_server lib hview"
  shows "\<exists>s'. setHash lib kvs s = Some s' \<and> live_replies s' = live_replies s \<and> out s' = out s \<and>
    hview (server s') = (\<lambda>k. if k \<in> fst ` set kvs then Some '''' else hview (server s) k)"
proof (induction kvs arbitrary: s)
  case (Cons kv kvs)
  obtain k x where kv: "kv = (k, x)" by fastforce
  obtain i v' where l: "lib ''hset h1 %s %s'' [k, ''''] (server s) = (Some (REDIS_REPLY_INTEGER i), v')"
      "hview v' = (hview (server s))(k \<mapsto> '''')"
    using assms unfolding hash_server_def by blast
  have "setHash lib (kv # kvs) s = setHash lib kvs (s\<lparr>server := v'\<rparr>)"
    using l by (simp add: kv free_reply_def redisCommand_def freeReplyObject_def)
  moreover obtain s2 where "setHash lib kvs (s\<lparr>server := v'\<rparr>) = Some s2" "live_replies s2 = live_replies s" "out s2 = out s"
      "hview (server s2) = (\<lambda>k. if k \<in> fst ` set kvs then Some '''' else hview v' k)"
    using Cons [of "s\<lparr>server := v'\<rparr>"] by (auto cong: if_cong)
  ultimately show ?case using l by (auto simp: kv)
qed simp

lemma getHash_reads:
  assumes "hash_server lib hview" "\<forall>k \<in> set keys. hview (server s) k = Some ''''"
  shows "getHash lib keys s = Some (replicate (length keys) '''', s\<lparr>out := out s @ replicate (length keys) ''len = 0''\<rparr>)"
  using assms(2)
proof (induction keys arbitrary: s)
  case (Cons k keys)
  have l: "lib ''hget h1 %s'' [k] (server s) = (Some (REDIS_REPLY_STRING ''''), server s)"
    using assms(1) Cons.prems unfolding hash_server_def by simp
  have zero: "printf_d 0 = ''0''" by code_simp
  have "getHash lib keys (s\<lparr>out := out s @ [''len = 0'']\<rparr>)
      = Some (replicate (length keys) '''', s\<lparr>out := out s @ ''len = 0'' # replicate (length keys) ''len = 0''\<rparr>)"
    using Cons by simp
  then show ?case
    using l by (simp add: redisCommand_def freeReplyObject_def print_line_def c_str_def zero)
qed simp

text \<open>
  \<open>setHash.c\<close> on a server that answers \<open>hset\<close> and \<open>hget\<close> as documented: the program ends with status 0, but the values \<open>v0\<close> and \<open>v1\<close> it
  prepared are lost: the fields hold empty strings, and it prints two empty values.
\<close>

lemma setHash_loses_values:
  assumes "hash_server lib hview"
  shows "\<exists>s'. setHash_main lib (Some 0) s = Some (0, s') \<and> hview (server s') ''k0'' = Some '''' \<and> hview (server s') ''k1'' = Some ''''
    \<and> out s' = out s @ [''len = 0'', ''len = 0'', ''rv = '', ''rv = '']"
proof -
  have k: "map (\<lambda>i. ''k'' @ printf_d (int i)) [0..<2] = [''k0'', ''k1'']" by code_simp
  obtain x y where v: "map (\<lambda>i. ''v'' @ printf_d (int i)) [0..<2] = [x, y]" by (simp add: upt_rec)
  obtain s1 where s1: "setHash lib [(''k0'', x), (''k1'', y)] s = Some s1" "out s1 = out s"
      "hview (server s1) = (\<lambda>k. if k \<in> {''k0'', ''k1''} then Some '''' else hview (server s) k)"
    using setHash_stores_empty [OF assms, of "[(''k0'', x), (''k1'', y)]" s] by auto
  have "getHash lib [''k0'', ''k1''] s1 = Some (['''', ''''], s1\<lparr>out := out s1 @ [''len = 0'', ''len = 0'']\<rparr>)"
    using getHash_reads [OF assms, of "[''k0'', ''k1'']" s1] s1(3) by (simp add: numeral_2_eq_2)
  then show ?thesis
    using s1 unfolding setHash_main_def Let_def k v
    by (simp add: connect2redis_def del: setHash.simps getHash.simps)
qed

lemma setHash_loses_values_witness:
  "hash_server map_server id \<and>
   (\<exists>s'. setHash_main map_server (Some 0) \<lparr>server = Map.empty, live_replies = 0, out = []\<rparr> = Some (0, s') \<and> server s' ''k0'' = Some ''''
    \<and> server s' ''k1'' = Some '''' \<and> out s' = [''len = 0'', ''len = 0'', ''rv = '', ''rv = ''])"
  using setHash_loses_values [OF map_server_hash, of "\<lparr>server = Map.empty, live_replies = 0, out = []\<rparr>"] map_server_hash
  by simp

text \<open>
  A server that stores the bytes of the structure gives back all of them, zero bytes included; the reply to the first command stays allocated.
\<close>

lemma getsetStruct_round_trip:
  assumes "lib ''set h_mohit %b'' [m1] (server s) = (Some (REDIS_REPLY_STATUS ''OK''), v)"
    and "lib ''get h_mohit'' [] v = (Some (REDIS_REPLY_STRING m1), v')"
  shows "\<exists>s'. getsetStruct_main lib (Some 0) m1 s = Some ((0, m1), s') \<and> live_replies s' = live_replies s + 1"
  using assms
  by (simp add: getsetStruct_main_def connect2redis_def setstruct_def getstruct_def redisCommand_def print_line_def freeReplyObject_def)

subsection \<open>Listing keys and subscribing\<close>

lemma element_strs_strings: "element_strs (map REDIS_REPLY_STRING ks) = Some (map c_str ks)"
  by (induction ks) simp_all

lemma element_strs_None_iff: "element_strs es = None \<longleftrightarrow> (\<exists>e \<in> set es. reply_str e = None)"
proof (induction es)
  case (Cons e es)
  then show ?case by (cases "reply_str e"; cases "element_strs es") auto
qed simp

text \<open>\<open>getKeys.c\<close> and \<open>delKeys.c\<close> print every key once and change no key: both send the same command.\<close>

lemma getKeys_prints:
  assumes "lib ''keys *'' [] (server s) = (Some (REDIS_REPLY_ARRAY (map REDIS_REPLY_STRING ks)), v)"
  shows "getKeys_main lib (Some 0) s
    = Some (0, s\<lparr>server := v, out := out s @ ''REPLY : ARRAY'' # map (\<lambda>k. c_str k @ '' '') ks\<rparr>)"
    and "delKeys_main lib (Some 0) s = getKeys_main lib (Some 0) s"
  using assms
  by (simp_all add: getKeys_main_def delKeys_main_def keys_program_def connect2redis_def sprintf_to_def executeCommand_keys_def
      redisCommand_def element_strs_strings freeReplyObject_def print_line_def comp_def)

text \<open>Any other reply leaves \<open>num\<close> without a value, which the program then reads.\<close>

lemma getKeys_unexpected:
  assumes "fst (lib ''keys *'' [] (server s)) = Some r" "\<forall>es. r \<noteq> REDIS_REPLY_ARRAY es"
  shows "getKeys_main lib (Some 0) s = None"
proof -
  obtain v where "lib ''keys *'' [] (server s) = (Some r, v)" using assms(1) by (cases "lib ''keys *'' [] (server s)") simp
  then show ?thesis
    using assms(2)
    by (cases r) (simp_all add: getKeys_main_def keys_program_def connect2redis_def sprintf_to_def executeCommand_keys_def redisCommand_def
        reply_lines_def)
qed

text \<open>
  The confirmation of a subscription is an array whose last element is a number: the callbacks print its null string pointer.
\<close>

lemma subscribe_confirmation_null:
  "subscriber_main (Some 0) (Some (REDIS_REPLY_ARRAY [REDIS_REPLY_STRING ''subscribe'', ch, REDIS_REPLY_INTEGER n]) # rs) = None"
  "moht_main (Some 0) (Some (REDIS_REPLY_ARRAY [REDIS_REPLY_STRING ''subscribe'', ch, REDIS_REPLY_INTEGER n]) # rs) = None"
  by (simp_all add: subscriber_main_def moht_main_def connect2redis_def commandCallback_sub_def commandCallback_quit_def reply_text_def
      element_strs_None_iff [THEN iffD2])

text \<open>Messages until one says \<open>quit\<close>: the loop prints every one of them, that one included, and none after it.\<close>

definition message :: "string \<Rightarrow> string \<Rightarrow> redisReply option" where
  "message ch t = Some (REDIS_REPLY_ARRAY [REDIS_REPLY_STRING ''message'', REDIS_REPLY_STRING ch, REDIS_REPLY_STRING t])"

definition message_lines :: "string \<Rightarrow> string \<Rightarrow> string list" where
  "message_lines ch t = [''REPLY : ARRAY'', ''message '' @ c_str ch @ '' '' @ c_str t @ '' '']"

lemma ev_loop_quit:
  assumes "\<forall>t \<in> set ts. c_str t \<noteq> ''quit''"
  shows "ev_loop commandCallback_quit (map (message ch) ts @ message ch ''quit'' # rs) ls
    = Some (0, ls @ concat (map (message_lines ch) (ts @ [''quit''])))"
  using assms
  by (induction ts arbitrary: ls)
    (auto simp: commandCallback_quit_def message_def message_lines_def reply_text_def is_quit_def c_str_def)

text \<open>
  \<open>redisNotifications.c\<close> goes on after a failed connection: a port out of range is a use of the null context, a context in error ends
  the program with status 0.
\<close>

lemma redisNotifications_bad_port:
  assumes "\<not> (0 \<le> p \<and> p \<le> 65535)" "atoi port = Some p"
  shows "redisNotifications_main conn [prog, ip, port] rs = None"
  using assms by (cases "cstring (strncpy 16 ip)") (auto simp: redisNotifications_main_def connectToRedis_def)

lemma redisNotifications_unreachable:
  assumes "0 \<le> p" "p \<le> 65535" "atoi port = Some p" "NUL \<notin> set ip" "length ip < 16" "conn ip p = Some e" "e \<noteq> 0"
  shows "redisNotifications_main conn [prog, ip, port] rs = Some (0, [''Error in redisConnect !!!''])"
  using assms by (simp add: redisNotifications_main_def connectToRedis_def cstring_strncpy)

subsection \<open>Two threads and one reply\<close>

text \<open>
  \<open>test.c\<close>: two threads send their command for ever and print the reply that the global variable \<open>gReply\<close> points to; no reply is freed. A step
  of a thread is the call, which sets \<open>gReply\<close>, or the printing, which reads it; the threads share no lock. A step of the model takes the call to
  be atomic, which is more than the library promises.
\<close>

definition tagged_lines :: "string \<Rightarrow> redisReply \<Rightarrow> string list option" where
  "tagged_lines tag r = (case r of
       REDIS_REPLY_STRING str \<Rightarrow>
         Some [''REPLY'' @ tag @ '' string of lenght '' @ printf_d (int (length (c_str str))) @ '' : '' @ c_str str]
     | REDIS_REPLY_INTEGER i \<Rightarrow> Some [''REPLY'' @ tag @ '' integer : '' @ printf_d i]
     | REDIS_REPLY_STATUS str \<Rightarrow> Some [''REPLY status: '' @ c_str str]
     | REDIS_REPLY_ERROR str \<Rightarrow> Some [''ERROR error: '' @ c_str str]
     | REDIS_REPLY_NIL \<Rightarrow> Some [''REPLY : nil'']
     | REDIS_REPLY_ARRAY es \<Rightarrow> do {
         ss \<leftarrow> element_strs es;
         Some [''REPLY'' @ tag @ '' : ARRAY'', concat (map (\<lambda>str. str @ '' '') ss)] })"

record 'v test_threads =
  redis :: "'v redis_st"
  gReply :: "redisReply option"
  printing :: "bool list"

definition thread_cmd :: "nat \<Rightarrow> string" where
  "thread_cmd t = (if t = 0 then ''get mohit'' else ''keys *'')"

definition thread_tag :: "nat \<Rightarrow> string" where
  "thread_tag t = (if t = 0 then ''1'' else ''2'')"

text \<open>The next step of thread \<open>t\<close>; no state is left when the program exits or uses a null pointer.\<close>

definition thread_step :: "'v redis_lib \<Rightarrow> nat \<Rightarrow> 'v test_threads \<Rightarrow> 'v test_threads option" where
  "thread_step lib t s =
     (if printing s ! t then do {
        r \<leftarrow> gReply s;
        ls \<leftarrow> tagged_lines (thread_tag t) r;
        Some (s\<lparr>redis := (redis s)\<lparr>out := out (redis s) @ ls\<rparr>, printing := (printing s)[t := False]\<rparr>) }
      else (case redisCommand lib (thread_cmd t) [] (redis s) of
              (None, _) \<Rightarrow> None
            | (Some r, v) \<Rightarrow> Some (s\<lparr>redis := v, gReply := Some r, printing := (printing s)[t := True]\<rparr>)))"

fun thread_steps :: "'v redis_lib \<Rightarrow> nat list \<Rightarrow> 'v test_threads \<Rightarrow> 'v test_threads option" where
  "thread_steps lib [] s = Some s"
| "thread_steps lib (t # ts) s = do { s \<leftarrow> thread_step lib t s; thread_steps lib ts s }"

text \<open>The reply that thread 1 prints is that of thread 2 when its call comes in between.\<close>

lemma threads_print_wrong_reply:
  assumes "lib ''get mohit'' [] v = (Some (REDIS_REPLY_STRING x), v)"
    and "lib ''keys *'' [] v = (Some (REDIS_REPLY_ARRAY (map REDIS_REPLY_STRING ks)), v)"
  shows "\<exists>s'. thread_steps lib [0, 1, 0]
       \<lparr>redis = \<lparr>server = v, live_replies = 0, out = []\<rparr>, gReply = None, printing = [False, False]\<rparr> = Some s'
    \<and> out (redis s') = [''REPLY1 : ARRAY'', concat (map (\<lambda>k. c_str k @ '' '') ks)] \<and> live_replies (redis s') = 2"
  using assms
  by (simp add: thread_step_def redisCommand_def thread_cmd_def thread_tag_def tagged_lines_def element_strs_strings comp_def)

text \<open>No step frees a reply: the number of live replies is the number of calls made.\<close>

lemma thread_step_leaks:
  assumes "thread_step lib t s = Some s'"
  shows "live_replies (redis s') = live_replies (redis s) + (if printing s ! t then 0 else 1)"
proof (cases "printing s ! t")
  case True
  with assms show ?thesis by (auto simp: thread_step_def bind_eq_Some_conv)
next
  case False
  obtain r v where "redisCommand lib (thread_cmd t) [] (redis s) = (r, v)" by fastforce
  note r = this
  show ?thesis
  proof (cases r)
    case None
    with assms False r show ?thesis by (simp add: thread_step_def)
  next
    case (Some x)
    with r have "live_replies v = live_replies (redis s) + 1"
      by (cases "lib (thread_cmd t) [] (server (redis s))") (auto simp: redisCommand_def)
    moreover have "redis s' = v" using assms False r Some by (auto simp: thread_step_def)
    ultimately show ?thesis using False by simp
  qed
qed

end
