(* ===== verification/Icap_Clients.thy ===== *)
theory Icap_Clients
  imports C_Text
begin

section \<open>Clients of an ICAP server\<close>

text \<open>
  Models the test clients under \<open>src/src/networking/icap-client-testing\<close>: \<open>formChunkedData\<close> of \<open>respMod_preview.c\<close> on a buffer of the size it
  allocates, the callback and the receiver thread, and \<open>main\<close> of \<open>respMod.c\<close>, \<open>respMod_preview.c\<close>, \<open>my.c\<close> and \<open>optionsReq.c\<close>. The library that the
  programs call is outside the repository: what its functions return is an input, and the state collects the calls made.

  The lemmas show that the chunks are read back by a decoder of chunked bodies and never overrun their buffer, which calls
  each program makes, and what is left allocated.
\<close>

subsection \<open>Error codes\<close>

definition ICAP_ERR_INVALID_PARAMS :: int where "ICAP_ERR_INVALID_PARAMS = - 2001"
definition ICAP_ERR_TOO_MANY_CONNECTIONS :: int where "ICAP_ERR_TOO_MANY_CONNECTIONS = - 2002"
definition ICAP_PROTO_ERR_CHUNK_SIZE_EXCEEDED :: int where "ICAP_PROTO_ERR_CHUNK_SIZE_EXCEEDED = - 3005"

subsection \<open>Chunks\<close>

abbreviation CRLF :: string where
  "CRLF \<equiv> [CHR 0x0D, CHR 0x0A]"

definition ICAP_CHUNK_END :: string where
  "ICAP_CHUNK_END = ''0'' @ CRLF @ CRLF"

text \<open>Writing \<open>data\<close> into a buffer from \<open>offset\<close> on; \<open>None\<close> when it does not fit.\<close>

definition write_at :: "string \<Rightarrow> nat \<Rightarrow> string \<Rightarrow> string option" where
  "write_at buf offset data =
     (if offset + length data \<le> length buf then Some (take offset buf @ data @ drop (offset + length data) buf) else None)"

text \<open>\<open>sprintf\<close> also writes a zero character after its output.\<close>

definition sprintf_at :: "string \<Rightarrow> nat \<Rightarrow> string \<Rightarrow> (string \<times> nat) option" where
  "sprintf_at buf offset str = do { b \<leftarrow> write_at buf offset (str @ [NUL]); Some (b, offset + length str) }"

text \<open>
  The result is the return value, \<open>*chunkedData\<close> and \<open>*chunkLen\<close>; \<open>dst\<close> says whether the pointers to both are there. \<open>buf\<close> is the memory that the first
  argument points to. The source does not test the result of \<open>calloc\<close>, which is taken to succeed here.
\<close>

definition formChunkedData :: "string option \<Rightarrow> int \<Rightarrow> bool \<Rightarrow> (int \<times> (string \<times> nat) option) option" where
  "formChunkedData buf bufLen dst =
     (if \<not> dst then Some (ICAP_ERR_INVALID_PARAMS, None)
      else if 0xFFFF < bufLen then Some (ICAP_PROTO_ERR_CHUNK_SIZE_EXCEEDED, None)
      else if buf = None \<or> bufLen < 1 then Some (0, Some (ICAP_CHUNK_END @ [NUL], length ICAP_CHUNK_END))
      else do {
        src \<leftarrow> buf;
        let n = nat bufLen;
        if length src < n then None
        else do {
          let chunkedData = replicate (4 + 2 + n + 2 + 4) NUL;
          (chunkedData, offset) \<leftarrow> sprintf_at chunkedData 0 (hex_digits n @ CRLF);
          chunkedData \<leftarrow> write_at chunkedData offset (take n src);
          let offset = offset + n;
          (chunkedData, offset) \<leftarrow> sprintf_at chunkedData offset CRLF;
          Some (0, Some (chunkedData, offset)) } })"

subsection \<open>Callback and receiver\<close>

text \<open>The return value and the text printed between the brackets.\<close>

definition handleIcapData :: "string option \<Rightarrow> (int \<times> string option)" where
  "handleIcapData respData = (case respData of None \<Rightarrow> (1, None) | Some d \<Rightarrow> (0, Some (takeWhile (\<lambda>c. c \<noteq> NUL) d)))"

text \<open>
  \<open>icapReceiveData\<close> returns \<open>ret\<close>; the thread frees its argument unless that is an error. The result says whether the argument is still
  allocated and the status code printed.
\<close>

definition receiver :: "int \<Rightarrow> bool \<times> int option" where
  "receiver ret = (if ret < 0 then (True, None) else (False, Some ret))"

subsection \<open>The programs\<close>

datatype modificationType = ICAP_MOD_REQ | ICAP_MOD_RESP

datatype icap_call =
    icapInitContextPool nat
  | icapConnect string nat
  | icapSendOptionsRequest string
  | icapSendHeaders string modificationType "string option" "string option" bool bool int
  | icapSendPreviewAndWait string
  | icapSendData string
  | icapReceiveData bool
  | icapDisconnect
  | icapFreeContextPool

text \<open>
  What the library answers to the \<open>i\<close>-th call, the calls made so far, and the number of allocated \<open>ThreadData\<close>. A step of a program is a call whose negative
  answer ends the program with status 1.
\<close>

record icap_st =
  calls :: "icap_call list"
  thread_data :: nat

type_synonym 'a icap_m = "icap_st \<Rightarrow> (int + 'a) \<times> icap_st"

definition icap_call :: "(nat \<Rightarrow> int) \<Rightarrow> icap_call \<Rightarrow> icap_st \<Rightarrow> int \<times> icap_st" where
  "icap_call ans c s = (ans (length (calls s)), s\<lparr>calls := calls s @ [c]\<rparr>)"

definition checked :: "(nat \<Rightarrow> int) \<Rightarrow> icap_call \<Rightarrow> int icap_m" where
  "checked ans c s = (case icap_call ans c s of (ret, s) \<Rightarrow> if ret < 0 then (Inl 1, s) else (Inr ret, s))"

definition plain_call :: "(nat \<Rightarrow> int) \<Rightarrow> icap_call \<Rightarrow> int icap_m" where
  "plain_call ans c s = (case icap_call ans c s of (ret, s) \<Rightarrow> (Inr ret, s))"

definition bind_icap :: "'a icap_m \<Rightarrow> ('a \<Rightarrow> 'b icap_m) \<Rightarrow> 'b icap_m" where
  "bind_icap m f s = (case m s of (Inl st, s) \<Rightarrow> (Inl st, s) | (Inr x, s) \<Rightarrow> f x s)"

definition start_receiver :: "unit icap_m" where
  "start_receiver s = (Inr (), s\<lparr>thread_data := thread_data s + 1\<rparr>)"

text \<open>
  The thread calls \<open>icapReceiveData\<close> once, at some time between its start and the join; the call is recorded at the join.
\<close>

definition join_receiver :: "(nat \<Rightarrow> int) \<Rightarrow> bool \<Rightarrow> int icap_m" where
  "join_receiver ans withCallback s =
     (case icap_call ans (icapReceiveData withCallback) s of
        (ret, s) \<Rightarrow> (Inr ret, if fst (receiver ret) then s else s\<lparr>thread_data := thread_data s - 1\<rparr>))"

text \<open>The end of every program: an error of the disconnection is only printed.\<close>

definition icap_end :: "(nat \<Rightarrow> int) \<Rightarrow> unit icap_m" where
  "icap_end ans = bind_icap (plain_call ans icapDisconnect) (\<lambda>_.
     bind_icap (checked ans icapFreeContextPool) (\<lambda>_ s. (Inr (), s)))"

definition main_status :: "unit icap_m \<Rightarrow> icap_st \<Rightarrow> int \<times> icap_st" where
  "main_status m s = (case m s of (Inl st, s) \<Rightarrow> (st, s) | (Inr _, s) \<Rightarrow> (0, s))"

definition crlf_lines :: "string list \<Rightarrow> string" where
  "crlf_lines ls = concat (map (\<lambda>l. l @ CRLF) ls)"

definition httpRequestHeaders1 :: string where
  "httpRequestHeaders1 = crlf_lines [''GET /origin-resource HTTP/1.1'', ''Host: www.origin-server.com'',
     ''Accept: text/html, text/plain, image/gif'', ''Accept-Encoding: gzip, compress'', '''']"

definition resp_hdr :: string where
  "resp_hdr = crlf_lines [''HTTP/1.1 200 OK'', ''Date: Mon, 10 Jan 2000 09:52:22 GMT'', ''Server: Apache/1.3.6 (Unix)'',
     ''ETag: '' @ [CHR 0x22] @ ''63840-1ab7-378d415b'' @ [CHR 0x22], ''Content-Type: text/html'', ''Content-Length: 51'', '''']"

definition httpResponseBody1 :: string where
  "httpResponseBody1 = ''d'' @ CRLF @ ''Some Content1'' @ CRLF"

definition httpResponseBody2 :: string where
  "httpResponseBody2 = ''d'' @ CRLF @ ''Some Content2'' @ CRLF"

definition httpResponseBody3 :: string where
  "httpResponseBody3 = ''0'' @ CRLF @ CRLF"

definition respMod_main :: "(nat \<Rightarrow> int) \<Rightarrow> icap_st \<Rightarrow> int \<times> icap_st" where
  "respMod_main ans = main_status (
     bind_icap (checked ans (icapInitContextPool 1)) (\<lambda>_.
     bind_icap (checked ans (icapConnect ''172.19.13.96'' 1344)) (\<lambda>_.
     bind_icap start_receiver (\<lambda>_.
     bind_icap (checked ans (icapSendHeaders ''/'' ICAP_MOD_RESP (Some httpRequestHeaders1) (Some resp_hdr) True True (- 1))) (\<lambda>_.
     bind_icap (checked ans (icapSendData httpResponseBody1)) (\<lambda>_.
     bind_icap (checked ans (icapSendData httpResponseBody2)) (\<lambda>_.
     bind_icap (checked ans (icapSendData httpResponseBody3)) (\<lambda>_.
     bind_icap (join_receiver ans True) (\<lambda>_. icap_end ans)))))))))"

text \<open>\<open>respMod_preview.c\<close> goes on after the preview only when the server answers 100.\<close>

definition preview_request :: string where
  "preview_request = crlf_lines [''GET /origin-resource HTTP/1.1'', ''Host: www.origin-server.com'',
     ''Accept: text/html, text/plain, image/gif'', '''']"

definition preview_response :: string where
  "preview_response = crlf_lines [''HTTP/1.1 200 OK'', ''Server: Apache/1.3.6(Unix)'', ''Content-Type: text/plain'', '''']"

definition formed :: "(int \<times> (string \<times> nat) option) option \<Rightarrow> string icap_m" where
  "formed r s = (case r of
       Some (ret, Some (b, n)) \<Rightarrow> if ret < 0 then (Inl 1, s) else (Inr (take n b), s)
     | _ \<Rightarrow> (Inl 1, s))"

definition respMod_preview_main :: "(nat \<Rightarrow> int) \<Rightarrow> icap_st \<Rightarrow> int \<times> icap_st" where
  "respMod_preview_main ans = main_status (
     bind_icap (checked ans (icapInitContextPool 1)) (\<lambda>_.
     bind_icap (checked ans (icapConnect ''172.19.3.25'' 1344)) (\<lambda>_.
     bind_icap (formed (formChunkedData (Some (replicate 1024 (CHR ''M''))) 1024 True)) (\<lambda>chunk.
     bind_icap (checked ans (icapSendHeaders ''/echo'' ICAP_MOD_RESP (Some preview_request) (Some preview_response) True True 1024)) (\<lambda>_.
     bind_icap (checked ans (icapSendPreviewAndWait chunk)) (\<lambda>ret.
     if ret \<noteq> 100 then (\<lambda>s. (Inl 1, s)) else
     bind_icap start_receiver (\<lambda>_.
     bind_icap (checked ans (icapSendData httpResponseBody1)) (\<lambda>_.
     bind_icap (checked ans (icapSendData httpResponseBody2)) (\<lambda>_.
     bind_icap (checked ans (icapSendData httpResponseBody3)) (\<lambda>_.
     bind_icap (join_receiver ans True) (\<lambda>_. icap_end ans)))))))))))"

definition reqMod_main :: "(nat \<Rightarrow> int) \<Rightarrow> icap_st \<Rightarrow> int \<times> icap_st" where
  "reqMod_main ans = main_status (
     bind_icap (checked ans (icapInitContextPool 1)) (\<lambda>_.
     bind_icap (checked ans (icapConnect ''182.18.161.65'' 1344)) (\<lambda>_.
     bind_icap start_receiver (\<lambda>_.
     bind_icap (checked ans (icapSendHeaders ''/'' ICAP_MOD_REQ (Some httpRequestHeaders1) None False True (- 1))) (\<lambda>_.
     bind_icap (join_receiver ans True) (\<lambda>_. icap_end ans))))))"

definition optionsReq_main :: "(nat \<Rightarrow> int) \<Rightarrow> icap_st \<Rightarrow> int \<times> icap_st" where
  "optionsReq_main ans = main_status (
     bind_icap (checked ans (icapInitContextPool 5)) (\<lambda>_.
     bind_icap (checked ans (icapConnect ''182.18.161.65'' 1344)) (\<lambda>_.
     bind_icap (checked ans (icapSendOptionsRequest ''/RESPMOD'')) (\<lambda>_.
     bind_icap start_receiver (\<lambda>_.
     bind_icap (join_receiver ans False) (\<lambda>_. icap_end ans))))))"

subsection \<open>Chunks can be read back\<close>

text \<open>A decoder of chunked bodies, as the format is specified: a size in hexadecimal digits, the data, and a chunk of size 0 at the end.\<close>

definition xdigit_value :: "char \<Rightarrow> nat option" where
  "xdigit_value c = (let n = of_char c in
     if 48 \<le> n \<and> n \<le> 57 then Some (n - 48) else if 97 \<le> n \<and> n \<le> 102 then Some (n - 87) else None)"

definition xvalue :: "string \<Rightarrow> nat" where
  "xvalue ds = foldl (\<lambda>v c. 16 * v + the (xdigit_value c)) 0 ds"

definition is_xdigit :: "char \<Rightarrow> bool" where
  "is_xdigit c \<longleftrightarrow> xdigit_value c \<noteq> None"

function decode_chunks :: "string \<Rightarrow> string option" where
  "decode_chunks s =
     (let ds = takeWhile is_xdigit s; r = drop (length ds) s; n = xvalue ds; d = drop 2 r in
      if ds = [] \<or> take 2 r \<noteq> CRLF then None
      else if n = 0 then (if d = CRLF then Some [] else None)
      else if length d < n + 2 \<or> take 2 (drop n d) \<noteq> CRLF then None
      else map_option (\<lambda>t. take n d @ t) (decode_chunks (drop (n + 2) d)))"
  by pat_completeness auto

termination decode_chunks
proof (relation "measure length", simp, goal_cases)
  case (1 s ds r n d)
  then have "length d < length s"
    by (cases s) (auto split: if_splits)
  then show ?case by simp
qed

declare decode_chunks.simps [simp del]

lemma hex_digit_props:
  assumes "d < 16"
  shows "xdigit_value (hex_digit d) = Some d"
proof -
  have n: "of_char (hex_digit d) = (if d < 10 then 48 + d else 87 + d)"
    using assms by (simp add: hex_digit_def digit_char_def)
  show ?thesis using assms unfolding xdigit_value_def Let_def n by auto
qed

lemma hex_digits_nonempty [simp]: "hex_digits n \<noteq> []"
  by (subst hex_digits.simps) simp

lemma hex_digits_are: "\<forall>c \<in> set (hex_digits n). is_xdigit c"
  by (induction n rule: hex_digits.induct) (subst hex_digits.simps, auto simp: hex_digit_props is_xdigit_def)

lemma xvalue_hex_digits: "xvalue (hex_digits n) = n"
proof (induction n rule: hex_digits.induct)
  case (1 n)
  show ?case
  proof (cases "n < 16")
    case True
    then show ?thesis by (subst hex_digits.simps) (simp add: xvalue_def hex_digit_props)
  next
    case False
    with 1 have "xvalue (hex_digits (n div 16)) = n div 16" by blast
    with False show ?thesis
      by (subst hex_digits.simps) (simp add: xvalue_def hex_digit_props)
  qed
qed

lemma hex_digits_bounded: "n < 16 ^ d \<Longrightarrow> 0 < d \<Longrightarrow> length (hex_digits n) \<le> d"
proof (induction n arbitrary: d rule: hex_digits.induct)
  case (1 n)
  show ?case
  proof (cases "n < 16")
    case True
    with 1 show ?thesis by (subst hex_digits.simps) simp
  next
    case False
    with 1 obtain e where d: "d = Suc (Suc e)"
      by (cases d; cases "d - 1") auto
    have "n div 16 < 16 ^ Suc e" using 1 d by simp
    with 1 False have "length (hex_digits (n div 16)) \<le> Suc e" by blast
    then show ?thesis using False d by (subst hex_digits.simps) simp
  qed
qed

lemma write_at_fits:
  "offset + length data \<le> length buf \<Longrightarrow> write_at buf offset data = Some (take offset buf @ data @ drop (offset + length data) buf)"
  by (simp add: write_at_def)

text \<open>The allocation is large enough for every length that the function accepts.\<close>

lemma formChunkedData_chunk:
  assumes "1 \<le> n" "n \<le> 0xFFFF" "n \<le> length src"
  shows "\<exists>b. formChunkedData (Some src) (int n) True = Some (0, Some (b, length (hex_digits n) + n + 4))
    \<and> length b = n + 12 \<and> take (length (hex_digits n) + n + 4) b = hex_digits n @ CRLF @ take n src @ CRLF"
proof -
  define h where "h = hex_digits n"
  have h: "length h \<le> 4" using assms hex_digits_bounded [of n 4] by (simp add: h_def)
  define b0 where "b0 = replicate (n + 12) NUL"
  define b1 where "b1 = h @ CRLF @ [NUL] @ drop (length h + 3) b0"
  define b2 where "b2 = h @ CRLF @ take n src @ drop (length h + 2 + n) b1"
  define b3 where "b3 = h @ CRLF @ take n src @ CRLF @ [NUL] @ drop (length h + n + 5) b2"
  have l: "length b0 = n + 12" "length b1 = n + 12" "length b2 = n + 12" "length b3 = n + 12"
    using h assms(3) by (simp_all add: b0_def b1_def b2_def b3_def)
  have 1: "sprintf_at b0 0 (h @ CRLF) = Some (b1, length h + 2)"
    using h l by (simp add: sprintf_at_def write_at_fits b1_def numeral_3_eq_3)
  have t2: "take (Suc (Suc (length h))) b1 = h @ CRLF" by (simp add: b1_def)
  have 2: "write_at b1 (length h + 2) (take n src) = Some b2"
    using h l assms(3) by (simp add: write_at_fits b2_def t2)
  have t3: "take (Suc (Suc (length h + n))) b2 = h @ CRLF @ take n src" using assms(3) by (simp add: b2_def)
  have 3: "sprintf_at b2 (length h + 2 + n) CRLF = Some (b3, length h + n + 4)"
    using h l t3 by (simp add: sprintf_at_def write_at_fits b3_def eval_nat_numeral)
  have "formChunkedData (Some src) (int n) True = Some (0, Some (b3, length h + n + 4))"
    using assms 1 2 3 by (simp add: formChunkedData_def Let_def b0_def h_def add.commute)
  moreover have "take (length h + n + 4) b3 = h @ CRLF @ take n src @ CRLF"
    using assms(3) by (simp add: b3_def eval_nat_numeral)
  ultimately show ?thesis using l by (auto simp: h_def)
qed

text \<open>The bytes that a caller sends for a piece of the body; no piece stands for the end.\<close>

definition chunk_of :: "string \<Rightarrow> string" where
  "chunk_of p = (case formChunkedData (Some p) (int (length p)) True of Some (_, Some (b, n)) \<Rightarrow> take n b | _ \<Rightarrow> [])"

lemma chunk_of_chunk: "p \<noteq> [] \<Longrightarrow> length p \<le> 0xFFFF \<Longrightarrow> chunk_of p = hex_digits (length p) @ CRLF @ p @ CRLF"
  using formChunkedData_chunk [of "length p" p] by (cases p) (auto simp: chunk_of_def simp del: of_nat_Suc)

lemma chunk_of_end: "chunk_of [] = ''0'' @ CRLF @ CRLF"
  by (simp add: chunk_of_def formChunkedData_def ICAP_CHUNK_END_def)

lemma not_xdigit_CR [simp]: "\<not> is_xdigit (CHR 0x0D)"
  by (simp add: is_xdigit_def xdigit_value_def)

lemma decode_chunk:
  assumes "p \<noteq> []"
  shows "decode_chunks (hex_digits (length p) @ CRLF @ p @ CRLF @ r) = map_option (\<lambda>t. p @ t) (decode_chunks r)"
proof -
  let ?s = "hex_digits (length p) @ CRLF @ p @ CRLF @ r"
  have tw: "takeWhile is_xdigit ?s = hex_digits (length p)"
    using hex_digits_are [of "length p"] by (simp add: takeWhile_append)
  show ?thesis
    unfolding decode_chunks.simps [of ?s] tw Let_def using assms by (simp add: xvalue_hex_digits)
qed

lemma decode_chunk_end: "decode_chunks (''0'' @ CRLF @ CRLF) = Some []"
  by (subst decode_chunks.simps) (simp add: is_xdigit_def xdigit_value_def xvalue_def)

text \<open>
  C40: The chunks that \<open>formChunkedData\<close> makes of the pieces of a body, of up to 0xFFFF bytes each, followed by the one it makes of nothing, are a
  chunked body that decodes to the pieces put together. The function returns 0 for each of them, the chunk lies within the buffer it allocated, and nothing
  is written past its end.
\<close>

theorem formChunkedData_round_trip:
  assumes "\<forall>p \<in> set ps. p \<noteq> [] \<and> length p \<le> 0xFFFF"
  shows "(\<forall>p \<in> set ps. \<exists>b n. formChunkedData (Some p) (int (length p)) True = Some (0, Some (b, n)) \<and> n < length b \<and> chunk_of p = take n b)
    \<and> decode_chunks (concat (map chunk_of ps) @ chunk_of []) = Some (concat ps)"
proof
  show "\<forall>p \<in> set ps. \<exists>b n. formChunkedData (Some p) (int (length p)) True = Some (0, Some (b, n)) \<and> n < length b \<and> chunk_of p = take n b"
  proof
    fix p assume "p \<in> set ps"
    then have p: "1 \<le> length p" "length p \<le> 0xFFFF" using assms by (simp_all add: Suc_le_eq)
    moreover have "length (hex_digits (length p)) \<le> 4" using p hex_digits_bounded [of "length p" 4] by simp
    ultimately show "\<exists>b n. formChunkedData (Some p) (int (length p)) True = Some (0, Some (b, n)) \<and> n < length b \<and> chunk_of p = take n b"
      using formChunkedData_chunk [of "length p" p] by (auto simp: chunk_of_def)
  qed
  show "decode_chunks (concat (map chunk_of ps) @ chunk_of []) = Some (concat ps)"
    using assms
  proof (induction ps)
    case Nil
    show ?case by (simp add: chunk_of_end decode_chunk_end [simplified])
  next
    case (Cons p ps)
    then have "chunk_of p = hex_digits (length p) @ CRLF @ p @ CRLF" by (simp add: chunk_of_chunk)
    then have "decode_chunks (concat (map chunk_of (p # ps)) @ chunk_of [])
        = decode_chunks (hex_digits (length p) @ CRLF @ p @ CRLF @ concat (map chunk_of ps) @ chunk_of [])"
      by simp
    also have "\<dots> = map_option (\<lambda>t. p @ t) (decode_chunks (concat (map chunk_of ps) @ chunk_of []))"
      using Cons.prems by (intro decode_chunk) simp
    finally show ?case using Cons by simp
  qed
qed

theorem formChunkedData_round_trip_witness:
  "decode_chunks (concat (map chunk_of [''Some '', ''Content'']) @ chunk_of []) = Some ''Some Content''"
  using formChunkedData_round_trip [of "[''Some '', ''Content'']"] by simp

text \<open>A longer piece is refused, and a missing result pointer too; both leave the result alone.\<close>

lemma formChunkedData_refused:
  "0xFFFF < n \<Longrightarrow> formChunkedData src n True = Some (ICAP_PROTO_ERR_CHUNK_SIZE_EXCEEDED, None)"
  "formChunkedData src n False = Some (ICAP_ERR_INVALID_PARAMS, None)"
  by (simp_all add: formChunkedData_def)

subsection \<open>Runs of the programs\<close>

named_theorems icap_run

lemmas icap_run_defs [icap_run] =
  bind_icap_def checked_def plain_call_def icap_call_def start_receiver_def join_receiver_def icap_end_def main_status_def receiver_def

text \<open>The data sent on a connection, in order.\<close>

definition data_sent :: "icap_call list \<Rightarrow> string" where
  "data_sent cs = concat (map (\<lambda>c. case c of icapSendData d \<Rightarrow> d | _ \<Rightarrow> []) cs)"

text \<open>
  \<open>respMod.c\<close> returns 0 exactly when no checked call failed; it has then sent a complete chunked body, and the argument of the
  receiver is lost exactly when receiving failed.
\<close>

lemma respMod_ok:
  assumes "\<forall>i < 6. 0 \<le> ans i" "0 \<le> ans 8"
  shows "\<exists>s. respMod_main ans \<lparr>calls = [], thread_data = 0\<rparr> = (0, s)
    \<and> decode_chunks (data_sent (calls s)) = Some ''Some Content1Some Content2''
    \<and> thread_data s = (if ans 6 < 0 then 1 else 0) \<and> length (calls s) = 9 \<and> last (calls s) = icapFreeContextPool"
proof -
  have d: "\<not> ans 0 < 0" "\<not> ans (Suc 0) < 0" "\<not> ans 2 < 0" "\<not> ans 3 < 0" "\<not> ans 4 < 0" "\<not> ans 5 < 0" "\<not> ans 8 < 0"
    using assms by (simp_all add: not_less)
  have "decode_chunks (httpResponseBody1 @ httpResponseBody2 @ httpResponseBody3) = Some ''Some Content1Some Content2''"
    by code_simp
  then show ?thesis
    using d by (simp add: respMod_main_def icap_run data_sent_def eval_nat_numeral)
qed

lemma formed_preview:
  "formed (formChunkedData (Some (replicate 1024 (CHR ''M''))) 1024 True) s
   = (Inr (''400'' @ CRLF @ replicate 1024 (CHR ''M'') @ CRLF), s)"
proof -
  have "hex_digits 1024 = ''400''" by code_simp
  with formChunkedData_chunk [of 1024 "replicate 1024 (CHR ''M'')"] show ?thesis
    by (auto simp: formed_def)
qed

text \<open>
  \<open>respMod_preview.c\<close> sends the rest of the body only after the answer 100 to the preview; with any other answer it ends with status 1, whether
  or not that is an error, without disconnecting.
\<close>

lemma respMod_preview_stops:
  assumes "\<forall>i < 3. 0 \<le> ans i" "ans 3 \<noteq> 100"
  shows "respMod_preview_main ans \<lparr>calls = [], thread_data = 0\<rparr> = (1, \<lparr>calls =
    [icapInitContextPool 1, icapConnect ''172.19.3.25'' 1344,
     icapSendHeaders ''/echo'' ICAP_MOD_RESP (Some preview_request) (Some preview_response) True True 1024,
     icapSendPreviewAndWait (''400'' @ CRLF @ replicate 1024 (CHR ''M'') @ CRLF)], thread_data = 0\<rparr>)"
proof -
  have d: "\<not> ans 0 < 0" "\<not> ans (Suc 0) < 0" "\<not> ans (Suc (Suc 0)) < 0" "ans (Suc (Suc (Suc 0))) \<noteq> 100"
    using assms by (simp_all add: not_less eval_nat_numeral)
  then show ?thesis
    by (simp add: respMod_preview_main_def icap_run formed_preview)
qed

lemma respMod_preview_ok:
  assumes "\<forall>i < 7. 0 \<le> ans i" "ans 3 = 100" "0 \<le> ans 9"
  shows "\<exists>s. respMod_preview_main ans \<lparr>calls = [], thread_data = 0\<rparr> = (0, s)
    \<and> data_sent (calls s) = httpResponseBody1 @ httpResponseBody2 @ httpResponseBody3
    \<and> thread_data s = (if ans 7 < 0 then 1 else 0) \<and> last (calls s) = icapFreeContextPool"
proof -
  have d: "\<not> ans 0 < 0" "\<not> ans (Suc 0) < 0" "\<not> ans (Suc (Suc 0)) < 0" "\<not> ans (Suc (Suc (Suc (Suc 0)))) < 0" "\<not> ans (Suc (Suc (Suc (Suc (Suc 0))))) < 0"
    "ans (Suc (Suc (Suc 0))) = 100" "\<not> ans (Suc (Suc (Suc (Suc (Suc (Suc 0)))))) < 0" "\<not> ans (Suc (Suc (Suc (Suc (Suc (Suc (Suc (Suc (Suc 0))))))))) < 0"
    and 7: "7 = Suc (Suc (Suc (Suc (Suc (Suc (Suc 0))))))"
    using assms by (simp_all add: not_less eval_nat_numeral)
  from d show ?thesis
    unfolding 7 by (simp add: respMod_preview_main_def icap_run formed_preview data_sent_def)
qed

text \<open>
  A program that stops at a failed call leaves the argument of a receiver it has started, and never disconnects.
\<close>

lemma reqMod_headers_fail:
  assumes "0 \<le> ans 0" "0 \<le> ans 1" "ans 2 < 0"
  shows "\<exists>s. reqMod_main ans \<lparr>calls = [], thread_data = 0\<rparr> = (1, s) \<and> thread_data s = 1 \<and> icapDisconnect \<notin> set (calls s)"
proof -
  have d: "\<not> ans 0 < 0" "\<not> ans (Suc 0) < 0" "ans (Suc (Suc 0)) < 0"
    using assms by (simp_all add: not_less eval_nat_numeral)
  then show ?thesis by (simp add: reqMod_main_def icap_run)
qed

text \<open>Every program makes its calls in the order of its text: what is recorded is a part of the full sequence from its start.\<close>

lemma optionsReq_ok:
  assumes "\<forall>i < 3. 0 \<le> ans i" "0 \<le> ans 5"
  shows "optionsReq_main ans \<lparr>calls = [], thread_data = 0\<rparr> = (0, \<lparr>calls =
    [icapInitContextPool 5, icapConnect ''182.18.161.65'' 1344, icapSendOptionsRequest ''/RESPMOD'', icapReceiveData False, icapDisconnect,
     icapFreeContextPool], thread_data = (if ans 3 < 0 then 1 else 0)\<rparr>)"
proof -
  have d: "\<not> ans 0 < 0" "\<not> ans (Suc 0) < 0" "\<not> ans (Suc (Suc 0)) < 0" "\<not> ans 5 < 0"
    using assms by (simp_all add: not_less)
  then show ?thesis by (simp add: optionsReq_main_def icap_run eval_nat_numeral)
qed

text \<open>The header of \<open>respMod.c\<close> announces 51 bytes; the chunks carry 26.\<close>

lemma respMod_length_mismatch:
  "map_option length (decode_chunks (httpResponseBody1 @ httpResponseBody2 @ httpResponseBody3)) = Some 26"
  by code_simp

end
