(* ===== verification/Http_Clients.thy ===== *)
theory Http_Clients
  imports Sproxy_Net Proxy_Net
begin

section \<open>HTTP test clients\<close>

text \<open>
  Models the programs under \<open>src/src/networking/http_client_test\<close>: \<open>http_client.c\<close>, which sends its standard input to a server, and \<open>test_resp.c\<close> and
  \<open>test_req.c\<close>, which give their input to a parser. The parser is in a library outside the repository: it is a parameter that takes
  the bytes read so far and the structure it fills in, and gives a result and the structure.

  The lemmas show that everything read is sent, in order, that the connection function is the one of the HTTP proxy and the sending
  function the one of the splicing proxy with another value for success, that the growing buffer is never full, and what a
  response that is never parsed leads to.
\<close>

subsection \<open>Sending the standard input\<close>

definition http_tcp_connect_to_server ::
    "string option \<Rightarrow> int \<Rightarrow> int option \<Rightarrow> 'a os_scheme \<Rightarrow> (int \<times> int option \<times> 'a os_scheme) option" where
  "http_tcp_connect_to_server server_ip server_port local_sock s =
     (if server_ip = None \<or> server_port < 0 \<or> server_port > 65535 \<or> local_sock = None
      then Some (- 1, local_sock, s)
      else do {
        (fd, s) \<leftarrow> sys_newfd s;
        if fd < 0 then Some (- 1, Some fd, s)
        else do {
          (a, s) \<leftarrow> sys_aton s;
          if a = 0 then Some (- 1, Some fd, s)
          else do {
            (ret, s) \<leftarrow> sys_fdcall fd s;
            if ret < 0 then Some (- 1, Some fd, s) else Some (0, Some fd, s) } } })"

function http_send_loop :: "int \<Rightarrow> u8 list \<Rightarrow> nat \<Rightarrow> 'a os_scheme \<Rightarrow> (int \<times> 'a os_scheme) option" where
  "http_send_loop sock buf bytes_sent s =
     (if bytes_sent < length buf then do {
        (ret, s') \<leftarrow> sys_send sock (drop bytes_sent buf) s;
        if ret < 0 then
          (if os_errno s' = EINTR then http_send_loop sock buf bytes_sent s' else Some (- 1, s'))
        else http_send_loop sock buf (bytes_sent + nat ret) s' }
      else Some (0, s))"
  by pat_completeness auto
termination
  by (relation "measure (\<lambda>(sock, buf, n, s). fuel s)") (auto dest: sys_fuel)

declare http_send_loop.simps [simp del]

definition http_tcp_send_data :: "int \<Rightarrow> u8 list option \<Rightarrow> int \<Rightarrow> 'a os_scheme \<Rightarrow> (int \<times> 'a os_scheme) option" where
  "http_tcp_send_data socket buf buf_len s =
     (case buf of NULL \<Rightarrow> Some (- 1, s)
      | Some b \<Rightarrow>
          if buf_len < 0 \<or> socket < 0 then Some (- 1, s)
          else if nat buf_len > length b then None
          else http_send_loop socket (take (nat buf_len) b) 0 s)"

text \<open>The loop of \<open>main\<close>: the buffer has 4 bytes and is used from its start each time; a failed send is only reported.\<close>

definition BUF_SIZE :: nat where "BUF_SIZE = 4"

lemma http_send_loop_fuel: "http_send_loop sock buf n s = Some (r, s') \<Longrightarrow> fuel s' \<le> fuel s"
proof (induction sock buf n s arbitrary: r s' rule: http_send_loop.induct)
  case (1 sock buf n s)
  show ?case
  proof (cases "n < length buf")
    case True
    then obtain i t where i: "sys_send sock (drop n buf) s = Some (i, t)"
      and rest: "(if i < 0 then (if os_errno t = EINTR then http_send_loop sock buf n t else Some (- 1, t))
        else http_send_loop sock buf (n + nat i) t) = Some (r, s')"
      using 1(3) by (subst (asm) http_send_loop.simps) (auto elim!: bind_SomeE)
    have "fuel t < fuel s" using i by (rule sys_fuel(8))
    moreover have "fuel s' \<le> fuel t" using rest 1(1,2) [OF True i refl] by (auto split: if_splits)
    ultimately show ?thesis by simp
  qed (use 1(3) in \<open>subst (asm) http_send_loop.simps; simp\<close>)
qed

lemma http_tcp_send_data_fuel: "http_tcp_send_data sock buf n s = Some (r, s') \<Longrightarrow> fuel s' \<le> fuel s"
  by (auto simp: http_tcp_send_data_def split: option.splits if_splits dest: http_send_loop_fuel)

function http_client_loop :: "int \<Rightarrow> 'a os_scheme \<Rightarrow> (nat \<times> 'a os_scheme) option" where
  "http_client_loop sock s = do {
     (bytes_read, bs, s') \<leftarrow> sys_recv 0 BUF_SIZE s;
     if bytes_read \<le> 0 then Some (0, s')
     else do {
       (ret, s'') \<leftarrow> http_tcp_send_data sock (Some bs) bytes_read s';
       (errors, s''') \<leftarrow> http_client_loop sock s'';
       Some (errors + (if ret < 0 then 1 else 0), s''') } }"
  by pat_completeness auto
termination
  by (relation "measure (\<lambda>(sock, s). fuel s)") (auto dest!: sys_fuel(7) http_tcp_send_data_fuel)

declare http_client_loop.simps [simp del]

text \<open>The result is the exit status and the number of sends that were reported as failed.\<close>

definition http_client_main :: "'a os_scheme \<Rightarrow> (int \<times> nat \<times> 'a os_scheme) option" where
  "http_client_main s = do {
     (ret, sock, s) \<leftarrow> http_tcp_connect_to_server (Some ''172.19.13.25'') 9404 (Some 0) s;
     if ret < 0 then Some (1, 0, s)
     else do {
       fd \<leftarrow> sock;
       (errors, s) \<leftarrow> http_client_loop fd s;
       Some (0, errors, s) } }"

subsection \<open>Parsing the standard input\<close>

text \<open>
  The loop of \<open>test_resp.c\<close>: \<open>tot_size\<close> is the size of the buffer, \<open>data\<close> the bytes in it, \<open>info\<close> the structure that the parser has made. The size is
  an \<open>int\<close> and is doubled when at most 256 bytes are left.
\<close>

function resp_loop ::
  "(u8 list \<Rightarrow> 'i option \<Rightarrow> int \<times> 'i option) \<Rightarrow> nat \<Rightarrow> u8 list \<Rightarrow> 'i option \<Rightarrow> 'a os_scheme \<Rightarrow>
   (nat \<times> u8 list \<times> 'i option \<times> 'a os_scheme) option" where
  "resp_loop parse tot_size data info s = do {
     (bytes_read, bs, s') \<leftarrow> sys_recv 0 (tot_size - length data) s;
     if bytes_read \<le> 0 then Some (tot_size, data, info, s')
     else (let data' = data @ bs; tot' = (if tot_size - length data' \<le> 256 then 2 * tot_size else tot_size) in
       if 2 ^ 31 \<le> tot' then None
       else (let r = parse data' info in
         if fst r < 0 then Some (tot', data', snd r, s')
         else if fst r = 0 \<and> snd r = None then None
         else resp_loop parse tot' data' (snd r) s')) }"
  by pat_completeness auto
termination
  by (relation "measure (\<lambda>(p, t, d, i, s). fuel s)") (auto dest: sys_fuel)

declare resp_loop.simps [simp del]

text \<open>
  After the loop the buffer is printed as a string: the first buffer was cleared, the bytes that \<open>realloc\<close> added were not, so a grown buffer has
  no end that is sure to be found. Then a header is looked up in the structure, which must be there; \<open>lookup\<close> gives the result of the library.
\<close>

definition test_resp_main ::
  "(u8 list \<Rightarrow> 'i option \<Rightarrow> int \<times> 'i option) \<Rightarrow> ('i \<Rightarrow> int \<times> string option) \<Rightarrow> 'a os_scheme \<Rightarrow> (int \<times> string option \<times> 'a os_scheme) option" where
  "test_resp_main parse lookup s = do {
     (tot_size, data, info, s) \<leftarrow> resp_loop parse 1024 [] None s;
     if 1024 < tot_size then None
     else do {
       i \<leftarrow> info;
       if fst (lookup i) < 0 then Some (0, None, s)
       else do { v \<leftarrow> snd (lookup i); Some (0, Some v, s) } } }"

text \<open>\<open>test_req.c\<close> returns after it has parsed the empty request; what follows is never reached.\<close>

definition test_req_main :: "(u8 list \<Rightarrow> 'i option \<Rightarrow> int \<times> 'i option) \<Rightarrow> int \<times> int" where
  "test_req_main parse = (0, fst (parse [] None))"

subsection \<open>The sockets\<close>

lemma http_connect_is_proxy_connect: "http_tcp_connect_to_server ip port sock s = proxy_tcp_connect_to_server ip port sock s"
  by (simp add: http_tcp_connect_to_server_def proxy_tcp_connect_to_server_def Let_def)

lemma http_send_loop_same:
  "n \<le> length buf \<Longrightarrow> http_send_loop sock buf n s
     = map_option (\<lambda>(r, s'). (if r < 0 then r else 0, s')) (tcp_send_data_loop sock buf n s)"
proof (induction sock buf n s rule: http_send_loop.induct)
  case (1 sock buf n s)
  show ?case
  proof (cases "n < length buf")
    case False
    then show ?thesis by (subst http_send_loop.simps, subst tcp_send_data_loop.simps) simp
  next
    case True
    show ?thesis
    proof (cases "sys_send sock (drop n buf) s")
      case None
      then show ?thesis using True by (subst http_send_loop.simps, subst tcp_send_data_loop.simps) simp
    next
      case (Some it)
      then obtain i t where it: "sys_send sock (drop n buf) s = Some (i, t)" by (cases it) simp
      have "n + nat i \<le> length buf" if "\<not> i < 0"
        using sends_send_bound [OF it] that True by simp
      then show ?thesis
        using True it 1(1,2) [OF True it refl] by (subst http_send_loop.simps, subst tcp_send_data_loop.simps) auto
    qed
  qed
qed

text \<open>The function is the one of the splicing proxy, but for the value that stands for success.\<close>

lemma http_send_same:
  "http_tcp_send_data sock buf n s = map_option (\<lambda>(r, s'). (if r < 0 then r else 0, s')) (tcp_send_data sock buf n s)"
  by (auto simp: http_tcp_send_data_def tcp_send_data_def http_send_loop_same split: option.splits)

subsection \<open>What is sent\<close>

lemma http_send_result:
  assumes "http_tcp_send_data sock (Some bs) (int (length bs)) s = Some (r, s')" "0 \<le> sock"
  shows "keeps_io (s\<lparr>sent := sent s'\<rparr>) s'"
    and "r = 0 \<and> sent s' = (sent s)(sock := sent s sock @ bs) \<or>
      r = - 1 \<and> (\<exists>k < length bs. sent s' = (sent s)(sock := sent s sock @ take k bs))"
proof -
  obtain r' where t: "tcp_send_data sock (Some bs) (int (length bs)) s = Some (r', s')" "r = (if r' < 0 then r' else 0)"
    using assms(1) unfolding http_send_same by auto
  then have l: "tcp_send_data_loop sock bs 0 s = Some (r', s')" using assms(2) by (simp add: tcp_send_data_def)
  then have res: "send_result sock bs 0 s r' s'" by (rule send_loop_result) simp
  then obtain d where "sends sock d s s'" by (auto simp: send_result_def)
  then show "keeps_io (s\<lparr>sent := sent s'\<rparr>) s'" by (simp add: keeps_io_def sends_fields)
  show "r = 0 \<and> sent s' = (sent s)(sock := sent s sock @ bs) \<or>
      r = - 1 \<and> (\<exists>k < length bs. sent s' = (sent s)(sock := sent s sock @ take k bs))"
    using res t(2) by (auto simp: send_result_def dest!: sends_fields(5))
qed

text \<open>
  The pieces that the loop reads; each is sent whole, or, when its send fails, up to some byte.
\<close>

lemma http_client_pieces:
  "http_client_loop sock s = Some (errors, s') \<Longrightarrow> 0 \<le> sock \<Longrightarrow>
   \<exists>ps qs. rcvd s' = (rcvd s)(0 := rcvd s 0 @ concat ps) \<and> sent s' = (sent s)(sock := sent s sock @ concat qs) \<and>
     list_all2 (\<lambda>p q. \<exists>k. q = take k p) ps qs \<and> errors = length (filter (\<lambda>(p, q). p \<noteq> q) (zip ps qs)) \<and>
     (\<forall>p \<in> set ps. p \<noteq> [] \<and> length p \<le> 4) \<and> fds s' = fds s \<and> closed s' = closed s"
proof (induction sock s arbitrary: errors s' rule: http_client_loop.induct)
  case (1 sock s)
  obtain n bs t where r: "sys_recv 0 BUF_SIZE s = Some (n, bs, t)"
    and rest: "(if n \<le> 0 then Some (0, t) else do {
       (ret, s'') \<leftarrow> http_tcp_send_data sock (Some bs) n t;
       (errors, s''') \<leftarrow> http_client_loop sock s'';
       Some (errors + (if ret < 0 then 1 else 0), s''') }) = Some (errors, s')"
    using 1(2) by (subst (asm) http_client_loop.simps) (auto elim!: bind_SomeE)
  have t: "sent t = sent s" "fds t = fds s" "closed t = closed s" "rcvd t = (rcvd s)(0 := rcvd s 0 @ bs)" "length bs \<le> 4"
      "n \<le> 0 \<or> n = int (length bs)" "n \<le> 0 \<longleftrightarrow> bs = []"
    using r by (auto elim!: sys_recvE simp: BUF_SIZE_def)
  show ?case
  proof (cases "n \<le> 0")
    case True
    with rest t show ?thesis by (intro exI [of _ "[]"]) simp
  next
    case False
    with rest obtain ret u e where u: "http_tcp_send_data sock (Some bs) n t = Some (ret, u)"
        "http_client_loop sock u = Some (e, s')" "errors = e + (if ret < 0 then 1 else 0)"
      by (auto elim!: bind_SomeE)
    have n: "n = int (length bs)" using False t(6) by simp
    note snt = http_send_result [OF u(1) [unfolded n] 1(3)]
    obtain ps qs where p: "rcvd s' = (rcvd u)(0 := rcvd u 0 @ concat ps)" "sent s' = (sent u)(sock := sent u sock @ concat qs)"
        "list_all2 (\<lambda>p q. \<exists>k. q = take k p) ps qs" "e = length (filter (\<lambda>(p, q). p \<noteq> q) (zip ps qs))"
        "\<forall>p \<in> set ps. p \<noteq> [] \<and> length p \<le> 4" "fds s' = fds u" "closed s' = closed u"
      using 1(1) [OF r refl refl False u(1) refl u(2) 1(3)] by blast
    have k: "rcvd u = rcvd t" "fds u = fds t" "closed u = closed t" using snt(1) by (auto simp: keeps_io_def)
    obtain q where q: "sent u = (sent t)(sock := sent t sock @ q)" "\<exists>k. q = take k bs" "(ret < 0) = (bs \<noteq> q)"
    proof (cases "ret < 0")
      case True
      then obtain k where "k < length bs" "sent u = (sent t)(sock := sent t sock @ take k bs)" using snt(2) by auto
      moreover from this have "bs \<noteq> take k bs" by (metis length_take min.absorb4 nat_neq_iff)
      ultimately show ?thesis using that True by blast
    next
      case False
      then show ?thesis using snt(2) that [of bs] by (metis neg_less_0_iff_less take_all_iff le_refl zero_less_one)
    qed
    show ?thesis
      using p k q t u(3) False
      by (intro exI [of _ "bs # ps"] exI [of _ "q # qs"]) auto
  qed
qed

text \<open>
  When no send fails, \<open>http_client.c\<close> passes on all of its standard input, in order, to the server, and whatever the kernel answers it sends only
  bytes it has read; it closes nothing.
\<close>

lemma http_client_forwards:
  assumes "http_client_loop sock s = Some (errors, s')" "0 \<le> sock"
  shows "\<exists>d. rcvd s' 0 = rcvd s 0 @ d \<and> (errors = 0 \<longrightarrow> sent s' sock = sent s sock @ d) \<and> closed s' = closed s"
proof -
  obtain ps qs where p: "rcvd s' = (rcvd s)(0 := rcvd s 0 @ concat ps)" "sent s' = (sent s)(sock := sent s sock @ concat qs)"
      "list_all2 (\<lambda>p q. \<exists>k. q = take k p) ps qs" "errors = length (filter (\<lambda>(p, q). p \<noteq> q) (zip ps qs))" "closed s' = closed s"
    using http_client_pieces [OF assms] by blast
  have len: "length ps = length qs" using p(3) by (rule list_all2_lengthD)
  have "ps = qs" if "errors = 0"
  proof -
    have "\<forall>x \<in> set (zip ps qs). \<not> (case x of (p, q) \<Rightarrow> p \<noteq> q)"
      using that unfolding p(4) length_0_conv filter_empty_conv .
    then have "list_all2 (=) ps qs" using len by (auto simp: list_all2_iff)
    then show ?thesis by (simp add: list.rel_eq)
  qed
  then show ?thesis using p(1,2,5) by (intro exI [of _ "concat ps"]) simp
qed

subsection \<open>The growing buffer\<close>

text \<open>
  The buffer always has more than 256 free bytes when the loop reads, so a read is never asked for nothing, and it holds
  all the bytes that were read, in order.
\<close>

lemma resp_loop_collects:
  "resp_loop parse tot data info s = Some (tot', data', info', s') \<Longrightarrow> length data + 256 < tot \<Longrightarrow>
   \<exists>d. data' = data @ d \<and> rcvd s' = (rcvd s)(0 := rcvd s 0 @ d) \<and> length data' + 256 < tot' \<and> tot \<le> tot' \<and>
     tot' < max (2 ^ 31) (tot + 1) \<and> sent s' = sent s"
proof (induction parse tot data info s arbitrary: tot' data' info' s' rule: resp_loop.induct)
  case (1 parse tot data info s)
  obtain n bs t where r: "sys_recv 0 (tot - length data) s = Some (n, bs, t)"
    using 1(2) by (subst (asm) resp_loop.simps) (auto elim!: bind_SomeE)
  have t: "rcvd t = (rcvd s)(0 := rcvd s 0 @ bs)" "sent t = sent s" "length bs \<le> tot - length data"
      "n \<le> 0 \<or> n = int (length bs)" "n \<le> 0 \<longrightarrow> bs = []"
    using r by (auto elim!: sys_recvE)
  show ?case
  proof (cases "n \<le> 0")
    case True
    with 1(2) r t 1(3) show ?thesis by (subst (asm) resp_loop.simps) (intro exI [of _ "[]"], auto)
  next
    case False
    define tot1 where "tot1 = (if tot - length (data @ bs) \<le> 256 then 2 * tot else tot)"
    have run: "(if 2 ^ 31 \<le> tot1 then None
        else if fst (parse (data @ bs) info) < 0 then Some (tot1, data @ bs, snd (parse (data @ bs) info), t)
        else if fst (parse (data @ bs) info) = 0 \<and> snd (parse (data @ bs) info) = None then None
        else resp_loop parse tot1 (data @ bs) (snd (parse (data @ bs) info)) t) = Some (tot', data', info', s')"
      using 1(2) unfolding resp_loop.simps [of parse tot data info s] r bind.simps prod.case Let_def if_not_P [OF False] tot1_def .
    have room: "length (data @ bs) + 256 < tot1" "tot \<le> tot1" using t(3) 1(3) by (auto simp: tot1_def)
    have lt: "tot1 < 2 ^ 31" using run by (auto split: if_splits)
    show ?thesis
    proof (cases "fst (parse (data @ bs) info) < 0")
      case True
      with run lt room t show ?thesis by auto
    next
      case ge: False
      with run lt have rl: "resp_loop parse tot1 (data @ bs) (snd (parse (data @ bs) info)) t = Some (tot', data', info', s')"
        and nn: "\<not> (fst (parse (data @ bs) info) = 0 \<and> snd (parse (data @ bs) info) = None)"
        by (auto split: if_splits)
      obtain d where "data' = (data @ bs) @ d" "rcvd s' = (rcvd t)(0 := rcvd t 0 @ d)" "length data' + 256 < tot'"
          "tot1 \<le> tot'" "tot' < max (2 ^ 31) (tot1 + 1)" "sent s' = sent t"
        using 1(1) [OF r refl refl False refl tot1_def _ refl ge nn rl room(1)] lt by fastforce
      then show ?thesis using t room lt by (intro exI [of _ "bs @ d"]) auto
    qed
  qed
qed

text \<open>Without input, and whenever the parser has made no structure, the program uses a null pointer.\<close>

lemma test_resp_no_input:
  assumes "replies s = Data [] # rs"
  shows "test_resp_main parse lookup s = None"
  using assms by (simp add: test_resp_main_def resp_loop.simps sys_recv_def sys_next_def)

end
