(* ===== verification/System_Log.thy ===== *)
theory System_Log
  imports C_Text
begin

unbundle bit_operations_syntax

section \<open>The loggers\<close>

text \<open>
  Models \<open>log.c\<close> of \<open>src/src/networking/himproxy\<close>, of which \<open>proxy_log.c\<close> and \<open>sproxy_log.c\<close> are copies: the connection with the system
  logger, the mask of priorities, and the message, whose format is put together with the place it comes from. The arguments of a message
  are strings and numbers; a conversion that does not match its argument is undefined behaviour and gives \<open>None\<close>.

  The lemmas show which messages are written, that a message that fits is written whole behind its place, and that nothing
  is formatted past the array for the format.
\<close>

datatype log_arg = LStr string | LInt int

text \<open>Formatting with the conversions that the messages of the proxies use.\<close>

fun vformat :: "string \<Rightarrow> log_arg list \<Rightarrow> string option" where
  "vformat [] ap = Some []"
| "vformat (c # cs) ap =
     (if c \<noteq> CHR ''%'' then map_option ((#) c) (vformat cs ap)
      else (case cs of
          [] \<Rightarrow> None
        | k # cs' \<Rightarrow>
            if k = CHR ''%'' then map_option ((#) k) (vformat cs' ap)
            else if k = CHR ''s'' then (case ap of LStr s # ap' \<Rightarrow> map_option ((@) s) (vformat cs' ap') | _ \<Rightarrow> None)
            else if k = CHR ''d'' then (case ap of LInt d # ap' \<Rightarrow> map_option ((@) (printf_d d)) (vformat cs' ap') | _ \<Rightarrow> None)
            else None))"

text \<open>The state of the system logger for this process; the lines are those it passed on, with priority.\<close>

record syslog =
  sl_open :: bool
  sl_ident :: string
  sl_options :: u32
  sl_facility :: u32
  sl_mask :: u32
  sl_lines :: "(nat \<times> string) list"

definition LOG_PID :: u32 where "LOG_PID = 0x01"
definition LOG_NDELAY :: u32 where "LOG_NDELAY = 0x08"
definition LOG_LOCAL1 :: u32 where "LOG_LOCAL1 = push_bit 3 17"

definition LOG_MASK :: "nat \<Rightarrow> u32" where
  "LOG_MASK pri = push_bit pri 1"

definition LOG_UPTO :: "nat \<Rightarrow> u32" where
  "LOG_UPTO pri = push_bit (pri + 1) 1 - 1"

definition openlog :: "string \<Rightarrow> u32 \<Rightarrow> u32 \<Rightarrow> syslog \<Rightarrow> syslog" where
  "openlog ident opts fac s = s\<lparr>sl_open := True, sl_ident := ident, sl_options := opts, sl_facility := fac\<rparr>"

definition vsyslog :: "nat \<Rightarrow> string \<Rightarrow> log_arg list \<Rightarrow> syslog \<Rightarrow> syslog option" where
  "vsyslog pri fmt ap s =
     (if LOG_MASK (pri mod 8) AND sl_mask s = 0 then Some s
      else map_option (\<lambda>str. s\<lparr>sl_lines := sl_lines s @ [(pri, str)]\<rparr>) (vformat fmt ap))"

text \<open>\<open>snprintf\<close> into an array of \<open>n\<close> characters.\<close>

definition snprintf :: "nat \<Rightarrow> string \<Rightarrow> string" where
  "snprintf n str = take (n - 1) str"

subsection \<open>The functions\<close>

definition open_system_logger :: "string \<Rightarrow> nat \<Rightarrow> syslog \<Rightarrow> int \<times> syslog" where
  "open_system_logger log_ident log_level s =
     (0, (openlog log_ident (LOG_PID OR LOG_NDELAY) LOG_LOCAL1 s)\<lparr>sl_mask := LOG_UPTO log_level\<rparr>)"

definition log_place :: "nat \<Rightarrow> string \<Rightarrow> int \<Rightarrow> string \<Rightarrow> string" where
  "log_place thread_id file_name line_number function_name =
     nat_digits thread_id @ '' '' @ file_name @ '':'' @ printf_d line_number @ '' '' @ function_name @ '' > ''"

definition write_log :: "nat \<Rightarrow> string \<Rightarrow> int \<Rightarrow> string \<Rightarrow> nat \<Rightarrow> string \<Rightarrow> log_arg list \<Rightarrow> syslog \<Rightarrow> (int \<times> syslog) option" where
  "write_log thread_id file_name line_number function_name log_priority log_format log_ap s = do {
     let format = snprintf 2048 (log_place thread_id file_name line_number function_name @ log_format);
     s \<leftarrow> vsyslog log_priority format log_ap s;
     Some (0, s) }"

definition close_system_logger :: "syslog \<Rightarrow> int \<times> syslog" where
  "close_system_logger s = (0, s\<lparr>sl_open := False\<rparr>)"

subsection \<open>What is written\<close>

lemma LOG_UPTO_mask: "l < 8 \<Longrightarrow> LOG_UPTO l = mask (Suc l)"
  by (simp add: LOG_UPTO_def mask_eq_exp_minus_1)

lemma mask_passes:
  assumes "l < 8" "p < 8"
  shows "LOG_MASK p AND LOG_UPTO l = 0 \<longleftrightarrow> l < p"
proof -
  have "LOG_MASK p AND LOG_UPTO l = (if p < Suc l then push_bit p 1 else 0)"
  proof (rule bit_eqI)
    fix n assume "possible_bit TYPE(u32) n"
    then show "bit (LOG_MASK p AND LOG_UPTO l) n = bit (if p < Suc l then push_bit p 1 else 0 :: u32) n"
      using assms by (auto simp: LOG_MASK_def LOG_UPTO_mask bit_simps)
  qed
  moreover have "push_bit p 1 \<noteq> (0 :: u32)"
  proof
    assume "push_bit p 1 = (0 :: u32)"
    then have "bit (push_bit p (1 :: u32)) p = bit (0 :: u32) p" by (simp only:)
    then show False using assms(2) by (simp add: bit_exp_iff)
  qed
  ultimately show ?thesis by auto
qed

lemma vformat_prefix: "CHR ''%'' \<notin> set l \<Longrightarrow> vformat (l @ f) ap = map_option ((@) l) (vformat f ap)"
proof (induction l)
  case Nil
  show ?case by (cases "vformat f ap") simp_all
next
  case (Cons c l)
  then show ?case by (cases "vformat f ap") auto
qed

lemma place_no_percent:
  assumes "CHR ''%'' \<notin> set file_name" "CHR ''%'' \<notin> set function_name"
  shows "CHR ''%'' \<notin> set (log_place t file_name n function_name)"
proof -
  have "\<not> c_isdigit (CHR ''%'')" by (simp add: c_isdigit_def)
  then have d: "CHR ''%'' \<notin> set (nat_digits m)" for m using nat_digits_digits [of m] by blast
  then show ?thesis using assms by (simp add: log_place_def printf_d_def)
qed

text \<open>
  After \<open>open_system_logger\<close> with a level, a message that fits is written exactly when its priority is not above the level, whole
  and behind the place it comes from; no other line appears.
\<close>

lemma write_log_writes:
  assumes level: "log_level < 8" "pri < 8" and names: "CHR ''%'' \<notin> set file_name" "CHR ''%'' \<notin> set function_name"
    and fits: "length (log_place t file_name n function_name @ log_format) < 2048"
    and fmt: "vformat log_format ap = Some msg" and s: "s = snd (open_system_logger ident log_level s0)"
  shows "write_log t file_name n function_name pri log_format ap s
    = Some (0, if pri \<le> log_level then s\<lparr>sl_lines := sl_lines s @ [(pri, log_place t file_name n function_name @ msg)]\<rparr> else s)"
proof -
  have m: "sl_mask s = LOG_UPTO log_level" by (simp add: s open_system_logger_def)
  have "snprintf 2048 (log_place t file_name n function_name @ log_format) = log_place t file_name n function_name @ log_format"
    using fits by (simp add: snprintf_def)
  then show ?thesis
    using mask_passes [OF level] fmt vformat_prefix [OF place_no_percent [OF names]] level
    by (auto simp: write_log_def vsyslog_def m)
qed

text \<open>A message below the level is dropped before it is formatted, so its arguments do not matter.\<close>

lemma write_log_masked:
  assumes "log_level < 8" "pri < 8" "log_level < pri" "s = snd (open_system_logger ident log_level s0)"
  shows "write_log t file_name n function_name pri log_format ap s = Some (0, s)"
  using assms mask_passes [of log_level pri] by (simp add: write_log_def vsyslog_def open_system_logger_def)

text \<open>Whatever the lengths, the format stays within its array; what is cut off is the end of the message.\<close>

lemma format_bounded: "length (snprintf 2048 str) < 2048"
  by (simp add: snprintf_def)

text \<open>A format that is cut behind a percent sign ends in an incomplete conversion, which is undefined.\<close>

lemma cut_conversion_undefined:
  assumes "log_level < 8" "pri \<le> log_level" "s = snd (open_system_logger ident log_level s0)"
    and "length l = 2046" "CHR ''%'' \<notin> set l" "log_place t file_name n function_name @ log_format = l @ ''%s'' @ r"
  shows "write_log t file_name n function_name pri log_format ap s = None"
proof -
  have "snprintf 2048 (l @ ''%s'' @ r) = l @ ''%''" using assms(4) by (simp add: snprintf_def)
  moreover have "vformat (l @ ''%'') ap = None" using vformat_prefix [OF assms(5), of "''%''" ap] by simp
  ultimately show ?thesis
    using assms(1-3,6) mask_passes [of log_level pri] by (simp add: write_log_def vsyslog_def open_system_logger_def)
qed

end
