(* ===== verification/Small_Programs.thy ===== *)
theory Small_Programs
  imports C_Text
begin

section \<open>Small programs\<close>

text \<open>
  Models programs under \<open>src/src/other\<close> and \<open>src/src/system\<close> that show one thing each: a signal handler that sees half of an assignment
  (\<open>reentrant/fail.c\<close>), a comparison of a negative number with a size (\<open>bug.c\<close>), an object behind an opaque pointer (\<open>c/opaquepointer\<close>), the output
  of a command (\<open>readShellCommandOutput.c\<close>), a password in a short array (\<open>buffer_overflow.c\<close>), waiting for words with \<open>poll\<close> (\<open>poller/poll.c\<close>), the largest
  block of memory (\<open>maxUsableMem.c\<close>), the byte order (\<open>byteOrder.c\<close> and its copy \<open>endianness.c\<close>), a buffered file (\<open>dumpingNotDoneTillFclose.c\<close>), a mapped
  file (\<open>memoryMap/test.c\<close>), a library loaded at run time (\<open>load_so_runtime\<close>), and the addresses of a host (\<open>showip.c\<close>). What the kernel and the C
  library answer is an input; undefined behaviour gives \<open>None\<close>.
\<close>

subsection \<open>A handler in the middle of an assignment\<close>

text \<open>
  The two words of \<open>data\<close> are stored one after the other; \<open>pc\<close> counts the stores of one round of the loop. The handler prints what it finds.
\<close>

record two_int =
  dat_a :: int
  dat_b :: int

record fail_st =
  fdata :: two_int
  pc :: nat
  printed :: "(int \<times> int) list"

definition fail_start :: "fail_st \<Rightarrow> bool" where
  "fail_start s \<longleftrightarrow> s = \<lparr>fdata = \<lparr>dat_a = 0, dat_b = 0\<rparr>, pc = 0, printed = []\<rparr>"

text \<open>The store that comes next in \<open>data = zeros; data = ones\<close>.\<close>

definition fail_store :: "nat \<Rightarrow> two_int \<Rightarrow> two_int" where
  "fail_store p d =
     (if p = 0 then d\<lparr>dat_a := 0\<rparr> else if p = 1 then d\<lparr>dat_b := 0\<rparr>
      else if p = 2 then d\<lparr>dat_a := 1\<rparr> else d\<lparr>dat_b := 1\<rparr>)"

inductive fail_step :: "fail_st \<Rightarrow> fail_st \<Rightarrow> bool" where
  fail_main: "fail_step s (s\<lparr>fdata := fail_store (pc s) (fdata s), pc := (pc s + 1) mod 4\<rparr>)"
| fail_handler: "fail_step s (s\<lparr>printed := printed s @ [(dat_a (fdata s), dat_b (fdata s))]\<rparr>)"

text \<open>What \<open>data\<close> holds before each store.\<close>

definition fail_inv :: "fail_st \<Rightarrow> bool" where
  "fail_inv s \<longleftrightarrow> pc s < 4 \<and>
     (dat_a (fdata s), dat_b (fdata s)) \<in> (if pc s = 0 then {(1, 1), (0, 0)} else if pc s = 1 then {(0, 1), (0, 0)} else
        if pc s = 2 then {(0, 0)} else {(1, 0)}) \<and>
     set (printed s) \<subseteq> {(0, 0), (0, 1), (1, 0), (1, 1)}"

interpretation fail: inv_system fail_start fail_step fail_inv
proof
  show "fail_inv s" if "fail_start s" for s using that by (simp add: fail_start_def fail_inv_def)
  show "fail_inv t" if "fail_inv s" "fail_step s t" for s t
    using that(2,1)
    by cases (auto simp: fail_inv_def fail_store_def mod_Suc split: if_splits)
qed

text \<open>The handler prints only zeros and ones, but a pair of different ones is possible: the assignment is not atomic.\<close>

lemma fail_prints_bits: "reach fail_start fail_step s \<Longrightarrow> set (printed s) \<subseteq> {0, 1} \<times> {0, 1}"
  using fail.reach_inv [of s] by (auto simp: fail_inv_def)

lemma fail_mainI: "t = s\<lparr>fdata := fail_store (pc s) (fdata s), pc := (pc s + 1) mod 4\<rparr> \<Longrightarrow> fail_step s t"
  using fail_main [of s] by (simp only:)

lemma fail_torn: "\<exists>s. reach fail_start fail_step s \<and> (1, 0) \<in> set (printed s)"
proof -
  let ?s = "\<lambda>d p q. \<lparr>fdata = \<lparr>dat_a = d, dat_b = 0\<rparr>, pc = p, printed = q\<rparr>"
  have "reach fail_start fail_step (?s 0 0 [])" by (rule reach_init) (simp add: fail_start_def)
  then have "reach fail_start fail_step (?s 0 1 [])"
    by (rule reach_step) (rule fail_mainI, simp add: fail_store_def)
  then have "reach fail_start fail_step (?s 0 2 [])"
    by (rule reach_step) (rule fail_mainI, simp add: fail_store_def)
  then have "reach fail_start fail_step (?s 1 3 [])"
    by (rule reach_step) (rule fail_mainI, simp add: fail_store_def)
  then have "reach fail_start fail_step (?s 1 3 [(1, 0)])"
    by (rule reach_step) (use fail_handler [of "?s 1 3 []"] in simp)
  then show ?thesis by (rule_tac x = "?s 1 3 [(1, 0)]" in exI) simp
qed

subsection \<open>A negative number and a size\<close>

text \<open>\<open>i <= sizeof(array)\<close> for an array of 5 integers: \<open>i\<close> is converted to the unsigned type of the size.\<close>

definition bug_compares :: "int \<Rightarrow> bool" where
  "bug_compares i \<longleftrightarrow> (of_int i :: u64) \<le> 20"

definition bug_main :: string where
  "bug_main = (if bug_compares (- 1) then ''TRUE'' else ''FALSE'')"

lemma bug_negative: "- (2 ^ 31) \<le> i \<Longrightarrow> i < 0 \<Longrightarrow> \<not> bug_compares i"
proof -
  assume i: "- (2 ^ 31) \<le> i" "i < 0"
  have "uint (of_int i :: u64) = i mod 2 ^ 64" by (simp add: unsigned_of_int take_bit_eq_mod)
  also have "\<dots> = (i + 2 ^ 64) mod 2 ^ 64" by simp
  also have "\<dots> = i + 2 ^ 64" using i by (intro mod_pos_pos_trivial) auto
  finally have "20 < uint (of_int i :: u64)" using i by simp
  then show ?thesis by (simp add: bug_compares_def word_le_def)
qed

lemma bug_prints_FALSE: "bug_main = ''FALSE''"
  using bug_negative [of "- 1"] by (simp add: bug_main_def)

subsection \<open>An object behind an opaque pointer\<close>

text \<open>A pointer to an object that may be null; the object has one field.\<close>

definition obj_setID :: "int option \<Rightarrow> int \<Rightarrow> int \<times> int option" where
  "obj_setID p n = (case p of None \<Rightarrow> (- 1, None) | Some _ \<Rightarrow> (0, Some n))"

definition obj_getID :: "int option \<Rightarrow> int option \<Rightarrow> int \<times> int option" where
  "obj_getID p dst = (case (p, dst) of (Some n, Some _) \<Rightarrow> (0, Some n) | _ \<Rightarrow> (- 1, dst))"

definition opaque_main :: "bool \<Rightarrow> int \<times> string option" where
  "opaque_main allocated =
     (case obj_setID (if allocated then Some 0 else None) 99 of
        (ret, o1) \<Rightarrow>
          if ret \<noteq> 0 then (1, None)
          else (case obj_getID o1 (Some 0) of
                  (ret, id1) \<Rightarrow> if ret \<noteq> 0 then (1, None) else (0, map_option (\<lambda>n. ''id = '' @ printf_d n) id1)))"

lemma opaque_round_trip: "obj_setID (Some x) n = (0, p) \<Longrightarrow> obj_getID p (Some y) = (0, Some n)"
  by (auto simp: obj_setID_def obj_getID_def)

lemma opaque_main_ok: "opaque_main True = (0, Some ''id = 99'')" "opaque_main False = (1, None)"
  by (simp_all add: opaque_main_def obj_setID_def obj_getID_def) code_simp

subsection \<open>The output of a command\<close>

text \<open>\<open>fgets\<close> into an array of \<open>n\<close> characters: up to \<open>n - 1\<close> characters and not past a newline; the rest of the input remains.\<close>

fun fgets_chars :: "nat \<Rightarrow> string \<Rightarrow> string \<times> string" where
  "fgets_chars 0 inp = ([], inp)"
| "fgets_chars (Suc n) [] = ([], [])"
| "fgets_chars (Suc n) (c # cs) =
     (if c = CHR 0x0A then ([c], cs) else (case fgets_chars n cs of (l, r) \<Rightarrow> (c # l, r)))"

lemma fgets_chars_split: "fgets_chars n inp = (l, r) \<Longrightarrow> inp = l @ r \<and> length l \<le> n"
  by (induction n inp arbitrary: l rule: fgets_chars.induct) (auto split: if_splits prod.splits)

lemma fgets_chars_progress: "fgets_chars (Suc n) (c # cs) = (l, r) \<Longrightarrow> l \<noteq> [] \<and> length r < length (c # cs)"
  using fgets_chars_split [of "Suc n" "c # cs" l r] by (auto split: if_splits prod.splits dest: fgets_chars_split)

text \<open>The loop prints every piece as a string.\<close>

function shell_loop :: "string \<Rightarrow> string" where
  "shell_loop inp = (case inp of [] \<Rightarrow> []
     | c # cs \<Rightarrow> (case fgets_chars 31 inp of (buf, r) \<Rightarrow> takeWhile (\<lambda>c. c \<noteq> NUL) buf @ shell_loop r))"
  by pat_completeness auto
termination
proof (relation "measure length", simp)
  fix inp c cs buf r
  assume "inp = c # cs" "(buf, r) = fgets_chars 31 inp"
  then have "fgets_chars (Suc 30) (c # cs) = (buf, r)" by (metis Suc_numeral semiring_norm(5))
  from fgets_chars_progress [OF this] show "(r, inp) \<in> measure length" using \<open>inp = c # cs\<close> by simp
qed

declare shell_loop.simps [simp del]

definition readShell_main :: "string list \<Rightarrow> (string \<Rightarrow> string option) \<Rightarrow> int \<times> string list" where
  "readShell_main argv popen =
     (if length argv \<noteq> 2 then (1, [''Error in passing arguments!!!''])
      else (case popen (argv ! 1) of
              None \<Rightarrow> (1, [''Command = '' @ argv ! 1])
            | Some output \<Rightarrow> (0, [''Command = '' @ argv ! 1, shell_loop output, ''Done''])))"

text \<open>Output of any length, with lines of any length, is printed unchanged, unless it has a zero character.\<close>

lemma shell_loop_copies: "NUL \<notin> set inp \<Longrightarrow> shell_loop inp = inp"
proof (induction inp rule: shell_loop.induct)
  case (1 inp)
  show ?case
  proof (cases inp)
    case (Cons c cs)
    obtain buf r where f: "fgets_chars 31 inp = (buf, r)" by fastforce
    have s: "inp = buf @ r" using fgets_chars_split [OF f] by simp
    with 1(2) have "NUL \<notin> set buf" "NUL \<notin> set r" by auto
    then have "takeWhile (\<lambda>c. c \<noteq> NUL) buf = buf" by (auto simp: takeWhile_eq_all_conv)
    moreover have "shell_loop inp = takeWhile (\<lambda>c. c \<noteq> NUL) buf @ shell_loop r"
      using f by (subst shell_loop.simps) (simp add: Cons)
    ultimately show ?thesis using 1(1) [OF Cons f [symmetric] \<open>NUL \<notin> set r\<close>] s by simp
  qed (simp add: shell_loop.simps)
qed

subsection \<open>Words and passwords in short arrays\<close>

text \<open>\<open>gets\<close> into an array of 8 characters; a longer line writes past it.\<close>

definition password_main :: "string \<Rightarrow> string list option" where
  "password_main line =
     (if 8 \<le> length line then None
      else Some (if line = ''mohit'' then [''Correct Password'', ''Root privileges given to the user''] else [''Wrong Password'']))"

lemma password_needed:
  "password_main line = Some ls \<Longrightarrow> ''Root privileges given to the user'' \<in> set ls \<longleftrightarrow> line = ''mohit''"
  by (auto simp: password_main_def split: if_splits)

text \<open>
  \<open>poll.c\<close>: an event is a failure, a timeout or a word to read; the array for the word has 10 characters. The loop ends at a timeout and at the word
  \<open>quit\<close>; the result says whether it ended and what it printed.
\<close>

datatype poll_event = Poll_error | Poll_timeout | Poll_word string | Poll_other

fun poll_loop :: "poll_event list \<Rightarrow> (bool \<times> string list) option" where
  "poll_loop [] = Some (False, [])"
| "poll_loop (e # es) = (case e of
       Poll_error \<Rightarrow> map_option (\<lambda>(b, ls). (b, ''poll'' # ls)) (poll_loop es)
     | Poll_timeout \<Rightarrow> Some (True, [''Timeout occurred!''])
     | Poll_other \<Rightarrow> poll_loop es
     | Poll_word w \<Rightarrow>
         if 10 \<le> length w then None
         else if w = ''quit'' then Some (True, [])
         else map_option (\<lambda>(b, ls). (b, (''buf = '' @ w) # ls)) (poll_loop es))"

lemma poll_loop_words:
  assumes "\<forall>w \<in> set ws. length w < 10 \<and> w \<noteq> ''quit''"
  shows "poll_loop (map Poll_word ws @ Poll_word ''quit'' # es) = Some (True, map (\<lambda>w. ''buf = '' @ w) ws)"
  using assms by (induction ws) auto

lemma poll_loop_long_word: "10 \<le> length w \<Longrightarrow> poll_loop (Poll_word w # es) = None"
  by simp

subsection \<open>The largest block of memory\<close>

text \<open>
  \<open>avail n\<close> says whether \<open>calloc\<close> gives \<open>n\<close> bytes. The loop frees a block before it asks for a larger one. It need not end. The
  test of an uninitialised pointer only decides about a message and is left out.
\<close>

definition oneHundredMiB :: nat where "oneHundredMiB = 100 * 1048576"

partial_function (option) max_mem_loop :: "(nat \<Rightarrow> bool) \<Rightarrow> nat \<Rightarrow> nat option" where
  "max_mem_loop avail maxMem =
     (if avail (maxMem + oneHundredMiB) then max_mem_loop avail (maxMem + oneHundredMiB) else Some maxMem)"

definition maxUsableMem_main :: "(nat \<Rightarrow> bool) \<Rightarrow> nat option" where
  "maxUsableMem_main avail = max_mem_loop avail 0"

text \<open>With a limit on the size of a block the program ends and prints the limit, rounded down to a multiple of 100 MiB.\<close>

lemma max_mem_loop_limit:
  "k * oneHundredMiB \<le> limit \<Longrightarrow> max_mem_loop (\<lambda>n. n \<le> limit) (k * oneHundredMiB) = Some (limit div oneHundredMiB * oneHundredMiB)"
proof (induction "limit div oneHundredMiB - k" arbitrary: k)
  case 0
  have pos: "0 < oneHundredMiB" by (simp add: oneHundredMiB_def)
  with 0 have "limit div oneHundredMiB = k"
    by (metis diff_is_0_eq div_le_mono div_mult_self_is_m le_antisym)
  moreover have "\<not> k * oneHundredMiB + oneHundredMiB \<le> limit"
    using calculation pos by (metis add.commute dividend_less_div_times mult.commute not_le)
  ultimately show ?case by (subst max_mem_loop.simps) simp
next
  case (Suc d)
  have pos: "0 < oneHundredMiB" by (simp add: oneHundredMiB_def)
  have "Suc k \<le> limit div oneHundredMiB" using Suc(2) by linarith
  then have le: "Suc k * oneHundredMiB \<le> limit" using less_eq_div_iff_mult_less_eq [OF pos] by blast
  have "d = limit div oneHundredMiB - Suc k" using Suc(2) by linarith
  from Suc(1) [OF this le] le show ?case by (subst max_mem_loop.simps) (simp add: add.commute)
qed

lemma maxUsableMem_limit: "maxUsableMem_main (\<lambda>n. n \<le> limit) = Some (limit div oneHundredMiB * oneHundredMiB)"
  using max_mem_loop_limit [of 0 limit] by (simp add: maxUsableMem_main_def)

subsection \<open>The byte order\<close>

text \<open>The bytes of a \<open>short\<close> in memory on a machine of each byte order, and what the program says about them.\<close>

definition short_bytes :: "bool \<Rightarrow> nat \<Rightarrow> nat list" where
  "short_bytes big s = (if big then [s div 256 mod 256, s mod 256] else [s mod 256, s div 256 mod 256])"

definition byteOrder_main :: "nat list \<Rightarrow> string" where
  "byteOrder_main c =
     (if length c = 2 then
        (if c ! 0 = 1 \<and> c ! 1 = 2 then ''big-endian''
         else if c ! 0 = 2 \<and> c ! 1 = 1 then ''little-endian'' else ''unknown'')
      else ''sizeof(short) = '' @ printf_d (int (length c)))"

lemma byteOrder_right: "byteOrder_main (short_bytes big 0x0102) = (if big then ''big-endian'' else ''little-endian'')"
  by (simp add: byteOrder_main_def short_bytes_def)

subsection \<open>A buffered file\<close>

text \<open>
  A stream with a buffer of \<open>cap\<close> characters in front of its file: a write goes to the buffer and moves what is in it to the file only
  when it does not fit. \<open>None\<close> is the stream of a failed \<open>fopen\<close>.
\<close>

record stream =
  on_disk :: string
  buffer :: string

definition fwrite :: "nat \<Rightarrow> string \<Rightarrow> stream \<Rightarrow> stream" where
  "fwrite cap d s =
     (if length (buffer s) + length d \<le> cap then s\<lparr>buffer := buffer s @ d\<rparr>
      else \<lparr>on_disk = on_disk s @ buffer s @ d, buffer = []\<rparr>)"

definition fclose :: "stream option \<Rightarrow> string option" where
  "fclose p = map_option (\<lambda>s. on_disk s @ buffer s) p"

definition dump_line :: string where
  "dump_line = ''testing'' @ [CHR 0x0D, CHR 0x0A]"

text \<open>The file after each of the three writes, and at the end.\<close>

definition dumping_main :: "nat \<Rightarrow> string option \<Rightarrow> (string list \<times> string) option" where
  "dumping_main cap lua = (case lua of
       None \<Rightarrow> map_option (Pair []) (fclose None)
     | Some old \<Rightarrow>
         (let s0 = \<lparr>on_disk = old, buffer = []\<rparr>; s1 = fwrite cap dump_line s0; s2 = fwrite cap dump_line s1; s3 = fwrite cap dump_line s2
          in map_option (Pair [on_disk s1, on_disk s2, on_disk s3]) (fclose (Some s3))))"

text \<open>Nothing reaches the file before it is closed, as the name of the program says; a file that cannot be opened is closed all the same.\<close>

lemma dumping_not_done: "27 \<le> cap \<Longrightarrow> dumping_main cap (Some old) = Some ([old, old, old], old @ dump_line @ dump_line @ dump_line)"
  by (simp add: dumping_main_def fwrite_def fclose_def dump_line_def)

lemma dumping_no_file: "dumping_main cap None = None"
  by (simp add: dumping_main_def fclose_def)

subsection \<open>A mapped file\<close>

text \<open>
  \<open>memoryMap/test.c\<close> on the bytes of \<open>sample.txt\<close>: the page of the mapping shows them followed by zeros, but there is no page when the file is empty.
  A store changes the file only within its length. The result is the exit status, the characters printed and the file.
\<close>

definition mmap_test_main :: "string option \<Rightarrow> bool \<Rightarrow> (int \<times> string \<times> string option) option" where
  "mmap_test_main content mapped = (case content of
       None \<Rightarrow> Some (1, [], None)
     | Some f \<Rightarrow>
         if \<not> mapped then Some (1, [], Some f)
         else if f = [] then None
         else (let page = take 5 (f @ replicate 5 NUL) in Some (0, page, Some (if 2 < length f then f[2 := CHR ''9''] else f))))"

lemma mmap_test_changes_third:
  assumes "3 \<le> length f"
  shows "\<exists>f'. mmap_test_main (Some f) True = Some (0, take 5 (f @ replicate 5 NUL), Some f') \<and>
    length f' = length f \<and> (\<forall>i < length f. f' ! i = (if i = 2 then CHR ''9'' else f ! i))"
  using assms by (auto simp: mmap_test_main_def nth_list_update)

subsection \<open>A library loaded at run time\<close>

definition do_something :: "string option \<Rightarrow> int \<times> string list" where
  "do_something str = (case str of None \<Rightarrow> (- 1, []) | Some t \<Rightarrow> (0, [''TEST123456'', ''String ['' @ t @ '']'']))"

text \<open>
  One answer per round: the library cannot be opened, the function is missing, or both are there. The message for a missing function asks for the error
  a second time, which by then is a null pointer. The loop goes on for ever otherwise.
\<close>

datatype dl_answer = Dl_no_file | Dl_no_symbol | Dl_ok

fun load_loop :: "dl_answer list \<Rightarrow> (int option \<times> string list) option" where
  "load_loop [] = Some (None, [])"
| "load_loop (a # as) = (case a of
       Dl_no_file \<Rightarrow> Some (Some 1, [''Error in dlopen''])
     | Dl_no_symbol \<Rightarrow> None
     | Dl_ok \<Rightarrow> map_option (\<lambda>(r, ls). (r, snd (do_something (Some ''##### New Way to Say Hurray #####'')) @ ls)) (load_loop as))"

definition load_lib_main :: "string list \<Rightarrow> dl_answer list \<Rightarrow> (int option \<times> string list) option" where
  "load_lib_main argv as = (if length argv \<noteq> 2 then Some (Some 1, [''Invalid arguments to the program !!!'']) else load_loop as)"

lemma load_loop_calls:
  "load_loop (replicate n Dl_ok @ [Dl_no_file])
   = Some (Some 1, concat (replicate n [''TEST123456'', ''String [##### New Way to Say Hurray #####]'']) @ [''Error in dlopen''])"
  by (induction n) (simp_all add: do_something_def)

lemma load_loop_missing_symbol: "load_loop (replicate n Dl_ok @ Dl_no_symbol # as) = None"
  by (induction n) simp_all

subsection \<open>The addresses of a host\<close>

text \<open>\<open>inet_ntop\<close> of a version 4 address; the text of a version 6 address is an answer of the library.\<close>

datatype host_addr = Inet nat nat nat nat | Inet6 string

definition show_addr :: "host_addr \<Rightarrow> string" where
  "show_addr p = (case p of
       Inet a b c d \<Rightarrow> ''IPv4:'' @ nat_digits a @ ''.'' @ nat_digits b @ ''.'' @ nat_digits c @ ''.'' @ nat_digits d
     | Inet6 t \<Rightarrow> ''IPv6:'' @ t)"

text \<open>\<open>Inl\<close> is an error of \<open>getaddrinfo\<close> that is not 0.\<close>

definition showip_main :: "string list \<Rightarrow> (string \<Rightarrow> int + host_addr list) \<Rightarrow> int \<times> string list" where
  "showip_main argv getaddrinfo =
     (if length argv \<noteq> 2 then (1, [''Usage: showip hostname''])
      else (case getaddrinfo (argv ! 1) of
              Inl status \<Rightarrow> (2, [''getaddrinfo''])
            | Inr res \<Rightarrow> (0, (''IP Addresses for '' @ argv ! 1) # map show_addr res)))"

lemma showip_lists_all:
  "getaddrinfo host = Inr res \<Longrightarrow> showip_main [prog, host] getaddrinfo = (0, (''IP Addresses for '' @ host) # map show_addr res)"
  by (simp add: showip_main_def)

text \<open>\<open>dns_lookup.c\<close> prints the canonical name of every result, which \<open>getaddrinfo\<close> leaves null unless it was asked for; an error code is negative, as in the GNU library.\<close>

definition dns_lookup_main :: "string list \<Rightarrow> (string \<Rightarrow> string \<Rightarrow> int + (host_addr \<times> nat \<times> string option) list) \<Rightarrow> (int \<times> string list) option" where
  "dns_lookup_main argv getaddrinfo =
     (if length argv < 3 then Some (1, [''Wrong number of arguments to the program''])
      else (case getaddrinfo (argv ! 1) (argv ! 2) of
              Inl ret \<Rightarrow> Some (0, [''Error in getaddrinfo !!!''])
            | Inr res \<Rightarrow>
                if \<exists>(a, p, canon) \<in> set res. canon = None then None
                else Some (0, map (\<lambda>(a, p, canon). show_addr a @ '' port ['' @ nat_digits p @ '']'' @ the canon) res)))"

lemma dns_lookup_null_name:
  assumes "getaddrinfo host service = Inr res" "\<forall>(a, p, canon) \<in> set res. canon = None" "res \<noteq> []"
  shows "dns_lookup_main [prog, host, service] getaddrinfo = None"
  using assms by (cases res) (auto simp: dns_lookup_main_def)

end
