(* ===== verification/Spec2Isabelle.thy ===== *)
theory Spec2Isabelle
  imports Zigzag Conn_Pool Mem_Pool Shm_Signals Dining Cond_Var Start_Up Mongo_Api Bson_Api
    Epoll_Server Wait_Child Him_Core Unix_Sockets File_Copy Ioctl_Driver Text_Programs Bit_Scan
    Mem_Pool_Test Redis_Clients Icap_Clients Http_Clients System_Log Small_Programs
begin

text \<open>
  \<^bold>\<open>Verification of the programs of the tpt repository\<close>

  The repository is a collection of C libraries and servers, independent of each other at run time, under
  \<open>src/src\<close>. Each is modelled in theories of its own, as functions over an explicit state; they
  share the prelude and the model of the operating system.

  \<^bold>\<open>Shared theories\<close>

  \<^item> \<open>Tpt_Prelude\<close>: names for machine integers and pointers, rules for option results, and the step
    systems (reachable states) with the locales \<open>inv_system\<close> (what holds at the start and is kept
    by every step holds everywhere) and \<open>terminating_system\<close> (a decreasing measure bounds every run).
  \<^item> \<open>Posix\<close>: the process and its system calls. The state carries the answers of the kernel still to
    come, and records open descriptors, their flags, the bytes received and sent and the descriptors closed. Every
    theorem holds for all sequences of answers that it does not restrict.
  \<^item> \<open>C_Text\<close>: the string functions of the C library, with \<open>atoi\<close>, the printing of numbers and \<open>getopt\<close>.

  \<^bold>\<open>Conventions\<close>

  A function returns \<open>None\<close> for undefined behaviour of C (a null or dangling pointer, an access outside an
  object, an overflow of \<open>int\<close>), when it blocks because no answer is left, and when a loop does not end. A theorem that
  something returns says so with \<open>Some\<close>. Loops that wait for the kernel end because each turn
  takes an answer, so the number of answers left is the measure; loops that may run for ever without one
  are partial functions. Errors are the codes of the source. Unsigned numbers are words
  where they can wrap (\<open>Zigzag\<close>, \<open>Mem_Pool\<close>, \<open>System_Programs\<close>); elsewhere integers and naturals, with the tests of the
  source. Libraries whose source is not in the repository (\<open>libbson\<close>, \<open>mongoc\<close>, the HTTP parser, the configuration
  reader) are parameters, with what is relied on as hypotheses; the results of \<open>libevent\<close> and of the work queue, of which the code only looks at success and failure, are inputs like those of the kernel. Logging is left out.

  \<^bold>\<open>Programs\<close>

  \<^item> Connection pool library, \<open>networking/conn_mgr\<close>. \<open>Conn_Queue\<close> (\<open>conn_mgr_queue.c\<close>) is a linked queue on a heap
    and is shown to be a FIFO. \<open>Conn_Conn\<close> (\<open>conn_mgr_conn.c\<close>, \<open>conn_mgr_core.c\<close>) opens connections with a time
    limit; it leaks no descriptor on failure. \<open>Conn_Pool\<close> (\<open>conn_mgr_pool.c\<close>) has the operations and the threads that use
    them as a step relation over the mutex and the condition variable: no connection is in two
    hands, the bound on connections is kept, no wake-up is lost, and destroying releases everything.
  \<^item> Slab allocator, \<open>system/mem_pool\<close>, in \<open>Mem_Pool\<close>, on a memory of 64-bit words: the objects handed out are
    aligned, live and disjoint in every reachable state, the free list is a stack, and
    destroying frees every slab once.
  \<^item> Zigzag encoding, \<open>encoding/zigzag\<close>, in \<open>Zigzag\<close>: decoding inverts encoding for all 64-bit numbers.
  \<^item> Producer and consumer in shared memory, \<open>system/ipc/sharedmemory\<close>, in \<open>Shm_Queue\<close>, and in \<open>Shm_Signals\<close> with processes
    that are interrupted and restarted; dining philosophers,
    \<open>system/diningphilo\<close>, in \<open>Dining\<close>; the condition variable example, \<open>system/threading\<close>, in \<open>Cond_Var\<close>: step systems with
    their safety, absence of deadlock and termination.
  \<^item> Splicing proxy, \<open>networking/splice\<close>. \<open>Sproxy_Net\<close> (\<open>sproxy_net.c\<close>) has the sockets, with send loops that hand over exactly
    the buffer. \<open>Sproxy_Core\<close> (\<open>sproxy_core.c\<close>, \<open>sproxy_splice.c\<close>, \<open>sproxy_main.c\<close>) has the tunnel: bytes pass in order and
    once. The two variants of the proxy differ in how they connect; the locale
    \<open>server_connector\<close> states what they rely on, and what a request closes is proved there once for both.
  \<^item> HTTP proxy, \<open>networking/himproxy/proxy_old\<close>. \<open>Proxy_Config\<close> reads the settings; \<open>Proxy_Child\<close> is the parent
    process with its table of children and its signal handler; \<open>Proxy_Net\<close> has the sockets, compared with those of
    \<open>Sproxy_Net\<close>; \<open>Proxy_Request\<close> receives into a growing buffer, splits it into requests and queues them in a linked
    list on a heap; \<open>Proxy_Poller\<close> registers connections, dispatches their events and starts the
    child; \<open>Proxy_Main\<close> forwards requests and has the main program. The parent's state is
    extended to the child's, and that to the poller's, as the processes inherit it.
  \<^item> The rewrite of the HTTP proxy, \<open>networking/himproxy\<close>. \<open>Him_Net\<close> (\<open>network.c\<close>) has the sockets, compared with
    those of \<open>Proxy_Net\<close>; \<open>Him_Child\<close> (\<open>main.c\<close>, \<open>signal_handler.c\<close>, the parent's part of \<open>core.c\<close>) is the parent process, which
    refines the one of \<open>Proxy_Child\<close>; \<open>Him_Core\<close> (\<open>poller.c\<close>, the rest of \<open>core.c\<close>) is the child with its poller, of which it is
    shown that it never serves a client.
  \<^item> \<open>Start_Up\<close> has the command lines of the HTTP proxy, the splicing proxy and the libevent server, and what they have set up
    when they begin to work.
  \<^item> BSON library, \<open>serialization/bson_api\<close>, in \<open>Bson_Api\<close>: reading returns exactly the documents of a buffer
    in an array that grows and is never overrun (while allocations succeed and the count fits an \<open>int\<close>), a corrupt buffer leaves nothing behind, and
    writing and reading back keeps the elements.
  \<^item> MongoDB library, \<open>mongo_api\<close>, in \<open>Mongo_Api\<close>: the driver is a parameter and its calls are recorded; every operation gives back what it
    took on every path, whatever the driver answers.
  \<^item> Servers: \<open>Epoll_Server\<close> (\<open>system/poller/epoll.c\<close>) and \<open>Event_Server\<close> (\<open>networking/server/server.c\<close>); and
    \<open>Wait_Child\<close> (\<open>system/waitForChild\<close>), a parent that means to restart its children.
  \<^item> Echo servers and their clients under \<open>networking/socket\<close>: \<open>Echo_Tcp\<close> (\<open>tcp/echoserver\<close>) and \<open>Echo_Udp\<close> (\<open>udp/echoserver\<close> and the
    stream server of \<open>unixSock\<close>): what comes in goes back, in order and once; \<open>Unix_Sockets\<close> has the other programs of \<open>unixSock\<close> and runs
    them against each other, the stream client with a server that has no other client.
  \<^item> \<open>File_Copy\<close> (\<open>system/aio\<close>) copies a file with a loop and with a chain of asynchronous reads that name the offset and the place in memory; both
    write the file, whatever pieces the reads deliver.
  \<^item> \<open>Ioctl_Driver\<close> (\<open>system/ioctl\<close>): a character device and the program that uses it.
  \<^item> \<open>Text_Programs\<close>: \<open>miniprintf.c\<close>, \<open>genUniqNumbers.c\<close>, \<open>int2bits.c\<close> and \<open>createDataFile.c\<close> under \<open>other\<close> and \<open>system/getdir\<close>: which
    calls of the formatted output are defined and what they print, and the generator lists all numbers.
  \<^item> \<open>System_Programs\<close>: \<open>other/linkedlist.c\<close>, the programs of \<open>system/memoryMap\<close>, \<open>system/linux_namespace\<close> and \<open>system/ipc/pipe\<close>.
  \<^item> \<open>Bit_Scan\<close>: \<open>other/bitscan.c\<close>, which lists the set bits of a number with \<open>b & -b\<close>.
  \<^item> \<open>Mem_Pool_Test\<close> (\<open>system/mem_pool/argo_test_mem_pool.c\<close>): the tests of the memory pool as its clients, which follow a
    specification that knows only which variable holds which text, and pass.
  \<^item> Clients of libraries outside the repository, whose answers are inputs: \<open>Redis_Clients\<close> (\<open>other/redistest\<close>,
    \<open>other/redisConnectionTest\<close>, \<open>other/redisKeySpaceNotifications\<close>), \<open>Icap_Clients\<close> (\<open>networking/icap-client-testing\<close>), whose chunked
    bodies can be decoded, and \<open>Http_Clients\<close> (\<open>networking/http_client_test\<close>), which uses the socket functions of the proxies.
  \<^item> \<open>System_Log\<close> (\<open>networking/himproxy/log.c\<close> and its copies): which messages reach the system logger, and in which form.
  \<^item> \<open>Small_Programs\<close>: programs under \<open>other\<close> and \<open>system\<close> that show one thing each.

  \<^bold>\<open>Errors of the programs\<close>

  Several theorems state what the code does where it is not what it means to do: a pool whose size wraps to 0 writes outside
  its slab; \<open>conn_mgr_pool_try_pop\<close> never returns without an idle connection; a malformed request makes the HTTP
  proxy loop; its queued requests point into a buffer that the next reception moves; an error event
  frees a connection that still waits in the work queue, and so does the first of two workers for one connection; a failed \<open>fork\<close> makes the signal
  handler signal every process; the handler for \<open>SIGCHLD\<close> disables the restarting it should trigger; the rewritten proxy
  accepts clients and forgets them; a datagram as large as the buffer is written past its end; the linked list program
  uses the list it has freed; the last number of the mapped file is lost; the first two networks get one address; two Redis programs
  overrun the array for their command and one stores empty values; and a signal handler prints half of an assignment.

  \<^bold>\<open>Not modelled\<close>

  Two functions of the rewritten proxy's \<open>core.c\<close> that nothing calls and that do not compile; four ICAP clients that do not
  compile against the header beside them; usage texts; the test programs of the BSON, MongoDB and connection libraries; the
  callbacks of the Redis programs that only print, and the headers and the example of \<open>hiredis\<close>; and the small programs under \<open>other\<close> and \<open>system\<close> that
  print fixed text or one value of a library, or measure allocators that are not in the repository. The threads of the HTTP proxy's work queue are not interleaved with its poller; each
  operation is modelled as it runs alone, and what goes wrong between two of them is stated as the sequence of
  the two.
\<close>

end
